(* ===== verification/Prelude.thy ===== *)
theory Prelude
  imports
    Complex_Main
    "HOL-Library.List_Lexorder"
    "HOL-Library.Char_ord"
    "HOL-Library.Product_Lexorder"
    "HOL-Library.Multiset"
    "HOL-Library.AList"
begin

text \<open>
  What every component of the development shares: the names of the model's types, the
  errors a Python function of the host package can raise, the decimal rendering of
  integers, Python's stable sorts and order-preserving de-duplication, and the generic
  facts about lists, sorts and bounded walks that the component proofs use.

  Strings are lists of characters, ordered lexicographically by code (as Python orders
  the ASCII strings job ids are made of), and pairs are ordered lexicographically (as
  Python orders tuples), so a queue key \<open>(priority, job_id)\<close> is compared by \<open><\<close>.
\<close>

section \<open>Names of the model's types\<close>

type_synonym job_id = string
type_synonym uuid = string
type_synonym seconds = rat
type_synonym queue_key = "int \<times> string"

text \<open>
  The exceptions the modelled functions raise or catch, as values. The ones with a message
  are the host package's own, kept with what they say where the code passes it on;
  \<open>Terminated\<close> is the exception a runner's signal handler raises, and \<open>ProcessExit\<close> is
  \<open>os._exit\<close>, which nothing catches.
\<close>

datatype pyerr =
    RuntimeError
  | ValueError
  | KeyError
  | OSError
  | FileNotFoundError
  | FileExistsError
  | OverflowError
  | IndexError
  | SyncError string
  | MissingOutput string
  | TooManyRecentFiles string
  | PreflightFailed string
  | ProgressError string
  | Terminated int
  | ProcessExit int

type_synonym 'a res = "pyerr + 'a"

named_theorems plan_simps \<open>unfolding rules of the dispatch rule\<close>
named_theorems queue_simps \<open>unfolding rules of the queue's operations on a job's state\<close>
named_theorems disp_simps \<open>unfolding rules of the dispatcher's pass\<close>

section \<open>Decimal rendering and joining\<close>

fun nat_str :: "nat \<Rightarrow> string" where
  "nat_str n =
     (if n < 10 then [char_of (48 + n)] else nat_str (n div 10) @ [char_of (48 + n mod 10)])"

declare nat_str.simps [simp del]

definition int_str :: "int \<Rightarrow> string" where
  "int_str i = (if i < 0 then ''-'' @ nat_str (nat (- i)) else nat_str (nat i))"

text \<open>Python's \<open>sep.join(parts)\<close>.\<close>

fun join :: "string \<Rightarrow> string list \<Rightarrow> string" where
  "join sep [] = []"
| "join sep [x] = x"
| "join sep (x # y # xs) = x @ sep @ join sep (y # xs)"

section \<open>Python's stable sorts and first-occurrence de-duplication\<close>

text \<open>
  \<open>sorted(xs, key=k, reverse=True)\<close> keeps the order of equal elements, so it is the
  stable ascending sort of the reversed list, reversed back.
\<close>

definition sorted_desc :: "('a \<Rightarrow> 'k::linorder) \<Rightarrow> 'a list \<Rightarrow> 'a list" where
  "sorted_desc k xs = rev (sort_key k (rev xs))"

text \<open>\<open>list(dict.fromkeys(xs))\<close>: each element once, where it first occurs.\<close>

definition dedup :: "'a list \<Rightarrow> 'a list" where
  "dedup xs = rev (remdups (rev xs))"

lemma set_sorted_desc [simp]: "set (sorted_desc k xs) = set xs"
  by (simp add: sorted_desc_def)

lemma length_sorted_desc [simp]: "length (sorted_desc k xs) = length xs"
  by (simp add: sorted_desc_def)

lemma distinct_sorted_desc [simp]: "distinct (sorted_desc k xs) = distinct xs"
  by (simp add: sorted_desc_def)

lemma sorted_desc_sorted: "sorted (rev (map k (sorted_desc k xs)))"
  by (simp add: sorted_desc_def rev_map [symmetric])

lemma mset_sorted_desc [simp]: "mset (sorted_desc k xs) = mset xs"
  by (simp add: sorted_desc_def)

lemma sum_list_filter_mset:
  "mset xs = mset ys \<Longrightarrow> sum_list (map f (filter P xs)) = sum_list (map f (filter P ys))"
  for f :: "'a \<Rightarrow> nat"
  by (metis mset_filter mset_map sum_mset_sum_list)

lemma set_dedup [simp]: "set (dedup xs) = set xs"
  by (simp add: dedup_def)

lemma distinct_dedup [simp]: "distinct (dedup xs)"
  by (simp add: dedup_def)

lemma sort_key_bool: "sort_key f xs = filter (\<lambda>x. \<not> f x) xs @ filter f xs"
  for f :: "'a \<Rightarrow> bool"
proof (induction xs)
  case Nil
  then show ?case by simp
next
  case (Cons x xs)
  have low: "insort_key f x (filter (\<lambda>x. \<not> f x) ys @ zs) = x # filter (\<lambda>x. \<not> f x) ys @ zs"
    if "\<not> f x" for ys zs
  proof (cases "filter (\<lambda>x. \<not> f x) ys @ zs")
    case (Cons a list)
    then show ?thesis using that by simp
  qed simp
  have high: "insort_key f x (filter (\<lambda>x. \<not> f x) ys @ filter f zs) =
      filter (\<lambda>x. \<not> f x) ys @ x # filter f zs" if "f x" for ys zs
  proof (induction ys)
    case Nil
    show ?case
    proof (cases "filter f zs")
      case (Cons a list)
      then have "f a" by (metis filter_eq_ConsD)
      with Cons that show ?thesis by simp
    qed simp
  qed (use that in auto)
  show ?case using Cons low high by simp
qed

section \<open>Python's dicts\<close>

text \<open>
  A dict whose order matters is an association list: \<open>d[k] = v\<close> is \<open>AList.update k v d\<close>,
  which keeps the place of a key that is there and appends one that is not. \<open>dict_of\<close> is a
  dict comprehension: a later pair with the same key replaces the value. \<open>setdefault\<close> is
  the method of that name, without its result.
\<close>

definition dict_of :: "('k \<times> 'v) list \<Rightarrow> ('k \<times> 'v) list" where
  "dict_of kvs = foldl (\<lambda>d kv. AList.update (fst kv) (snd kv) d) [] kvs"

definition setdefault :: "'k \<Rightarrow> 'v \<Rightarrow> ('k \<times> 'v) list \<Rightarrow> ('k \<times> 'v) list" where
  "setdefault k v d = (case map_of d k of None \<Rightarrow> d @ [(k, v)] | Some _ \<Rightarrow> d)"

lemma keys_foldl_update:
  "fst ` set (foldl (\<lambda>d kv. AList.update (fst kv) (snd kv) d) d kvs) = fst ` set d \<union> fst ` set kvs"
  by (induction kvs arbitrary: d) (auto simp: dom_update)

lemma keys_dict_of [simp]: "fst ` set (dict_of kvs) = fst ` set kvs"
  by (simp add: dict_of_def keys_foldl_update)

lemma distinct_dict_of [simp]: "distinct (map fst (dict_of kvs))"
proof -
  have "distinct (map fst (foldl (\<lambda>d kv. AList.update (fst kv) (snd kv) d) d kvs))"
    if "distinct (map fst d)" for d
    using that by (induction kvs arbitrary: d) (auto simp: distinct_update)
  then show ?thesis by (simp add: dict_of_def)
qed

lemma foldl_update_distinct:
  "distinct (map fst (d @ kvs)) \<Longrightarrow>
     foldl (\<lambda>d kv. AList.update (fst kv) (snd kv) d) d kvs = d @ kvs"
proof (induction kvs arbitrary: d)
  case (Cons kv kvs)
  have "AList.update k v d = d @ [(k, v)]" if "k \<notin> fst ` set d" for k v
    using that by (induction d) auto
  then have "AList.update (fst kv) (snd kv) d = d @ [kv]" using Cons.prems by simp
  with Cons show ?case by simp
qed simp

lemma dict_of_distinct: "distinct (map fst kvs) \<Longrightarrow> dict_of kvs = kvs"
  using foldl_update_distinct [of "[]"] by (simp add: dict_of_def)

lemma map_of_foldl_update:
  "map_of (foldl (\<lambda>d kv. AList.update (fst kv) (snd kv) d) d kvs) = map_of d ++ map_of (rev kvs)"
  by (induction kvs arbitrary: d) (auto simp: update_conv' map_add_def fun_eq_iff split: option.splits)

lemma map_of_dict_of: "map_of (dict_of kvs) = map_of (rev kvs)"
  by (simp add: dict_of_def map_of_foldl_update)

lemma map_of_setdefault:
  "map_of (setdefault k v d) = (map_of d)(k := Some (case map_of d k of Some w \<Rightarrow> w | None \<Rightarrow> v))"
  by (auto simp: setdefault_def fun_eq_iff map_of_append map_add_def split: option.splits)

lemma keys_setdefault [simp]: "fst ` set (setdefault k v d) = insert k (fst ` set d)"
  by (auto simp: setdefault_def split: option.splits dest: map_of_SomeD intro: rev_image_eqI)

lemma keys_update [simp]: "fst ` set (AList.update k v d) = insert k (fst ` set d)"
  by (simp add: dom_update)

section \<open>Prefixes and filters\<close>

lemma set_take_filter: "x \<in> set (take n (filter P xs)) \<Longrightarrow> x \<in> set xs \<and> P x"
  by (auto dest: in_set_takeD)

lemma take_all_if_short: "length (take n xs) < n \<Longrightarrow> take n xs = xs"
  by simp

lemma distinct_appendI:
  "distinct xs \<Longrightarrow> distinct ys \<Longrightarrow> set xs \<inter> set ys = {} \<Longrightarrow> distinct (xs @ ys)"
  by simp

lemma empty_if_disjoint_superset: "A \<subseteq> U \<Longrightarrow> U \<subseteq> D \<Longrightarrow> A \<inter> D = {} \<Longrightarrow> A = {}"
  by blast

lemmas list_prefix_facts = set_take_filter distinct_take distinct_filter

section \<open>Walks over a list of requests\<close>

text \<open>
  The contract of a rule that serves a list of requests in order from a state: \<open>step\<close>
  answers one request, \<open>run\<close> answers them all, \<open>inv\<close> is what every step keeps,
  \<open>offer\<close> is what the state still has to hand out and \<open>takes\<close> what an answer hands out.
  A step hands out only what was on offer and takes exactly that off the offer. What
  follows, for any such rule: no item is handed out twice, and everything handed out was
  on offer at the start.
\<close>

locale allocator =
  fixes step :: "'r \<Rightarrow> 's \<Rightarrow> 'd \<times> 's"
    and run :: "'r list \<Rightarrow> 's \<Rightarrow> 'd list \<times> 's"
    and inv :: "'s \<Rightarrow> bool"
    and offer :: "'s \<Rightarrow> 'c set"
    and takes :: "'d \<Rightarrow> 'c set"
  assumes run_Nil: "run [] s = ([], s)"
    and run_Cons: "run (r # rs) s = (let (d, s') = step r s; (ds, s'') = run rs s' in (d # ds, s''))"
    and step_inv: "inv s \<Longrightarrow> inv (snd (step r s))"
    and takes_offer: "inv s \<Longrightarrow> takes (fst (step r s)) \<subseteq> offer s"
    and offer_step: "inv s \<Longrightarrow> offer (snd (step r s)) = offer s - takes (fst (step r s))"
begin

lemma run_step:
  "run (r # rs) s =
     (fst (step r s) # fst (run rs (snd (step r s))), snd (run rs (snd (step r s))))"
  by (simp add: run_Cons case_prod_unfold Let_def)

lemma run_append:
  "run (xs @ ys) s =
     (fst (run xs s) @ fst (run ys (snd (run xs s))), snd (run ys (snd (run xs s))))"
  by (induction xs arbitrary: s) (simp_all add: run_Nil run_step)

lemma length_run: "length (fst (run rs s)) = length rs"
  by (induction rs arbitrary: s) (simp_all add: run_Nil run_step)

lemma run_inv: "inv s \<Longrightarrow> inv (snd (run rs s))"
  by (induction rs arbitrary: s) (simp_all add: run_Nil run_step step_inv)

lemma run_nth:
  assumes "i < length rs"
  shows "fst (run rs s) ! i = fst (step (rs ! i) (snd (run (take i rs) s)))"
proof -
  have split: "rs = take i rs @ rs ! i # drop (Suc i) rs"
    using assms by (simp add: id_take_nth_drop)
  have "fst (run (take i rs @ rs ! i # drop (Suc i) rs) s) ! i =
      fst (step (rs ! i) (snd (run (take i rs) s)))"
    using assms by (simp add: run_append run_step nth_append length_run)
  then show ?thesis using split by simp
qed

lemma run_offer:
  "inv s \<Longrightarrow> offer (snd (run rs s)) = offer s - (\<Union>d \<in> set (fst (run rs s)). takes d)"
  by (induction rs arbitrary: s) (auto simp: run_Nil run_step offer_step step_inv)

lemma run_takes_offer:
  assumes "inv s" and "i < length rs"
  shows "takes (fst (run rs s) ! i) \<subseteq> offer (snd (run (take i rs) s))"
  using takes_offer [OF run_inv [OF assms(1)]] assms(2) by (simp add: run_nth)

lemma run_takes_from_start:
  assumes "inv s" and "i < length rs"
  shows "takes (fst (run rs s) ! i) \<subseteq> offer s"
  using run_takes_offer [OF assms] run_offer [OF assms(1), of "take i rs"] by blast

lemma run_takes_disjoint:
  assumes "inv s" and "i < k" and "k < length rs"
  shows "takes (fst (run rs s) ! i) \<inter> takes (fst (run rs s) ! k) = {}"
proof -
  let ?pre = "fst (run (take k rs) s)"
  have "fst (run rs s) = ?pre @ fst (run (drop k rs) (snd (run (take k rs) s)))"
    using run_append [of "take k rs" "drop k rs" s] by simp
  then have "fst (run rs s) ! i = ?pre ! i"
    using assms by (simp add: nth_append length_run)
  moreover have "?pre ! i \<in> set ?pre" using assms by (simp add: length_run)
  ultimately have "offer (snd (run (take k rs) s)) \<inter> takes (fst (run rs s) ! i) = {}"
    using run_offer [OF assms(1), of "take k rs"] by auto
  then show ?thesis using run_takes_offer [OF assms(1,3)] by blast
qed

end

end
