(* ===== verification/Plan.thy ===== *)
theory Plan
  imports Prelude
begin

text \<open>
  The dispatch rule of \<open>src/gpuc/host/plan.py\<close>: what one pass of the dispatcher does with
  each queued job, in queue order. The walk \<open>plan\<close> is a recursion over the requests that
  threads the pool it hands out, the cards held for jobs ahead, the jobs already covered
  by a stop in flight and whether the first stuck job has been passed.

  Card counts are \<open>nat\<close>: \<open>JobSpec.from_dict\<close> refuses a negative \<open>gpus\<close>. \<open>ours\<close>
  and \<open>SteppedOver.short\<close> are \<open>int\<close>, since \<open>shared_visible - theirs\<close> may in principle
  be negative. The callable \<open>Pool.sample\<close> is modelled by the reading it returns
  (\<open>None\<close> when there is no callable): within a pass the dispatcher caches that reading,
  so calling it and looking it up are the same.
\<close>

section \<open>Data\<close>

record request =
  rq_job_id :: job_id
  rq_gpus :: nat
  rq_borrows :: bool
  rq_estimate_s :: "seconds option"
  rq_priority :: int
  rq_fills :: bool

definition rq_key :: "request \<Rightarrow> queue_key" where
  "rq_key r = (rq_priority r, rq_job_id r)"

record preemptable =
  pe_job_id :: job_id
  pe_priority :: int
  pe_gpus :: "uuid list"
  pe_started :: seconds
  pe_owned :: nat
  pe_borrowed :: nat

definition pe_key :: "preemptable \<Rightarrow> queue_key" where
  "pe_key p = (pe_priority p, pe_job_id p)"

definition frees :: "preemptable \<Rightarrow> bool \<Rightarrow> nat" where
  "frees p borrowing = (if borrowing then pe_owned p + pe_borrowed p else pe_owned p)"

record pool =
  owned_free :: "uuid list"
  owned_present :: nat
  shared_visible :: nat
  owned_absent :: "string list"
  shared_absent :: "string list"
  sample :: "(uuid list \<times> nat) option"
  shared :: "uuid set"
  coming :: "uuid list"
  preemptables :: "preemptable list"
  shared_free :: "uuid list option"
  theirs :: nat

datatype decision =
    Assigned job_id "uuid list" "job_id list"
  | Holds job_id nat nat nat "job_id list"
  | SteppedOver job_id int
  | Fails job_id string

fun decision_job :: "decision \<Rightarrow> job_id" where
  "decision_job (Assigned j _ _) = j"
| "decision_job (Holds j _ _ _ _) = j"
| "decision_job (SteppedOver j _) = j"
| "decision_job (Fails j _) = j"

section \<open>The pieces of the rule\<close>

text \<open>
  \<open>enough_to_start\<close>: the loop over the candidates, least important and youngest first,
  with its \<open>break\<close> once enough is freed and its \<open>continue\<close> past a candidate that is
  ahead of the waiting job or frees nothing it can use.
\<close>

fun choose_loop ::
  "queue_key \<Rightarrow> nat \<Rightarrow> bool \<Rightarrow> preemptable list \<Rightarrow> preemptable list \<Rightarrow> nat \<Rightarrow> preemptable list \<times> nat"
  where
  "choose_loop key gap borrowing [] chosen freed = (chosen, freed)"
| "choose_loop key gap borrowing (c # cs) chosen freed =
     (if freed \<ge> gap then (chosen, freed)
      else if pe_key c \<le> key \<or> frees c borrowing = 0
      then choose_loop key gap borrowing cs chosen freed
      else choose_loop key gap borrowing cs (chosen @ [c]) (freed + frees c borrowing))"

definition enough_to_start ::
  "preemptable list \<Rightarrow> queue_key \<Rightarrow> nat \<Rightarrow> bool \<Rightarrow> preemptable list" where
  "enough_to_start candidates key gap borrowing =
     (let (chosen, freed) =
        choose_loop key gap borrowing
          (sorted_desc (\<lambda>c. (pe_priority c, pe_started c)) candidates) [] 0
      in if freed \<ge> gap then chosen else [])"

text \<open>\<open>Pool.borrowable\<close>: the reading is taken at most once and remembered.\<close>

definition borrowable :: "pool \<Rightarrow> uuid list \<times> pool" where
  "borrowable p =
     (case shared_free p of
        Some free \<Rightarrow> (free, p)
      | None \<Rightarrow>
          (let (free, n) = (case sample p of Some reading \<Rightarrow> reading | None \<Rightarrow> ([], 0))
           in (free, p\<lparr>shared_free := Some free, theirs := n\<rparr>)))"

definition capacity_failure ::
  "nat \<Rightarrow> nat \<Rightarrow> nat \<Rightarrow> bool \<Rightarrow> string list \<Rightarrow> string option" where
  "capacity_failure gpus owned shared_n borrows absent =
     (let have_n = owned + (if borrows then shared_n else 0)
      in if gpus \<le> have_n then None
         else
           let have0 = ''host owns '' @ nat_str owned;
               have1 =
                 (if borrows then have0 @ '' and may borrow '' @ nat_str shared_n @ '' shared''
                  else if shared_n \<noteq> 0
                  then have0 @ '' and shares '' @ nat_str shared_n
                    @ '' this job did not ask for (`use_shared: true` would let it)''
                  else have0);
               have2 =
                 (if absent \<noteq> [] \<and> gpus \<le> have_n + length absent
                  then have1 @ '' that nvidia-smi reports ('' @ join '', '' absent
                    @ '' listed but missing)''
                  else have1)
           in Some (''needs '' @ nat_str gpus @ '' GPUs, '' @ have2))"

definition take_cards :: "pool \<Rightarrow> uuid list \<Rightarrow> pool" where
  "take_cards p cards =
     p\<lparr>owned_free := filter (\<lambda>c. c \<notin> set cards) (owned_free p),
       shared_free := map_option (filter (\<lambda>c. c \<notin> set cards)) (shared_free p)\<rparr>"

definition open_to_it :: "(uuid \<rightharpoonup> job_id) \<Rightarrow> job_id set \<Rightarrow> uuid \<Rightarrow> bool" where
  "open_to_it held covered c =
     (case held c of None \<Rightarrow> True | Some holder \<Rightarrow> holder \<notin> covered)"

definition holders_of :: "(uuid \<rightharpoonup> job_id) \<Rightarrow> uuid list \<Rightarrow> job_id list" where
  "holders_of held cards = dedup (List.map_filter held cards)"

lemma set_holders_of: "h \<in> set (holders_of held cards) \<longleftrightarrow> (\<exists>c \<in> set cards. held c = Some h)"
  by (induction cards) (auto simp: holders_of_def List.map_filter_simps split: option.splits)

definition fill ::
  "request \<Rightarrow> pool \<Rightarrow> (uuid \<rightharpoonup> job_id) \<Rightarrow> job_id set \<Rightarrow> (uuid list \<times> job_id list) option \<times> pool" where
  "fill r p held covered =
     (let owned = sort_key (\<lambda>c. held c \<noteq> None) (filter (open_to_it held covered) (owned_free p));
          (shared_cards, p') =
            (if rq_borrows r
             then (let (bs, p1) = borrowable p
                   in (sort_key (\<lambda>c. held c \<noteq> None) (filter (open_to_it held covered) bs), p1))
             else ([], p));
          cards = take (rq_gpus r) (owned @ shared_cards)
      in if length cards < rq_gpus r then (None, p')
         else (Some (cards, holders_of held cards), p'))"

section \<open>The walk\<close>

record walk =
  wk_pool :: pool
  wk_held :: "uuid \<rightharpoonup> job_id"
  wk_covered :: "job_id set"
  wk_stuck :: bool

text \<open>The free cards a request could take now: unheld owned ones, then borrowed ones.\<close>

definition free_for :: "request \<Rightarrow> pool \<Rightarrow> (uuid \<rightharpoonup> job_id) \<Rightarrow> uuid list \<times> nat \<times> pool" where
  "free_for r p held =
     (let want = rq_gpus r;
          mine = take want (filter (\<lambda>c. held c = None) (owned_free p))
      in if length mine < want \<and> rq_borrows r
         then (let (bs, p') = borrowable p
               in (mine @ take (want - length mine) (filter (\<lambda>c. held c = None) bs),
                   length mine, p'))
         else (mine, length mine, p))"

definition coming_for :: "request \<Rightarrow> pool \<Rightarrow> (uuid \<rightharpoonup> job_id) \<Rightarrow> nat \<Rightarrow> uuid list" where
  "coming_for r p held n =
     take n (sort_key (\<lambda>c. c \<in> shared p)
       (filter (\<lambda>c. held c = None \<and> (rq_borrows r \<or> c \<notin> shared p)) (coming p)))"

definition ours :: "request \<Rightarrow> pool \<Rightarrow> int" where
  "ours r p =
     int (owned_present p) + (if rq_borrows r then int (shared_visible p) - int (theirs p) else 0)"

text \<open>The end of the loop body: the request holds what it could take.\<close>

definition hold_cards ::
  "request \<Rightarrow> walk \<Rightarrow> pool \<Rightarrow> uuid list \<Rightarrow> nat \<Rightarrow> uuid list \<Rightarrow> nat \<Rightarrow> decision \<times> walk" where
  "hold_cards r w p free n_owned cs short =
     (let first = (short \<noteq> 0 \<and> \<not> wk_stuck w);
          preempts =
            (if first then enough_to_start (preemptables p) (rq_key r) short (rq_borrows r) else []);
          taken = free @ cs;
          held = (\<lambda>c. if c \<in> set taken then Some (rq_job_id r) else wk_held w c);
          covered =
            (if short = 0 \<or> preempts \<noteq> [] then insert (rq_job_id r) (wk_covered w)
             else wk_covered w);
          n = n_owned + length (filter (\<lambda>c. c \<notin> shared p) cs)
      in (Holds (rq_job_id r) n (length taken - n) short (map pe_job_id preempts),
          w\<lparr>wk_pool := p, wk_held := held, wk_covered := covered,
            wk_stuck := wk_stuck w \<or> first\<rparr>))"

definition request_failure :: "request \<Rightarrow> pool \<Rightarrow> string option" where
  "request_failure r p =
     capacity_failure (rq_gpus r) (owned_present p) (shared_visible p) (rq_borrows r)
       (owned_absent p @ (if rq_borrows r then shared_absent p else []))"

text \<open>One turn of the loop.\<close>

definition plan_one :: "request \<Rightarrow> walk \<Rightarrow> decision \<times> walk" where
  "plan_one r w =
     (case request_failure r (wk_pool w) of
        Some why \<Rightarrow> (Fails (rq_job_id r) why, w)
      | None \<Rightarrow>
          let want = rq_gpus r;
              (free, n_owned, p) = free_for r (wk_pool w) (wk_held w)
          in if length free = want
             then (Assigned (rq_job_id r) free [], w\<lparr>wk_pool := take_cards p free\<rparr>)
             else
               let cs = coming_for r p (wk_held w) (want - length free);
                   short = want - length free - length cs
               in if int want > ours r p
                  then (SteppedOver (rq_job_id r) (int want - ours r p), w\<lparr>wk_pool := p\<rparr>)
                  else
                    (case (if rq_fills r \<and> short \<noteq> 0
                           then fill r p (wk_held w) (wk_covered w) else (None, p)) of
                       (Some (cards, holders), p') \<Rightarrow>
                         (Assigned (rq_job_id r) cards holders,
                          w\<lparr>wk_pool := take_cards p' cards\<rparr>)
                     | (None, p') \<Rightarrow> hold_cards r w p' free n_owned cs short))"

fun plan_walk :: "request list \<Rightarrow> walk \<Rightarrow> decision list \<times> walk" where
  "plan_walk [] w = ([], w)"
| "plan_walk (r # rs) w =
     (let (d, w') = plan_one r w; (ds, w'') = plan_walk rs w' in (d # ds, w''))"

definition start_walk :: "pool \<Rightarrow> walk" where
  "start_walk p = \<lparr>wk_pool = p, wk_held = Map.empty, wk_covered = {}, wk_stuck = False\<rparr>"

definition plan :: "request list \<Rightarrow> pool \<Rightarrow> decision list" where
  "plan rs p = fst (plan_walk rs (start_walk p))"

section \<open>Facts about the pieces\<close>

subsection \<open>The reading of the shared cards\<close>

text \<open>The shared cards on offer: those the reading found free and nothing has taken yet.\<close>

definition reading :: "pool \<Rightarrow> uuid list" where
  "reading p = fst (borrowable p)"

definition offered :: "pool \<Rightarrow> uuid set" where
  "offered p = set (owned_free p) \<union> set (reading p)"

text \<open>
  Each card is listed once, and a card is owned or shared but not both: what
  \<open>gpus.resolve\<close> guarantees of the lists the dispatcher builds a pool from.
\<close>

definition pool_wf :: "pool \<Rightarrow> bool" where
  "pool_wf p \<longleftrightarrow>
     distinct (owned_free p) \<and> distinct (reading p) \<and> set (owned_free p) \<inter> set (reading p) = {}"

text \<open>The pool once that reading has been taken.\<close>

definition sampled :: "pool \<Rightarrow> pool" where
  "sampled p = snd (borrowable p)"

lemma borrowable_eq [plan_simps]: "borrowable p = (reading p, sampled p)"
  by (simp add: reading_def sampled_def)

lemma sampled_pool [simp]:
  "reading (sampled p) = reading p" "owned_free (sampled p) = owned_free p"
  "shared_free (sampled p) = Some (reading p)" "coming (sampled p) = coming p"
  "shared (sampled p) = shared p" "preemptables (sampled p) = preemptables p"
  "owned_present (sampled p) = owned_present p" "shared_visible (sampled p) = shared_visible p"
  by (auto simp: reading_def sampled_def borrowable_def split: option.splits prod.splits)

lemma reading_sampled: "shared_free p = Some xs \<Longrightarrow> reading p = xs"
  by (simp add: reading_def borrowable_def)

lemma take_cards_pool [simp]:
  "owned_free (take_cards p cs) = filter (\<lambda>c. c \<notin> set cs) (owned_free p)"
  "owned_present (take_cards p cs) = owned_present p"
  "shared_visible (take_cards p cs) = shared_visible p"
  "preemptables (take_cards p cs) = preemptables p"
  by (simp_all add: take_cards_def)

lemma reading_take_cards:
  assumes "shared_free p = None \<Longrightarrow> set cs \<inter> set (reading p) = {}"
  shows "reading (take_cards p cs) = filter (\<lambda>c. c \<notin> set cs) (reading p)"
proof (cases "shared_free p")
  case None
  then have "reading (take_cards p cs) = reading p"
    by (simp add: reading_def borrowable_def take_cards_def split: option.split prod.split)
  moreover have "filter (\<lambda>c. c \<notin> set cs) (reading p) = reading p"
    using assms [OF None] by (auto simp: filter_id_conv)
  ultimately show ?thesis by simp
next
  case (Some xs)
  then show ?thesis by (simp add: reading_def borrowable_def take_cards_def)
qed

lemma take_cards_offer:
  assumes "pool_wf p" and "shared_free p = None \<Longrightarrow> set cs \<subseteq> set (owned_free p)"
  shows "pool_wf (take_cards p cs) \<and> offered (take_cards p cs) = offered p - set cs"
proof -
  have "reading (take_cards p cs) = filter (\<lambda>c. c \<notin> set cs) (reading p)"
    using assms by (intro reading_take_cards) (auto simp: pool_wf_def)
  with assms(1) show ?thesis by (auto simp: pool_wf_def offered_def)
qed

text \<open>The owned cards and, for a borrower, the shared ones the reading left free.\<close>

definition usable :: "request \<Rightarrow> pool \<Rightarrow> uuid set" where
  "usable r p = set (owned_free p) \<union> (if rq_borrows r then set (reading p) else {})"

lemma usable_offered: "usable r p \<subseteq> offered p"
  by (auto simp: usable_def offered_def)

subsection \<open>What a request finds free\<close>

lemma free_for_pool:
  assumes "free_for r p held = (free, n, p')"
  shows "reading p' = reading p" "owned_free p' = owned_free p" "coming p' = coming p"
    "shared p' = shared p" "preemptables p' = preemptables p"
    "owned_present p' = owned_present p" "shared_visible p' = shared_visible p"
    "length free < rq_gpus r \<Longrightarrow> rq_borrows r \<Longrightarrow> shared_free p' = Some (reading p)"
  using assms
  by (auto simp: free_for_def Let_def borrowable_eq split: if_splits)

lemma free_for_cards:
  assumes "free_for r p held = (free, n, p')" and "pool_wf p"
  shows "distinct free" "length free \<le> rq_gpus r" "set free \<subseteq> usable r p - dom held"
    "shared_free p' = None \<Longrightarrow> set free \<subseteq> set (owned_free p)" "n \<le> length free"
  using assms
  by (auto simp: free_for_def Let_def usable_def pool_wf_def borrowable_eq distinct_take
      split: if_splits dest!: set_take_filter)

text \<open>A request left short has taken every unheld card it may use.\<close>

lemma free_for_short:
  assumes "free_for r p held = (free, n, p')" and "length free < rq_gpus r"
  shows "set free = usable r p - dom held"
  using assms
  by (auto simp: free_for_def Let_def usable_def borrowable_eq split: if_splits)

lemma offer_cong:
  assumes "owned_free p' = owned_free p" and "reading p' = reading p"
  shows "pool_wf p' = pool_wf p" "offered p' = offered p" "usable r p' = usable r p"
  using assms by (simp_all add: pool_wf_def offered_def usable_def)

subsection \<open>What a filler is given\<close>

lemma fill_pool:
  assumes "fill r p held covered = (res, p')"
  shows "reading p' = reading p" "owned_free p' = owned_free p" "preemptables p' = preemptables p"
    "owned_present p' = owned_present p" "shared_visible p' = shared_visible p"
    "shared p' = shared p" "coming p' = coming p"
  using assms by (auto simp: fill_def Let_def borrowable_eq split: if_splits)

lemma fill_cards:
  assumes "fill r p held covered = (Some (cards, hs), p')" and "pool_wf p"
  shows "distinct cards" "length cards = rq_gpus r" "set cards \<subseteq> usable r p"
    "\<forall>c \<in> set cards. open_to_it held covered c" "hs = holders_of held cards"
    "shared_free p' = None \<Longrightarrow> set cards \<subseteq> set (owned_free p)"
  using assms
  by (auto simp: fill_def Let_def usable_def pool_wf_def borrowable_eq disjoint_iff
      split: if_splits dest!: in_set_takeD intro!: distinct_take)

section \<open>The cases of one turn of the walk\<close>

text \<open>
  The five ways a turn ends, each with what the code computed on the way. Every fact about
  a turn is a case analysis with this rule.
\<close>

lemma plan_one_cases:
  obtains
    (fails) why where "request_failure r (wk_pool w) = Some why"
      "plan_one r w = (Fails (rq_job_id r) why, w)"
  | (fits) free n p where "request_failure r (wk_pool w) = None"
      "free_for r (wk_pool w) (wk_held w) = (free, n, p)" "length free = rq_gpus r"
      "plan_one r w = (Assigned (rq_job_id r) free [], w\<lparr>wk_pool := take_cards p free\<rparr>)"
  | (stepped) free n p where "request_failure r (wk_pool w) = None"
      "free_for r (wk_pool w) (wk_held w) = (free, n, p)" "length free \<noteq> rq_gpus r"
      "int (rq_gpus r) > ours r p"
      "plan_one r w = (SteppedOver (rq_job_id r) (int (rq_gpus r) - ours r p), w\<lparr>wk_pool := p\<rparr>)"
  | (filled) free n p cards hs p' where "request_failure r (wk_pool w) = None"
      "free_for r (wk_pool w) (wk_held w) = (free, n, p)" "length free \<noteq> rq_gpus r" "rq_fills r"
      "fill r p (wk_held w) (wk_covered w) = (Some (cards, hs), p')"
      "plan_one r w = (Assigned (rq_job_id r) cards hs, w\<lparr>wk_pool := take_cards p' cards\<rparr>)"
  | (held) free n p p' cs short where "request_failure r (wk_pool w) = None"
      "free_for r (wk_pool w) (wk_held w) = (free, n, p)" "length free \<noteq> rq_gpus r"
      "int (rq_gpus r) \<le> ours r p"
      "cs = coming_for r p (wk_held w) (rq_gpus r - length free)"
      "short = rq_gpus r - length free - length cs"
      "p' = p \<or> fill r p (wk_held w) (wk_covered w) = (None, p')"
      "plan_one r w = hold_cards r w p' free n cs short"
proof -
  obtain free n p where ff: "free_for r (wk_pool w) (wk_held w) = (free, n, p)"
    by (cases "free_for r (wk_pool w) (wk_held w)") auto
  let ?cs = "coming_for r p (wk_held w) (rq_gpus r - length free)"
  let ?short = "rq_gpus r - length free - length ?cs"
  obtain f p' where fl: "(if rq_fills r \<and> ?short \<noteq> 0
      then fill r p (wk_held w) (wk_covered w) else (None, p)) = (f, p')"
    by (cases "if rq_fills r \<and> ?short \<noteq> 0
      then fill r p (wk_held w) (wk_covered w) else (None, p)") auto
  show thesis
  proof (cases "request_failure r (wk_pool w)")
    case (Some why)
    then show thesis by (intro fails) (simp_all add: plan_one_def)
  next
    case None
    consider "length free = rq_gpus r" | "length free \<noteq> rq_gpus r" "int (rq_gpus r) > ours r p"
      | "length free \<noteq> rq_gpus r" "int (rq_gpus r) \<le> ours r p" by linarith
    then show thesis
    proof cases
      case 1
      then show thesis using None ff by (intro fits) (simp_all add: plan_one_def)
    next
      case 2
      then show thesis using None ff by (intro stepped) (simp_all add: plan_one_def)
    next
      case 3
      note rf = None
      have no: "(length free = rq_gpus r) = False" "(int (rq_gpus r) > ours r p) = False"
        using 3 by auto
      note step = plan_one_def rf ff fl Let_def prod.case option.case if_False no
      show thesis
      proof (cases f)
        case None
        have "p' = p \<or> fill r p (wk_held w) (wk_covered w) = (None, p')"
          using fl None by (auto split: if_splits)
        moreover have "plan_one r w = hold_cards r w p' free n ?cs ?short"
          by (simp only: step None)
        ultimately show thesis using 3 ff rf by (intro held) (assumption | rule refl)+
      next
        case (Some ch)
        obtain cards hs where ch: "ch = (cards, hs)" by (cases ch) auto
        have "rq_fills r" "fill r p (wk_held w) (wk_covered w) = (Some (cards, hs), p')"
          using fl Some ch by (auto split: if_splits)
        moreover have "plan_one r w =
            (Assigned (rq_job_id r) cards hs, w\<lparr>wk_pool := take_cards p' cards\<rparr>)"
          by (simp only: step Some ch)
        ultimately show thesis using 3 ff rf by (intro filled) assumption+
      qed
    qed
  qed
qed

section \<open>What one turn keeps and takes\<close>

fun decision_cards :: "decision \<Rightarrow> uuid set" where
  "decision_cards (Assigned _ cards _) = set cards"
| "decision_cards _ = {}"

lemma hold_cards_walk [simp]:
  "wk_pool (snd (hold_cards r w p free n cs short)) = p"
  "wk_held (snd (hold_cards r w p free n cs short)) =
     (\<lambda>c. if c \<in> set free \<union> set cs then Some (rq_job_id r) else wk_held w c)"
  "decision_job (fst (hold_cards r w p free n cs short)) = rq_job_id r"
  "decision_cards (fst (hold_cards r w p free n cs short)) = {}"
  "fst (hold_cards r w p free n cs short) \<noteq> Assigned j cards hs"
  by (auto simp: hold_cards_def Let_def)

lemma plan_one_job: "decision_job (fst (plan_one r w)) = rq_job_id r"
  by (cases r w rule: plan_one_cases) simp_all

text \<open>The cards of an assignment, and what taking them does to the offer.\<close>

lemma plan_one_assigned_all:
  assumes "plan_one r w = (Assigned j cards hs, w')" and wf: "pool_wf (wk_pool w)"
  shows "length cards = rq_gpus r \<and> distinct cards \<and> set cards \<subseteq> usable r (wk_pool w) \<and>
    (\<forall>c \<in> set cards. open_to_it (wk_held w) (wk_covered w) c) \<and>
    hs = holders_of (wk_held w) cards \<and>
    (\<not> rq_fills r \<longrightarrow> set cards \<inter> dom (wk_held w) = {})"
proof (cases r w rule: plan_one_cases)
  case (fits free n p)
  then have eq: "cards = free" "hs = []" using assms(1) by auto
  have sub: "set free \<subseteq> usable r (wk_pool w) - dom (wk_held w)" "distinct free"
    using free_for_cards [OF fits(2) wf] by auto
  then have "List.map_filter (wk_held w) free = []"
    by (induction free) (auto simp: List.map_filter_simps split: option.split)
  then have "holders_of (wk_held w) free = []" by (simp add: holders_of_def dedup_def)
  then show ?thesis using eq fits(3) sub by (auto simp: open_to_it_def split: option.split)
next
  case (filled free n p cards' hs' p')
  then have eq: "cards = cards'" "hs = hs'" using assms(1) by auto
  have same: "owned_free p = owned_free (wk_pool w)" "reading p = reading (wk_pool w)"
    using free_for_pool [OF filled(2)] by simp_all
  then have "pool_wf p" using wf offer_cong(1) [OF same] by blast
  from fill_cards [OF filled(5) this] show ?thesis
    using eq filled(4) offer_cong(3) [OF same, of r] by auto
next
  case (held free n p p' cs short)
  then show ?thesis using assms(1) by (metis fst_conv hold_cards_walk(5))
qed (use assms(1) in auto)

lemma plan_one_assigned:
  assumes "plan_one r w = (Assigned j cards hs, w')" and "pool_wf (wk_pool w)"
  shows "length cards = rq_gpus r" "distinct cards" "set cards \<subseteq> usable r (wk_pool w)"
    "\<And>c. c \<in> set cards \<Longrightarrow> open_to_it (wk_held w) (wk_covered w) c"
    "hs = holders_of (wk_held w) cards"
    "\<not> rq_fills r \<Longrightarrow> set cards \<inter> dom (wk_held w) = {}"
  using plan_one_assigned_all [OF assms] by simp_all

lemma plan_one_offer:
  assumes wf: "pool_wf (wk_pool w)"
  shows "pool_wf (wk_pool (snd (plan_one r w))) \<and>
    offered (wk_pool (snd (plan_one r w))) =
      offered (wk_pool w) - decision_cards (fst (plan_one r w))"
proof (cases r w rule: plan_one_cases)
  case (fits free n p)
  note same = offer_cong [OF free_for_pool(2,1) [OF fits(2)]]
  have "shared_free p = None \<Longrightarrow> set free \<subseteq> set (owned_free p)"
    using free_for_cards(4) [OF fits(2) wf] free_for_pool(2) [OF fits(2)] by simp
  then show ?thesis using take_cards_offer [of p free] wf fits(4) same(1,2) by simp
next
  case (filled free n p cards hs p')
  note same = offer_cong [OF free_for_pool(2,1) [OF filled(2)]]
    offer_cong [OF fill_pool(2,1) [OF filled(5)]]
  have "pool_wf p" using wf same(1) by blast
  then have "shared_free p' = None \<Longrightarrow> set cards \<subseteq> set (owned_free p')"
    using fill_cards(6) [OF filled(5)] fill_pool(2) [OF filled(5)] by simp
  then show ?thesis using take_cards_offer [of p' cards] wf filled(6) same by simp
next
  case (stepped free n p)
  then show ?thesis using wf offer_cong(1,2) [OF free_for_pool(2,1) [OF stepped(2)]] by simp
next
  case (held free n p p' cs short)
  have "owned_free p' = owned_free (wk_pool w)" "reading p' = reading (wk_pool w)"
    using free_for_pool(1,2) [OF held(2)] held(7) fill_pool(1,2) by auto
  then show ?thesis using wf held(8) offer_cong(1,2) [of p' "wk_pool w"] by simp
qed (use wf in simp)

interpretation pw: allocator plan_one plan_walk "\<lambda>w. pool_wf (wk_pool w)"
  "\<lambda>w. offered (wk_pool w)" decision_cards
proof
  show "decision_cards (fst (plan_one r w)) \<subseteq> offered (wk_pool w)"
    if "pool_wf (wk_pool w)" for r w
  proof (cases "fst (plan_one r w)")
    case (Assigned j cards hs)
    then have "plan_one r w = (Assigned j cards hs, snd (plan_one r w))"
      by (metis prod.collapse)
    from plan_one_assigned(3) [OF this that] Assigned show ?thesis
      using usable_offered [of r "wk_pool w"] by auto
  qed auto
qed (use plan_one_offer in simp_all)

section \<open>The offer shrinks and the held cards grow\<close>

definition walk_le :: "walk \<Rightarrow> walk \<Rightarrow> bool" where
  "walk_le w' w \<longleftrightarrow> pool_wf (wk_pool w') \<and>
     set (owned_free (wk_pool w')) \<subseteq> set (owned_free (wk_pool w)) \<and>
     set (reading (wk_pool w')) \<subseteq> set (reading (wk_pool w)) \<and>
     dom (wk_held w) \<subseteq> dom (wk_held w') \<and>
     owned_present (wk_pool w') = owned_present (wk_pool w) \<and>
     shared_visible (wk_pool w') = shared_visible (wk_pool w) \<and>
     preemptables (wk_pool w') = preemptables (wk_pool w)"

lemma walk_le_trans: "walk_le w2 w1 \<Longrightarrow> walk_le w1 w0 \<Longrightarrow> walk_le w2 w0"
  unfolding walk_le_def by (elim conjE, intro conjI) (blast | simp)+

lemma take_cards_le:
  assumes "pool_wf p" and "shared_free p = None \<Longrightarrow> set cs \<subseteq> set (owned_free p)"
  shows "set (owned_free (take_cards p cs)) \<subseteq> set (owned_free p) \<and>
    set (reading (take_cards p cs)) \<subseteq> set (reading p)"
proof -
  have "reading (take_cards p cs) = filter (\<lambda>c. c \<notin> set cs) (reading p)"
    using assms by (intro reading_take_cards) (auto simp: pool_wf_def)
  then show ?thesis by auto
qed

lemma plan_one_le:
  assumes wf: "pool_wf (wk_pool w)"
  shows "walk_le (snd (plan_one r w)) w"
proof (cases r w rule: plan_one_cases)
  case (fits free n p)
  note pool = free_for_pool [OF fits(2)]
  have "pool_wf p" using wf offer_cong(1) [OF pool(2,1)] by blast
  moreover have "shared_free p = None \<Longrightarrow> set free \<subseteq> set (owned_free p)"
    using free_for_cards(4) [OF fits(2) wf] pool(2) by simp
  ultimately show ?thesis
    using take_cards_le [of p free] plan_one_offer [OF wf, of r] pool fits(4)
    by (simp add: walk_le_def)
next
  case (filled free n p cards hs p')
  note pool = free_for_pool [OF filled(2)] and pool' = fill_pool [OF filled(5)]
  have "pool_wf p" using wf offer_cong(1) [OF pool(2,1)] by blast
  moreover from this have "pool_wf p'" using offer_cong(1) [OF pool'(2,1)] by blast
  ultimately show ?thesis
    using take_cards_le [of p' cards] plan_one_offer [OF wf, of r] pool pool' filled(6)
      fill_cards(6) [OF filled(5)]
    by (simp add: walk_le_def)
next
  case (stepped free n p)
  then show ?thesis
    using plan_one_offer [OF wf, of r] free_for_pool [OF stepped(2)] by (simp add: walk_le_def)
next
  case (held free n p p' cs short)
  have "owned_free p' = owned_free (wk_pool w)" "reading p' = reading (wk_pool w)"
    "owned_present p' = owned_present (wk_pool w)" "shared_visible p' = shared_visible (wk_pool w)"
    "preemptables p' = preemptables (wk_pool w)"
    using free_for_pool [OF held(2)] held(7) fill_pool by auto
  then show ?thesis using plan_one_offer [OF wf, of r] held(8) by (auto simp: walk_le_def)
qed (use wf in \<open>simp add: walk_le_def\<close>)

lemma plan_walk_le: "pool_wf (wk_pool w) \<Longrightarrow> walk_le (snd (plan_walk rs w)) w"
proof (induction rs arbitrary: w)
  case Nil
  then show ?case by (simp add: walk_le_def)
next
  case (Cons r rs)
  have "walk_le (snd (plan_one r w)) w" by (rule plan_one_le [OF Cons.prems])
  moreover from this have "walk_le (snd (plan_walk rs (snd (plan_one r w)))) (snd (plan_one r w))"
    by (intro Cons.IH) (simp add: walk_le_def)
  ultimately show ?case using walk_le_trans by (simp only: pw.run_step snd_conv)
qed

text \<open>The state of the walk when it reaches the request at index \<open>i\<close>.\<close>

definition walk_at :: "request list \<Rightarrow> pool \<Rightarrow> nat \<Rightarrow> walk" where
  "walk_at rs p i = snd (plan_walk (take i rs) (start_walk p))"

lemma start_walk_pool [simp]:
  "wk_pool (start_walk p) = p" "wk_held (start_walk p) = Map.empty"
  "wk_covered (start_walk p) = {}" "wk_stuck (start_walk p) = False"
  by (simp_all add: start_walk_def)

lemma plan_nth: "i < length rs \<Longrightarrow> plan rs p ! i = fst (plan_one (rs ! i) (walk_at rs p i))"
  by (simp add: plan_def walk_at_def pw.run_nth)

lemma length_plan [simp]: "length (plan rs p) = length rs"
  by (simp add: plan_def pw.length_run)

lemma walk_at_le: "pool_wf p \<Longrightarrow> walk_le (walk_at rs p i) (start_walk p)"
  unfolding walk_at_def by (rule plan_walk_le) simp

lemma walk_at_Suc:
  assumes "i < length rs"
  shows "walk_at rs p (Suc i) = snd (plan_one (rs ! i) (walk_at rs p i))"
  using assms by (simp add: walk_at_def take_Suc_conv_app_nth pw.run_append case_prod_unfold Let_def)

lemma walk_at_mono:
  assumes "pool_wf p" and "i \<le> k"
  shows "walk_le (walk_at rs p k) (walk_at rs p i)"
proof -
  have "take k rs = take i rs @ drop i (take k rs)"
    using assms(2) by (metis append_take_drop_id min.absorb1 take_take)
  then have "walk_at rs p k = snd (plan_walk (drop i (take k rs)) (walk_at rs p i))"
    by (simp add: walk_at_def pw.run_append) (metis pw.run_append snd_conv)
  moreover have "pool_wf (wk_pool (walk_at rs p i))"
    using walk_at_le [OF assms(1)] by (simp add: walk_le_def)
  ultimately show ?thesis using plan_walk_le by simp
qed

lemma plan_assigned_at:
  assumes "i < length rs" and "plan rs p ! i = Assigned j cards hs"
  shows "plan_one (rs ! i) (walk_at rs p i) = (Assigned j cards hs, walk_at rs p (Suc i))"
  using assms by (metis plan_nth prod.collapse walk_at_Suc)

text \<open>A request that holds has every card it may use held, from then on.\<close>

lemma holds_blocks:
  assumes "plan_one r w = (Holds j a b g ps, w')" and "pool_wf (wk_pool w)"
  shows "usable r (wk_pool w') \<subseteq> dom (wk_held w')"
proof (cases r w rule: plan_one_cases)
  case (held free n p p' cs short)
  have w': "w' = snd (hold_cards r w p' free n cs short)" using assms(1) held(8) by simp
  have "length free < rq_gpus r"
    using free_for_cards(2) [OF held(2) assms(2)] held(3) by simp
  from free_for_short [OF held(2) this]
  have "usable r (wk_pool w) \<subseteq> set free \<union> dom (wk_held w)" by blast
  moreover have "usable r p' = usable r (wk_pool w)"
    using free_for_pool(1,2) [OF held(2)] held(7) fill_pool(1,2) by (auto simp: usable_def)
  ultimately show ?thesis using w' by (auto simp: dom_def)
qed (use assms(1) in auto)

section \<open>Which jobs to stop\<close>

definition stoppable_for :: "queue_key \<Rightarrow> bool \<Rightarrow> preemptable \<Rightarrow> bool" where
  "stoppable_for key borrowing c \<longleftrightarrow> key < pe_key c \<and> 0 < frees c borrowing"

definition freed_by :: "bool \<Rightarrow> preemptable list \<Rightarrow> nat" where
  "freed_by borrowing cs = sum_list (map (\<lambda>c. frees c borrowing) cs)"

text \<open>The loop takes the eligible candidates in order until the gap is covered.\<close>

lemma choose_loop_prefix:
  "\<exists>m. choose_loop key gap b cs chosen freed =
       (chosen @ take m (filter (stoppable_for key b) cs),
        freed + freed_by b (take m (filter (stoppable_for key b) cs))) \<and>
     (snd (choose_loop key gap b cs chosen freed) < gap \<longrightarrow>
        take m (filter (stoppable_for key b) cs) = filter (stoppable_for key b) cs) \<and>
     (take m (filter (stoppable_for key b) cs) \<noteq> [] \<longrightarrow>
        freed + freed_by b (butlast (take m (filter (stoppable_for key b) cs))) < gap)"
proof (induction cs arbitrary: chosen freed)
  case Nil
  then show ?case by (simp add: freed_by_def)
next
  case (Cons c cs)
  consider "freed \<ge> gap" | "freed < gap" "\<not> stoppable_for key b c"
    | "freed < gap" "stoppable_for key b c" by linarith
  then show ?case
  proof cases
    case 1
    then show ?thesis by (intro exI [of _ 0]) (simp add: freed_by_def)
  next
    case 2
    then have "pe_key c \<le> key \<or> frees c b = 0" by (auto simp: stoppable_for_def)
    with 2 Cons.IH [of chosen freed] show ?thesis by simp
  next
    case 3
    then have no: "\<not> (pe_key c \<le> key \<or> frees c b = 0)" by (auto simp: stoppable_for_def)
    obtain m where m: "choose_loop key gap b cs (chosen @ [c]) (freed + frees c b) =
         ((chosen @ [c]) @ take m (filter (stoppable_for key b) cs),
          freed + frees c b + freed_by b (take m (filter (stoppable_for key b) cs)))"
      "snd (choose_loop key gap b cs (chosen @ [c]) (freed + frees c b)) < gap \<longrightarrow>
         take m (filter (stoppable_for key b) cs) = filter (stoppable_for key b) cs"
      "take m (filter (stoppable_for key b) cs) \<noteq> [] \<longrightarrow>
         freed + frees c b + freed_by b (butlast (take m (filter (stoppable_for key b) cs))) < gap"
      using Cons.IH [of "chosen @ [c]" "freed + frees c b"] by blast
    show ?thesis
      using 3 no m by (intro exI [of _ "Suc m"]) (auto simp: freed_by_def)
  qed
qed

text \<open>The eligible candidates as \<open>enough_to_start\<close> considers them: least important first.\<close>

definition in_stop_order :: "preemptable list \<Rightarrow> queue_key \<Rightarrow> bool \<Rightarrow> preemptable list" where
  "in_stop_order cs key b =
     filter (stoppable_for key b) (sorted_desc (\<lambda>c. (pe_priority c, pe_started c)) cs)"

lemma enough_to_start_prefix:
  "\<exists>m. enough_to_start cs key gap b = take m (in_stop_order cs key b) \<and>
     (enough_to_start cs key gap b \<noteq> [] \<longrightarrow>
        gap \<le> freed_by b (enough_to_start cs key gap b) \<and>
        freed_by b (butlast (enough_to_start cs key gap b)) < gap) \<and>
     (enough_to_start cs key gap b = [] \<longrightarrow> 0 < gap \<longrightarrow>
        freed_by b (in_stop_order cs key b) < gap)"
proof -
  let ?cs = "sorted_desc (\<lambda>c. (pe_priority c, pe_started c)) cs"
  let ?el = "in_stop_order cs key b"
  obtain m where
    "choose_loop key gap b ?cs [] 0 = ([] @ take m ?el, 0 + freed_by b (take m ?el))"
    "snd (choose_loop key gap b ?cs [] 0) < gap \<longrightarrow> take m ?el = ?el"
    "take m ?el \<noteq> [] \<longrightarrow> 0 + freed_by b (butlast (take m ?el)) < gap"
    using choose_loop_prefix [of key gap b ?cs "[]" 0] unfolding in_stop_order_def by blast
  then have m: "choose_loop key gap b ?cs [] 0 = (take m ?el, freed_by b (take m ?el))"
    "freed_by b (take m ?el) < gap \<longrightarrow> take m ?el = ?el"
    "take m ?el \<noteq> [] \<longrightarrow> freed_by b (butlast (take m ?el)) < gap"
    by simp_all
  show ?thesis
  proof (cases "freed_by b (take m (in_stop_order cs key b)) \<ge> gap")
    case True
    then have eq: "enough_to_start cs key gap b = take m (in_stop_order cs key b)"
      using m(1) by (simp add: enough_to_start_def)
    show ?thesis
      unfolding eq using True m(3) by (intro exI [of _ m]) (auto simp: freed_by_def)
  next
    case False
    then have "enough_to_start cs key gap b = take 0 (in_stop_order cs key b)"
      using m(1) by (simp add: enough_to_start_def)
    then show ?thesis using False m(2) by (intro exI [of _ 0]) simp
  qed
qed

lemma enough_to_start_members:
  assumes "c \<in> set (enough_to_start cs key gap b)"
  shows "c \<in> set cs \<and> key < pe_key c \<and> 0 < frees c b"
proof -
  obtain m where "enough_to_start cs key gap b = take m (in_stop_order cs key b)"
    using enough_to_start_prefix by blast
  with assms have "c \<in> set (in_stop_order cs key b)" by (auto dest: in_set_takeD)
  then show ?thesis by (auto simp: in_stop_order_def stoppable_for_def)
qed

section \<open>Holding\<close>

lemma coming_for_length: "length (coming_for r p held n) \<le> n"
  by (simp add: coming_for_def)

definition holds_gap :: "decision \<Rightarrow> bool" where
  "holds_gap d = (case d of Holds _ _ _ g _ \<Rightarrow> g \<noteq> 0 | _ \<Rightarrow> False)"

lemma plan_one_stuck:
  "wk_stuck (snd (plan_one r w)) = (wk_stuck w \<or> holds_gap (fst (plan_one r w)))"
proof (cases r w rule: plan_one_cases)
  case (held free n p p' cs short)
  then show ?thesis by (auto simp: hold_cards_def Let_def holds_gap_def)
qed (simp_all add: holds_gap_def)

lemma walk_at_stuck:
  "i \<le> length rs \<Longrightarrow> wk_stuck (walk_at rs p i) = (\<exists>k < i. holds_gap (plan rs p ! k))"
proof (induction i)
  case 0
  then show ?case by (simp add: walk_at_def)
next
  case (Suc i)
  then show ?case by (auto simp: walk_at_Suc plan_one_stuck plan_nth less_Suc_eq)
qed

lemma plan_one_holds:
  assumes "plan_one r w = (Holds j a b g ps, w')" and wf: "pool_wf (wk_pool w)"
  shows "a + b + g = rq_gpus r \<and> ps = (if g = 0 \<or> wk_stuck w then []
    else map pe_job_id (enough_to_start (preemptables (wk_pool w)) (rq_key r) g (rq_borrows r)))"
proof (cases r w rule: plan_one_cases)
  case (held free n p p' cs short)
  have pre: "preemptables p' = preemptables (wk_pool w)"
    using free_for_pool(5) [OF held(2)] held(7) fill_pool(3) by auto
  have len: "length free \<le> rq_gpus r" "n \<le> length free"
    using free_for_cards [OF held(2) wf] by auto
  have cs: "length cs \<le> rq_gpus r - length free" unfolding held(5) by (rule coming_for_length)
  let ?n = "n + length (filter (\<lambda>c. c \<notin> shared p') cs)"
  have "length (filter (\<lambda>c. c \<notin> shared p') cs) \<le> length cs" by simp
  with len have "?n \<le> length free + length cs" by linarith
  moreover have "a = ?n" "b = length free + length cs - ?n" "g = short"
    using assms(1) held(8) by (auto simp: hold_cards_def Let_def)
  moreover have "ps = (if short \<noteq> 0 \<and> \<not> wk_stuck w
      then map pe_job_id (enough_to_start (preemptables p') (rq_key r) short (rq_borrows r)) else [])"
    using assms(1) held(8) by (auto simp: hold_cards_def Let_def)
  ultimately show ?thesis using len cs held(6) pre by auto
qed (use assms(1) in auto)

lemma capacity_failure_iff:
  "capacity_failure g owned n borrows absent = None \<longleftrightarrow> g \<le> owned + (if borrows then n else 0)"
  by (auto simp: capacity_failure_def Let_def)

lemma request_failure_None:
  "request_failure r p = None \<longleftrightarrow>
     rq_gpus r \<le> owned_present p + (if rq_borrows r then shared_visible p else 0)"
  by (simp add: request_failure_def capacity_failure_iff)

lemma plan_one_fits_owned:
  assumes "rq_gpus r \<le> length (owned_free (wk_pool w))" "rq_gpus r \<le> owned_present (wk_pool w)"
    and "wk_held w = Map.empty"
  shows "fst (plan_one r w) =
    Assigned (rq_job_id r) (take (rq_gpus r) (owned_free (wk_pool w))) []"
proof -
  have "request_failure r (wk_pool w) = None" using assms(2) by (simp add: request_failure_None)
  moreover have "free_for r (wk_pool w) (wk_held w) =
      (take (rq_gpus r) (owned_free (wk_pool w)), rq_gpus r, wk_pool w)"
    using assms(1,3) by (simp add: free_for_def Let_def)
  ultimately show ?thesis using assms(1) by (simp add: plan_one_def Let_def)
qed

section \<open>A host to try the rule on\<close>

text \<open>
  Three owned cards and one shared one; job \<open>a\<close> fits, \<open>b\<close> is wider than what is left,
  \<open>c\<close> may be stopped, \<open>d\<close> borrows, \<open>e\<close> is wider than the host, \<open>f\<close> waits.
\<close>

definition demo_request :: "job_id \<Rightarrow> nat \<Rightarrow> bool \<Rightarrow> bool \<Rightarrow> int \<Rightarrow> request" where
  "demo_request j n borrows fills pri =
     \<lparr>rq_job_id = j, rq_gpus = n, rq_borrows = borrows, rq_estimate_s = None,
      rq_priority = pri, rq_fills = fills\<rparr>"

definition demo_pool :: "uuid list \<Rightarrow> preemptable list \<Rightarrow> pool" where
  "demo_pool free ps =
     \<lparr>owned_free = free, owned_present = 3, shared_visible = 1, owned_absent = [],
      shared_absent = [], sample = Some ([''S0''], 0), shared = {''S0''}, coming = [],
      preemptables = ps, shared_free = None, theirs = 0\<rparr>"

definition demo_running :: preemptable where
  "demo_running =
     \<lparr>pe_job_id = ''x'', pe_priority = 90, pe_gpus = [''G2''], pe_started = 5,
      pe_owned = 1, pe_borrowed = 0\<rparr>"

definition demo_requests :: "request list" where
  "demo_requests =
     [demo_request ''a'' 1 False False 10, demo_request ''b'' 3 False False 20,
      demo_request ''c'' 1 False True 30, demo_request ''d'' 1 True False 40,
      demo_request ''e'' 9 True False 50, demo_request ''f'' 1 False False 60]"

abbreviation demo_cards :: pool where
  "demo_cards \<equiv> demo_pool [''G0'', ''G1''] []"

lemma demo_cards_wf: "pool_wf demo_cards"
  by code_simp

lemma demo_plan:
  "plan demo_requests demo_cards =
     [Assigned ''a'' [''G0''] [], Holds ''b'' 1 0 2 [], Assigned ''c'' [''G1''] [''b''],
      Assigned ''d'' [''S0''] [],
      Fails ''e'' ''needs 9 GPUs, host owns 3 and may borrow 1 shared'', Holds ''f'' 0 0 1 []]"
  by code_simp

lemma demo_requests_length: "length demo_requests = 6"
  by (simp add: demo_requests_def)

lemmas demo_facts = demo_cards_wf demo_plan demo_requests_length

section \<open>Properties of the rule\<close>

text \<open>
  One decision per queued job, in queue order: the decisions name exactly the jobs of
  the requests, one for one, whatever the pool holds.
\<close>

theorem plan_in_order: "map decision_job (plan rs p) = map rq_job_id rs"
  by (rule nth_equalityI) (simp_all add: plan_nth plan_one_job)

text \<open>
  An assignment is sound: a job that is started gets exactly as many cards as it asked
  for, each once, all of them owned cards that were free or, for a job that may borrow,
  shared cards the reading found unused.
\<close>

theorem plan_assignment_sound:
  assumes "pool_wf p" and "i < length rs" and "plan rs p ! i = Assigned j cards hs"
  shows "j = rq_job_id (rs ! i) \<and> length cards = rq_gpus (rs ! i) \<and> distinct cards \<and>
    set cards \<subseteq> usable (rs ! i) p"
proof -
  note at = plan_assigned_at [OF assms(2,3)]
  have le: "walk_le (walk_at rs p i) (start_walk p)" by (rule walk_at_le [OF assms(1)])
  then have "usable (rs ! i) (wk_pool (walk_at rs p i)) \<subseteq> usable (rs ! i) p"
    by (auto simp: walk_le_def usable_def)
  moreover have "j = rq_job_id (rs ! i)"
    using plan_one_job [of "rs ! i" "walk_at rs p i"] at by simp
  moreover have "pool_wf (wk_pool (walk_at rs p i))" using le by (simp add: walk_le_def)
  note as = plan_one_assigned [OF at this]
  ultimately show ?thesis using as(1-3) by blast
qed

theorem plan_assignment_sound_witness:
  "pool_wf demo_cards \<and> (3::nat) < length demo_requests \<and>
   plan demo_requests demo_cards ! 3 = Assigned ''d'' [''S0''] [] \<and>
   set [''S0''] \<subseteq> usable (demo_requests ! 3) demo_cards"
proof -
  have h: "pool_wf demo_cards" "(3::nat) < length demo_requests"
    "plan demo_requests demo_cards ! 3 = Assigned ''d'' [''S0''] []"
    by (simp_all add: demo_facts)
  show ?thesis using h plan_assignment_sound [OF h] by blast
qed

text \<open>
  C1. No card is handed out twice in one pass: two assignments of the same walk share no
  card.
\<close>

theorem plan_no_double_booking:
  assumes "pool_wf p" and "i < k" and "k < length rs"
    and "plan rs p ! i = Assigned j cards hs" and "plan rs p ! k = Assigned j' cards' hs'"
  shows "set cards \<inter> set cards' = {}"
  using pw.run_takes_disjoint [of "start_walk p" i k rs] assms by (simp add: plan_def)

theorem plan_no_double_booking_witness:
  "plan demo_requests demo_cards ! 0 = Assigned ''a'' [''G0''] [] \<and>
   plan demo_requests demo_cards ! 2 = Assigned ''c'' [''G1''] [''b''] \<and>
   set [''G0''] \<inter> set [''G1''] = {}"
proof -
  have h: "pool_wf demo_cards" "(0::nat) < 2" "(2::nat) < length demo_requests"
    "plan demo_requests demo_cards ! 0 = Assigned ''a'' [''G0''] []"
    "plan demo_requests demo_cards ! 2 = Assigned ''c'' [''G1''] [''b'']"
    by (simp_all add: demo_facts)
  show ?thesis using h plan_no_double_booking [OF h] by blast
qed

text \<open>
  C2. Strict order: once a job does not fit and holds its cards, no job behind it that is
  not a filler and wants cards is started ahead of it, unless it borrows a shared card the
  holder may not use.
\<close>

theorem plan_no_overtaking:
  assumes "pool_wf p" and "i < k" and "k < length rs"
    and "plan rs p ! i = Holds j a b g ps"
    and "\<not> rq_fills (rs ! k)" and "0 < rq_gpus (rs ! k)"
    and "rq_borrows (rs ! k) \<longrightarrow> rq_borrows (rs ! i)"
  shows "plan rs p ! k \<noteq> Assigned j' cards hs"
proof
  assume "plan rs p ! k = Assigned j' cards hs"
  note at = plan_assigned_at [OF assms(3) this]
  have i: "i < length rs" using assms(2,3) by simp
  have wf: "pool_wf (wk_pool (walk_at rs p i))"
    using walk_at_le [OF assms(1)] by (simp add: walk_le_def)
  have "plan_one (rs ! i) (walk_at rs p i) = (Holds j a b g ps, walk_at rs p (Suc i))"
    using assms(4) i by (metis plan_nth prod.collapse walk_at_Suc)
  from holds_blocks [OF this wf]
  have "usable (rs ! i) (wk_pool (walk_at rs p (Suc i))) \<subseteq> dom (wk_held (walk_at rs p (Suc i)))" .
  moreover have le: "walk_le (walk_at rs p k) (walk_at rs p (Suc i))"
    using assms(1,2) by (intro walk_at_mono) simp_all
  moreover have "usable (rs ! k) (wk_pool (walk_at rs p k))
      \<subseteq> usable (rs ! i) (wk_pool (walk_at rs p (Suc i)))"
    using le assms(7) by (auto simp: walk_le_def usable_def)
  ultimately have "usable (rs ! k) (wk_pool (walk_at rs p k)) \<subseteq> dom (wk_held (walk_at rs p k))"
    unfolding walk_le_def by blast
  note blocked = this
  have "pool_wf (wk_pool (walk_at rs p k))" using le by (simp add: walk_le_def)
  note as = plan_one_assigned [OF at this]
  have "set cards = {}"
    by (rule empty_if_disjoint_superset [OF as(3) blocked as(6) [OF assms(5)]])
  with as(1) assms(6) show False by simp
qed

theorem plan_no_overtaking_witness:
  "plan demo_requests demo_cards ! 1 = Holds ''b'' 1 0 2 [] \<and>
   plan demo_requests demo_cards ! 5 \<noteq> Assigned ''f'' [''G1''] []"
proof -
  have h: "pool_wf demo_cards" "(1::nat) < 5" "(5::nat) < length demo_requests"
    "plan demo_requests demo_cards ! 1 = Holds ''b'' 1 0 2 []"
    "\<not> rq_fills (demo_requests ! 5)" "0 < rq_gpus (demo_requests ! 5)"
    "rq_borrows (demo_requests ! 5) \<longrightarrow> rq_borrows (demo_requests ! 1)"
    by (simp_all add: demo_facts) (simp_all add: demo_requests_def demo_request_def)
  show ?thesis using h(4) plan_no_overtaking [OF h] by blast
qed

text \<open>
  Stopping jobs is all or nothing and never futile: a non-empty choice frees at least
  the gap and would not without its last member, every member runs at a key behind the
  waiting job's and frees a card that job can use, and the choice is empty only where
  stopping every eligible job would still not cover the gap.
\<close>

theorem enough_to_start_all_or_nothing:
  "(enough_to_start cs key gap b \<noteq> [] \<longrightarrow>
      gap \<le> freed_by b (enough_to_start cs key gap b) \<and>
      freed_by b (butlast (enough_to_start cs key gap b)) < gap) \<and>
   (\<forall>c \<in> set (enough_to_start cs key gap b). c \<in> set cs \<and> key < pe_key c \<and> 0 < frees c b) \<and>
   (enough_to_start cs key gap b = [] \<longrightarrow> 0 < gap \<longrightarrow>
      freed_by b (filter (stoppable_for key b) cs) < gap)"
proof -
  have "freed_by b (in_stop_order cs key b) = freed_by b (filter (stoppable_for key b) cs)"
    unfolding freed_by_def in_stop_order_def by (rule sum_list_filter_mset) simp
  then show ?thesis using enough_to_start_prefix [of cs key gap b] enough_to_start_members by auto
qed

theorem enough_to_start_witness:
  "enough_to_start [demo_running] (20, ''b'') 1 False = [demo_running] \<and>
   (1::nat) \<le> freed_by False [demo_running]"
proof -
  have h: "enough_to_start [demo_running] (20, ''b'') 1 False = [demo_running]" by code_simp
  show ?thesis
    using h enough_to_start_all_or_nothing [of "[demo_running]" "(20, ''b'')" 1 False] by simp
qed

text \<open>
  Only a job that said it may be stopped is given a held card, and never one held for a
  job that is already covered: the holders an assignment reports are exactly the holders of
  its cards, none of them is covered, and a job that is not a filler has none.
\<close>

theorem plan_fills_uncovered:
  assumes "pool_wf p" and "i < length rs" and "plan rs p ! i = Assigned j cards hs"
  shows "hs = holders_of (wk_held (walk_at rs p i)) cards \<and>
    set hs \<inter> wk_covered (walk_at rs p i) = {} \<and> (hs \<noteq> [] \<longrightarrow> rq_fills (rs ! i))"
proof -
  let ?w = "walk_at rs p i"
  have "pool_wf (wk_pool ?w)" using walk_at_le [OF assms(1)] by (simp add: walk_le_def)
  note as = plan_one_assigned [OF plan_assigned_at [OF assms(2,3)] this]
  have holders: "h \<in> set hs \<longleftrightarrow> (\<exists>c \<in> set cards. wk_held ?w c = Some h)" for h
    unfolding as(5) by (rule set_holders_of)
  have "h \<notin> wk_covered ?w" if h: "h \<in> set hs" for h
  proof -
    from h obtain c where c: "c \<in> set cards" "wk_held ?w c = Some h" using holders by blast
    from as(4) [OF c(1)] c(2) show ?thesis by (simp add: open_to_it_def)
  qed
  moreover have "hs = []" if "\<not> rq_fills (rs ! i)"
  proof -
    have "h \<notin> set hs" for h
      using as(6) [OF that] holders by (auto simp: disjoint_iff domIff)
    then show ?thesis by (cases hs) auto
  qed
  ultimately show ?thesis using as(5) by blast
qed

theorem plan_fills_uncovered_witness:
  "plan demo_requests demo_cards ! 2 = Assigned ''c'' [''G1''] [''b''] \<and>
   set [''b''] \<inter> wk_covered (walk_at demo_requests demo_cards 2) = {} \<and>
   rq_fills (demo_requests ! 2)"
proof -
  have h: "pool_wf demo_cards" "(2::nat) < length demo_requests"
    "plan demo_requests demo_cards ! 2 = Assigned ''c'' [''G1''] [''b'']"
    by (simp_all add: demo_facts)
  show ?thesis using h plan_fills_uncovered [OF h] by blast
qed

text \<open>
  What a holder keeps and stops: the cards it holds and its gap add up to what it asked
  for, and jobs are stopped only for the first holder with a gap, by the choice of
  \<open>enough_to_start\<close> for exactly that gap.
\<close>

theorem plan_holds_and_preempts:
  assumes "pool_wf p" and "i < length rs" and "plan rs p ! i = Holds j a b g ps"
  shows "a + b + g = rq_gpus (rs ! i) \<and>
    ps = (if g = 0 \<or> (\<exists>k < i. holds_gap (plan rs p ! k)) then []
          else map pe_job_id
            (enough_to_start (preemptables p) (rq_key (rs ! i)) g (rq_borrows (rs ! i))))"
proof -
  let ?w = "walk_at rs p i"
  have le: "walk_le ?w (start_walk p)" by (rule walk_at_le [OF assms(1)])
  have "plan_one (rs ! i) ?w = (Holds j a b g ps, walk_at rs p (Suc i))"
    using assms(2,3) by (metis plan_nth prod.collapse walk_at_Suc)
  from plan_one_holds [OF this] le show ?thesis
    using walk_at_stuck [of i rs p] assms(2) by (auto simp: walk_le_def)
qed

theorem plan_holds_and_preempts_witness:
  "plan demo_requests demo_cards ! 1 = Holds ''b'' 1 0 2 [] \<and>
   1 + 0 + 2 = rq_gpus (demo_requests ! 1)"
proof -
  have h: "pool_wf demo_cards" "(1::nat) < length demo_requests"
    "plan demo_requests demo_cards ! 1 = Holds ''b'' 1 0 2 []"
    by (simp_all add: demo_facts)
  show ?thesis using h plan_holds_and_preempts [OF h] by blast
qed

lemma plan_fails_iff:
  assumes "pool_wf p" and "i < length rs"
  shows "(\<exists>why. plan rs p ! i = Fails (rq_job_id (rs ! i)) why) \<longleftrightarrow>
    rq_gpus (rs ! i) > owned_present p + (if rq_borrows (rs ! i) then shared_visible p else 0)"
proof -
  let ?w = "walk_at rs p i"
  have le: "walk_le ?w (start_walk p)" by (rule walk_at_le [OF assms(1)])
  then have "(request_failure (rs ! i) (wk_pool ?w) = None) =
      (rq_gpus (rs ! i) \<le> owned_present p + (if rq_borrows (rs ! i) then shared_visible p else 0))"
    by (simp add: request_failure_None walk_le_def)
  moreover have "(\<exists>why. fst (plan_one (rs ! i) ?w) = Fails (rq_job_id (rs ! i)) why) =
      (request_failure (rs ! i) (wk_pool ?w) \<noteq> None)"
    by (cases "rs ! i" ?w rule: plan_one_cases) (auto simp: hold_cards_def Let_def)
  ultimately show ?thesis using assms(2) by (auto simp: plan_nth)
qed

text \<open>
  A job is failed exactly when it asks for more cards than the host has now, counting
  shared cards only if it may borrow.
\<close>

theorem plan_fails_iff_too_wide:
  assumes "pool_wf p" and "i < length rs"
  shows "(\<exists>why. plan rs p ! i = Fails (rq_job_id (rs ! i)) why) \<longleftrightarrow>
    rq_gpus (rs ! i) > owned_present p + (if rq_borrows (rs ! i) then shared_visible p else 0)"
  using plan_fails_iff [OF assms] .

theorem plan_fails_iff_too_wide_witness:
  "(\<exists>why. plan demo_requests demo_cards ! 4 = Fails (rq_job_id (demo_requests ! 4)) why) \<and>
   rq_gpus (demo_requests ! 4) > 3 + 1"
proof -
  have h: "pool_wf demo_cards" "(4::nat) < length demo_requests" by (simp_all add: demo_facts)
  have "rq_gpus (demo_requests ! 4) > 3 + 1"
    by (simp add: demo_requests_def demo_request_def)
  then show ?thesis
    using plan_fails_iff_too_wide [OF h]
    by (simp add: demo_requests_def demo_request_def demo_pool_def)
qed



end
