(* ===== verification/Project.thy ===== *)
theory Project
  imports Plan
begin

text \<open>
  The projection of \<open>src/gpuc/host/plan.py\<close>: when each queued job is expected to start, by
  replaying the dispatch rule at every moment a card comes free. The \<open>while\<close> loop is a
  recursion on fuel whose result is \<open>None\<close> when the fuel ends; dicts are association lists,
  so that the order in which a free card is found is the code's. Times are exact rationals.
  A lookup the code does by \<open>d[k]\<close> is \<open>KeyError\<close> on a missing key and \<open>pending.remove\<close> is
  \<open>ValueError\<close> on a missing request, so that what the code would raise is a value here.
\<close>

section \<open>Data\<close>

record card =
  card_uuid :: uuid
  card_shared :: bool
  card_release_s :: "seconds option"

record projection =
  starts_in_s :: "(job_id \<times> seconds) list"
  unknown :: "(job_id \<times> string) list"
  pj_yields_to :: "(job_id \<times> job_id) list"

definition yields_to :: "preemptable \<Rightarrow> request list \<Rightarrow> job_id option" where
  "yields_to job requests =
     map_option rq_job_id
       (find (\<lambda>r. rq_key r < pe_key job \<and> rq_gpus r \<noteq> 0 \<and> frees job (rq_borrows r) \<noteq> 0) requests)"

section \<open>Why a job has no start time\<close>

fun reasons_loop ::
  "job_id set \<Rightarrow> decision list \<Rightarrow> (job_id \<times> string) list \<Rightarrow> job_id option \<Rightarrow> (job_id \<times> string) list" where
  "reasons_loop ids [] reasons first_holder = reasons"
| "reasons_loop ids (d # ds) reasons first_holder =
     (if decision_job d \<notin> ids then reasons_loop ids ds reasons first_holder
      else (case d of
          Fails j why \<Rightarrow>
            reasons_loop ids ds
              (AList.update j (why @ '', so it will never be dispatched'') reasons) first_holder
        | SteppedOver j short \<Rightarrow>
            reasons_loop ids ds
              (AList.update j
                (''it needs '' @ int_str short
                  @ '' shared card(s) somebody else is using, and when ''
                  @ ''they stop is not something this host can predict'') reasons) first_holder
        | Holds j _ _ _ _ \<Rightarrow>
            reasons_loop ids ds
              (AList.update j
                (case first_holder of
                   Some h \<Rightarrow> ''job '' @ h @ '' is ahead of it and has no start time yet''
                 | None \<Rightarrow> ''the jobs holding the cards it needs gave no end time'') reasons)
              (case first_holder of
                 Some h \<Rightarrow> (if h = [] then Some j else Some h)
               | None \<Rightarrow> Some j)
        | Assigned _ _ _ \<Rightarrow> reasons_loop ids ds reasons first_holder))"

definition unknown_reasons :: "decision list \<Rightarrow> request list \<Rightarrow> (job_id \<times> string) list" where
  "unknown_reasons decisions pending = reasons_loop (rq_job_id ` set pending) decisions [] None"

section \<open>The replay\<close>

record replay =
  rp_pending :: "request list"
  rp_releases :: "(uuid \<times> seconds option) list"
  rp_stoppable :: "(job_id \<times> preemptable \<times> request) list"
  rp_ends :: "(job_id \<times> seconds option) list"
  rp_starts :: "(job_id \<times> seconds) list"
  rp_clock :: seconds
  rp_decisions :: "decision list"

text \<open>\<open>is_shared[u]\<close> for every card of a list; the split into owned and shared ones.\<close>

fun cards_shared :: "(uuid \<times> bool) list \<Rightarrow> uuid list \<Rightarrow> bool list res" where
  "cards_shared is_shared [] = Inr []"
| "cards_shared is_shared (u # us) =
     (case map_of is_shared u of
        None \<Rightarrow> Inl KeyError
      | Some s \<Rightarrow> (case cards_shared is_shared us of Inl e \<Rightarrow> Inl e | Inr ss \<Rightarrow> Inr (s # ss)))"

definition pick :: "bool \<Rightarrow> uuid list \<Rightarrow> bool list \<Rightarrow> uuid list" where
  "pick b us ss = map fst (filter (\<lambda>x. snd x = b) (zip us ss))"

text \<open>What one \<open>Assigned\<close> decision does: the job starts now, its cards are taken until it is
  done, and a filler becomes one of the jobs that may be stopped.\<close>

definition start_one ::
  "(uuid \<times> bool) list \<Rightarrow> (job_id \<rightharpoonup> request) \<Rightarrow> job_id \<Rightarrow> uuid list \<Rightarrow> replay \<Rightarrow> replay res" where
  "start_one is_shared by_id j gpus s =
     (case by_id j of
        None \<Rightarrow> Inl KeyError
      | Some r \<Rightarrow>
          let done = map_option (\<lambda>e. rp_clock s + e) (rq_estimate_s r);
              s1 = s\<lparr>rp_starts := setdefault (rq_job_id r) (rp_clock s) (rp_starts s),
                     rp_releases := foldl (\<lambda>d u. AList.update u done d) (rp_releases s) gpus\<rparr>
          in if r \<notin> set (rp_pending s) then Inl ValueError
             else
               let s2 = s1\<lparr>rp_pending := remove1 r (rp_pending s)\<rparr>
               in if rq_fills r \<and> gpus \<noteq> []
                  then (case cards_shared is_shared gpus of
                      Inl e \<Rightarrow> Inl e
                    | Inr ss \<Rightarrow>
                        let n_shared = length (filter id ss);
                            p = \<lparr>pe_job_id = rq_job_id r, pe_priority = rq_priority r,
                                 pe_gpus = gpus, pe_started = rp_clock s,
                                 pe_owned = length gpus - n_shared, pe_borrowed = n_shared\<rparr>
                        in Inr (s2\<lparr>rp_stoppable := AList.update (rq_job_id r) (p, r) (rp_stoppable s),
                                   rp_ends := AList.update (rq_job_id r) done (rp_ends s)\<rparr>))
                  else Inr s2)"

fun start_all ::
  "(uuid \<times> bool) list \<Rightarrow> (job_id \<rightharpoonup> request) \<Rightarrow> decision list \<Rightarrow> replay \<Rightarrow> replay res" where
  "start_all is_shared by_id [] s = Inr s"
| "start_all is_shared by_id (d # ds) s =
     (case d of
        Assigned j gpus _ \<Rightarrow>
          (case start_one is_shared by_id j gpus s of
             Inl e \<Rightarrow> Inl e
           | Inr s' \<Rightarrow> start_all is_shared by_id ds s')
      | _ \<Rightarrow> start_all is_shared by_id ds s)"

text \<open>Stopping what covers the first stuck job: its cards are free now, it is queued again.\<close>

fun stop_all :: "job_id list \<Rightarrow> replay \<Rightarrow> replay res" where
  "stop_all [] s = Inr s"
| "stop_all (j # js) s =
     (case map_of (rp_stoppable s) j of
        None \<Rightarrow> Inl KeyError
      | Some (stopped, again) \<Rightarrow>
          stop_all js
            (s\<lparr>rp_stoppable := AList.delete j (rp_stoppable s),
               rp_releases :=
                 foldl (\<lambda>d u. AList.update u (Some (rp_clock s)) d) (rp_releases s) (pe_gpus stopped),
               rp_pending := rp_pending s @ [again]\<rparr>))"

fun stuck_preempts :: "decision list \<Rightarrow> job_id list" where
  "stuck_preempts [] = []"
| "stuck_preempts (Holds _ _ _ gap preempts # ds) =
     (if gap \<noteq> 0 then preempts else stuck_preempts ds)"
| "stuck_preempts (_ # ds) = stuck_preempts ds"

record board =
  bd_owned_present :: nat
  bd_shared_visible :: nat
  bd_owned_missing :: "string list"
  bd_shared_missing :: "string list"
  bd_theirs :: nat
  bd_is_shared :: "(uuid \<times> bool) list"

definition still_stoppable :: "replay \<Rightarrow> (job_id \<times> preemptable \<times> request) list res" where
  "still_stoppable s =
     (if list_all (\<lambda>e. fst e \<in> fst ` set (rp_ends s)) (rp_stoppable s)
      then Inr (filter (\<lambda>e. case map_of (rp_ends s) (fst e) of
                   Some (Some end) \<Rightarrow> end > rp_clock s | _ \<Rightarrow> True) (rp_stoppable s))
      else Inl KeyError)"

definition free_now :: "replay \<Rightarrow> uuid list" where
  "free_now s =
     map fst (filter (\<lambda>e. case snd e of Some t \<Rightarrow> t \<le> rp_clock s | None \<Rightarrow> False) (rp_releases s))"

definition replay_pool ::
  "board \<Rightarrow> (job_id \<times> preemptable \<times> request) list \<Rightarrow> uuid list \<Rightarrow> bool list \<Rightarrow> pool" where
  "replay_pool b stoppable free ss =
     \<lparr>owned_free = pick False free ss, owned_present = bd_owned_present b,
      shared_visible = bd_shared_visible b, owned_absent = bd_owned_missing b,
      shared_absent = bd_shared_missing b, sample = None,
      shared = fst ` set (filter snd (bd_is_shared b)), coming = [],
      preemptables = map (\<lambda>e. fst (snd e)) stoppable,
      shared_free = Some (pick True free ss), theirs = bd_theirs b\<rparr>"

definition later_releases :: "replay \<Rightarrow> seconds list" where
  "later_releases s =
     filter (\<lambda>t. t > rp_clock s) (List.map_filter snd (rp_releases s))"

definition by_id_of :: "request list \<Rightarrow> job_id \<Rightarrow> request option" where
  "by_id_of rs = map_of (rev (map (\<lambda>r. (rq_job_id r, r)) rs))"

text \<open>
  One turn of the \<open>while\<close> loop: \<open>Inr (s, True)\<close> goes round again, \<open>Inr (s, False)\<close> is the
  \<open>break\<close>.
\<close>

definition replay_turn :: "board \<Rightarrow> replay \<Rightarrow> (replay \<times> bool) res" where
  "replay_turn b s =
     (case still_stoppable s of
        Inl e \<Rightarrow> Inl e
      | Inr stoppable \<Rightarrow>
          let s0 = s\<lparr>rp_stoppable := stoppable\<rparr>; free = free_now s0
          in (case cards_shared (bd_is_shared b) free of
                Inl e \<Rightarrow> Inl e
              | Inr ss \<Rightarrow>
                  let decisions = plan (rp_pending s0) (replay_pool b stoppable free ss);
                      by_id = by_id_of (rp_pending s0)
                  in (case start_all (bd_is_shared b) by_id decisions
                             (s0\<lparr>rp_decisions := decisions\<rparr>) of
                        Inl e \<Rightarrow> Inl e
                      | Inr s1 \<Rightarrow>
                          if stuck_preempts decisions \<noteq> []
                          then (case stop_all (stuck_preempts decisions) s1 of
                                  Inl e \<Rightarrow> Inl e
                                | Inr s2 \<Rightarrow>
                                    Inr (s2\<lparr>rp_pending := sort_key rq_key (rp_pending s2)\<rparr>, True))
                          else (case later_releases s1 of
                                  [] \<Rightarrow> Inr (s1, False)
                                | t # later \<Rightarrow>
                                    Inr (s1\<lparr>rp_clock := fold min later t\<rparr>, True)))))"

fun replay_loop :: "nat \<Rightarrow> board \<Rightarrow> replay \<Rightarrow> replay res option" where
  "replay_loop fuel b s =
     (if rp_pending s = [] then Some (Inr s)
      else (case fuel of
          0 \<Rightarrow> None
        | Suc n \<Rightarrow>
            (case replay_turn b s of
               Inl e \<Rightarrow> Some (Inl e)
             | Inr (s', again) \<Rightarrow> if again then replay_loop n b s' else Some (Inr s'))))"

declare replay_loop.simps [simp del]

definition project_board :: "card list \<Rightarrow> string list \<Rightarrow> string list \<Rightarrow> nat \<Rightarrow> board" where
  "project_board cards owned_missing shared_missing n_theirs =
     \<lparr>bd_owned_present = length (filter (\<lambda>c. \<not> card_shared c) cards),
      bd_shared_visible = length (filter card_shared cards) + n_theirs,
      bd_owned_missing = owned_missing, bd_shared_missing = shared_missing,
      bd_theirs = n_theirs,
      bd_is_shared = dict_of (map (\<lambda>c. (card_uuid c, card_shared c)) cards)\<rparr>"

definition project_start ::
  "request list \<Rightarrow> card list \<Rightarrow> (preemptable \<times> request) list \<Rightarrow> replay" where
  "project_start requests cards running =
     (let releases = dict_of (map (\<lambda>c. (card_uuid c, card_release_s c)) cards)
      in \<lparr>rp_pending = requests, rp_releases = releases,
          rp_stoppable = dict_of (map (\<lambda>(p, r). (pe_job_id p, p, r)) running),
          rp_ends =
            dict_of (map (\<lambda>(p, r). (pe_job_id p,
              case pe_gpus p of [] \<Rightarrow> None | u # _ \<Rightarrow> Option.bind (map_of releases u) id)) running),
          rp_starts = [], rp_clock = 0, rp_decisions = []\<rparr>)"

definition project ::
  "nat \<Rightarrow> request list \<Rightarrow> card list \<Rightarrow> string list \<Rightarrow> string list \<Rightarrow> nat \<Rightarrow>
   (preemptable \<times> request) list \<Rightarrow> bool \<Rightarrow> projection res option" where
  "project fuel requests cards owned_missing shared_missing n_theirs running draining =
     (if draining
      then Some (Inr
        \<lparr>starts_in_s = [],
         unknown =
           dict_of (map (\<lambda>r. (rq_job_id r,
             ''the host is draining, so nothing more will be dispatched'')) requests),
         pj_yields_to = []\<rparr>)
      else
        let already = set (map (\<lambda>x. pe_job_id (fst x)) running);
            gives_way =
              dict_of (List.map_filter (\<lambda>(p, r).
                map_option (\<lambda>to. (pe_job_id p, to)) (yields_to p requests)) running)
        in map_option (map_sum id (\<lambda>s.
             \<lparr>starts_in_s = filter (\<lambda>x. fst x \<notin> already) (rp_starts s),
              unknown =
                unknown_reasons (rp_decisions s)
                  (filter (\<lambda>r. rq_job_id r \<notin> already) (rp_pending s)),
              pj_yields_to = gives_way\<rparr>))
             (replay_loop fuel (project_board cards owned_missing shared_missing n_theirs)
               (project_start requests cards running)))"


section \<open>Nothing is lost in a replay\<close>

fun is_assigned :: "decision \<Rightarrow> bool" where
  "is_assigned (Assigned _ _ _) = True"
| "is_assigned _ = False"

abbreviation started :: "replay \<Rightarrow> job_id set" where
  "started s \<equiv> fst ` set (rp_starts s)"

text \<open>Every request is still waiting or has been given a start.\<close>

definition accounted :: "request list \<Rightarrow> replay \<Rightarrow> bool" where
  "accounted rs s \<longleftrightarrow> (\<forall>r \<in> set rs. r \<in> set (rp_pending s) \<or> rq_job_id r \<in> started s)"

lemma start_one_facts:
  assumes "start_one is_shared by_id j gpus s = Inr s'"
  obtains r where "by_id j = Some r" "r \<in> set (rp_pending s)"
    "rp_pending s' = remove1 r (rp_pending s)"
    "rp_starts s' = setdefault (rq_job_id r) (rp_clock s) (rp_starts s)"
    "rp_releases s' = foldl (\<lambda>d u. AList.update u (map_option (\<lambda>e. rp_clock s + e) (rq_estimate_s r)) d)
       (rp_releases s) gpus"
    "rp_clock s' = rp_clock s" "rp_decisions s' = rp_decisions s"
    "\<not> rq_fills r \<longrightarrow> rp_stoppable s' = rp_stoppable s \<and> rp_ends s' = rp_ends s"
  using assms
  by (fastforce simp: start_one_def Let_def split: option.splits if_splits sum.splits)

lemma in_remove1_or_eq: "x \<in> set xs \<Longrightarrow> x \<in> set (remove1 y xs) \<or> x = y"
  by (induction xs) auto

lemma start_all_facts:
  assumes "start_all is_shared by_id ds s = Inr s'"
    and "\<forall>j r. by_id j = Some r \<longrightarrow> rq_job_id r = j"
  shows "\<forall>r \<in> set (rp_pending s). r \<in> set (rp_pending s') \<or> rq_job_id r \<in> started s'"
    and "started s \<subseteq> started s'" and "set (rp_pending s') \<subseteq> set (rp_pending s)"
    and "\<forall>d \<in> set ds. is_assigned d \<longrightarrow> decision_job d \<in> started s'"
    and "rp_clock s' = rp_clock s" and "rp_decisions s' = rp_decisions s"
proof -
  have "(\<forall>r \<in> set (rp_pending s). r \<in> set (rp_pending s') \<or> rq_job_id r \<in> started s') \<and>
      started s \<subseteq> started s' \<and> set (rp_pending s') \<subseteq> set (rp_pending s) \<and>
      (\<forall>d \<in> set ds. is_assigned d \<longrightarrow> decision_job d \<in> started s') \<and>
      rp_clock s' = rp_clock s \<and> rp_decisions s' = rp_decisions s"
    using assms(1)
  proof (induction ds arbitrary: s)
    case (Cons d ds)
    show ?case
    proof (cases d)
      case (Assigned j gpus hs)
      with Cons.prems obtain s1 where one: "start_one is_shared by_id j gpus s = Inr s1"
        and rest: "start_all is_shared by_id ds s1 = Inr s'"
        by (auto split: sum.splits)
      from one obtain r where r: "by_id j = Some r" "rp_pending s1 = remove1 r (rp_pending s)"
        "rp_starts s1 = setdefault (rq_job_id r) (rp_clock s) (rp_starts s)"
        "rp_clock s1 = rp_clock s" "rp_decisions s1 = rp_decisions s"
        by (rule start_one_facts)
      have id: "rq_job_id r = j" using assms(2) r(1) by simp
      note IH = Cons.IH [OF rest]
      have st: "insert j (started s) \<subseteq> started s'" using IH r(3) id by auto
      have "r' \<in> set (rp_pending s') \<or> rq_job_id r' \<in> started s'"
        if "r' \<in> set (rp_pending s)" for r'
        using in_remove1_or_eq [OF that, of r] IH r(2) id st by auto
      moreover have "set (rp_pending s') \<subseteq> set (rp_pending s)"
        using IH r(2) set_remove1_subset by fastforce
      ultimately show ?thesis using IH st r Assigned by auto
    qed (use Cons in auto)
  qed simp
  then show "\<forall>r \<in> set (rp_pending s). r \<in> set (rp_pending s') \<or> rq_job_id r \<in> started s'"
    and "started s \<subseteq> started s'" and "set (rp_pending s') \<subseteq> set (rp_pending s)"
    and "\<forall>d \<in> set ds. is_assigned d \<longrightarrow> decision_job d \<in> started s'"
    and "rp_clock s' = rp_clock s" and "rp_decisions s' = rp_decisions s"
    by simp_all
qed

lemma stop_all_facts:
  assumes "stop_all js s = Inr s'"
  shows "set (rp_pending s) \<subseteq> set (rp_pending s')" and "rp_starts s' = rp_starts s"
    and "rp_decisions s' = rp_decisions s" and "rp_clock s' = rp_clock s"
proof -
  have "set (rp_pending s) \<subseteq> set (rp_pending s') \<and> rp_starts s' = rp_starts s \<and>
      rp_decisions s' = rp_decisions s \<and> rp_clock s' = rp_clock s"
    using assms by (induction js arbitrary: s) (fastforce split: option.splits)+
  then show "set (rp_pending s) \<subseteq> set (rp_pending s')" and "rp_starts s' = rp_starts s"
    and "rp_decisions s' = rp_decisions s" and "rp_clock s' = rp_clock s" by simp_all
qed

lemma by_id_job:
  "\<forall>j r. by_id_of rs j = Some r \<longrightarrow> rq_job_id r = j"
  by (auto simp: by_id_of_def dest!: map_of_SomeD)

lemma plan_answers:
  assumes "r \<in> set rs"
  shows "\<exists>d \<in> set (plan rs p). decision_job d = rq_job_id r"
proof -
  from assms obtain i where i: "i < length rs" "rs ! i = r" by (auto simp: in_set_conv_nth)
  then have "decision_job (plan rs p ! i) = rq_job_id r" by (simp add: plan_nth plan_one_job)
  with i show ?thesis by (metis length_plan nth_mem)
qed

text \<open>The last pass speaks for every request still waiting after it.\<close>

definition answered :: "replay \<Rightarrow> bool" where
  "answered s \<longleftrightarrow>
     (\<forall>r \<in> set (rp_pending s). rq_job_id r \<in> started s \<or>
        (\<exists>d \<in> set (rp_decisions s). decision_job d = rq_job_id r \<and> \<not> is_assigned d))"

lemma replay_turn_cases:
  assumes "replay_turn b s = Inr (s', again)"
  obtains stoppable ss s1 where
    "still_stoppable s = Inr stoppable"
    "cards_shared (bd_is_shared b) (free_now s) = Inr ss"
    "start_all (bd_is_shared b) (by_id_of (rp_pending s))
       (plan (rp_pending s) (replay_pool b stoppable (free_now s) ss))
       (s\<lparr>rp_stoppable := stoppable,
          rp_decisions := plan (rp_pending s) (replay_pool b stoppable (free_now s) ss)\<rparr>) = Inr s1"
    "\<not> again \<longrightarrow> s' = s1 \<and> later_releases s1 = []"
    "again \<longrightarrow>
       (\<exists>js s2. js \<noteq> [] \<and> js = stuck_preempts (plan (rp_pending s) (replay_pool b stoppable (free_now s) ss)) \<and>
          stop_all js s1 = Inr s2 \<and> s' = s2\<lparr>rp_pending := sort_key rq_key (rp_pending s2)\<rparr>) \<or>
       (\<exists>t later. later_releases s1 = t # later \<and> s' = s1\<lparr>rp_clock := fold min later t\<rparr>)"
proof -
  have [simp]: "free_now (s\<lparr>rp_stoppable := x\<rparr>) = free_now s" for x
    by (simp add: free_now_def cong: option.case_cong)
  from assms obtain stoppable where 1: "still_stoppable s = Inr stoppable"
    by (auto simp: replay_turn_def split: sum.splits)
  from assms 1 obtain ss where 2: "cards_shared (bd_is_shared b) (free_now s) = Inr ss"
    by (auto simp: replay_turn_def Let_def split: sum.splits)
  let ?ds = "plan (rp_pending s) (replay_pool b stoppable (free_now s) ss)"
  from assms 1 2 obtain s1 where 3:
    "start_all (bd_is_shared b) (by_id_of (rp_pending s)) ?ds
       (s\<lparr>rp_stoppable := stoppable, rp_decisions := ?ds\<rparr>) = Inr s1"
    by (auto simp: replay_turn_def Let_def split: sum.splits)
  have turn: "(if stuck_preempts ?ds \<noteq> []
      then (case stop_all (stuck_preempts ?ds) s1 of
              Inl e \<Rightarrow> Inl e
            | Inr s2 \<Rightarrow> Inr (s2\<lparr>rp_pending := sort_key rq_key (rp_pending s2)\<rparr>, True))
      else (case later_releases s1 of
              [] \<Rightarrow> Inr (s1, False)
            | t # later \<Rightarrow> Inr (s1\<lparr>rp_clock := fold min later t\<rparr>, True))) = Inr (s', again)"
    using assms 1 2 3 by (simp add: replay_turn_def Let_def)
  show ?thesis
  proof (rule that [OF 1 2 3])
    show "\<not> again \<longrightarrow> s' = s1 \<and> later_releases s1 = []"
      using turn by (simp split: sum.splits if_splits list.splits)
    show "again \<longrightarrow>
       (\<exists>js s2. js \<noteq> [] \<and> js = stuck_preempts ?ds \<and> stop_all js s1 = Inr s2 \<and>
          s' = s2\<lparr>rp_pending := sort_key rq_key (rp_pending s2)\<rparr>) \<or>
       (\<exists>t later. later_releases s1 = t # later \<and> s' = s1\<lparr>rp_clock := fold min later t\<rparr>)"
    proof (cases "stuck_preempts ?ds = []")
      case True
      with turn show ?thesis by (cases "later_releases s1") simp_all
    next
      case False
      with turn show ?thesis by (cases "stop_all (stuck_preempts ?ds) s1") simp_all
    qed
  qed
qed

lemma replay_turn_accounted:
  assumes "replay_turn b s = Inr (s', again)" and "accounted rs s"
  shows "accounted rs s' \<and> (again \<or> answered s')"
proof -
  from assms(1) obtain stoppable ss s1 where
    "still_stoppable s = Inr stoppable"
    and "cards_shared (bd_is_shared b) (free_now s) = Inr ss"
    and s1: "start_all (bd_is_shared b) (by_id_of (rp_pending s))
       (plan (rp_pending s) (replay_pool b stoppable (free_now s) ss))
       (s\<lparr>rp_stoppable := stoppable,
          rp_decisions := plan (rp_pending s) (replay_pool b stoppable (free_now s) ss)\<rparr>) = Inr s1"
    and stop: "\<not> again \<longrightarrow> s' = s1 \<and> later_releases s1 = []"
    and again: "again \<longrightarrow>
       (\<exists>js s2. js \<noteq> [] \<and> js = stuck_preempts (plan (rp_pending s) (replay_pool b stoppable (free_now s) ss)) \<and>
          stop_all js s1 = Inr s2 \<and> s' = s2\<lparr>rp_pending := sort_key rq_key (rp_pending s2)\<rparr>) \<or>
       (\<exists>t later. later_releases s1 = t # later \<and> s' = s1\<lparr>rp_clock := fold min later t\<rparr>)"
    by (rule replay_turn_cases)
  let ?ds = "plan (rp_pending s) (replay_pool b stoppable (free_now s) ss)"
  note f = start_all_facts [OF s1 by_id_job, simplified]
  have acc: "accounted rs s1"
    using assms(2) f(1,2) by (auto simp: accounted_def)
  have ans: "answered s1"
    unfolding answered_def
  proof
    fix r assume r: "r \<in> set (rp_pending s1)"
    with f(3) have "r \<in> set (rp_pending s)" by auto
    from plan_answers [OF this] obtain d where d: "d \<in> set ?ds" "decision_job d = rq_job_id r" ..
    have eq: "rp_decisions s1 = ?ds" using f(6) by simp
    show "rq_job_id r \<in> started s1 \<or>
        (\<exists>d \<in> set (rp_decisions s1). decision_job d = rq_job_id r \<and> \<not> is_assigned d)"
    proof (cases "is_assigned d")
      case True
      then show ?thesis using bspec [OF f(4) d(1)] d(2) by simp
    next
      case False
      then show ?thesis using d eq by (intro disjI2 bexI [of _ d]) simp_all
    qed
  qed
  show ?thesis
  proof (cases again)
    case True
    with again consider js s2 where "stop_all js s1 = Inr s2"
        "s' = s2\<lparr>rp_pending := sort_key rq_key (rp_pending s2)\<rparr>"
      | t later where "s' = s1\<lparr>rp_clock := fold min later t\<rparr>" by (elim impE exE disjE conjE)
    then have "set (rp_pending s1) \<subseteq> set (rp_pending s') \<and> rp_starts s' = rp_starts s1"
      by cases (auto dest: stop_all_facts)
    then show ?thesis using acc True by (auto simp: accounted_def)
  next
    case False
    then show ?thesis using acc ans stop by simp
  qed
qed

lemma replay_loop_accounted:
  assumes "replay_loop fuel b s = Some (Inr s')" and "accounted rs s"
  shows "accounted rs s' \<and> answered s'"
  using assms
proof (induction fuel arbitrary: s)
  case 0
  then show ?case by (simp add: replay_loop.simps answered_def split: if_splits)
next
  case (Suc n)
  show ?case
  proof (cases "rp_pending s = []")
    case True
    with Suc.prems show ?thesis by (simp add: replay_loop.simps answered_def)
  next
    case False
    with Suc.prems(1) obtain s1 again where turn: "replay_turn b s = Inr (s1, again)"
      and rest: "if again then replay_loop n b s1 = Some (Inr s') else s' = s1"
      by (auto simp: replay_loop.simps split: sum.splits prod.splits if_splits)
    from replay_turn_accounted [OF turn Suc.prems(2)] rest Suc.IH [of s1] show ?thesis
      by (auto split: if_splits)
  qed
qed

lemma reasons_loop_keys:
  "fst ` set (reasons_loop ids ds reasons h) =
     fst ` set reasons \<union> 
       decision_job ` set (filter (\<lambda>d. decision_job d \<in> ids \<and> \<not> is_assigned d) ds)"
proof (induction ds arbitrary: reasons h)
  case (Cons d ds)
  then show ?case by (cases d) auto
qed simp


lemma project_start_accounted: "accounted rs (project_start rs cards running)"
  by (simp add: accounted_def project_start_def Let_def)

section \<open>The replay ends when no job may be stopped\<close>

text \<open>
  Without fillers nothing is queued again, so each turn either starts a job for good or
  moves the clock to a release that had not happened: \<open>turns_left\<close> goes down every turn.
\<close>

definition turns_left :: "replay \<Rightarrow> nat" where
  "turns_left s =
     length (rp_pending s) * Suc (length (rp_releases s)) + length (later_releases s)"

lemma later_releases_bound: "length (later_releases s) \<le> length (rp_releases s)"
proof -
  have "length (List.map_filter snd (xs :: ('u \<times> seconds option) list)) \<le> length xs" for xs
    by (induction xs) (auto simp: List.map_filter_simps split: option.splits)
  then show ?thesis
    unfolding later_releases_def by (meson length_filter_le order_trans)
qed

lemma fold_min_le: "fold min xs (x :: 'a::linorder) \<le> x" "y \<in> set xs \<Longrightarrow> fold min xs x \<le> y"
proof (induction xs arbitrary: x)
  case (Cons a xs)
  { case 1 show ?case using Cons.IH(1) [of "min a x"] by simp }
  { case 2 then show ?case using Cons.IH(1) [of "min a x"] Cons.IH(2) by force }
qed simp_all

lemma fold_min_in: "fold min xs (x :: 'a::linorder) \<in> insert x (set xs)"
proof (induction xs arbitrary: x)
  case (Cons a xs)
  show ?case using Cons [of "min a x"] by (auto simp: min_def split: if_splits)
qed simp

text \<open>Moving the clock to the next release takes at least that release off the later ones.\<close>

lemma later_releases_advance:
  assumes "later_releases s = t # later"
  shows "length (later_releases (s\<lparr>rp_clock := fold min later t\<rparr>)) < length (later_releases s)"
proof -
  let ?m = "fold min later t"
  have m: "?m \<in> set (later_releases s)" using fold_min_in [of later t] assms by simp
  then have "rp_clock s < ?m" by (simp add: later_releases_def)
  then have "later_releases (s\<lparr>rp_clock := ?m\<rparr>) = filter (\<lambda>x. x > ?m) (later_releases s)"
    by (auto simp: later_releases_def intro!: filter_cong)
  moreover have "length (filter (\<lambda>x. x > ?m) (later_releases s)) < length (later_releases s)"
    by (rule length_filter_less [OF m]) simp
  ultimately show ?thesis by simp
qed

lemma turns_left_advance:
  assumes "later_releases s1 = t # later" and "length (rp_releases s1) = length (rp_releases s)"
    and "length (rp_pending s1) < length (rp_pending s) \<or>
      rp_pending s1 = rp_pending s \<and> later_releases s1 = later_releases s"
  shows "turns_left (s1\<lparr>rp_clock := fold min later t\<rparr>) < turns_left s"
proof -
  let ?s' = "s1\<lparr>rp_clock := fold min later t\<rparr>"
  have less: "length (later_releases ?s') < length (later_releases s1)"
    by (rule later_releases_advance [OF assms(1)])
  from assms(3) show ?thesis
  proof
    assume "length (rp_pending s1) < length (rp_pending s)"
    then have "Suc (length (rp_pending s1)) * Suc (length (rp_releases s)) \<le>
        length (rp_pending s) * Suc (length (rp_releases s))"
      by (intro mult_le_mono1) simp
    then show ?thesis
      using less later_releases_bound [of s1] assms(2) by (simp add: turns_left_def)
  qed (use less assms(2) in \<open>simp add: turns_left_def\<close>)
qed

lemma cards_shared_ok:
  "set us \<subseteq> fst ` set is_shared \<Longrightarrow>
     cards_shared is_shared us = Inr (map (\<lambda>u. the (map_of is_shared u)) us)"
proof (induction us)
  case (Cons u us)
  then have "map_of is_shared u \<noteq> None" by (simp add: map_of_eq_None_iff)
  with Cons show ?case by auto
qed simp

lemma set_pick: "length ss = length us \<Longrightarrow> set (pick b us ss) \<subseteq> set us"
  by (auto simp: pick_def dest: set_zip_leftD)


text \<open>A board and a replay on which nothing may be stopped: no filler is queued or running.\<close>

definition plain :: "board \<Rightarrow> replay \<Rightarrow> bool" where
  "plain b s \<longleftrightarrow> rp_stoppable s = [] \<and> (\<forall>r \<in> set (rp_pending s). \<not> rq_fills r) \<and>
     distinct (map rq_job_id (rp_pending s)) \<and> distinct (map fst (rp_releases s)) \<and>
     fst ` set (rp_releases s) = fst ` set (bd_is_shared b)"

lemma pick_disjoint:
  assumes "distinct us" and "length ss = length us"
  shows "distinct (pick b us ss)" and "set (pick False us ss) \<inter> set (pick True us ss) = {}"
proof -
  have inj: "distinct (map fst (zip us ss))" using assms by simp
  then show "distinct (pick b us ss)" unfolding pick_def by (rule distinct_map_filter)
  show "set (pick False us ss) \<inter> set (pick True us ss) = {}"
    using inj by (fastforce simp: pick_def distinct_map inj_on_def)
qed

lemma replay_pool_wf:
  assumes "distinct free" and "length ss = length free"
  shows "pool_wf (replay_pool b st free ss)" and "offered (replay_pool b st free ss) \<subseteq> set free"
proof -
  have [simp]: "reading (replay_pool b st free ss) = pick True free ss"
    "owned_free (replay_pool b st free ss) = pick False free ss"
    by (simp_all add: replay_pool_def reading_def borrowable_def)
  show "pool_wf (replay_pool b st free ss)"
    using pick_disjoint [OF assms] by (simp add: pool_wf_def)
  show "offered (replay_pool b st free ss) \<subseteq> set free"
    using set_pick [OF assms(2)] by (simp add: offered_def)
qed

lemma plan_cards_offered:
  assumes "pool_wf p" and "d \<in> set (plan rs p)"
  shows "decision_cards d \<subseteq> offered p"
proof -
  from assms(2) obtain i where "i < length rs" "d = plan rs p ! i"
    by (auto simp: in_set_conv_nth)
  with pw.run_takes_from_start [of "start_walk p" i rs] assms(1) show ?thesis
    by (simp add: plan_def)
qed

lemma enough_to_start_Nil [simp]: "enough_to_start [] key g borrows = []"
  by (simp add: enough_to_start_def sorted_desc_def)

lemma plan_preempts_Nil:
  assumes "pool_wf p" and "preemptables p = []"
  shows "stuck_preempts (plan rs p) = []"
proof -
  have "ps = []" if d: "Holds j a b g ps \<in> set (plan rs p)" for j a b g ps
  proof -
    from d obtain i where i: "i < length rs" "plan rs p ! i = Holds j a b g ps"
      by (auto simp: in_set_conv_nth)
    have le: "walk_le (walk_at rs p i) (start_walk p)" by (rule walk_at_le [OF assms(1)])
    have "plan_one (rs ! i) (walk_at rs p i) = (Holds j a b g ps, snd (plan_one (rs ! i) (walk_at rs p i)))"
      using i by (metis plan_nth prod.collapse)
    from plan_one_holds [OF this] le assms(2) show ?thesis
      by (auto simp: walk_le_def split: if_splits)
  qed
  moreover have "stuck_preempts ds = []" if "\<forall>j a b g ps. Holds j a b g ps \<in> set ds \<longrightarrow> ps = []" for ds
    using that by (induction ds rule: stuck_preempts.induct) (auto split: if_splits)
  ultimately show ?thesis by blast
qed

lemma releases_foldl:
  assumes "set us \<subseteq> fst ` set rel"
  shows "fst ` set (foldl (\<lambda>d u. AList.update u v d) rel us) = fst ` set rel"
    and "length (foldl (\<lambda>d u. AList.update u v d) rel us) = length rel"
    and "distinct (map fst rel) \<Longrightarrow> distinct (map fst (foldl (\<lambda>d u. AList.update u v d) rel us))"
proof -
  have len: "length (AList.update u v rel) = length rel" if "u \<in> fst ` set rel" for u and rel
    using that by (induction rel) auto
  have "fst ` set (foldl (\<lambda>d u. AList.update u v d) rel us) = fst ` set rel \<and>
      length (foldl (\<lambda>d u. AList.update u v d) rel us) = length rel \<and>
      (distinct (map fst rel) \<longrightarrow> distinct (map fst (foldl (\<lambda>d u. AList.update u v d) rel us)))"
    using assms
    by (induction us arbitrary: rel) (auto simp: len insert_absorb distinct_update)
  then show "fst ` set (foldl (\<lambda>d u. AList.update u v d) rel us) = fst ` set rel"
    and "length (foldl (\<lambda>d u. AList.update u v d) rel us) = length rel"
    and "distinct (map fst rel) \<Longrightarrow> distinct (map fst (foldl (\<lambda>d u. AList.update u v d) rel us))"
    by simp_all
qed

text \<open>Starting the assigned jobs of a plain replay succeeds and keeps it plain.\<close>

lemma start_one_plain:
  assumes "plain b s" and "by_id j = Some r" and "r \<in> set (rp_pending s)"
    and "set gpus \<subseteq> fst ` set (rp_releases s)"
  obtains s' where "start_one sh by_id j gpus s = Inr s'" "plain b s'"
    "rp_pending s' = remove1 r (rp_pending s)" "length (rp_releases s') = length (rp_releases s)"
    "fst ` set (rp_releases s') = fst ` set (rp_releases s)"
proof -
  have "\<not> rq_fills r" using assms(1,3) by (simp add: plain_def)
  then have "\<exists>s'. start_one sh by_id j gpus s = Inr s'"
    using assms(2,3) by (simp add: start_one_def Let_def)
  then obtain s' where s': "start_one sh by_id j gpus s = Inr s'" ..
  then obtain r' where r': "by_id j = Some r'" "rp_pending s' = remove1 r' (rp_pending s)"
    "rp_releases s' = foldl (\<lambda>d u. AList.update u (map_option (\<lambda>e. rp_clock s + e) (rq_estimate_s r')) d)
       (rp_releases s) gpus"
    "\<not> rq_fills r' \<longrightarrow> rp_stoppable s' = rp_stoppable s \<and> rp_ends s' = rp_ends s"
    by (rule start_one_facts)
  have [simp]: "r' = r" using r'(1) assms(2) by simp
  note rel = releases_foldl [OF assms(4), of "map_option (\<lambda>e. rp_clock s + e) (rq_estimate_s r')"]
  have "distinct (map rq_job_id (remove1 r (rp_pending s)))"
    using assms(1) by (auto simp: plain_def distinct_map distinct_remove1 intro: inj_on_diff)
  then have "plain b s'"
    using assms(1) r' rel \<open>\<not> rq_fills r\<close> set_remove1_subset [of r "rp_pending s"]
    by (auto simp: plain_def)
  then show ?thesis using that s' r'(2,3) rel by simp
qed

lemma start_all_plain:
  assumes "plain b s" and "distinct (map decision_job ds)"
    and "\<forall>d \<in> set ds. \<exists>r \<in> set (rp_pending s). by_id (decision_job d) = Some r \<and> rq_job_id r = decision_job d"
    and "\<forall>d \<in> set ds. decision_cards d \<subseteq> fst ` set (rp_releases s)"
  shows "\<exists>s'. start_all sh by_id ds s = Inr s' \<and> plain b s' \<and>
    length (rp_releases s') = length (rp_releases s) \<and>
    (if \<exists>d \<in> set ds. is_assigned d then length (rp_pending s') < length (rp_pending s) else s' = s)"
  using assms
proof (induction ds arbitrary: s)
  case (Cons d ds)
  show ?case
  proof (cases d)
    case (Assigned j gpus hs)
    from Cons.prems(3) obtain r where r: "r \<in> set (rp_pending s)" "by_id j = Some r" "rq_job_id r = j"
      unfolding Assigned by auto
    have g: "set gpus \<subseteq> fst ` set (rp_releases s)" using Cons.prems(4) Assigned by simp
    from start_one_plain [of b s by_id j r gpus sh, OF Cons.prems(1) r(2,1) g] obtain s1 where
      s1: "start_one sh by_id j gpus s = Inr s1" "plain b s1" "rp_pending s1 = remove1 r (rp_pending s)"
      "length (rp_releases s1) = length (rp_releases s)"
      "fst ` set (rp_releases s1) = fst ` set (rp_releases s)" .
    have "\<forall>d \<in> set ds. \<exists>r \<in> set (rp_pending s1).
        by_id (decision_job d) = Some r \<and> rq_job_id r = decision_job d"
    proof
      fix d' assume d': "d' \<in> set ds"
      with Cons.prems(3) obtain r' where r': "r' \<in> set (rp_pending s)"
        "by_id (decision_job d') = Some r'" "rq_job_id r' = decision_job d'" by auto
      moreover have "decision_job d' \<noteq> j" using Cons.prems(2) d' Assigned by force
      ultimately show "\<exists>r \<in> set (rp_pending s1). by_id (decision_job d') = Some r \<and> rq_job_id r = decision_job d'"
        using s1(3) r(3) by (metis in_remove1_or_eq)
    qed
    from Cons.IH [OF s1(2) _ this] Cons.prems(2,4) s1(5) obtain s' where
      s': "start_all sh by_id ds s1 = Inr s'" "plain b s'" "length (rp_releases s') = length (rp_releases s1)"
      "if \<exists>d \<in> set ds. is_assigned d then length (rp_pending s') < length (rp_pending s1) else s' = s1"
      by auto
    have "length (rp_pending s1) < length (rp_pending s)"
      using s1(3) r(1) length_pos_if_in_set [OF r(1)] by (simp add: length_remove1)
    then have "length (rp_pending s') < length (rp_pending s)"
      using s'(4) by (auto split: if_splits)
    with s1 s' Assigned show ?thesis by auto
  qed (use Cons in auto)
qed simp


lemma by_id_distinct:
  assumes "distinct (map rq_job_id rs)" and "r \<in> set rs"
  shows "by_id_of rs (rq_job_id r) = Some r"
  using assms unfolding by_id_of_def by (intro map_of_is_SomeI) (auto simp: rev_map [symmetric] comp_def)

lemma replay_turn_plain:
  assumes "plain b s"
  shows "\<exists>s' again. replay_turn b s = Inr (s', again) \<and> plain b s' \<and>
    (again \<longrightarrow> turns_left s' < turns_left s)"
proof -
  let ?free = "free_now s"
  let ?ss = "map (\<lambda>u. the (map_of (bd_is_shared b) u)) ?free"
  let ?pool = "replay_pool b [] ?free ?ss"
  let ?ds = "plan (rp_pending s) ?pool"
  let ?s0 = "s\<lparr>rp_stoppable := [], rp_decisions := ?ds\<rparr>"
  let ?by = "by_id_of (rp_pending s)"
  have p: "rp_stoppable s = []" "distinct (map rq_job_id (rp_pending s))"
    "distinct (map fst (rp_releases s))" "fst ` set (rp_releases s) = fst ` set (bd_is_shared b)"
    using assms by (simp_all add: plain_def)
  have free: "distinct ?free" "set ?free \<subseteq> fst ` set (rp_releases s)"
    using p(3) by (auto simp: free_now_def intro: distinct_map_filter)
  have wf: "pool_wf ?pool" "offered ?pool \<subseteq> set ?free"
    using replay_pool_wf [OF free(1), of ?ss] by simp_all
  have plain0: "plain b ?s0" using assms by (simp add: plain_def)
  have jobs: "map decision_job ?ds = map rq_job_id (rp_pending s)"
    by (rule nth_equalityI) (simp_all add: plan_nth plan_one_job)
  have by_id: "\<forall>d \<in> set ?ds. \<exists>r \<in> set (rp_pending ?s0). ?by (decision_job d) = Some r \<and> rq_job_id r = decision_job d"
  proof
    fix d assume "d \<in> set ?ds"
    then have "decision_job d \<in> set (map rq_job_id (rp_pending s))"
      unfolding jobs [symmetric] by simp
    then obtain r where "r \<in> set (rp_pending s)" "rq_job_id r = decision_job d" by auto
    with by_id_distinct [OF p(2) this(1)]
    show "\<exists>r \<in> set (rp_pending ?s0). ?by (decision_job d) = Some r \<and> rq_job_id r = decision_job d"
      by auto
  qed
  have cards: "\<forall>d \<in> set ?ds. decision_cards d \<subseteq> fst ` set (rp_releases ?s0)"
    using plan_cards_offered [OF wf(1)] wf(2) free(2) by fastforce
  have dist: "distinct (map decision_job ?ds)" using jobs p(2) by simp
  from start_all_plain [OF plain0 dist by_id cards, of "bd_is_shared b"] obtain s1 where
    s1: "start_all (bd_is_shared b) ?by ?ds ?s0 = Inr s1" "plain b s1"
      "length (rp_releases s1) = length (rp_releases ?s0)"
      "if \<exists>d \<in> set ?ds. is_assigned d then length (rp_pending s1) < length (rp_pending ?s0) else s1 = ?s0"
    by (elim exE conjE)
  have "still_stoppable s = Inr []" using p(1) by (simp add: still_stoppable_def)
  moreover have "cards_shared (bd_is_shared b) ?free = Inr ?ss"
    using cards_shared_ok free(2) p(4) by blast
  moreover have "stuck_preempts ?ds = []"
    by (rule plan_preempts_Nil [OF wf(1)]) (simp add: replay_pool_def)
  moreover have "s\<lparr>rp_stoppable := []\<rparr> = s" using p(1) by simp
  ultimately have turn: "replay_turn b s = (case later_releases s1 of [] \<Rightarrow> Inr (s1, False)
      | t # later \<Rightarrow> Inr (s1\<lparr>rp_clock := fold min later t\<rparr>, True))"
    using s1(1) by (simp add: replay_turn_def Let_def)
  show ?thesis
  proof (cases "later_releases s1")
    case Nil
    then show ?thesis using turn s1(2) by (intro exI [of _ s1] exI [of _ False]) simp
  next
    case (Cons t later)
    let ?s' = "s1\<lparr>rp_clock := fold min later t\<rparr>"
    have "length (rp_pending s1) < length (rp_pending s) \<or>
        rp_pending s1 = rp_pending s \<and> later_releases s1 = later_releases s"
      using s1(4) by (cases "\<exists>d \<in> set ?ds. is_assigned d") (simp_all add: later_releases_def)
    moreover have "length (rp_releases s1) = length (rp_releases s)" using s1(3) by simp
    ultimately have "turns_left ?s' < turns_left s" using turns_left_advance [OF Cons] by blast
    moreover have "plain b ?s'" using s1(2) by (simp add: plain_def)
    ultimately show ?thesis using turn Cons by (intro exI [of _ ?s'] exI [of _ True]) simp
  qed
qed

lemma replay_loop_plain:
  "plain b s \<Longrightarrow> turns_left s < fuel \<Longrightarrow> \<exists>s'. replay_loop fuel b s = Some (Inr s')"
proof (induction fuel arbitrary: s)
  case (Suc n)
  from replay_turn_plain [OF Suc.prems(1)] obtain s1 again where
    t: "replay_turn b s = Inr (s1, again)" "plain b s1" "again \<longrightarrow> turns_left s1 < turns_left s"
    by blast
  then show ?case
    using Suc.IH [OF t(2)] Suc.prems(2) by (cases again) (auto simp: replay_loop.simps)
qed simp

lemma project_start_plain:
  assumes "\<forall>r \<in> set requests. \<not> rq_fills r" and "distinct (map rq_job_id requests)"
  shows "plain (project_board cards om sm n) (project_start requests cards [])"
  using assms by (simp add: plain_def project_board_def project_start_def Let_def dict_of_def [of "[]"] image_image)

lemma turns_left_project:
  "turns_left (project_start requests cards []) < Suc (length requests) * Suc (length cards)"
proof -
  have len: "length (foldl (\<lambda>d kv. AList.update (fst kv) (snd kv) d) d kvs) \<le> length d + length kvs"
    for d :: "('a \<times> 'b) list" and kvs
  proof (induction kvs arbitrary: d)
    case (Cons kv kvs)
    have "length (AList.update k v d) \<le> Suc (length d)" for k :: 'a and v :: 'b
      by (induction d) auto
    with Cons [of "AList.update (fst kv) (snd kv) d"] show ?case
      by (simp add: order_trans [OF Cons])
  qed simp
  let ?s = "project_start requests cards []"
  have rel: "length (rp_releases ?s) \<le> length cards"
    using len [of "[]" "map (\<lambda>c. (card_uuid c, card_release_s c)) cards"]
    by (simp add: project_start_def Let_def dict_of_def)
  have pend: "rp_pending ?s = requests" by (simp add: project_start_def Let_def)
  have "length requests * length (rp_releases ?s) \<le> length requests * length cards"
    by (rule mult_le_mono2 [OF rel])
  then show ?thesis
    unfolding turns_left_def pend mult_Suc mult_Suc_right
    using rel later_releases_bound [of ?s] by linarith
qed


section \<open>The first pass is a dispatch pass\<close>

text \<open>A start, once given, is never moved.\<close>

lemma start_all_starts:
  assumes "start_all sh by_id ds s = Inr s'" and "\<forall>j r. by_id j = Some r \<longrightarrow> rq_job_id r = j"
  shows "map_of (rp_starts s) \<subseteq>\<^sub>m map_of (rp_starts s') \<and>
    (\<forall>d \<in> set ds. is_assigned d \<longrightarrow> map_of (rp_starts s) (decision_job d) = None \<longrightarrow>
       map_of (rp_starts s') (decision_job d) = Some (rp_clock s))"
  using assms(1)
proof (induction ds arbitrary: s)
  case (Cons d ds)
  show ?case
  proof (cases d)
    case (Assigned j gpus hs)
    with Cons.prems obtain s1 where one: "start_one sh by_id j gpus s = Inr s1"
      and rest: "start_all sh by_id ds s1 = Inr s'" by (auto split: sum.splits)
    from one obtain r where r: "by_id j = Some r"
      "rp_starts s1 = setdefault (rq_job_id r) (rp_clock s) (rp_starts s)" "rp_clock s1 = rp_clock s"
      by (rule start_one_facts)
    have id: "rq_job_id r = j" using assms(2) r(1) by simp
    have st: "map_of (rp_starts s1) = (map_of (rp_starts s))(j :=
        Some (case map_of (rp_starts s) j of Some w \<Rightarrow> w | None \<Rightarrow> rp_clock s))"
      using r(2) id by (simp add: map_of_setdefault)
    then have up: "map_of (rp_starts s) \<subseteq>\<^sub>m map_of (rp_starts s1)"
      by (auto simp: map_le_def)
    note IH = Cons.IH [OF rest]
    have "map_of (rp_starts s') (decision_job d') = Some (rp_clock s)"
      if "d' \<in> set (d # ds)" "is_assigned d'" "map_of (rp_starts s) (decision_job d') = None" for d'
    proof (cases "decision_job d' = j")
      case True
      then have "map_of (rp_starts s1) j = Some (rp_clock s)" using st that(3) by simp
      then show ?thesis using IH True by (metis domI map_le_def)
    next
      case False
      then have "map_of (rp_starts s1) (decision_job d') = None" "d' \<in> set ds"
        using st that Assigned by auto
      then show ?thesis using IH that(2) r(3) by simp
    qed
    then show ?thesis using IH up map_le_trans by blast
  qed (use Cons in auto)
qed simp

lemma replay_turn_starts:
  assumes "replay_turn b s = Inr (s', again)"
  shows "map_of (rp_starts s) \<subseteq>\<^sub>m map_of (rp_starts s')"
proof -
  from assms obtain stoppable ss s1 where
    "still_stoppable s = Inr stoppable"
    and "cards_shared (bd_is_shared b) (free_now s) = Inr ss"
    and s1: "start_all (bd_is_shared b) (by_id_of (rp_pending s))
       (plan (rp_pending s) (replay_pool b stoppable (free_now s) ss))
       (s\<lparr>rp_stoppable := stoppable,
          rp_decisions := plan (rp_pending s) (replay_pool b stoppable (free_now s) ss)\<rparr>) = Inr s1"
    and stop: "\<not> again \<longrightarrow> s' = s1 \<and> later_releases s1 = []"
    and again: "again \<longrightarrow>
       (\<exists>js s2. js \<noteq> [] \<and> js = stuck_preempts (plan (rp_pending s) (replay_pool b stoppable (free_now s) ss)) \<and>
          stop_all js s1 = Inr s2 \<and> s' = s2\<lparr>rp_pending := sort_key rq_key (rp_pending s2)\<rparr>) \<or>
       (\<exists>t later. later_releases s1 = t # later \<and> s' = s1\<lparr>rp_clock := fold min later t\<rparr>)"
    by (rule replay_turn_cases)
  from start_all_starts [OF s1 by_id_job] have "map_of (rp_starts s) \<subseteq>\<^sub>m map_of (rp_starts s1)"
    by simp
  moreover have "rp_starts s' = rp_starts s1"
    using stop again by (cases again) (auto dest: stop_all_facts)
  ultimately show ?thesis by simp
qed


lemma replay_loop_starts:
  "replay_loop fuel b s = Some (Inr s') \<Longrightarrow> map_of (rp_starts s) \<subseteq>\<^sub>m map_of (rp_starts s')"
proof (induction fuel arbitrary: s)
  case 0
  then show ?case by (simp add: replay_loop.simps split: if_splits)
next
  case (Suc n)
  show ?case
  proof (cases "rp_pending s = []")
    case True
    with Suc.prems show ?thesis by (simp add: replay_loop.simps)
  next
    case False
    with Suc.prems obtain s1 again where turn: "replay_turn b s = Inr (s1, again)"
      and rest: "if again then replay_loop n b s1 = Some (Inr s') else s' = s1"
      by (auto simp: replay_loop.simps split: sum.splits prod.splits if_splits)
    from replay_turn_starts [OF turn] rest Suc.IH [of s1] show ?thesis
      by (auto split: if_splits intro: map_le_trans)
  qed
qed

text \<open>
  The pool a dispatch pass would build from these cards now: free are the cards nothing
  holds, the shared ones read as free are the shared ones nothing holds.
\<close>

definition free_at_once :: "card \<Rightarrow> bool" where
  "free_at_once c = (case card_release_s c of Some t \<Rightarrow> t \<le> 0 | None \<Rightarrow> False)"

definition pool_now :: "card list \<Rightarrow> string list \<Rightarrow> string list \<Rightarrow> nat \<Rightarrow> pool" where
  "pool_now cards owned_missing shared_missing n_theirs =
     \<lparr>owned_free = map card_uuid (filter (\<lambda>c. free_at_once c \<and> \<not> card_shared c) cards),
      owned_present = length (filter (\<lambda>c. \<not> card_shared c) cards),
      shared_visible = length (filter card_shared cards) + n_theirs,
      owned_absent = owned_missing, shared_absent = shared_missing, sample = None,
      shared = card_uuid ` set (filter card_shared cards), coming = [], preemptables = [],
      shared_free = Some (map card_uuid (filter (\<lambda>c. free_at_once c \<and> card_shared c) cards)),
      theirs = n_theirs\<rparr>"

lemma replay_pool_now:
  fixes requests :: "request list" and om sm :: "string list" and n :: nat
  assumes "distinct (map card_uuid cards)"
  defines "s \<equiv> project_start requests cards []" and "b \<equiv> project_board cards om sm n"
  shows "\<exists>ss. cards_shared (bd_is_shared b) (free_now s) = Inr ss \<and>
    replay_pool b [] (free_now s) ss = pool_now cards om sm n"
proof -
  let ?free = "filter free_at_once cards"
  let ?sh = "map (\<lambda>c. (card_uuid c, card_shared c)) cards"
  have dist: "distinct (map fst ?sh)" "distinct (map fst (map (\<lambda>c. (card_uuid c, card_release_s c)) cards))"
    using assms(1) by (simp_all add: comp_def)
  have sh: "bd_is_shared b = ?sh" unfolding b_def by (simp add: project_board_def dict_of_distinct [OF dist(1)])
  have "free_now s = map fst (filter (\<lambda>e. case snd e of Some t \<Rightarrow> t \<le> 0 | None \<Rightarrow> False)
      (map (\<lambda>c. (card_uuid c, card_release_s c)) cards))"
    unfolding s_def
    by (simp add: project_start_def Let_def dict_of_distinct [OF dist(2)] free_now_def cong: option.case_cong)
  then have free: "free_now s = map card_uuid ?free"
    by (simp add: filter_map comp_def free_at_once_def [abs_def])
  have look: "map_of ?sh (card_uuid c) = Some (card_shared c)" if "c \<in> set cards" for c
    using that dist(1) by (intro map_of_is_SomeI) (auto simp: comp_def)
  have ss: "cards_shared ?sh (map card_uuid cs) = Inr (map card_shared cs)" if "set cs \<subseteq> set cards" for cs
    using that by (induction cs) (simp_all add: look)
  have pick: "pick b (map card_uuid cs) (map card_shared cs) =
      map card_uuid (filter (\<lambda>c. card_shared c = b) cs)" for b cs
    by (induction cs) (simp_all add: pick_def)
  have "cards_shared (bd_is_shared b) (free_now s) = Inr (map card_shared ?free)"
    unfolding sh free by (rule ss) auto
  moreover have "replay_pool b [] (free_now s) (map card_shared ?free) = pool_now cards om sm n"
    unfolding replay_pool_def free pick
    by (simp add: b_def project_board_def dict_of_distinct [OF dist(1)] pool_now_def filter_map comp_def image_image
        conj_commute)
  ultimately show ?thesis by blast
qed

lemma project_first_pass_start:
  assumes "replay_loop fuel (project_board cards om sm n) (project_start requests cards []) = Some (Inr s)"
    and "distinct (map card_uuid cards)" and "Assigned j gpus hs \<in> set (plan requests (pool_now cards om sm n))"
  shows "map_of (rp_starts s) j = Some 0"
proof -
  let ?b = "project_board cards om sm n" and ?s = "project_start requests cards []"
  have init: "rp_pending ?s = requests" "rp_starts ?s = []" "rp_clock ?s = 0" "still_stoppable ?s = Inr []"
    by (simp_all add: project_start_def Let_def still_stoppable_def dict_of_def)
  from replay_pool_now [OF assms(2)] obtain ss where
    ss: "cards_shared (bd_is_shared ?b) (free_now ?s) = Inr ss"
      "replay_pool ?b [] (free_now ?s) ss = pool_now cards om sm n" by blast
  have "requests \<noteq> []" using assms(3) by (auto simp: plan_def)
  with assms(1) init(1) obtain m s1 again where turn: "replay_turn ?b ?s = Inr (s1, again)"
    and rest: "if again then replay_loop m ?b s1 = Some (Inr s) else s = s1"
    by (cases fuel) (auto simp: replay_loop.simps split: sum.splits prod.splits if_splits)
  from turn obtain st ss' s2 where t:
    "still_stoppable ?s = Inr st" "cards_shared (bd_is_shared ?b) (free_now ?s) = Inr ss'"
    "start_all (bd_is_shared ?b) (by_id_of (rp_pending ?s))
       (plan (rp_pending ?s) (replay_pool ?b st (free_now ?s) ss'))
       (?s\<lparr>rp_stoppable := st,
          rp_decisions := plan (rp_pending ?s) (replay_pool ?b st (free_now ?s) ss')\<rparr>) = Inr s2"
    "rp_starts s1 = rp_starts s2"
    by (rule replay_turn_cases) (cases again; auto dest: stop_all_facts)
  have same: "st = []" "ss' = ss" using t(1,2) init(4) ss(1) by auto
  have "map_of (rp_starts s2) j = Some 0"
    using start_all_starts [OF t(3) by_id_job] assms(3) ss(2) init unfolding same by fastforce
  moreover have "map_of (rp_starts s1) \<subseteq>\<^sub>m map_of (rp_starts s)"
    using rest replay_loop_starts by (auto split: if_splits)
  ultimately show ?thesis using t(4) by (metis domI map_le_def)
qed


lemma project_result:
  assumes "project fuel requests cards om sm n running False = Some (Inr pr)"
  defines "already \<equiv> set (map (\<lambda>x. pe_job_id (fst x)) running)"
  obtains s where
    "replay_loop fuel (project_board cards om sm n) (project_start requests cards running) = Some (Inr s)"
    "starts_in_s pr = filter (\<lambda>x. fst x \<notin> already) (rp_starts s)"
    "unknown pr = unknown_reasons (rp_decisions s) (filter (\<lambda>r. rq_job_id r \<notin> already) (rp_pending s))"
proof -
  let ?loop = "replay_loop fuel (project_board cards om sm n) (project_start requests cards running)"
  from assms(1) obtain x where x: "?loop = Some x" by (auto simp: project_def Let_def)
  with assms(1) obtain s where s: "x = Inr s" by (cases x) (auto simp: project_def Let_def)
  show ?thesis
    by (rule that [of s]) (use assms(1) x s in \<open>auto simp: project_def Let_def already_def\<close>)
qed

section \<open>A board to try the replay on\<close>

text \<open>
  One owned card free now, one until its job's eta in ten minutes, one whose job gave no
  end; \<open>a\<close> starts at once for five minutes, \<open>b\<close> wants two cards and waits for the eta,
  \<open>c\<close> wants three and nothing can say when.
\<close>

definition demo_replay_cards :: "card list" where
  "demo_replay_cards =
     [\<lparr>card_uuid = ''A'', card_shared = False, card_release_s = Some 0\<rparr>,
      \<lparr>card_uuid = ''B'', card_shared = False, card_release_s = Some 600\<rparr>,
      \<lparr>card_uuid = ''C'', card_shared = False, card_release_s = None\<rparr>]"

definition demo_replay_requests :: "request list" where
  "demo_replay_requests =
     [(demo_request ''a'' 1 False False 1)\<lparr>rq_estimate_s := Some 300\<rparr>,
      demo_request ''b'' 2 False False 2, demo_request ''c'' 3 False False 3]"

lemma demo_replay_facts:
  "distinct (map card_uuid demo_replay_cards)"
  "\<forall>r \<in> set demo_replay_requests. \<not> rq_fills r"
  "distinct (map rq_job_id demo_replay_requests)"
  "length demo_replay_requests = 3" "length demo_replay_cards = 3"
  by (simp_all add: demo_replay_cards_def demo_replay_requests_def demo_request_def)

definition demo_projection :: projection where
  "demo_projection =
     \<lparr>starts_in_s = [(''a'', 0), (''b'', 600)],
      unknown = [(''c'', ''the jobs holding the cards it needs gave no end time'')],
      pj_yields_to = []\<rparr>"

lemma demo_project:
  "project 16 demo_replay_requests demo_replay_cards [] [] 0 [] False = Some (Inr demo_projection)"
  by code_simp

lemma demo_pool_now_plan:
  "plan demo_replay_requests (pool_now demo_replay_cards [] [] 0) =
     [Assigned ''a'' [''A''] [], Holds ''b'' 0 0 2 [], Holds ''c'' 0 0 3 []]"
  by code_simp

section \<open>Properties of the projection\<close>

text \<open>
  C11. The projection ends and raises nothing when no job may be stopped: if no queued job
  is a filler and nothing running is, and the job ids are distinct, the replay returns
  after at most \<open>(n + 1) * (c + 1)\<close> turns for \<open>n\<close> queued jobs and \<open>c\<close> cards.
\<close>

theorem project_terminates:
  assumes "\<forall>r \<in> set requests. \<not> rq_fills r" and "distinct (map rq_job_id requests)"
    and "fuel \<ge> Suc (length requests) * Suc (length cards)"
  shows "\<exists>pr. project fuel requests cards om sm n [] draining = Some (Inr pr)"
proof -
  have "turns_left (project_start requests cards []) < fuel"
    using turns_left_project [of requests cards] assms(3) by linarith
  from replay_loop_plain [OF project_start_plain [OF assms(1,2)] this, of om sm n] obtain s where
    "replay_loop fuel (project_board cards om sm n) (project_start requests cards []) = Some (Inr s)" ..
  then show ?thesis by (cases draining) (simp_all add: project_def Let_def)
qed

theorem project_terminates_witness:
  "\<exists>pr. project 16 demo_replay_requests demo_replay_cards [] [] 0 [] False = Some (Inr pr)"
  using project_terminates [OF demo_replay_facts(2,3), of demo_replay_cards 16 "[]" "[]" 0]
  by (simp add: demo_replay_facts)

text \<open>
  No queued job is left out of an answer: when the projection returns, each queued job
  that is not also one of the running ones has a start time or a reason for having none.
\<close>

theorem project_accounts_for_every_job:
  assumes "project fuel requests cards om sm n running draining = Some (Inr pr)"
    and "r \<in> set requests" and "\<forall>(p, q) \<in> set running. pe_job_id p \<noteq> rq_job_id r"
  shows "rq_job_id r \<in> fst ` set (starts_in_s pr) \<union> fst ` set (unknown pr)"
proof (cases draining)
  case True
  then show ?thesis using assms(1,2) by (auto simp: project_def image_image)
next
  case False
  let ?already = "set (map (\<lambda>x. pe_job_id (fst x)) running)"
  have fresh: "rq_job_id r \<notin> ?already" using assms(3) by auto
  from assms(1) False have ret: "project fuel requests cards om sm n running False = Some (Inr pr)"
    by simp
  from project_result [OF ret] obtain s where
    loop: "replay_loop fuel (project_board cards om sm n) (project_start requests cards running) = Some (Inr s)"
    and st: "starts_in_s pr = filter (\<lambda>x. fst x \<notin> ?already) (rp_starts s)"
    and un: "unknown pr = unknown_reasons (rp_decisions s) (filter (\<lambda>r. rq_job_id r \<notin> ?already) (rp_pending s))"
    .
  note fin = replay_loop_accounted [OF loop project_start_accounted]
  show ?thesis
  proof (cases "rq_job_id r \<in> started s")
    case True
    then show ?thesis using st fresh by force
  next
    case False
    then have pend: "r \<in> set (rp_pending s)" using fin assms(2) by (auto simp: accounted_def)
    with fin False obtain d where "d \<in> set (rp_decisions s)" "decision_job d = rq_job_id r" "\<not> is_assigned d"
      by (auto simp: answered_def)
    then show ?thesis
      using pend fresh unfolding un unknown_reasons_def reasons_loop_keys by force
  qed
qed

theorem project_accounts_witness:
  "''c'' \<in> fst ` set (starts_in_s demo_projection) \<union> fst ` set (unknown demo_projection)"
  using project_accounts_for_every_job [OF demo_project, of "demo_replay_requests ! 2"]
  by (simp add: demo_replay_requests_def demo_request_def)

text \<open>
  C12. The projection agrees with a dispatch pass made now: with no job to stop, every job
  the rule would start on the cards free at this moment is projected to start in 0 seconds.
\<close>

theorem project_starts_now:
  assumes "project fuel requests cards om sm n [] False = Some (Inr pr)"
    and "distinct (map card_uuid cards)"
    and "Assigned j gpus hs \<in> set (plan requests (pool_now cards om sm n))"
  shows "map_of (starts_in_s pr) j = Some 0"
proof -
  obtain s where
    loop: "replay_loop fuel (project_board cards om sm n) (project_start requests cards []) = Some (Inr s)"
    and st: "starts_in_s pr = rp_starts s"
    by (rule project_result [OF assms(1)]) simp
  from project_first_pass_start [OF loop assms(2,3)] st show ?thesis by simp
qed

theorem project_starts_now_witness:
  "map_of (starts_in_s demo_projection) ''a'' = Some 0"
  by (rule project_starts_now [OF demo_project demo_replay_facts(1), of _ "[''A'']" "[]"])
    (simp add: demo_pool_now_plan)

text \<open>
  A projection can raise: a running job that may be stopped and holds a card that
  nvidia-smi no longer reports is stopped for a waiting job, its missing card comes into
  \<open>releases\<close>, and the next turn looks that card up in \<open>is_shared\<close>, where it is not.
\<close>

theorem project_raises_on_dropped_card:
  "project 9 [demo_request ''a'' 1 False False 1]
     [\<lparr>card_uuid = ''A'', card_shared = False, card_release_s = None\<rparr>] [''B''] [] 0
     [(\<lparr>pe_job_id = ''p'', pe_priority = 90, pe_gpus = [''A'', ''B''], pe_started = 0,
        pe_owned = 1, pe_borrowed = 0\<rparr>, demo_request ''p'' 2 False True 90)] False =
   Some (Inl KeyError)"
  by code_simp

end
