(* ===== verification/PyValues.thy ===== *)
theory PyValues
  imports Prelude
begin

text \<open>
  The JSON values the host's files hold and what Python's \<open>float\<close>, \<open>int\<close>, \<open>bool\<close> and
  \<open>str\<close> make of them, as far as \<open>src/gpuc/host/jobs.py\<close> uses them, followed by its field
  readers \<open>as_float\<close> \<dots> \<open>as_str_dict\<close>. A float is a rational (every finite double is one),
  an infinity or NaN; the readers that convert an integer or a decimal to a float round it
  to the nearest double, ties to even, exactly as CPython does, and \<open>float\<close> of an integer
  beyond the doubles is \<open>OverflowError\<close>. Strings are ASCII. Two zeros are not told apart.
\<close>

datatype pyfloat = Fin rat | PosInf | NegInf | NaN

datatype json =
    JNull
  | JBool bool
  | JInt int
  | JFloat pyfloat
  | JStr string
  | JList "json list"
  | JDict "(string \<times> json) list"

section \<open>Results that may be an exception\<close>

definition bind_res :: "'a res \<Rightarrow> ('a \<Rightarrow> 'b res) \<Rightarrow> 'b res" where
  "bind_res m f = (case m of Inl e \<Rightarrow> Inl e | Inr x \<Rightarrow> f x)"

lemma bind_res_simps [simp]: "bind_res (Inl e) f = Inl e" "bind_res (Inr x) f = f x"
  by (simp_all add: bind_res_def)

lemma bind_res_Inr:
  assumes "bind_res m f = Inr y"
  obtains x where "m = Inr x" "f x = Inr y"
  using assms by (cases m) auto

fun map_res :: "('a \<Rightarrow> 'b res) \<Rightarrow> 'a list \<Rightarrow> 'b list res" where
  "map_res f [] = Inr []"
| "map_res f (x # xs) = bind_res (f x) (\<lambda>y. bind_res (map_res f xs) (\<lambda>ys. Inr (y # ys)))"

lemma map_res_Inr: "(\<And>x. x \<in> set xs \<Longrightarrow> f x = Inr (g x)) \<Longrightarrow> map_res f xs = Inr (map g xs)"
  by (induction xs) auto

section \<open>Doubles\<close>

function bit_len :: "int \<Rightarrow> int" where
  "bit_len n = (if n \<le> 0 then 0 else 1 + bit_len (n div 2))"
  by auto

termination bit_len
  by (relation "measure nat") auto

declare bit_len.simps [simp del]

text \<open>The nearest integer to \<open>n / d\<close>, ties to even.\<close>

definition round_half_even :: "int \<Rightarrow> int \<Rightarrow> int" where
  "round_half_even n d =
     (let q = n div d; r = n mod d
      in if 2 * r > d \<or> 2 * r = d \<and> odd q then q + 1 else q)"

text \<open>The largest finite double is below \<open>2 ^ 1024\<close>; past it a conversion overflows.\<close>

definition double_limit :: int where
  "double_limit = 2 ^ 1024"

text \<open>\<open>float(i)\<close>: 53 significant bits, \<open>OverflowError\<close> beyond the doubles.\<close>

definition round_to_53 :: "int \<Rightarrow> int" where
  "round_to_53 n =
     (let e = bit_len n - 53
      in if e \<le> 0 then n else round_half_even n (2 ^ nat e) * 2 ^ nat e)"

definition float_of_int :: "int \<Rightarrow> pyfloat res" where
  "float_of_int i =
     (let m = round_to_53 \<bar>i\<bar>
      in if m \<ge> double_limit then Inl OverflowError
         else Inr (Fin (of_int (if i < 0 then - m else m))))"

text \<open>
  The double nearest a non-negative fraction \<open>n / d\<close>: the exponent \<open>e\<close> is the least from
  \<open>-1074\<close> up at which the rounded significand has at most 53 bits.
\<close>

definition scaled :: "int \<Rightarrow> int \<Rightarrow> int \<Rightarrow> int" where
  "scaled n d e = (if e \<ge> 0 then round_half_even n (d * 2 ^ nat e) else round_half_even (n * 2 ^ nat (- e)) d)"

definition round_fraction :: "int \<Rightarrow> int \<Rightarrow> pyfloat" where
  "round_fraction n d =
     (let e0 = max (- 1074) (bit_len n - bit_len d - 53);
          e = (if scaled n d e0 < 2 ^ 53 then e0 else e0 + 1);
          m = scaled n d e;
          v = (if e \<ge> 0 then of_int (m * 2 ^ nat e) else Fract m (2 ^ nat (- e)))
      in if v \<ge> of_int double_limit then PosInf else Fin v)"

fun neg_float :: "pyfloat \<Rightarrow> pyfloat" where
  "neg_float (Fin r) = Fin (- r)"
| "neg_float PosInf = NegInf"
| "neg_float NegInf = PosInf"
| "neg_float NaN = NaN"

section \<open>Reading a decimal\<close>

definition is_digit :: "char \<Rightarrow> bool" where
  "is_digit c \<longleftrightarrow> CHR ''0'' \<le> c \<and> c \<le> CHR ''9''"

definition digit_val :: "char \<Rightarrow> int" where
  "digit_val c = of_char c - 48"

definition is_space :: "char \<Rightarrow> bool" where
  "is_space c \<longleftrightarrow> c = CHR '' '' \<or> (9 \<le> (of_char c :: nat) \<and> (of_char c :: nat) \<le> 13) \<or>
     (28 \<le> (of_char c :: nat) \<and> (of_char c :: nat) \<le> 31)"

definition lower :: "char \<Rightarrow> char" where
  "lower c = (if CHR ''A'' \<le> c \<and> c \<le> CHR ''Z'' then char_of ((of_char c :: nat) + 32) else c)"

definition strip :: "string \<Rightarrow> string" where
  "strip s = rev (dropWhile is_space (rev (dropWhile is_space s)))"

text \<open>A run of digits, an underscore allowed between two of them: the digits and the rest.\<close>

fun digits :: "string \<Rightarrow> int list \<times> string" where
  "digits [] = ([], [])"
| "digits [c] = (if is_digit c then ([digit_val c], []) else ([], [c]))"
| "digits (c # d # s) =
     (if \<not> is_digit c then ([], c # d # s)
      else if d = CHR ''_''
      then (case s of
          x # _ \<Rightarrow> if is_digit x then (let (ds, rest) = digits s in (digit_val c # ds, rest))
                  else ([digit_val c], d # s)
        | [] \<Rightarrow> ([digit_val c], d # s))
      else let (ds, rest) = digits (d # s) in (digit_val c # ds, rest))"

definition digits_val :: "int list \<Rightarrow> int" where
  "digits_val ds = foldl (\<lambda>v d. 10 * v + d) 0 ds"

definition sign_of :: "string \<Rightarrow> bool \<times> string" where
  "sign_of s =
     (case s of
        c # r \<Rightarrow> if c = CHR ''-'' then (True, r) else if c = CHR ''+'' then (False, r) else (False, s)
      | [] \<Rightarrow> (False, s))"

text \<open>The exponent part, \<open>None\<close> when what follows the digits is not one.\<close>

definition exponent :: "string \<Rightarrow> int option" where
  "exponent s =
     (case s of
        [] \<Rightarrow> Some 0
      | c # r \<Rightarrow>
          if lower c \<noteq> CHR ''e'' then None
          else (let (neg, body) = sign_of r; (ds, rest) = digits body
                in if ds = [] \<or> rest \<noteq> [] then None
                   else Some (if neg then - digits_val ds else digits_val ds)))"

definition unsigned_decimal :: "string \<Rightarrow> pyfloat option" where
  "unsigned_decimal s =
     (let (ip, rest) = digits s;
          (fp, rest') = (case rest of c # r \<Rightarrow> if c = CHR ''.'' then digits r else ([], rest) | [] \<Rightarrow> ([], rest))
      in if ip = [] \<and> fp = [] then None
         else map_option (\<lambda>e. let m = digits_val (ip @ fp); x = e - int (length fp)
                in if x \<ge> 0 then round_fraction (m * 10 ^ nat x) 1 else round_fraction m (10 ^ nat (- x)))
               (exponent rest'))"

text \<open>\<open>float(s)\<close>: \<open>None\<close> is \<open>ValueError\<close>.\<close>

definition float_of_str :: "string \<Rightarrow> pyfloat option" where
  "float_of_str s =
     (let (neg, body) = sign_of (strip s); word = map lower body;
          v = (if word = ''inf'' \<or> word = ''infinity'' then Some PosInf
               else if word = ''nan'' then Some NaN else unsigned_decimal body)
      in if neg then map_option neg_float v else v)"


section \<open>Writing a value: \<open>str\<close> and \<open>repr\<close>\<close>

text \<open>The power of ten just above a positive fraction.\<close>

definition decimal_point :: "int \<Rightarrow> int \<Rightarrow> int" where
  "decimal_point n d =
     (case filter (\<lambda>x. if x \<ge> 0 then n < d * 10 ^ nat x else n * 10 ^ nat (- x) < d) [- 330..310] of
        x # _ \<Rightarrow> x | [] \<Rightarrow> 0)"

text \<open>The fraction to \<open>k\<close> significant digits: the digits as a number and the decimal point.\<close>

definition to_digits :: "int \<Rightarrow> int \<Rightarrow> int \<Rightarrow> int \<times> int" where
  "to_digits n d k =
     (let x = decimal_point n d;
          m = (if k \<ge> x then round_half_even (n * 10 ^ nat (k - x)) d
               else round_half_even n (d * 10 ^ nat (x - k)))
      in if m = 10 ^ nat k then (m div 10, x + 1) else (m, x))"

definition from_digits :: "int \<times> int \<Rightarrow> int \<Rightarrow> pyfloat" where
  "from_digits mx k =
     (let e = snd mx - k in if e \<ge> 0 then round_fraction (fst mx * 10 ^ nat e) 1
      else round_fraction (fst mx) (10 ^ nat (- e)))"

text \<open>The shortest digits that read back as the same double.\<close>

definition shortest :: "int \<Rightarrow> int \<Rightarrow> string \<times> int" where
  "shortest n d =
     (let k = (case filter (\<lambda>k. from_digits (to_digits n d k) k = Fin (Fract n d)) [1..17] of
                 k # _ \<Rightarrow> k | [] \<Rightarrow> 17)
      in (nat_str (nat (fst (to_digits n d k))), snd (to_digits n d k)))"

definition place_point :: "string \<Rightarrow> int \<Rightarrow> string" where
  "place_point ds x =
     (if - 4 < x \<and> x \<le> 16
      then (if x \<le> 0 then ''0.'' @ replicate (nat (- x)) (CHR ''0'') @ ds
            else if nat x \<ge> length ds then ds @ replicate (nat x - length ds) (CHR ''0'') @ ''.0''
            else take (nat x) ds @ ''.'' @ drop (nat x) ds)
      else (let e = x - 1; mant = (if length ds = 1 then ds else take 1 ds @ ''.'' @ drop 1 ds);
                es = nat_str (nat \<bar>e\<bar>)
            in mant @ ''e'' @ (if e < 0 then ''-'' else ''+'') @ (if length es < 2 then ''0'' @ es else es)))"

fun float_repr :: "pyfloat \<Rightarrow> string" where
  "float_repr PosInf = ''inf''"
| "float_repr NegInf = ''-inf''"
| "float_repr NaN = ''nan''"
| "float_repr (Fin r) =
     (if r = 0 then ''0.0''
      else let (n, d) = quotient_of \<bar>r\<bar>; (ds, x) = shortest n d
           in (if r < 0 then ''-'' else []) @ place_point ds x)"

definition hex_digit :: "nat \<Rightarrow> char" where
  "hex_digit n = (if n < 10 then char_of (48 + n) else char_of (87 + n))"

definition escape_char :: "char \<Rightarrow> char \<Rightarrow> string" where
  "escape_char q c =
     (let n = (of_char c :: nat)
      in if c = q \<or> n = 92 then [char_of (92 :: nat), c]
         else if n = 10 then [char_of (92 :: nat), CHR ''n'']
         else if n = 13 then [char_of (92 :: nat), CHR ''r'']
         else if n = 9 then [char_of (92 :: nat), CHR ''t'']
         else if n < 32 \<or> n \<ge> 127
         then [char_of (92 :: nat), CHR ''x'', hex_digit (n div 16), hex_digit (n mod 16)]
         else [c])"

definition str_repr :: "string \<Rightarrow> string" where
  "str_repr s =
     (let single = char_of (39 :: nat); double = char_of (34 :: nat);
          q = (if single \<in> set s \<and> double \<notin> set s then double else single)
      in [q] @ concat (map (escape_char q) s) @ [q])"

fun json_repr :: "json \<Rightarrow> string" where
  "json_repr JNull = ''None''"
| "json_repr (JBool b) = (if b then ''True'' else ''False'')"
| "json_repr (JInt i) = int_str i"
| "json_repr (JFloat f) = float_repr f"
| "json_repr (JStr s) = str_repr s"
| "json_repr (JList xs) = ''['' @ join '', '' (map json_repr xs) @ '']''"
| "json_repr (JDict kvs) =
     ''{'' @ join '', '' (map (\<lambda>kv. str_repr (fst kv) @ '': '' @ json_repr (snd kv)) kvs) @ ''}''"

definition py_str :: "json \<Rightarrow> string" where
  "py_str v = (case v of JStr s \<Rightarrow> s | _ \<Rightarrow> json_repr v)"

fun py_bool :: "json \<Rightarrow> bool" where
  "py_bool JNull = False"
| "py_bool (JBool b) = b"
| "py_bool (JInt i) = (i \<noteq> 0)"
| "py_bool (JFloat f) = (f \<noteq> Fin 0)"
| "py_bool (JStr s) = (s \<noteq> [])"
| "py_bool (JList xs) = (xs \<noteq> [])"
| "py_bool (JDict kvs) = (kvs \<noteq> [])"

text \<open>\<open>float(value)\<close> and \<open>int(x)\<close>: \<open>None\<close> is \<open>TypeError\<close> or \<open>ValueError\<close>.\<close>

fun py_float :: "json \<Rightarrow> pyfloat option res" where
  "py_float (JInt i) = map_sum id Some (float_of_int i)"
| "py_float (JFloat f) = Inr (Some f)"
| "py_float (JStr s) = Inr (float_of_str s)"
| "py_float (JBool b) = Inr (Some (Fin (if b then 1 else 0)))"
| "py_float _ = Inr None"

definition trunc :: "rat \<Rightarrow> int" where
  "trunc r = (if r < 0 then - \<lfloor>- r\<rfloor> else \<lfloor>r\<rfloor>)"

text \<open>\<open>int(x)\<close> of a float; \<open>None\<close> is the \<open>OverflowError\<close> or \<open>ValueError\<close> of an
  infinity or NaN.\<close>

fun py_int :: "pyfloat \<Rightarrow> int option" where
  "py_int (Fin r) = Some (trunc r)"
| "py_int _ = None"

section \<open>The field readers\<close>

text \<open>A document that is not an object has no fields.\<close>

fun fields_of :: "json \<Rightarrow> (string \<times> json) list" where
  "fields_of (JDict d) = d"
| "fields_of _ = []"

text \<open>\<open>fields_of(d).get(key)\<close>: a missing key reads as null.\<close>

definition get :: "json \<Rightarrow> string \<Rightarrow> json" where
  "get d key = (case map_of (fields_of d) key of Some v \<Rightarrow> v | None \<Rightarrow> JNull)"

definition as_float :: "json \<Rightarrow> string \<Rightarrow> pyfloat \<Rightarrow> pyfloat res" where
  "as_float d key dflt =
     (case get d key of
        JNull \<Rightarrow> Inr dflt
      | JBool b \<Rightarrow> Inr dflt
      | v \<Rightarrow> (case py_float v of
          Inl e \<Rightarrow> Inl e
        | Inr None \<Rightarrow> Inr dflt
        | Inr (Some f) \<Rightarrow> Inr f))"

definition as_opt_float :: "json \<Rightarrow> string \<Rightarrow> pyfloat option res" where
  "as_opt_float d key =
     (if get d key = JNull then Inr None
      else bind_res (as_float d key NaN) (\<lambda>parsed. Inr (if parsed = NaN then None else Some parsed)))"

definition as_int :: "json \<Rightarrow> string \<Rightarrow> int \<Rightarrow> int res" where
  "as_int d key dflt =
     bind_res (float_of_int dflt) (\<lambda>df.
     bind_res (as_float d key df) (\<lambda>value.
       Inr (case py_int value of Some i \<Rightarrow> i | None \<Rightarrow> dflt)))"

definition as_opt_int :: "json \<Rightarrow> string \<Rightarrow> int option res" where
  "as_opt_int d key =
     bind_res (as_opt_float d key) (\<lambda>value. Inr (Option.bind value py_int))"

definition as_str :: "json \<Rightarrow> string \<Rightarrow> string \<Rightarrow> string" where
  "as_str d key dflt = (case get d key of JNull \<Rightarrow> dflt | v \<Rightarrow> py_str v)"

definition as_opt_str :: "json \<Rightarrow> string \<Rightarrow> string option" where
  "as_opt_str d key = (case get d key of JNull \<Rightarrow> None | v \<Rightarrow> Some (py_str v))"

definition as_bool :: "json \<Rightarrow> string \<Rightarrow> bool \<Rightarrow> bool" where
  "as_bool d key dflt = (case get d key of JNull \<Rightarrow> dflt | v \<Rightarrow> py_bool v)"

definition as_list :: "json \<Rightarrow> string \<Rightarrow> json list" where
  "as_list d key = (case get d key of JList xs \<Rightarrow> xs | _ \<Rightarrow> [])"

definition as_str_list :: "json \<Rightarrow> string \<Rightarrow> string list" where
  "as_str_list d key = (case get d key of JList xs \<Rightarrow> map py_str xs | _ \<Rightarrow> [])"

definition as_opt_str_list :: "json \<Rightarrow> string \<Rightarrow> string list option" where
  "as_opt_str_list d key =
     (if map_of (fields_of d) key = Some JNull then None
      else Some (case get d key of JList xs \<Rightarrow> map py_str xs | _ \<Rightarrow> []))"

definition as_opt_float_list :: "json \<Rightarrow> string \<Rightarrow> pyfloat option list res" where
  "as_opt_float_list d key =
     (case get d key of
        JList xs \<Rightarrow> map_res (\<lambda>item. as_opt_float (JDict [(key, item)]) key) xs
      | _ \<Rightarrow> Inr [])"

definition as_str_dict :: "json \<Rightarrow> string \<Rightarrow> (string \<times> string) list" where
  "as_str_dict d key =
     (case get d key of JDict kvs \<Rightarrow> dict_of (map (\<lambda>kv. (fst kv, py_str (snd kv))) kvs) | _ \<Rightarrow> [])"

lemmas reader_defs =
  as_float_def as_opt_float_def as_int_def as_opt_int_def as_str_def as_opt_str_def
  as_bool_def as_list_def as_str_list_def as_opt_str_list_def as_opt_float_list_def
  as_str_dict_def


section \<open>What the readers make of well-typed values\<close>

lemma bit_len_bound: "n < 2 ^ k \<Longrightarrow> bit_len n \<le> int k"
proof (induction k arbitrary: n)
  case 0
  then show ?case by (simp add: bit_len.simps)
next
  case (Suc k)
  then have "bit_len (n div 2) \<le> int k" by simp
  then show ?case by (subst bit_len.simps) simp
qed

text \<open>Integers of at most 53 bits are doubles.\<close>

definition small_int :: "int \<Rightarrow> bool" where
  "small_int i \<longleftrightarrow> \<bar>i\<bar> < 2 ^ 53"

lemma float_of_small_int: "small_int i \<Longrightarrow> float_of_int i = Inr (Fin (of_int i))"
proof -
  assume "small_int i"
  then have small: "\<bar>i\<bar> < 2 ^ 53" by (simp add: small_int_def)
  from bit_len_bound [OF this] have "round_to_53 \<bar>i\<bar> = \<bar>i\<bar>" by (simp add: round_to_53_def Let_def)
  moreover have "\<bar>i\<bar> < double_limit"
    using order_less_le_trans [OF small] by (simp add: double_limit_def)
  ultimately show ?thesis by (simp add: float_of_int_def Let_def abs_if split: if_splits)
qed

lemma bit_len_nonneg: "0 \<le> bit_len n"
  by (induction n rule: bit_len.induct) (subst bit_len.simps, simp)

lemma bit_len_exact: "0 < n \<Longrightarrow> 2 ^ nat (bit_len n - 1) \<le> n \<and> n < 2 ^ nat (bit_len n)"
proof (induction n rule: bit_len.induct)
  case (1 n)
  have bl: "bit_len n = 1 + bit_len (n div 2)" using "1.prems" by (subst bit_len.simps) simp
  show ?case
  proof (cases "n div 2 > 0")
    case True
    with 1 have IH: "2 ^ nat (bit_len (n div 2) - 1) \<le> n div 2" "n div 2 < 2 ^ nat (bit_len (n div 2))"
      by simp_all
    have pos: "1 \<le> bit_len (n div 2)" using True by (subst bit_len.simps) (simp add: bit_len_nonneg)
    define k where "k = nat (bit_len (n div 2) - 1)"
    have k: "nat (bit_len (n div 2)) = Suc k" "nat (bit_len n - 1) = Suc k" "nat (bit_len n) = Suc (Suc k)"
      using pos bl by (simp_all add: k_def)
    have "2 ^ k \<le> n div 2" "n div 2 < 2 * 2 ^ k" using IH unfolding k k_def [symmetric] by simp_all
    then have "2 * 2 ^ k \<le> n" "n < 4 * 2 ^ k" by linarith+
    then show ?thesis unfolding k by simp
  next
    case False
    then have "n = 1" using "1.prems" by simp
    then show ?thesis by (simp add: bit_len.simps)
  qed
qed

text \<open>Past the largest double the conversion raises.\<close>

lemma float_of_int_overflow:
  assumes "2 ^ 1024 \<le> i"
  shows "float_of_int i = Inl OverflowError"
proof -
  have pos: "0 < i" using assms by (simp add: order_less_le_trans [OF zero_less_power [of "2 :: int" 1024]])
  note ex = bit_len_exact [OF pos]
  have "\<not> i < 2 ^ 1024" using assms by simp
  then have big: "1024 < nat (bit_len i)"
    using ex power_increasing [of "nat (bit_len i)" 1024 "2 :: int"] by (meson not_le order_less_le_trans one_le_numeral)
  define e where "e = nat (bit_len i - 53)"
  have e: "nat (bit_len i - 1) = 52 + e" using big by (simp add: e_def)
  have "(2 :: int) ^ 52 * 2 ^ e \<le> i" using ex unfolding e power_add by simp
  then have q: "(2 :: int) ^ 52 \<le> i div 2 ^ e"
    by (simp add: int_one_le_iff_zero_less mult.commute pos_imp_zdiv_pos_iff zdiv_mono1 [of "2 ^ 52 * 2 ^ e" i "2 ^ e", simplified])
  have "(2 :: int) ^ 1024 \<le> 2 ^ (52 + e)" using big by (intro power_increasing) (simp_all add: e_def)
  also have "\<dots> \<le> i div 2 ^ e * 2 ^ e" using q by (simp add: power_add)
  also have "\<dots> \<le> round_half_even i (2 ^ e) * 2 ^ e"
    by (simp add: round_half_even_def Let_def)
  finally have "(2 :: int) ^ 1024 \<le> round_half_even i (2 ^ e) * 2 ^ e" .
  moreover have "round_to_53 i = round_half_even i (2 ^ e) * 2 ^ e"
    using big by (auto simp: round_to_53_def Let_def e_def)
  ultimately have "double_limit \<le> round_to_53 i" by (simp only: double_limit_def)
  then show ?thesis using pos by (simp add: float_of_int_def Let_def)
qed

lemma trunc_of_int [simp]: "trunc (of_int i) = i"
proof -
  have "- (of_int i :: rat) = of_int (- i)" by simp
  then show ?thesis by (simp only: trunc_def floor_of_int) simp
qed

lemma as_int_small:
  "get d key = JInt i \<Longrightarrow> small_int i \<Longrightarrow> small_int dflt \<Longrightarrow> as_int d key dflt = Inr i"
  by (simp add: as_int_def as_float_def float_of_small_int)

lemma as_opt_int_small:
  "get d key = JInt i \<Longrightarrow> small_int i \<Longrightarrow> as_opt_int d key = Inr (Some i)"
  by (simp add: as_opt_int_def as_opt_float_def as_float_def float_of_small_int)

text \<open>A reader of a number raises for one thing only: an integer no double can hold.\<close>

lemma float_of_int_error: "float_of_int i = Inl e \<Longrightarrow> e = OverflowError \<and> \<not> small_int i"
  using float_of_small_int [of i] by (auto simp: float_of_int_def Let_def split: if_splits)

lemma as_float_raises: "as_float d key dflt = Inl e \<longleftrightarrow> (\<exists>i. get d key = JInt i \<and> float_of_int i = Inl e)"
proof (cases "get d key")
  case (JInt i)
  then show ?thesis by (cases "float_of_int i") (auto simp: as_float_def)
qed (auto simp: as_float_def split: option.splits)

lemma as_float_ok: "(\<And>i. get d key = JInt i \<Longrightarrow> small_int i) \<Longrightarrow> \<exists>f. as_float d key dflt = Inr f"
  by (metis as_float_raises float_of_int_error sum.exhaust)

lemma as_opt_float_ok: "(\<And>i. get d key = JInt i \<Longrightarrow> small_int i) \<Longrightarrow> \<exists>f. as_opt_float d key = Inr f"
  using as_float_ok [of d key NaN] by (auto simp: as_opt_float_def)

lemma as_int_ok:
  "(\<And>i. get d key = JInt i \<Longrightarrow> small_int i) \<Longrightarrow> small_int dflt \<Longrightarrow> \<exists>j. as_int d key dflt = Inr j"
  using as_float_ok [of d key "Fin (of_int dflt)"] by (auto simp: as_int_def float_of_small_int)

lemma as_opt_int_ok: "(\<And>i. get d key = JInt i \<Longrightarrow> small_int i) \<Longrightarrow> \<exists>j. as_opt_int d key = Inr j"
  using as_opt_float_ok [of d key] by (auto simp: as_opt_int_def)

text \<open>Values as \<open>asdict\<close> writes them, and a document that has the key.\<close>

fun opt_json :: "('a \<Rightarrow> json) \<Rightarrow> 'a option \<Rightarrow> json" where
  "opt_json f None = JNull"
| "opt_json f (Some x) = f x"

definition str_list_json :: "string list \<Rightarrow> json" where
  "str_list_json xs = JList (map JStr xs)"

definition str_dict_json :: "(string \<times> string) list \<Rightarrow> json" where
  "str_dict_json kvs = JDict (map (\<lambda>kv. (fst kv, JStr (snd kv))) kvs)"

lemma py_str_JStr [simp]: "py_str (JStr s) = s"
  by (simp add: py_str_def)

lemma read_str:
  "get d key = JStr s \<Longrightarrow> as_str d key dflt = s"
  "get d key = opt_json JStr v \<Longrightarrow> as_opt_str d key = v"
  by (simp_all add: as_str_def as_opt_str_def, cases v, simp_all)

lemma read_str_list:
  assumes "get d key = str_list_json xs"
  shows "as_str_list d key = xs" and "as_opt_str_list d key = Some xs"
proof -
  have "map_of (fields_of d) key \<noteq> Some JNull"
    using assms by (auto simp: get_def str_list_json_def)
  then show "as_str_list d key = xs" "as_opt_str_list d key = Some xs"
    using assms by (simp_all add: as_str_list_def as_opt_str_list_def str_list_json_def comp_def)
qed

lemma read_bool: "get d key = JBool b \<Longrightarrow> as_bool d key dflt = b"
  by (simp add: as_bool_def)

lemma read_float: "get d key = JFloat f \<Longrightarrow> as_float d key dflt = Inr f"
  by (simp add: as_float_def)

lemma read_opt_float:
  assumes "get d key = opt_json JFloat v" and "v \<noteq> Some NaN"
  shows "as_opt_float d key = Inr v"
  using assms by (cases v) (auto simp: as_opt_float_def as_float_def)

lemma read_opt_int:
  assumes "get d key = opt_json JInt v" and "\<And>i. v = Some i \<Longrightarrow> small_int i"
  shows "as_opt_int d key = Inr v"
proof (cases v)
  case None
  then show ?thesis using assms(1) by (simp add: as_opt_int_def as_opt_float_def)
next
  case (Some i)
  then show ?thesis using assms as_opt_int_small by simp
qed

lemma read_opt_float_list:
  assumes "get d key = JList (map (opt_json JFloat) vs)" and "Some NaN \<notin> set vs"
  shows "as_opt_float_list d key = Inr vs"
proof -
  have "map_res (\<lambda>item. as_opt_float (JDict [(key, item)]) key) (map (opt_json JFloat) vs) = Inr vs"
    using assms(2)
  proof (induction vs)
    case (Cons v vs)
    have "as_opt_float (JDict [(key, opt_json JFloat v)]) key = Inr v"
      by (rule read_opt_float) (use Cons.prems in \<open>auto simp: get_def\<close>)
    with Cons show ?case by simp
  qed simp
  with assms(1) show ?thesis by (simp add: as_opt_float_list_def)
qed

lemma read_str_dict:
  assumes "get d key = str_dict_json kvs" and "distinct (map fst kvs)"
  shows "as_str_dict d key = kvs"
  using assms by (simp add: as_str_dict_def str_dict_json_def comp_def dict_of_distinct)

lemmas readers_inverse =
  read_str read_str_list read_bool read_float read_opt_float read_opt_int read_opt_float_list
  read_str_dict as_int_small

end
