(* ===== verification/Jobs.thy ===== *)
theory Jobs
  imports PyValues
begin

text \<open>
  The records of \<open>src/gpuc/host/jobs.py\<close>: \<open>Output\<close>, \<open>JobSpec\<close>, \<open>Upload\<close>, \<open>JobState\<close>,
  \<open>Outcome\<close> and \<open>HostConfig\<close>, their readers \<open>from_dict\<close> and writers \<open>to_dict\<close>, and the
  pure functions on them. A status is a string, as in the file: any build may have written
  it. Timestamps are the strings the file holds; \<open>utc_now()\<close> and \<open>new_job_id()\<close> are
  arguments, since their values are the clock's and the random generator's.
\<close>

section \<open>Constants\<close>

definition FINISHED_STATUSES :: "string list" where
  "FINISHED_STATUSES = [''succeeded'', ''failed'', ''cancelled'']"

definition CANCEL :: string where "CANCEL = ''cancel''"
definition PREEMPT :: string where "PREEMPT = ''preempt''"

definition INTENTS :: "string list" where
  "INTENTS = [CANCEL, PREEMPT]"

definition SCHEMA_VERSION :: int where "SCHEMA_VERSION = 1"
definition DEFAULT_PYTHON :: string where "DEFAULT_PYTHON = ''uv run --no-sync python''"
definition DEFAULT_INTERVAL_S :: rat where "DEFAULT_INTERVAL_S = 60"

definition CLEANUP_POLICIES :: "string list" where
  "CLEANUP_POLICIES = [''on_success'', ''always'', ''never'']"

definition DEFAULT_CLEANUP :: string where "DEFAULT_CLEANUP = ''on_success''"

lemmas job_constants [simp] =
  FINISHED_STATUSES_def CANCEL_def PREEMPT_def INTENTS_def SCHEMA_VERSION_def DEFAULT_PYTHON_def
  DEFAULT_INTERVAL_S_def CLEANUP_POLICIES_def DEFAULT_CLEANUP_def

text \<open>A null is the default policy, an unknown word is an error, so a typo fails loudly.\<close>

definition normalize_cleanup :: "json \<Rightarrow> string res" where
  "normalize_cleanup value =
     (if value = JNull then Inr DEFAULT_CLEANUP
      else let t = py_str value in if t \<notin> set CLEANUP_POLICIES then Inl ValueError else Inr t)"

definition is_hex_lower :: "char \<Rightarrow> bool" where
  "is_hex_lower c \<longleftrightarrow> is_digit c \<or> (CHR ''a'' \<le> c \<and> c \<le> CHR ''f'')"

text \<open>\<open>\d{8}-\d{6}-[0-9a-f]{6}\<close>.\<close>

definition is_job_id :: "string \<Rightarrow> bool" where
  "is_job_id t \<longleftrightarrow> length t = 22 \<and> list_all is_digit (take 8 t) \<and> t ! 8 = CHR ''-'' \<and>
     list_all is_digit (take 6 (drop 9 t)) \<and> t ! 15 = CHR ''-'' \<and> list_all is_hex_lower (drop 16 t)"

text \<open>\<open>_polling_interval\<close>: a zero, a negative or a NaN means the default.\<close>

definition polling_interval :: "json \<Rightarrow> pyfloat res" where
  "polling_interval d =
     bind_res (as_float d ''progress_interval_s'' (Fin DEFAULT_INTERVAL_S)) (\<lambda>interval.
       Inr (case interval of
              Fin r \<Rightarrow> if r > 0 then Fin r else Fin DEFAULT_INTERVAL_S
            | PosInf \<Rightarrow> PosInf
            | _ \<Rightarrow> Fin DEFAULT_INTERVAL_S))"

section \<open>Outputs and the job's spec\<close>

record output_rec =
  out_path :: string
  out_s3 :: "string option"
  out_hf :: "string option"
  out_hf_path :: "string option"
  out_hf_create :: bool

text \<open>\<open>not self.s3 and not self.hf\<close>: an empty string is no destination.\<close>

definition kept :: "output_rec \<Rightarrow> bool" where
  "kept out \<longleftrightarrow> (out_s3 out = None \<or> out_s3 out = Some []) \<and> (out_hf out = None \<or> out_hf out = Some [])"

definition output_from_dict :: "json \<Rightarrow> output_rec" where
  "output_from_dict d =
     \<lparr>out_path = as_str d ''path'' [], out_s3 = as_opt_str d ''s3'', out_hf = as_opt_str d ''hf'',
      out_hf_path = as_opt_str d ''hf_path'', out_hf_create = as_bool d ''hf_create'' False\<rparr>"

definition output_to_dict :: "output_rec \<Rightarrow> json" where
  "output_to_dict out =
     JDict [(''path'', JStr (out_path out)), (''s3'', opt_json JStr (out_s3 out)),
       (''hf'', opt_json JStr (out_hf out)), (''hf_path'', opt_json JStr (out_hf_path out)),
       (''hf_create'', JBool (out_hf_create out))]"

record jobspec =
  sp_job_id :: job_id
  sp_command :: string
  sp_name :: string
  sp_setup :: "string option"
  sp_python :: string
  sp_gpus :: int
  sp_use_shared :: bool
  sp_env :: "(string \<times> string) list"
  sp_secrets :: "string list"
  sp_outputs :: "output_rec list"
  sp_sync_interval_s :: int
  sp_priority :: int
  sp_max_runtime_min :: "pyfloat option"
  sp_estimated_runtime_min :: "pyfloat option"
  sp_progress_command :: "string option"
  sp_progress_interval_s :: pyfloat
  sp_auto_preempt :: bool
  sp_cleanup :: string
  sp_requeued_from :: "string option"

definition or_else :: "string \<Rightarrow> string \<Rightarrow> string" where
  "or_else s dflt = (if s = [] then dflt else s)"

definition spec_from_dict :: "job_id \<Rightarrow> json \<Rightarrow> jobspec res" where
  "spec_from_dict fresh d =
     (let command = as_str d ''command'' []
      in if command = [] then Inl ValueError
         else
           bind_res (as_int d ''gpus'' 1) (\<lambda>gpus.
           if gpus < 0 then Inl ValueError
           else
           bind_res (as_int d ''sync_interval_s'' 180) (\<lambda>sync.
           bind_res (as_int d ''priority'' 50) (\<lambda>priority.
           bind_res (as_opt_float d ''max_runtime_min'') (\<lambda>max_runtime.
           bind_res (as_opt_float d ''estimated_runtime_min'') (\<lambda>estimate.
           bind_res (polling_interval d) (\<lambda>interval.
           bind_res (normalize_cleanup (get d ''cleanup'')) (\<lambda>cleanup.
             Inr \<lparr>sp_job_id = or_else (as_str d ''job_id'' []) fresh, sp_command = command,
               sp_name = as_str d ''name'' [], sp_setup = as_opt_str d ''setup'',
               sp_python = or_else (as_str d ''python'' DEFAULT_PYTHON) DEFAULT_PYTHON,
               sp_gpus = gpus, sp_use_shared = as_bool d ''use_shared'' False,
               sp_env = as_str_dict d ''env'', sp_secrets = as_str_list d ''secrets'',
               sp_outputs = map output_from_dict (as_list d ''outputs''),
               sp_sync_interval_s = sync, sp_priority = priority,
               sp_max_runtime_min = max_runtime, sp_estimated_runtime_min = estimate,
               sp_progress_command = as_opt_str d ''progress_command'',
               sp_progress_interval_s = interval,
               sp_auto_preempt = as_bool d ''auto_preempt'' False,
               sp_cleanup = cleanup, sp_requeued_from = as_opt_str d ''requeued_from''\<rparr>))))))))"

definition spec_to_dict :: "jobspec \<Rightarrow> json" where
  "spec_to_dict s =
     JDict [(''job_id'', JStr (sp_job_id s)), (''command'', JStr (sp_command s)),
       (''name'', JStr (sp_name s)), (''setup'', opt_json JStr (sp_setup s)),
       (''python'', JStr (sp_python s)), (''gpus'', JInt (sp_gpus s)),
       (''use_shared'', JBool (sp_use_shared s)), (''env'', str_dict_json (sp_env s)),
       (''secrets'', str_list_json (sp_secrets s)),
       (''outputs'', JList (map output_to_dict (sp_outputs s))),
       (''sync_interval_s'', JInt (sp_sync_interval_s s)), (''priority'', JInt (sp_priority s)),
       (''max_runtime_min'', opt_json JFloat (sp_max_runtime_min s)),
       (''estimated_runtime_min'', opt_json JFloat (sp_estimated_runtime_min s)),
       (''progress_command'', opt_json JStr (sp_progress_command s)),
       (''progress_interval_s'', JFloat (sp_progress_interval_s s)),
       (''auto_preempt'', JBool (sp_auto_preempt s)), (''cleanup'', JStr (sp_cleanup s)),
       (''requeued_from'', opt_json JStr (sp_requeued_from s))]"

section \<open>Uploads and the job's state\<close>

record upload =
  up_to :: string
  up_output :: "string option"
  up_ok_at :: "string option"
  up_error :: "string option"

definition upload_from_dict :: "json \<Rightarrow> upload option" where
  "upload_from_dict d =
     (case as_opt_str d ''to'' of
        None \<Rightarrow> None
      | Some to \<Rightarrow>
          if to = [] then None
          else Some \<lparr>up_to = to, up_output = as_opt_str d ''output'', up_ok_at = as_opt_str d ''ok_at'',
            up_error = as_opt_str d ''error''\<rparr>)"

definition upload_to_dict :: "upload \<Rightarrow> json" where
  "upload_to_dict u =
     JDict [(''to'', JStr (up_to u)), (''output'', opt_json JStr (up_output u)),
       (''ok_at'', opt_json JStr (up_ok_at u)), (''error'', opt_json JStr (up_error u))]"

record jobstate =
  st_status :: string
  st_intent :: "string option"
  st_attempt :: int
  st_priority :: int
  st_estimated_runtime_min :: "pyfloat option"
  st_max_runtime_min :: "pyfloat option"
  st_live_max_runtime :: bool
  st_reason :: "string option"
  st_problems :: "string list"
  st_exit_code :: "int option"
  st_gpus :: "uuid list"
  st_started_at :: "string option"
  st_ended_at :: "string option"
  st_phase :: "string option"
  st_pgid :: "int option"
  st_isolation :: "string option"
  st_cgroup_unit :: "string option"
  st_runner_pid :: "int option"
  st_runner_boot_id :: "string option"
  st_runner_init_start :: "string option"
  st_runner_starttime :: "string option"
  st_util_recent :: "pyfloat option list"
  st_util_sum :: pyfloat
  st_util_samples :: int
  st_progress_pct :: "pyfloat option"
  st_progress_error :: "string option"
  st_eta :: "string option"
  st_uploads :: "upload list"
  st_workdir_bytes :: "int option"
  st_outputs_lost :: bool
  st_ran :: bool
  st_checkout_removed_at :: "string option"
  st_kept_bytes :: "int option"
  st_restarts :: int

definition state_from_dict :: "json \<Rightarrow> jobstate res" where
  "state_from_dict d =
     bind_res (as_int d ''attempt'' 1) (\<lambda>attempt.
     bind_res (as_int d ''priority'' 50) (\<lambda>priority.
     bind_res (as_opt_float d ''estimated_runtime_min'') (\<lambda>estimate.
     bind_res (as_opt_float d ''max_runtime_min'') (\<lambda>max_runtime.
     bind_res (as_opt_int d ''exit_code'') (\<lambda>exit_code.
     bind_res (as_opt_int d ''pgid'') (\<lambda>pgid.
     bind_res (as_opt_int d ''runner_pid'') (\<lambda>runner_pid.
     bind_res (as_opt_float_list d ''util_recent'') (\<lambda>util_recent.
     bind_res (as_float d ''util_sum'' (Fin 0)) (\<lambda>util_sum.
     bind_res (as_int d ''util_samples'' 0) (\<lambda>util_samples.
     bind_res (as_opt_float d ''progress_pct'') (\<lambda>progress_pct.
     bind_res (as_opt_int d ''workdir_bytes'') (\<lambda>workdir_bytes.
     bind_res (as_opt_int d ''kept_bytes'') (\<lambda>kept_bytes.
     bind_res (as_int d ''restarts'' 0) (\<lambda>restarts.
       Inr \<lparr>st_status = or_else (as_str d ''status'' ''queued'') ''queued'',
         st_intent = (case as_opt_str d ''intent'' of
             Some i \<Rightarrow> if i \<in> set INTENTS then Some i else None | None \<Rightarrow> None),
         st_attempt = attempt, st_priority = priority,
         st_estimated_runtime_min = estimate, st_max_runtime_min = max_runtime,
         st_live_max_runtime = as_bool d ''live_max_runtime'' False,
         st_reason = as_opt_str d ''reason'', st_problems = as_str_list d ''problems'',
         st_exit_code = exit_code, st_gpus = as_str_list d ''gpus'',
         st_started_at = as_opt_str d ''started_at'', st_ended_at = as_opt_str d ''ended_at'',
         st_phase = as_opt_str d ''phase'', st_pgid = pgid,
         st_isolation = as_opt_str d ''isolation'', st_cgroup_unit = as_opt_str d ''cgroup_unit'',
         st_runner_pid = runner_pid, st_runner_boot_id = as_opt_str d ''runner_boot_id'',
         st_runner_init_start = as_opt_str d ''runner_init_start'',
         st_runner_starttime = as_opt_str d ''runner_starttime'',
         st_util_recent = util_recent, st_util_sum = util_sum, st_util_samples = util_samples,
         st_progress_pct = progress_pct, st_progress_error = as_opt_str d ''progress_error'',
         st_eta = as_opt_str d ''eta'',
         st_uploads = List.map_filter upload_from_dict (as_list d ''uploads''),
         st_workdir_bytes = workdir_bytes, st_outputs_lost = as_bool d ''outputs_lost'' False,
         st_ran = as_bool d ''ran'' True,
         st_checkout_removed_at = as_opt_str d ''checkout_removed_at'',
         st_kept_bytes = kept_bytes, st_restarts = restarts\<rparr>))))))))))))))"

definition state_to_dict :: "jobstate \<Rightarrow> json" where
  "state_to_dict s =
     JDict [(''status'', JStr (st_status s)), (''intent'', opt_json JStr (st_intent s)),
       (''attempt'', JInt (st_attempt s)), (''priority'', JInt (st_priority s)),
       (''estimated_runtime_min'', opt_json JFloat (st_estimated_runtime_min s)),
       (''max_runtime_min'', opt_json JFloat (st_max_runtime_min s)),
       (''live_max_runtime'', JBool (st_live_max_runtime s)),
       (''reason'', opt_json JStr (st_reason s)), (''problems'', str_list_json (st_problems s)),
       (''exit_code'', opt_json JInt (st_exit_code s)), (''gpus'', str_list_json (st_gpus s)),
       (''started_at'', opt_json JStr (st_started_at s)),
       (''ended_at'', opt_json JStr (st_ended_at s)), (''phase'', opt_json JStr (st_phase s)),
       (''pgid'', opt_json JInt (st_pgid s)), (''isolation'', opt_json JStr (st_isolation s)),
       (''cgroup_unit'', opt_json JStr (st_cgroup_unit s)),
       (''runner_pid'', opt_json JInt (st_runner_pid s)),
       (''runner_boot_id'', opt_json JStr (st_runner_boot_id s)),
       (''runner_init_start'', opt_json JStr (st_runner_init_start s)),
       (''runner_starttime'', opt_json JStr (st_runner_starttime s)),
       (''util_recent'', JList (map (opt_json JFloat) (st_util_recent s))),
       (''util_sum'', JFloat (st_util_sum s)), (''util_samples'', JInt (st_util_samples s)),
       (''progress_pct'', opt_json JFloat (st_progress_pct s)),
       (''progress_error'', opt_json JStr (st_progress_error s)),
       (''eta'', opt_json JStr (st_eta s)),
       (''uploads'', JList (map upload_to_dict (st_uploads s))),
       (''workdir_bytes'', opt_json JInt (st_workdir_bytes s)),
       (''outputs_lost'', JBool (st_outputs_lost s)), (''ran'', JBool (st_ran s)),
       (''checkout_removed_at'', opt_json JStr (st_checkout_removed_at s)),
       (''kept_bytes'', opt_json JInt (st_kept_bytes s)), (''restarts'', JInt (st_restarts s))]"


text \<open>The defaults of a bare \<open>JobState()\<close>.\<close>

definition blank_state :: jobstate where
  "blank_state =
     \<lparr>st_status = ''queued'', st_intent = None, st_attempt = 1, st_priority = 50,
      st_estimated_runtime_min = None, st_max_runtime_min = None, st_live_max_runtime = False,
      st_reason = None, st_problems = [], st_exit_code = None, st_gpus = [], st_started_at = None,
      st_ended_at = None, st_phase = None, st_pgid = None, st_isolation = None,
      st_cgroup_unit = None, st_runner_pid = None, st_runner_boot_id = None,
      st_runner_init_start = None, st_runner_starttime = None, st_util_recent = [],
      st_util_sum = Fin 0, st_util_samples = 0, st_progress_pct = None, st_progress_error = None,
      st_eta = None, st_uploads = [], st_workdir_bytes = None, st_outputs_lost = False,
      st_ran = True, st_checkout_removed_at = None, st_kept_bytes = None, st_restarts = 0\<rparr>"

definition finished :: "jobstate \<Rightarrow> bool" where
  "finished s \<longleftrightarrow> st_status s \<in> set FINISHED_STATUSES"

definition mirror :: "jobstate \<Rightarrow> upload option" where
  "mirror s = find (\<lambda>u. up_output u = None) (st_uploads s)"

definition mirrored :: "jobstate \<Rightarrow> bool" where
  "mirrored s = (case mirror s of None \<Rightarrow> False | Some u \<Rightarrow> up_ok_at u \<noteq> None \<and> up_error u = None)"

definition max_runtime :: "jobstate \<Rightarrow> jobspec option \<Rightarrow> pyfloat option" where
  "max_runtime s spec =
     (if st_live_max_runtime s then st_max_runtime_min s
      else case spec of None \<Rightarrow> None | Some sp \<Rightarrow> sp_max_runtime_min sp)"

definition output_uploads :: "jobstate \<Rightarrow> upload list" where
  "output_uploads s = filter (\<lambda>u. up_output u \<noteq> None) (st_uploads s)"

definition upload_errors :: "jobstate \<Rightarrow> string list" where
  "upload_errors s = filter (\<lambda>e. e \<noteq> []) (List.map_filter up_error (st_uploads s))"

text \<open>\<open>not x\<close> of an optional string: absent or empty.\<close>

definition blank :: "string option \<Rightarrow> bool" where
  "blank x = (case x of None \<Rightarrow> True | Some s \<Rightarrow> s = [])"

definition forget_output_uploads :: "jobstate \<Rightarrow> jobstate" where
  "forget_output_uploads s =
     s\<lparr>st_uploads := map (\<lambda>u. if up_output u \<noteq> None then u\<lparr>up_ok_at := None\<rparr> else u) (st_uploads s)\<rparr>"

text \<open>The state a job is enqueued with.\<close>

definition initial :: "jobspec \<Rightarrow> jobstate" where
  "initial spec =
     blank_state\<lparr>st_status := ''queued'', st_priority := sp_priority spec,
       st_estimated_runtime_min := sp_estimated_runtime_min spec,
       st_max_runtime_min := sp_max_runtime_min spec, st_live_max_runtime := True,
       st_ran := False\<rparr>"

section \<open>Destinations\<close>

text \<open>
  \<open>text.format(job_id=...)\<close> of a destination: \<open>{job_id}\<close> is replaced, doubled braces are
  single ones, any other name is \<open>KeyError\<close>, a positional field \<open>IndexError\<close>, an unbalanced
  brace \<open>ValueError\<close>. (A conversion or format spec on \<open>job_id\<close> itself is not modelled.)
\<close>

fun format_job_id :: "string \<Rightarrow> job_id \<Rightarrow> string res" where
  "format_job_id [] j = Inr []"
| "format_job_id [c] j = (if c = CHR ''{'' \<or> c = CHR ''}'' then Inl ValueError else Inr [c])"
| "format_job_id (c # d # t) j =
     (if c = CHR ''{'' \<and> d = CHR ''{'' then map_sum id ((#) c) (format_job_id t j)
      else if c = CHR ''}'' then (if d = CHR ''}'' then map_sum id ((#) c) (format_job_id t j) else Inl ValueError)
      else if c = CHR ''{'' then
        (let name = takeWhile (\<lambda>x. x \<noteq> CHR ''}'') (d # t);
             rest = drop (Suc (length name)) (d # t)
         in if CHR ''}'' \<notin> set (d # t) then Inl ValueError
            else if name = ''job_id'' then map_sum id ((@) j) (format_job_id rest j)
            else if list_all is_digit name then Inl IndexError
            else Inl KeyError)
      else map_sum id ((#) c) (format_job_id (d # t) j))"

definition rstrip_slash :: "string \<Rightarrow> string" where
  "rstrip_slash t = rev (dropWhile (\<lambda>c. c = CHR ''/'') (rev t))"

definition strip_slash :: "string \<Rightarrow> string" where
  "strip_slash t = rstrip_slash (dropWhile (\<lambda>c. c = CHR ''/'') t)"

definition s3_uri :: "string \<Rightarrow> string" where
  "s3_uri t = rstrip_slash t"

definition hf_uri :: "string \<Rightarrow> string \<Rightarrow> string" where
  "hf_uri repo path =
     (let p = strip_slash path in ''hf://'' @ repo @ (if p = [] then [] else ''/'' @ p))"

text \<open>\<open>destinations.of\<close>, as the uris it names.\<close>

definition destination_uris :: "output_rec \<Rightarrow> job_id \<Rightarrow> string list res" where
  "destination_uris out j =
     bind_res (if blank (out_s3 out) then Inr []
               else map_sum id (\<lambda>u. [s3_uri u]) (format_job_id (the (out_s3 out)) j)) (\<lambda>s3.
     bind_res (if blank (out_hf out) then Inr []
               else bind_res (format_job_id (the (out_hf out)) j) (\<lambda>repo.
                 bind_res (format_job_id (if blank (out_hf_path out) then j else the (out_hf_path out)) j) (\<lambda>path.
                   Inr [hf_uri repo path]))) (\<lambda>hf.
       Inr (s3 @ hf)))"

text \<open>Did the last upload of every declared output reach every one of its destinations?\<close>

definition wanted_uploads :: "jobspec \<Rightarrow> (string \<times> string) list res" where
  "wanted_uploads spec =
     map_sum id concat
       (map_res (\<lambda>out. map_sum id (map (\<lambda>u. (out_path out, u))) (destination_uris out (sp_job_id spec)))
         (sp_outputs spec))"

definition done_uploads :: "jobstate \<Rightarrow> (string option \<times> string) list" where
  "done_uploads s =
     map (\<lambda>u. (up_output u, up_to u))
       (filter (\<lambda>u. \<not> blank (up_ok_at u) \<and> blank (up_error u)) (st_uploads s))"

definition outputs_uploaded :: "jobstate \<Rightarrow> jobspec \<Rightarrow> bool res" where
  "outputs_uploaded s spec =
     map_sum id (\<lambda>wanted. list_all (\<lambda>w. (Some (fst w), snd w) \<in> set (done_uploads s)) wanted)
       (wanted_uploads spec)"

section \<open>Ending a job\<close>

record outcome =
  oc_status :: string
  oc_reason :: "string option"
  oc_exit_code :: int
  oc_ran :: bool

text \<open>\<open>Outcome.__post_init__\<close>: an outcome is a finished status.\<close>

definition mk_outcome :: "string \<Rightarrow> string option \<Rightarrow> int \<Rightarrow> bool \<Rightarrow> outcome res" where
  "mk_outcome status reason exit_code did_run =
     (if status \<notin> set FINISHED_STATUSES then Inl ValueError
      else Inr \<lparr>oc_status = status, oc_reason = reason, oc_exit_code = exit_code, oc_ran = did_run\<rparr>)"

text \<open>
  What \<open>finish\<close> makes of a state it may end: the fields a finished job must not carry are
  cleared in one place. \<open>extra\<close> is the update of the keyword fields the caller adds.
\<close>

definition finished_state ::
  "outcome \<Rightarrow> bool \<Rightarrow> string \<Rightarrow> (jobstate \<Rightarrow> jobstate) \<Rightarrow> jobstate \<Rightarrow> jobstate" where
  "finished_state oc forget now extra s =
     (let s1 = s\<lparr>st_status := oc_status oc, st_reason := oc_reason oc,
            st_exit_code := Some (oc_exit_code oc), st_ended_at := Some now, st_intent := None,
            st_phase := None, st_pgid := None, st_cgroup_unit := None, st_eta := None,
            st_ran := st_ran s \<or> oc_ran oc\<rparr>;
          s2 = (if forget then forget_output_uploads s1 else s1)
      in extra s2)"

text \<open>The upload record of one destination: the newer of success and failure stands.\<close>

definition noted :: "string option \<Rightarrow> string option \<Rightarrow> upload \<Rightarrow> upload" where
  "noted ok_at err u =
     (if ok_at \<noteq> None then u\<lparr>up_ok_at := ok_at, up_error := None\<rparr> else u\<lparr>up_error := err\<rparr>)"

fun note_upload ::
  "string \<Rightarrow> string option \<Rightarrow> string option \<Rightarrow> string option \<Rightarrow> upload list \<Rightarrow> upload list" where
  "note_upload to out ok_at err [] =
     [noted ok_at err \<lparr>up_to = to, up_output = out, up_ok_at = None, up_error = None\<rparr>]"
| "note_upload to out ok_at err (u # us) =
     (if up_to u = to \<and> up_output u = out then noted ok_at err u # us
      else u # note_upload to out ok_at err us)"

definition record_upload_state ::
  "string \<Rightarrow> string option \<Rightarrow> string option \<Rightarrow> string option \<Rightarrow> jobstate \<Rightarrow> jobstate" where
  "record_upload_state to out ok_at err s =
     s\<lparr>st_uploads := note_upload to out ok_at err (st_uploads s)\<rparr>"


section \<open>The host's config\<close>

record managed_key =
  mk_sticky :: bool
  mk_on_path :: bool
  mk_beside_home :: "string option"

definition MANAGED_ENV :: "(string \<times> managed_key) list" where
  "MANAGED_ENV =
     [(''UV_CACHE_DIR'', \<lparr>mk_sticky = True, mk_on_path = False, mk_beside_home = Some ''uv''\<rparr>),
      (''HF_HOME'', \<lparr>mk_sticky = True, mk_on_path = False, mk_beside_home = Some ''huggingface''\<rparr>),
      (''GPUC_DATA_DIR'', \<lparr>mk_sticky = True, mk_on_path = False, mk_beside_home = None\<rparr>),
      (''GPUC_SCRATCH_DIR'', \<lparr>mk_sticky = True, mk_on_path = False, mk_beside_home = None\<rparr>),
      (''UV_INSTALL_DIR'', \<lparr>mk_sticky = False, mk_on_path = True, mk_beside_home = None\<rparr>),
      (''UV_TOOL_BIN_DIR'', \<lparr>mk_sticky = False, mk_on_path = True, mk_beside_home = None\<rparr>)]"

definition sticky_env ::
  "(string \<times> string) list \<Rightarrow> (string \<times> string) list \<Rightarrow> (string \<times> string) list" where
  "sticky_env theirs_env env =
     foldl (\<lambda>e km. if mk_sticky (snd km) then
               (case map_of theirs_env (fst km) of Some v \<Rightarrow> setdefault (fst km) v e | None \<Rightarrow> e)
             else e) env MANAGED_ENV"

text \<open>\<open>t.rsplit("/", 1)[0]\<close>: everything before the last slash.\<close>

definition before_last_slash :: "string \<Rightarrow> string" where
  "before_last_slash t = rev (tl (dropWhile (\<lambda>c. c \<noteq> CHR ''/'') (rev t)))"

definition cache_beside :: "string \<Rightarrow> string \<Rightarrow> string" where
  "cache_beside home name =
     (let h = rstrip_slash home;
          parent = (if CHR ''/'' \<in> set h then before_last_slash h else [])
      in if parent \<noteq> [] then parent @ ''/.cache/'' @ name else h @ ''/'' @ name @ ''-cache'')"

record hostconfig =
  cf_schema_version :: int
  cf_host :: string
  cf_gpus :: "string list option"
  cf_shared_gpus :: "string list"
  cf_provider :: "(string \<times> json) list option"
  cf_idle_minutes :: pyfloat
  cf_s3_prefix :: "string option"
  cf_created_at :: "string option"
  cf_retention_days :: "pyfloat option"
  cf_workdir_days :: "pyfloat option"
  cf_env :: "(string \<times> string) list"
  cf_pkg_commit :: "string option"

definition blank_config :: hostconfig where
  "blank_config =
     \<lparr>cf_schema_version = SCHEMA_VERSION, cf_host = ''local'', cf_gpus = Some [],
      cf_shared_gpus = [], cf_provider = None, cf_idle_minutes = Fin 15, cf_s3_prefix = None,
      cf_created_at = None, cf_retention_days = None, cf_workdir_days = None, cf_env = [],
      cf_pkg_commit = None\<rparr>"

definition config_from_dict :: "json \<Rightarrow> hostconfig res" where
  "config_from_dict d =
     bind_res (as_int d ''schema_version'' SCHEMA_VERSION) (\<lambda>version.
     bind_res (as_float d ''idle_minutes'' (Fin 15)) (\<lambda>idle.
     bind_res (as_opt_float d ''retention_days'') (\<lambda>retention.
     bind_res (as_opt_float d ''workdir_days'') (\<lambda>workdir.
       Inr \<lparr>cf_schema_version = version, cf_host = or_else (as_str d ''host'' ''local'') ''local'',
         cf_gpus = as_opt_str_list d ''gpus'', cf_shared_gpus = as_str_list d ''shared_gpus'',
         cf_provider = (case get d ''provider'' of JDict kvs \<Rightarrow> Some kvs | _ \<Rightarrow> None),
         cf_idle_minutes = idle, cf_s3_prefix = as_opt_str d ''s3_prefix'',
         cf_created_at = as_opt_str d ''created_at'', cf_retention_days = retention,
         cf_workdir_days = workdir, cf_env = as_str_dict d ''env'',
         cf_pkg_commit = as_opt_str d ''pkg_commit''\<rparr>))))"

definition config_fields :: "hostconfig \<Rightarrow> (string \<times> json) list" where
  "config_fields c =
     [(''schema_version'', JInt (cf_schema_version c)), (''host'', JStr (cf_host c)),
      (''gpus'', opt_json str_list_json (cf_gpus c)),
      (''shared_gpus'', str_list_json (cf_shared_gpus c)),
      (''provider'', opt_json JDict (cf_provider c)), (''idle_minutes'', JFloat (cf_idle_minutes c)),
      (''s3_prefix'', opt_json JStr (cf_s3_prefix c)),
      (''created_at'', opt_json JStr (cf_created_at c)),
      (''retention_days'', opt_json JFloat (cf_retention_days c)),
      (''workdir_days'', opt_json JFloat (cf_workdir_days c)),
      (''env'', str_dict_json (cf_env c)), (''pkg_commit'', opt_json JStr (cf_pkg_commit c))]"

definition config_to_dict :: "hostconfig \<Rightarrow> json" where
  "config_to_dict c = JDict (config_fields c)"

definition ephemeral :: "hostconfig \<Rightarrow> bool" where
  "ephemeral c \<longleftrightarrow> cf_provider c \<noteq> None"

definition may_borrow :: "hostconfig \<Rightarrow> jobspec \<Rightarrow> bool" where
  "may_borrow c spec \<longleftrightarrow> sp_use_shared spec \<and> cf_shared_gpus c \<noteq> []"

definition bin_dirs :: "hostconfig \<Rightarrow> string list" where
  "bin_dirs c =
     foldl (\<lambda>out km. case (if mk_on_path (snd km) then map_of (cf_env c) (fst km) else None) of
               None \<Rightarrow> out
             | Some v \<Rightarrow> if v \<noteq> [] \<and> v \<notin> set out then out @ [v] else out) [] MANAGED_ENV"

text \<open>\<open>{**a, **b}\<close>.\<close>

definition dict_merge :: "('k \<times> 'v) list \<Rightarrow> ('k \<times> 'v) list \<Rightarrow> ('k \<times> 'v) list" where
  "dict_merge a b = dict_of (a @ b)"

definition merged_config :: "json \<Rightarrow> (string \<times> json) list \<Rightarrow> (string \<times> json) list res" where
  "merged_config existing patch =
     (let merged = dict_merge (fields_of existing) patch
      in map_sum id (\<lambda>c. dict_merge merged (config_fields c)) (config_from_dict (JDict merged)))"

section \<open>Env files\<close>

text \<open>Python's \<open>splitlines\<close> on ASCII text.\<close>

definition is_linebreak :: "char \<Rightarrow> bool" where
  "is_linebreak c \<longleftrightarrow> (of_char c :: nat) \<in> {10, 11, 12, 13, 28, 29, 30}"

fun splitlines_from :: "string \<Rightarrow> string \<Rightarrow> string list" where
  "splitlines_from acc [] = (if acc = [] then [] else [rev acc])"
| "splitlines_from acc (c # t) =
     (if is_linebreak c
      then rev acc # (case t of
          d # t' \<Rightarrow> if (of_char c :: nat) = 13 \<and> (of_char d :: nat) = 10
                   then splitlines_from [] t' else splitlines_from [] t
        | [] \<Rightarrow> [])
      else splitlines_from (c # acc) t)"

definition splitlines :: "string \<Rightarrow> string list" where
  "splitlines t = splitlines_from [] t"

definition starts_with :: "string \<Rightarrow> string \<Rightarrow> bool" where
  "starts_with t pre \<longleftrightarrow> take (length pre) t = pre"

definition unquote :: "string \<Rightarrow> string" where
  "unquote v =
     (if length v \<ge> 2 \<and> hd v = last v \<and> (of_char (hd v) :: nat) \<in> {34, 39}
      then butlast (tl v) else v)"

definition env_line :: "string \<Rightarrow> (string \<times> string) option" where
  "env_line raw =
     (let line = strip raw
      in if line = [] \<or> starts_with line ''#'' \<or> CHR ''='' \<notin> set line then None
         else
           let body = (if starts_with line ''export '' then drop 7 line else line);
               key = takeWhile (\<lambda>c. c \<noteq> CHR ''='') body;
               value = drop (Suc (length key)) body
           in Some (strip key, unquote (strip value)))"

definition parse_env :: "string \<Rightarrow> (string \<times> string) list" where
  "parse_env t = dict_of (List.map_filter env_line (splitlines t))"

text \<open>\<open>parse_env_file\<close>: an unreadable file is no variables.\<close>

definition parse_env_file :: "string option \<Rightarrow> (string \<times> string) list" where
  "parse_env_file file = (case file of None \<Rightarrow> [] | Some t \<Rightarrow> parse_env t)"

end
