(* ===== verification/JobsCodec.thy ===== *)
theory JobsCodec
  imports Jobs
begin

text \<open>
  Reading back what was written: the round trips of \<open>JobState\<close>, \<open>JobSpec\<close> and
  \<open>HostConfig\<close> through the documents of \<open>to_dict\<close>, that the readers are total except on an
  integer beyond the doubles, and that \<open>merged_config\<close> keeps what it does not know.
\<close>

section \<open>The contract of a writer and its reader\<close>

text \<open>
  A writer \<open>enc\<close> and a reader \<open>dec\<close> of the values that satisfy \<open>wf\<close>: reading back a written
  value gives that value. So two values are never written alike, a file that was read and
  written again reads the same, and a value written over another is the one that is read.
\<close>

locale codec =
  fixes enc :: "'a \<Rightarrow> json" and dec :: "json \<Rightarrow> 'a res" and wf :: "'a \<Rightarrow> bool"
  assumes dec_enc: "wf x \<Longrightarrow> dec (enc x) = Inr x"
begin

lemma enc_inj: "wf x \<Longrightarrow> wf y \<Longrightarrow> enc x = enc y \<Longrightarrow> x = y"
  by (metis dec_enc sum.inject(2))

lemma rewrite_stable: "dec d = Inr x \<Longrightarrow> wf x \<Longrightarrow> bind_res (dec d) (\<lambda>y. dec (enc y)) = Inr x"
  by (simp add: dec_enc)

end

section \<open>A job's state\<close>

definition wf_state :: "jobstate \<Rightarrow> bool" where
  "wf_state s \<longleftrightarrow> st_status s \<noteq> [] \<and> (\<forall>i. st_intent s = Some i \<longrightarrow> i \<in> set INTENTS) \<and>
     small_int (st_attempt s) \<and> small_int (st_priority s) \<and> small_int (st_util_samples s) \<and>
     small_int (st_restarts s) \<and> list_all (pred_option small_int)
       [st_exit_code s, st_pgid s, st_runner_pid s, st_workdir_bytes s, st_kept_bytes s] \<and>
     list_all (\<lambda>v. v \<noteq> Some NaN)
       [st_estimated_runtime_min s, st_max_runtime_min s, st_progress_pct s] \<and>
     Some NaN \<notin> set (st_util_recent s) \<and> list_all (\<lambda>u. up_to u \<noteq> []) (st_uploads s)"

lemma small_int_consts [simp]: "small_int 0" "small_int 1" "small_int 15" "small_int 50" "small_int 180"
  by (simp_all add: small_int_def)

lemma upload_roundtrip: "up_to u \<noteq> [] \<Longrightarrow> upload_from_dict (upload_to_dict u) = Some u"
  by (simp add: upload_from_dict_def upload_to_dict_def get_def as_opt_str_def)
    (cases "up_output u"; cases "up_ok_at u"; cases "up_error u"; simp)

lemma uploads_roundtrip:
  "list_all (\<lambda>u. up_to u \<noteq> []) us \<Longrightarrow> List.map_filter upload_from_dict (map upload_to_dict us) = us"
  by (induction us) (simp_all add: List.map_filter_simps upload_roundtrip)

lemma state_fields:
  fixes s :: jobstate
  defines "d \<equiv> state_to_dict s"
  shows
    "get d ''status'' = JStr (st_status s)"
    "get d ''intent'' = opt_json JStr (st_intent s)"
    "get d ''attempt'' = JInt (st_attempt s)"
    "get d ''priority'' = JInt (st_priority s)"
    "get d ''estimated_runtime_min'' = opt_json JFloat (st_estimated_runtime_min s)"
    "get d ''max_runtime_min'' = opt_json JFloat (st_max_runtime_min s)"
    "get d ''live_max_runtime'' = JBool (st_live_max_runtime s)"
    "get d ''reason'' = opt_json JStr (st_reason s)"
    "get d ''problems'' = str_list_json (st_problems s)"
    "get d ''exit_code'' = opt_json JInt (st_exit_code s)"
    "get d ''gpus'' = str_list_json (st_gpus s)"
    "get d ''started_at'' = opt_json JStr (st_started_at s)"
    "get d ''ended_at'' = opt_json JStr (st_ended_at s)"
    "get d ''phase'' = opt_json JStr (st_phase s)"
    "get d ''pgid'' = opt_json JInt (st_pgid s)"
    "get d ''isolation'' = opt_json JStr (st_isolation s)"
    "get d ''cgroup_unit'' = opt_json JStr (st_cgroup_unit s)"
    "get d ''runner_pid'' = opt_json JInt (st_runner_pid s)"
    "get d ''runner_boot_id'' = opt_json JStr (st_runner_boot_id s)"
    "get d ''runner_init_start'' = opt_json JStr (st_runner_init_start s)"
    "get d ''runner_starttime'' = opt_json JStr (st_runner_starttime s)"
    "get d ''util_recent'' = JList (map (opt_json JFloat) (st_util_recent s))"
    "get d ''util_sum'' = JFloat (st_util_sum s)"
    "get d ''util_samples'' = JInt (st_util_samples s)"
    "get d ''progress_pct'' = opt_json JFloat (st_progress_pct s)"
    "get d ''progress_error'' = opt_json JStr (st_progress_error s)"
    "get d ''eta'' = opt_json JStr (st_eta s)"
    "get d ''uploads'' = JList (map upload_to_dict (st_uploads s))"
    "get d ''workdir_bytes'' = opt_json JInt (st_workdir_bytes s)"
    "get d ''outputs_lost'' = JBool (st_outputs_lost s)"
    "get d ''ran'' = JBool (st_ran s)"
    "get d ''checkout_removed_at'' = opt_json JStr (st_checkout_removed_at s)"
    "get d ''kept_bytes'' = opt_json JInt (st_kept_bytes s)"
    "get d ''restarts'' = JInt (st_restarts s)"
  by (simp_all add: d_def state_to_dict_def get_def)

lemma spec_fields:
  fixes s :: jobspec
  defines "d \<equiv> spec_to_dict s"
  shows
    "get d ''job_id'' = JStr (sp_job_id s)"
    "get d ''command'' = JStr (sp_command s)"
    "get d ''name'' = JStr (sp_name s)"
    "get d ''setup'' = opt_json JStr (sp_setup s)"
    "get d ''python'' = JStr (sp_python s)"
    "get d ''gpus'' = JInt (sp_gpus s)"
    "get d ''use_shared'' = JBool (sp_use_shared s)"
    "get d ''env'' = str_dict_json (sp_env s)"
    "get d ''secrets'' = str_list_json (sp_secrets s)"
    "get d ''outputs'' = JList (map output_to_dict (sp_outputs s))"
    "get d ''sync_interval_s'' = JInt (sp_sync_interval_s s)"
    "get d ''priority'' = JInt (sp_priority s)"
    "get d ''max_runtime_min'' = opt_json JFloat (sp_max_runtime_min s)"
    "get d ''estimated_runtime_min'' = opt_json JFloat (sp_estimated_runtime_min s)"
    "get d ''progress_command'' = opt_json JStr (sp_progress_command s)"
    "get d ''progress_interval_s'' = JFloat (sp_progress_interval_s s)"
    "get d ''auto_preempt'' = JBool (sp_auto_preempt s)"
    "get d ''cleanup'' = JStr (sp_cleanup s)"
    "get d ''requeued_from'' = opt_json JStr (sp_requeued_from s)"
  by (simp_all add: d_def spec_to_dict_def get_def)

lemma opt_intent: "(\<forall>i. v = Some i \<longrightarrow> P i) \<Longrightarrow> (case v of Some i \<Rightarrow> if P i then Some i else None | None \<Rightarrow> None) = v"
  by (cases v) auto

lemma read_opt_int': "get d key = opt_json JInt v \<Longrightarrow> pred_option small_int v \<Longrightarrow> as_opt_int d key = Inr v"
  by (rule read_opt_int) (auto simp: option.pred_set)

lemma as_list_JList: "get d key = JList xs \<Longrightarrow> as_list d key = xs"
  by (simp add: as_list_def)

lemma state_read_back:
  assumes "wf_state s"
  shows "state_from_dict (state_to_dict s) = Inr s"
proof -
  note g = state_fields [of s]
  have wf: "st_status s \<noteq> []" "\<forall>i. st_intent s = Some i \<longrightarrow> i \<in> set INTENTS"
    "small_int (st_attempt s)" "small_int (st_priority s)" "small_int (st_util_samples s)"
    "small_int (st_restarts s)" "pred_option small_int (st_exit_code s)" "pred_option small_int (st_pgid s)"
    "pred_option small_int (st_runner_pid s)" "pred_option small_int (st_workdir_bytes s)"
    "pred_option small_int (st_kept_bytes s)" "st_estimated_runtime_min s \<noteq> Some NaN"
    "st_max_runtime_min s \<noteq> Some NaN" "st_progress_pct s \<noteq> Some NaN"
    "Some NaN \<notin> set (st_util_recent s)" "list_all (\<lambda>u. up_to u \<noteq> []) (st_uploads s)"
    using assms by (simp_all add: wf_state_def del: job_constants)
  note ints = as_int_small [OF g(3) wf(3)] as_int_small [OF g(4) wf(4)]
    as_int_small [OF g(24) wf(5)] as_int_small [OF g(34) wf(6)]
    read_opt_int' [OF g(10) wf(7)] read_opt_int' [OF g(15) wf(8)] read_opt_int' [OF g(18) wf(9)]
    read_opt_int' [OF g(29) wf(10)] read_opt_int' [OF g(33) wf(11)]
  note floats = read_opt_float [OF g(5) wf(12)] read_opt_float [OF g(6) wf(13)]
    read_opt_float [OF g(25) wf(14)] read_opt_float_list [OF g(22) wf(15)] read_float [OF g(23)]
  note strs = read_str(1) [OF g(1)] read_str(2) [OF g(2)] read_str(2) [OF g(8)]
    read_str(2) [OF g(12)] read_str(2) [OF g(13)] read_str(2) [OF g(14)] read_str(2) [OF g(16)]
    read_str(2) [OF g(17)] read_str(2) [OF g(19)] read_str(2) [OF g(20)] read_str(2) [OF g(21)]
    read_str(2) [OF g(26)] read_str(2) [OF g(27)] read_str(2) [OF g(32)]
    read_str_list(1) [OF g(9)] read_str_list(1) [OF g(11)]
  note bools = read_bool [OF g(7)] read_bool [OF g(30)] read_bool [OF g(31)]
  show ?thesis
    unfolding state_from_dict_def
    by (simp add: ints floats strs bools as_list_JList [OF g(28)] uploads_roundtrip [OF wf(16)]
        or_else_def wf(1) opt_intent [OF wf(2)] del: job_constants)
qed

interpretation state_codec: codec state_to_dict state_from_dict wf_state
  by unfold_locales (rule state_read_back)

section \<open>A job's spec\<close>

definition wf_spec :: "jobspec \<Rightarrow> bool" where
  "wf_spec s \<longleftrightarrow> sp_command s \<noteq> [] \<and> sp_job_id s \<noteq> [] \<and> sp_python s \<noteq> [] \<and> 0 \<le> sp_gpus s \<and>
     small_int (sp_gpus s) \<and> small_int (sp_sync_interval_s s) \<and> small_int (sp_priority s) \<and>
     sp_max_runtime_min s \<noteq> Some NaN \<and> sp_estimated_runtime_min s \<noteq> Some NaN \<and>
     (case sp_progress_interval_s s of Fin r \<Rightarrow> r > 0 | PosInf \<Rightarrow> True | _ \<Rightarrow> False) \<and>
     sp_cleanup s \<in> set CLEANUP_POLICIES \<and> distinct (map fst (sp_env s))"

lemma output_read_back: "output_from_dict (output_to_dict out) = out"
  by (simp add: output_from_dict_def output_to_dict_def get_def as_opt_str_def as_str_def as_bool_def)
    (cases "out_s3 out"; cases "out_hf out"; cases "out_hf_path out"; simp)

lemma polling_interval_ok:
  assumes "get d ''progress_interval_s'' = JFloat f"
    and "case f of Fin r \<Rightarrow> r > 0 | PosInf \<Rightarrow> True | _ \<Rightarrow> False"
  shows "polling_interval d = Inr f"
  using assms by (cases f) (simp_all add: polling_interval_def read_float)

lemma spec_read_back:
  assumes "wf_spec s"
  shows "spec_from_dict fresh (spec_to_dict s) = Inr s"
proof -
  note g = spec_fields [of s]
  have wf: "sp_command s \<noteq> []" "sp_job_id s \<noteq> []" "sp_python s \<noteq> []" "0 \<le> sp_gpus s"
    "small_int (sp_gpus s)" "small_int (sp_sync_interval_s s)" "small_int (sp_priority s)"
    "sp_max_runtime_min s \<noteq> Some NaN" "sp_estimated_runtime_min s \<noteq> Some NaN"
    "case sp_progress_interval_s s of Fin r \<Rightarrow> r > 0 | PosInf \<Rightarrow> True | _ \<Rightarrow> False"
    "sp_cleanup s \<in> set CLEANUP_POLICIES" "distinct (map fst (sp_env s))"
    using assms by (simp_all add: wf_spec_def del: job_constants)
  note ints = as_int_small [OF g(6) wf(5)] as_int_small [OF g(11) wf(6)] as_int_small [OF g(12) wf(7)]
  note floats = read_opt_float [OF g(13) wf(8)] read_opt_float [OF g(14) wf(9)]
    polling_interval_ok [OF g(16) wf(10)]
  note strs = read_str(1) [OF g(1)] read_str(1) [OF g(2)] read_str(1) [OF g(3)] read_str(2) [OF g(4)]
    read_str(1) [OF g(5)] read_str(2) [OF g(15)] read_str(2) [OF g(19)] read_str_list(1) [OF g(9)]
  note bools = read_bool [OF g(7)] read_bool [OF g(17)]
  have clean: "normalize_cleanup (get (spec_to_dict s) ''cleanup'') = Inr (sp_cleanup s)"
    using wf(11) by (simp add: g(18) normalize_cleanup_def Let_def del: job_constants)
  have outs: "map output_from_dict (as_list (spec_to_dict s) ''outputs'') = sp_outputs s"
    by (simp add: as_list_JList [OF g(10)] comp_def output_read_back)
  show ?thesis
    unfolding spec_from_dict_def
    using wf(1-4)
    by (simp add: ints floats strs bools clean outs read_str_dict [OF g(8) wf(12)] or_else_def
        Let_def del: job_constants)
qed

interpretation spec_codec: codec spec_to_dict "spec_from_dict fresh" wf_spec
  by unfold_locales (rule spec_read_back)

section \<open>The host's config\<close>

definition wf_config :: "hostconfig \<Rightarrow> bool" where
  "wf_config c \<longleftrightarrow> small_int (cf_schema_version c) \<and> cf_host c \<noteq> [] \<and>
     cf_retention_days c \<noteq> Some NaN \<and> cf_workdir_days c \<noteq> Some NaN \<and> distinct (map fst (cf_env c))"

lemma read_opt_str_list:
  assumes "get d key = opt_json str_list_json v" and "v = None \<Longrightarrow> map_of (fields_of d) key = Some JNull"
  shows "as_opt_str_list d key = v"
  using assms read_str_list(2) [of d key] by (cases v) (auto simp: as_opt_str_list_def)

text \<open>What a document reads as depends on its config keys only.\<close>

lemma config_read_keys:
  assumes "wf_config c" and "\<And>k v. map_of (config_fields c) k = Some v \<Longrightarrow> map_of (fields_of d) k = Some v"
  shows "config_from_dict d = Inr c"
proof -
  have look: "map_of (fields_of d) k = Some v" if "(k, v) \<in> set (config_fields c)" for k v
    by (rule assms(2), rule map_of_is_SomeI) (use that in \<open>simp_all add: config_fields_def\<close>)
  have g: "get d ''schema_version'' = JInt (cf_schema_version c)" "get d ''host'' = JStr (cf_host c)"
    "get d ''gpus'' = opt_json str_list_json (cf_gpus c)"
    "get d ''shared_gpus'' = str_list_json (cf_shared_gpus c)"
    "get d ''provider'' = opt_json JDict (cf_provider c)"
    "get d ''idle_minutes'' = JFloat (cf_idle_minutes c)"
    "get d ''s3_prefix'' = opt_json JStr (cf_s3_prefix c)"
    "get d ''created_at'' = opt_json JStr (cf_created_at c)"
    "get d ''retention_days'' = opt_json JFloat (cf_retention_days c)"
    "get d ''workdir_days'' = opt_json JFloat (cf_workdir_days c)"
    "get d ''env'' = str_dict_json (cf_env c)" "get d ''pkg_commit'' = opt_json JStr (cf_pkg_commit c)"
    by (simp_all add: get_def look config_fields_def)
  have gpus: "as_opt_str_list d ''gpus'' = cf_gpus c"
    by (rule read_opt_str_list [OF g(3)]) (simp add: look config_fields_def)
  have wf: "small_int (cf_schema_version c)" "cf_host c \<noteq> []" "cf_retention_days c \<noteq> Some NaN"
    "cf_workdir_days c \<noteq> Some NaN" "distinct (map fst (cf_env c))"
    using assms(1) by (simp_all add: wf_config_def)
  have prov: "(case get d ''provider'' of JDict kvs \<Rightarrow> Some kvs | _ \<Rightarrow> None) = cf_provider c"
    by (cases "cf_provider c") (simp_all add: g(5))
  show ?thesis
    unfolding config_from_dict_def prov
    using wf(2)
    by (simp add: as_int_small [OF g(1) wf(1)] read_str(1) [OF g(2)] gpus read_str_list(1) [OF g(4)]
        read_float [OF g(6)] read_str(2) [OF g(7)] read_str(2) [OF g(8)]
        read_opt_float [OF g(9) wf(3)] read_opt_float [OF g(10) wf(4)] read_str_dict [OF g(11) wf(5)]
        read_str(2) [OF g(12)] or_else_def)
qed

interpretation config_codec: codec config_to_dict config_from_dict wf_config
  by unfold_locales (rule config_read_keys, simp_all add: config_to_dict_def)


section \<open>The readers are total on numbers a double can hold\<close>

text \<open>Every integer of the document, and of its list of samples, has at most 53 bits.\<close>

definition small_value :: "json \<Rightarrow> bool" where
  "small_value v = (case v of JInt i \<Rightarrow> small_int i | _ \<Rightarrow> True)"

definition small_doc :: "json \<Rightarrow> bool" where
  "small_doc d \<longleftrightarrow> list_all (\<lambda>kv. small_value (snd kv)) (fields_of d) \<and>
     list_all small_value (as_list d ''util_recent'')"

lemma small_doc_get:
  assumes "small_doc d" and "get d k = JInt i"
  shows "small_int i"
proof -
  from assms(2) have "(k, JInt i) \<in> set (fields_of d)"
    by (auto simp: get_def split: option.splits dest: map_of_SomeD)
  with assms(1) show ?thesis by (fastforce simp: small_doc_def small_value_def list_all_iff)
qed

lemma small_readers:
  assumes "small_doc d"
  shows "\<exists>f. as_float d key x = Inr f" "\<exists>v. as_opt_float d key = Inr v"
    "small_int y \<Longrightarrow> \<exists>j. as_int d key y = Inr j" "\<exists>w. as_opt_int d key = Inr w"
  using small_doc_get [OF assms]
  by (auto intro: as_float_ok as_opt_float_ok as_int_ok as_opt_int_ok)

lemma map_res_ok: "(\<And>x. x \<in> set xs \<Longrightarrow> \<exists>y. f x = Inr y) \<Longrightarrow> \<exists>ys. map_res f xs = Inr ys"
  by (induction xs) fastforce+

lemma small_samples: "small_doc d \<Longrightarrow> \<exists>vs. as_opt_float_list d ''util_recent'' = Inr vs"
proof -
  assume d: "small_doc d"
  have "\<exists>y. as_opt_float (JDict [(''util_recent'', item)]) ''util_recent'' = Inr y"
    if "item \<in> set (as_list d ''util_recent'')" for item
    by (rule as_opt_float_ok) (use d that in \<open>auto simp: get_def small_doc_def small_value_def list_all_iff\<close>)
  from map_res_ok [OF this] show ?thesis
    by (cases "get d ''util_recent''") (simp_all add: as_opt_float_list_def as_list_def)
qed

lemma uploads_named: "u \<in> set (List.map_filter upload_from_dict xs) \<Longrightarrow> up_to u \<noteq> []"
  by (induction xs)
    (auto simp: List.map_filter_simps upload_from_dict_def split: option.splits if_splits)

lemma state_from_dict_ok:
  assumes d: "small_doc d"
  shows "\<exists>s. state_from_dict d = Inr s \<and> st_status s \<noteq> [] \<and>
    (\<forall>i. st_intent s = Some i \<longrightarrow> i \<in> set INTENTS) \<and> (\<forall>u \<in> set (st_uploads s). up_to u \<noteq> [])"
proof -
  note ok = small_readers [OF d]
  obtain a where a: "as_int d ''attempt'' 1 = Inr a" using ok(3) small_int_consts(2) by blast
  obtain b where b: "as_int d ''priority'' 50 = Inr b" using ok(3) small_int_consts(4) by blast
  obtain c where c: "as_int d ''util_samples'' 0 = Inr c" using ok(3) small_int_consts(1) by blast
  obtain e where e: "as_int d ''restarts'' 0 = Inr e" using ok(3) small_int_consts(1) by blast
  obtain f1 where f1: "as_opt_float d ''estimated_runtime_min'' = Inr f1" using ok(2) by blast
  obtain f2 where f2: "as_opt_float d ''max_runtime_min'' = Inr f2" using ok(2) by blast
  obtain f3 where f3: "as_opt_float d ''progress_pct'' = Inr f3" using ok(2) by blast
  obtain f4 where f4: "as_float d ''util_sum'' (Fin 0) = Inr f4" using ok(1) by blast
  obtain i1 where i1: "as_opt_int d ''exit_code'' = Inr i1" using ok(4) by blast
  obtain i2 where i2: "as_opt_int d ''pgid'' = Inr i2" using ok(4) by blast
  obtain i3 where i3: "as_opt_int d ''runner_pid'' = Inr i3" using ok(4) by blast
  obtain i4 where i4: "as_opt_int d ''workdir_bytes'' = Inr i4" using ok(4) by blast
  obtain i5 where i5: "as_opt_int d ''kept_bytes'' = Inr i5" using ok(4) by blast
  obtain vs where vs: "as_opt_float_list d ''util_recent'' = Inr vs" using small_samples [OF d] ..
  show ?thesis
    unfolding state_from_dict_def
    by (simp add: a b c e f1 f2 f3 f4 i1 i2 i3 i4 i5 vs or_else_def uploads_named split: option.splits)
qed

lemma config_from_dict_ok:
  assumes d: "small_doc d"
  shows "\<exists>c. config_from_dict d = Inr c"
proof -
  note ok = small_readers [OF d]
  obtain a where a: "as_int d ''schema_version'' 1 = Inr a" using ok(3) small_int_consts(2) by blast
  obtain b where b: "as_float d ''idle_minutes'' (Fin 15) = Inr b" using ok(1) by blast
  obtain f1 where f1: "as_opt_float d ''retention_days'' = Inr f1" using ok(2) by blast
  obtain f2 where f2: "as_opt_float d ''workdir_days'' = Inr f2" using ok(2) by blast
  show ?thesis unfolding config_from_dict_def by (simp add: a b f1 f2)
qed

section \<open>Merging a config\<close>

lemma map_of_rev_distinct: "distinct (map fst xs) \<Longrightarrow> map_of (rev xs) = map_of xs"
  by (rule map_of_inject_set [THEN iffD2]) (simp_all add: rev_map [symmetric])

lemma map_of_dict_merge:
  assumes "distinct (map fst a)" and "distinct (map fst b)"
  shows "map_of (dict_merge a b) k = (case map_of b k of Some v \<Rightarrow> Some v | None \<Rightarrow> map_of a k)"
  by (simp add: dict_merge_def map_of_dict_of map_of_rev_distinct [OF assms(1)]
      map_of_rev_distinct [OF assms(2)] map_add_def)

lemma distinct_dict_merge [simp]: "distinct (map fst (dict_merge a b))"
  by (simp add: dict_merge_def)

lemma distinct_config_fields [simp]: "distinct (map fst (config_fields c))"
  by (simp add: config_fields_def)

lemma config_from_dict_wf:
  assumes "config_from_dict d = Inr c" and "small_int (cf_schema_version c)"
  shows "wf_config c"
proof -
  have nan: "as_opt_float d k = Inr v \<Longrightarrow> v \<noteq> Some NaN" for k v
    by (auto simp: as_opt_float_def bind_res_def split: if_splits sum.splits)
  have "distinct (map fst (as_str_dict d k))" for k
    by (cases "get d k") (simp_all add: as_str_dict_def)
  then show ?thesis
    using assms nan
    by (auto simp: config_from_dict_def wf_config_def or_else_def elim!: bind_res_Inr split: if_splits)
qed


lemma record_upload_keys:
  "map (\<lambda>u. (up_to u, up_output u)) (note_upload to out ok err us) =
     (if (to, out) \<in> set (map (\<lambda>u. (up_to u, up_output u)) us)
      then map (\<lambda>u. (up_to u, up_output u)) us
      else map (\<lambda>u. (up_to u, up_output u)) us @ [(to, out)])"
  by (induction us) (auto simp: noted_def)

section \<open>Properties of the files' readers and writers\<close>

text \<open>A running job's state with an upload record, as the runner leaves it.\<close>

definition demo_state :: jobstate where
  "demo_state =
     blank_state\<lparr>st_status := ''running'', st_intent := Some ''preempt'', st_gpus := [''G0''],
       st_pgid := Some 4242, st_util_recent := [Some (Fin (1/2)), None],
       st_uploads := [\<lparr>up_to = ''s3://b/r'', up_output = Some ''out'', up_ok_at = Some ''t'', up_error = None\<rparr>]\<rparr>"



text \<open>
  C28. The same for a spec: \<open>from_dict\<close> after \<open>to_dict\<close> is the identity on a spec with a
  command, an id, a count of cards that is not negative, a known clean-up policy and a
  positive polling interval; the fresh id it is offered is not used.
\<close>

definition demo_spec :: jobspec where
  "demo_spec =
     \<lparr>sp_job_id = ''20250101-000000-abcdef'', sp_command = ''python train.py'', sp_name = ''t'',
      sp_setup = None, sp_python = DEFAULT_PYTHON, sp_gpus = 2, sp_use_shared = True,
      sp_env = [(''A'', ''1'')], sp_secrets = [''HF_TOKEN''],
      sp_outputs = [\<lparr>out_path = ''out'', out_s3 = Some ''s3://b/{job_id}/'', out_hf = None,
        out_hf_path = None, out_hf_create = False\<rparr>],
      sp_sync_interval_s = 180, sp_priority = 50, sp_max_runtime_min = Some (Fin 90),
      sp_estimated_runtime_min = None, sp_progress_command = None,
      sp_progress_interval_s = Fin 60, sp_auto_preempt = False, sp_cleanup = ''on_success'',
      sp_requeued_from = None\<rparr>"

theorem spec_roundtrip:
  assumes "wf_spec s"
  shows "spec_from_dict fresh (spec_to_dict s) = Inr s"
  by (rule spec_codec.dec_enc [OF assms])

theorem spec_roundtrip_witness: "spec_from_dict ''x'' (spec_to_dict demo_spec) = Inr demo_spec"
  by (rule spec_roundtrip) (simp add: wf_spec_def demo_spec_def small_int_def)

text \<open>
  C16. A state file another build or a hand wrote is always readable, whatever it holds,
  unless an integer in it has more than 53 bits: the reader raises nothing, the status is
  not empty, an intent is a known one and every upload record names its destination.
\<close>

theorem state_reader_total:
  assumes "small_doc d"
  shows "\<exists>s. state_from_dict d = Inr s \<and> st_status s \<noteq> [] \<and>
    (\<forall>i. st_intent s = Some i \<longrightarrow> i \<in> set INTENTS) \<and> (\<forall>u \<in> set (st_uploads s). up_to u \<noteq> [])"
  by (rule state_from_dict_ok [OF assms])

theorem state_reader_total_witness:
  "\<exists>s. state_from_dict (JDict [(''pgid'', JStr ''1234''), (''intent'', JStr ''?''), (''uploads'', JList [JNull])]) = Inr s \<and>
    st_status s \<noteq> [] \<and> (\<forall>i. st_intent s = Some i \<longrightarrow> i \<in> set INTENTS) \<and>
    (\<forall>u \<in> set (st_uploads s). up_to u \<noteq> [])"
  by (rule state_reader_total) (simp add: small_doc_def small_value_def as_list_def get_def)

text \<open>
  The config reader can raise, although nothing in it may: an integer no double can
  hold makes \<open>float\<close> raise \<open>OverflowError\<close>, which \<open>as_float\<close> does not catch.
\<close>

theorem config_reader_raises:
  assumes "2 ^ 1024 \<le> i"
  shows "config_from_dict (JDict [(''retention_days'', JInt i)]) = Inl OverflowError"
  by (simp add: config_from_dict_def reader_defs get_def float_of_small_int
      float_of_int_overflow [OF assms])

theorem config_reader_raises_witness:
  "config_from_dict (JDict [(''retention_days'', JInt (10 ^ 400))]) = Inl OverflowError"
  by (rule config_reader_raises) simp

text \<open>
  Merging a config keeps what it does not know and normalises what it does: every key
  that is not a config key has the patch's value, or else the one that was there, and the
  merged document reads as the config the patched document reads as.
\<close>

theorem merged_config_normalises:
  assumes "distinct (map fst (fields_of existing))" and "distinct (map fst patch)"
    and "config_from_dict (JDict (dict_merge (fields_of existing) patch)) = Inr c"
    and "small_int (cf_schema_version c)"
  shows "\<exists>out. merged_config existing patch = Inr out \<and> config_from_dict (JDict out) = Inr c \<and>
    (\<forall>k. k \<notin> fst ` set (config_fields c) \<longrightarrow>
       map_of out k = (case map_of patch k of Some v \<Rightarrow> Some v | None \<Rightarrow> map_of (fields_of existing) k))"
proof -
  let ?merged = "dict_merge (fields_of existing) patch"
  let ?out = "dict_merge ?merged (config_fields c)"
  have "merged_config existing patch = Inr ?out"
    using assms(3) by (simp add: merged_config_def Let_def)
  moreover have "config_from_dict (JDict ?out) = Inr c"
    by (rule config_read_keys [OF config_from_dict_wf [OF assms(3,4)]])
      (simp add: map_of_dict_merge)
  moreover have "map_of ?out k = (case map_of patch k of Some v \<Rightarrow> Some v | None \<Rightarrow> map_of (fields_of existing) k)"
    if "k \<notin> fst ` set (config_fields c)" for k
    using that by (simp add: map_of_dict_merge assms(1,2) map_of_eq_None_iff [THEN iffD2])
  ultimately show ?thesis by blast
qed

lemma demo_merge:
  "config_from_dict (JDict (dict_merge (fields_of (JDict [(''future'', JInt 7), (''idle_minutes'', JStr ''30'')]))
     [(''host'', JStr ''h'')])) = Inr (blank_config\<lparr>cf_host := ''h'', cf_idle_minutes := Fin 30\<rparr>)"
  by code_simp

theorem merged_config_normalises_witness:
  "\<exists>out. merged_config (JDict [(''future'', JInt 7), (''idle_minutes'', JStr ''30'')]) [(''host'', JStr ''h'')] = Inr out \<and>
     map_of out ''future'' = Some (JInt 7)"
  using merged_config_normalises [OF _ _ demo_merge]
  by (simp add: blank_config_def small_int_def config_fields_def) force

text \<open>
  One record per destination: noting an upload changes that destination's record or
  adds it, the records of the others are untouched, a success clears the error and a
  failure keeps the time of the last success.
\<close>

theorem record_upload_correct:
  fixes to :: string and out ok err :: "string option"
  assumes "distinct (map (\<lambda>u. (up_to u, up_output u)) (st_uploads s))"
  defines "t \<equiv> record_upload_state to out ok err s"
  shows "distinct (map (\<lambda>u. (up_to u, up_output u)) (st_uploads t)) \<and>
    filter (\<lambda>u. (up_to u, up_output u) \<noteq> (to, out)) (st_uploads t) =
      filter (\<lambda>u. (up_to u, up_output u) \<noteq> (to, out)) (st_uploads s) \<and>
    (\<exists>u \<in> set (st_uploads t). up_to u = to \<and> up_output u = out \<and>
       (if ok \<noteq> None then up_ok_at u = ok \<and> up_error u = None else up_error u = err) \<and>
       (ok = None \<longrightarrow> up_ok_at u = (case find (\<lambda>v. up_to v = to \<and> up_output v = out) (st_uploads s) of
          Some v \<Rightarrow> up_ok_at v | None \<Rightarrow> None)))"
proof (intro conjI)
  have keys: "map (\<lambda>u. (up_to u, up_output u)) (st_uploads t) =
      (if (to, out) \<in> set (map (\<lambda>u. (up_to u, up_output u)) (st_uploads s))
       then map (\<lambda>u. (up_to u, up_output u)) (st_uploads s)
       else map (\<lambda>u. (up_to u, up_output u)) (st_uploads s) @ [(to, out)])"
    by (simp add: t_def record_upload_state_def record_upload_keys)
  show "distinct (map (\<lambda>u. (up_to u, up_output u)) (st_uploads t))"
    unfolding keys using assms(1) by simp
  have "filter (\<lambda>u. (up_to u, up_output u) \<noteq> (to, out)) (note_upload to out ok err us) =
      filter (\<lambda>u. (up_to u, up_output u) \<noteq> (to, out)) us" for us
    by (induction us) (auto simp: noted_def)
  then show "filter (\<lambda>u. (up_to u, up_output u) \<noteq> (to, out)) (st_uploads t) =
      filter (\<lambda>u. (up_to u, up_output u) \<noteq> (to, out)) (st_uploads s)"
    by (simp add: t_def record_upload_state_def)
  have "\<exists>u \<in> set (note_upload to out ok err us). up_to u = to \<and> up_output u = out \<and>
       (if ok \<noteq> None then up_ok_at u = ok \<and> up_error u = None else up_error u = err) \<and>
       (ok = None \<longrightarrow> up_ok_at u = (case find (\<lambda>v. up_to v = to \<and> up_output v = out) us of
          Some v \<Rightarrow> up_ok_at v | None \<Rightarrow> None))" for us
    by (induction us) (auto simp: noted_def)
  then show "\<exists>u \<in> set (st_uploads t). up_to u = to \<and> up_output u = out \<and>
       (if ok \<noteq> None then up_ok_at u = ok \<and> up_error u = None else up_error u = err) \<and>
       (ok = None \<longrightarrow> up_ok_at u = (case find (\<lambda>v. up_to v = to \<and> up_output v = out) (st_uploads s) of
          Some v \<Rightarrow> up_ok_at v | None \<Rightarrow> None))"
    by (simp add: t_def record_upload_state_def)
qed

theorem record_upload_correct_witness:
  "\<exists>u \<in> set (st_uploads (record_upload_state ''s3://b/r'' (Some ''out'') None (Some ''denied'') demo_state)).
     up_error u = Some ''denied'' \<and> up_ok_at u = Some ''t''"
  using record_upload_correct [of demo_state "''s3://b/r''" "Some ''out''" None "Some ''denied''"]
  by (force simp: demo_state_def)

end
