(* ===== verification/Files.thy ===== *)
theory Files
  imports Jobs
begin

text \<open>
  What a job's workdir holds, as the file system shows it to \<open>src/gpuc/host/baseline.py\<close> and
  to the sizes and sweeps of \<open>src/gpuc/host/cleanup.py\<close>: a tree of files with the facts
  \<open>stat\<close> and FIEMAP give about each, directories and symbolic links. A link is a leaf: it
  carries the path inside the workdir it resolves to, or nothing when it leads out of it.
  \<open>Lost\<close> is an entry whose metadata cannot be read.
\<close>

section \<open>The tree\<close>

record finfo =
  fi_size :: int
  fi_mtime :: int
  fi_blocks :: nat
  fi_inode :: "nat \<times> nat"
  fi_nlink :: nat
  fi_regular :: bool
  fi_shared_bytes :: nat

datatype fnode =
    NFile finfo
  | NDir nat "(string \<times> fnode) list option"
  | NLink nat "string list option"
  | Lost

text \<open>
  \<open>NDir\<close> carries its own blocks and its entries, \<open>None\<close> when they cannot be listed.
  \<open>split_slash\<close> is how \<open>pathlib\<close> takes a relative path apart.
\<close>

fun split_slash_from :: "string \<Rightarrow> string \<Rightarrow> string list" where
  "split_slash_from acc [] = [rev acc]"
| "split_slash_from acc (c # t) =
     (if c = CHR ''/'' then rev acc # split_slash_from [] t else split_slash_from (c # acc) t)"

definition path_parts :: "string \<Rightarrow> string list" where
  "path_parts p = filter (\<lambda>x. x \<noteq> [] \<and> x \<noteq> ''.'') (split_slash_from [] p)"

definition leaves_workdir :: "string \<Rightarrow> bool" where
  "leaves_workdir p \<longleftrightarrow> starts_with p ''/'' \<or> ''..'' \<in> set (path_parts p)"

fun node_at :: "fnode \<Rightarrow> string list \<Rightarrow> fnode option" where
  "node_at n [] = Some n"
| "node_at (NDir b (Some es)) (p # ps) =
     (case map_of es p of Some n \<Rightarrow> node_at n ps | None \<Rightarrow> None)"
| "node_at _ (p # ps) = None"

text \<open>
  The node an \<open>outputs:\<close> path names under the workdir; a path that leaves the workdir is
  looked up in what else the host has at such paths.
\<close>

definition output_node :: "fnode \<Rightarrow> (string \<times> fnode) list \<Rightarrow> string \<Rightarrow> fnode option" where
  "output_node wd outside p =
     (if leaves_workdir p then map_of outside p else node_at wd (path_parts p))"

section \<open>The baseline of a job's outputs\<close>

type_synonym entries = "(string \<times> (int \<times> int)) list"
type_synonym baseline = "(string \<times> entries) list"

definition MAX_TRACKED :: nat where "MAX_TRACKED = 500"

text \<open>Every regular file below a directory, with its path from it; links are not followed
  (a link below an output path counts as content whatever it leads to).\<close>

fun files_below :: "fnode \<Rightarrow> (string list \<times> finfo) list"
  and files_of_entries :: "(string \<times> fnode) list \<Rightarrow> (string list \<times> finfo) list" where
  "files_below (NDir b (Some es)) = files_of_entries es"
| "files_below (NFile f) = [([], f)]"
| "files_below _ = []"
| "files_of_entries [] = []"
| "files_of_entries ((name, n) # es) =
     map (\<lambda>pf. (name # fst pf, snd pf)) (files_below n) @ files_of_entries es"

definition stat_of :: "finfo \<Rightarrow> int \<times> int" where
  "stat_of f = (fi_size f, fi_mtime f)"

definition slashed :: "string list \<Rightarrow> string" where
  "slashed ps = join ''/'' ps"

text \<open>\<open>scan\<close>: at most one entry more than \<open>MAX_TRACKED\<close>, in path order.\<close>

definition scan :: "string \<Rightarrow> fnode option \<Rightarrow> entries" where
  "scan name node =
     (case node of
        Some (NDir b es) \<Rightarrow>
          take (Suc MAX_TRACKED)
            (map (\<lambda>pf. (slashed (fst pf), stat_of (snd pf)))
              (sort_key fst (files_below (NDir b es))))
      | Some (NFile f) \<Rightarrow> [(name, stat_of f)]
      | _ \<Rightarrow> [])"

definition too_many :: "entries \<Rightarrow> bool" where
  "too_many es \<longleftrightarrow> length es > MAX_TRACKED"

text \<open>\<open>unchanged\<close>: the recorded files that are still there with their size and mtime.\<close>

definition unchanged :: "fnode \<Rightarrow> entries \<Rightarrow> string list" where
  "unchanged tree es =
     sort (map fst (filter (\<lambda>e. case node_at tree (path_parts (fst e)) of
         Some (NFile f) \<Rightarrow> stat_of f = snd e | _ \<Rightarrow> False) es))"

fun has_link :: "fnode \<Rightarrow> bool"
  and entries_have_link :: "(string \<times> fnode) list \<Rightarrow> bool" where
  "has_link (NLink b t) = True"
| "has_link (NDir b (Some es)) = entries_have_link es"
| "has_link _ = False"
| "entries_have_link [] = False"
| "entries_have_link ((name, n) # es) = (has_link n \<or> entries_have_link es)"

fun unlisted :: "fnode \<Rightarrow> bool"
  and entries_unlisted :: "(string \<times> fnode) list \<Rightarrow> bool" where
  "unlisted (NDir b None) = True"
| "unlisted (NDir b (Some es)) = entries_unlisted es"
| "unlisted _ = False"
| "entries_unlisted [] = False"
| "entries_unlisted ((name, n) # es) = (unlisted n \<or> entries_unlisted es)"

text \<open>The non-directories \<open>os.walk\<close> lists below a directory, each by name.\<close>

fun count_names :: "fnode \<Rightarrow> nat"
  and count_entries :: "(string \<times> fnode) list \<Rightarrow> nat" where
  "count_names (NDir b (Some es)) = count_entries es"
| "count_names _ = 0"
| "count_entries [] = 0"
| "count_entries ((name, n) # es) =
     (case n of NDir _ _ \<Rightarrow> count_names n | _ \<Rightarrow> 1) + count_entries es"

text \<open>
  \<open>has_new_content\<close>: anything new or changed under an output path, every way of not
  knowing counted as content.
\<close>

definition has_new_content :: "string \<Rightarrow> fnode option \<Rightarrow> entries \<Rightarrow> bool" where
  "has_new_content name node es =
     (case node of
        None \<Rightarrow> False
      | Some Lost \<Rightarrow> True
      | Some (NLink b t) \<Rightarrow> True
      | Some (NFile f) \<Rightarrow> map_of es name \<noteq> Some (stat_of f)
      | Some (NDir b ents) \<Rightarrow>
          has_link (NDir b ents) \<or> unlisted (NDir b ents) \<or>
          count_names (NDir b ents) > length (unchanged (NDir b ents) es))"

definition last_part :: "string \<Rightarrow> string" where
  "last_part p = (case rev (path_parts p) of x # _ \<Rightarrow> x | [] \<Rightarrow> [])"

definition output_key :: "output_rec \<Rightarrow> job_id \<Rightarrow> string res" where
  "output_key out j = format_job_id (out_path out) j"

text \<open>\<open>capture\<close>: the snapshot of every declared output path before the job runs.\<close>

definition capture :: "jobspec \<Rightarrow> fnode \<Rightarrow> (string \<times> fnode) list \<Rightarrow> job_id \<Rightarrow> baseline res" where
  "capture spec wd outside j =
     map_sum id dict_of
       (map_res (\<lambda>out. map_sum id (\<lambda>key. (key, scan (last_part key) (output_node wd outside key)))
          (output_key out j)) (sp_outputs spec))"

section \<open>Sizes\<close>

text \<open>
  \<open>_walk_size\<close> without a deadline: \<open>du\<close> counts each inode once; what a delete gives back
  counts a file with more than one link only when all its links are in the tree, and takes
  the extents other files share off the rest. The stack order does not matter to a sum, so
  the walk is a list of all entries below the tree.
\<close>

fun walk_nodes :: "fnode \<Rightarrow> fnode list"
  and walk_entries :: "(string \<times> fnode) list \<Rightarrow> fnode list" where
  "walk_nodes (NDir b (Some es)) = walk_entries es"
| "walk_nodes _ = []"
| "walk_entries [] = []"
| "walk_entries ((name, n) # es) = n # walk_nodes n @ walk_entries es"

fun own_blocks :: "fnode \<Rightarrow> nat" where
  "own_blocks (NFile f) = fi_blocks f"
| "own_blocks (NDir b _) = b"
| "own_blocks (NLink b _) = b"
| "own_blocks Lost = 0"

definition multi_linked :: "fnode list \<Rightarrow> finfo list" where
  "multi_linked ns = List.map_filter (\<lambda>n. case n of NFile f \<Rightarrow> if fi_nlink f > 1 then Some f else None | _ \<Rightarrow> None) ns"

definition dedup_inodes :: "finfo list \<Rightarrow> (( nat \<times> nat) \<times> finfo) list" where
  "dedup_inodes fs = foldl (\<lambda>d f. setdefault (fi_inode f) f d) [] fs"

text \<open>The entries that are counted on sight: directories, links, files with one link.\<close>

definition single_bytes :: "bool \<Rightarrow> fnode \<Rightarrow> nat" where
  "single_bytes reclaimable n =
     (case n of
        NFile f \<Rightarrow>
          if fi_nlink f > 1 then 0
          else let blocks = fi_blocks f * 512
               in if reclaimable \<and> blocks \<noteq> 0 \<and> fi_regular f
                  then blocks - min blocks (fi_shared_bytes f) else blocks
      | _ \<Rightarrow> own_blocks n * 512)"

definition walk_size :: "bool \<Rightarrow> fnode \<Rightarrow> nat" where
  "walk_size reclaimable tree =
     (let ns = walk_nodes tree; multi = multi_linked ns
      in sum_list (map (single_bytes reclaimable) ns) +
         sum_list (map (\<lambda>kf. if reclaimable \<and>
               length (filter (\<lambda>f. fi_inode f = fst kf) multi) < fi_nlink (snd kf) then 0
             else fi_blocks (snd kf) * 512) (dedup_inodes multi)) +
         own_blocks tree * 512)"

definition dir_size :: "fnode \<Rightarrow> nat" where
  "dir_size tree = walk_size False tree"

definition reclaimable_bytes :: "fnode \<Rightarrow> nat" where
  "reclaimable_bytes tree = walk_size True tree"

section \<open>Removing around what is kept\<close>

text \<open>
  \<open>_remove_around\<close>: everything below a directory goes except the kept paths and whatever
  leads to them. \<open>here\<close> is the directory's own path from the workdir.
\<close>

definition leads_to :: "string list \<Rightarrow> string list list \<Rightarrow> bool" where
  "leads_to here keep \<longleftrightarrow> list_ex (\<lambda>k. take (length here) k = here) keep"

fun remove_around :: "string list list \<Rightarrow> string list \<Rightarrow> fnode \<Rightarrow> fnode"
  and remove_entries ::
    "string list list \<Rightarrow> string list \<Rightarrow> (string \<times> fnode) list \<Rightarrow> (string \<times> fnode) list" where
  "remove_around keep here (NDir b (Some es)) = NDir b (Some (remove_entries keep here es))"
| "remove_around keep here n = n"
| "remove_entries keep here [] = []"
| "remove_entries keep here ((name, n) # es) =
     (let child = here @ [name]; rest = remove_entries keep here es
      in if child \<in> set keep then (name, n) # rest
         else if leads_to child keep
         then (case n of
             NLink b t \<Rightarrow> (name, n) # rest
           | NDir b sub \<Rightarrow> (name, remove_around keep child (NDir b sub)) # rest
           | _ \<Rightarrow> rest)
         else rest)"

text \<open>
  \<open>kept_paths\<close>: each kept output as named and, when it goes through links that stay in the
  workdir, where it really is. \<open>resolve\<close> follows at most \<open>fuel\<close> links.
\<close>

fun resolve :: "nat \<Rightarrow> fnode \<Rightarrow> string list \<Rightarrow> string list \<Rightarrow> string list option" where
  "resolve fuel tree done [] = Some done"
| "resolve fuel tree done (p # ps) =
     (case node_at tree (done @ [p]) of
        Some (NLink b t) \<Rightarrow>
          (case fuel of
             0 \<Rightarrow> None
           | Suc n \<Rightarrow> (case t of Some q \<Rightarrow> resolve n tree [] (q @ ps) | None \<Rightarrow> None))
      | _ \<Rightarrow> resolve fuel tree (done @ [p]) ps)"

definition MAX_LINKS :: nat where "MAX_LINKS = 40"

definition kept_paths :: "fnode \<Rightarrow> string list \<Rightarrow> string list list" where
  "kept_paths tree kept_keys =
     dedup (concat (map (\<lambda>key. let named = path_parts key
         in named # (case resolve MAX_LINKS tree [] named of Some actual \<Rightarrow> [actual] | None \<Rightarrow> [])) kept_keys))"

definition kept_size :: "fnode \<Rightarrow> string list list \<Rightarrow> nat" where
  "kept_size tree keep =
     (let reals = dedup (List.map_filter (resolve MAX_LINKS tree []) keep);
          outermost = filter (\<lambda>p. \<not> list_ex (\<lambda>q. q \<noteq> p \<and> take (length q) p = q) reals) reals
      in sum_list (map (\<lambda>p. case node_at tree p of
           Some (NDir b es) \<Rightarrow> reclaimable_bytes (NDir b es)
         | Some n \<Rightarrow> own_blocks n * 512
         | None \<Rightarrow> 0) outermost))"


section \<open>Facts about removing around\<close>

lemma remove_around_keeps:
  "k \<in> set keep \<Longrightarrow> k = here @ ps \<Longrightarrow> ps \<noteq> [] \<Longrightarrow> node_at n ps = Some m \<Longrightarrow>
     node_at (remove_around keep here n) ps = Some m"
  "k \<in> set keep \<Longrightarrow> k = here @ p # ps \<Longrightarrow> map_of es p = Some n' \<Longrightarrow> node_at n' ps = Some m \<Longrightarrow>
     \<exists>n''. map_of (remove_entries keep here es) p = Some n'' \<and> node_at n'' ps = Some m"
proof (induction keep here n and keep here es arbitrary: ps and p ps n'
    rule: remove_around_remove_entries.induct)
  case (1 keep here b es)
  then obtain p ps' where ps: "ps = p # ps'" by (cases ps) auto
  with "1.prems"(4) obtain n' where "map_of es p = Some n'" "node_at n' ps' = Some m"
    by (auto split: option.splits)
  from "1.IH" [OF "1.prems"(1) _ this] "1.prems"(2) ps show ?case by (auto split: option.splits)
next
  case (4 keep here name n es)
  show ?case
  proof (cases "p = name")
    case True
    then have n': "n' = n" using "4.prems"(3) by simp
    let ?child = "here @ [name]"
    have lead: "leads_to ?child keep"
      using "4.prems"(1,2) True by (force simp: leads_to_def list_ex_iff)
    show ?thesis
    proof (cases "?child \<in> set keep")
      case True
      then show ?thesis using \<open>p = name\<close> n' "4.prems"(4) by (simp add: Let_def)
    next
      case False
      then have ps: "ps \<noteq> []" using "4.prems"(1,2) \<open>p = name\<close> by auto
      show ?thesis
      proof (cases n)
        case (NDir b sub)
        have "node_at (remove_around keep ?child (NDir b sub)) ps = Some m"
          using "4.IH"(2) [OF refl refl False lead NDir "4.prems"(1) _ ps] "4.prems"(2,4) n' NDir \<open>p = name\<close>
          by simp
        then show ?thesis using False lead NDir \<open>p = name\<close> by (simp add: Let_def)
      qed (use "4.prems"(4) n' ps in \<open>auto simp: neq_Nil_conv\<close>)
    qed
  next
    case False
    then have es: "map_of es p = Some n'" using "4.prems"(3) by simp
    have "\<exists>n''. map_of (remove_entries keep here es) p = Some n'' \<and> node_at n'' ps = Some m"
      using "4.IH"(1) [OF refl "4.prems"(1,2) es "4.prems"(4)] .
    then show ?thesis using False by (auto simp: Let_def split: fnode.splits)
  qed
qed auto


lemma remove_around_only_kept:
  "(\<exists>es. n = NDir b (Some es)) \<Longrightarrow> (p, f) \<in> set (files_below (remove_around keep here n)) \<Longrightarrow>
     \<exists>k \<in> set keep. take (length k) (here @ p) = k"
  "(p, f) \<in> set (files_of_entries (remove_entries keep here es)) \<Longrightarrow>
     \<exists>k \<in> set keep. take (length k) (here @ p) = k"
proof (induction keep here n and keep here es arbitrary: p b and p
    rule: remove_around_remove_entries.induct)
  case (4 keep here name n es)
  let ?child = "here @ [name]"
  show ?case
  proof (cases "(p, f) \<in> set (files_of_entries (remove_entries keep here es))")
    case True
    show ?thesis by (rule "4.IH"(1) [OF refl True])
  next
    case False
    show ?thesis
    proof (cases "?child \<in> set keep")
      case True
      then have "\<exists>q. p = name # q" using "4.prems" False by (auto simp: Let_def)
      then show ?thesis using True by (intro bexI [of _ ?child]) auto
    next
      case False2: False
      then have lead: "leads_to ?child keep"
        using "4.prems" False by (auto simp: Let_def split: if_splits)
      show ?thesis
      proof (cases n)
        case (NDir b sub)
        from "4.prems" False False2 lead NDir obtain q where
          q: "p = name # q" "(q, f) \<in> set (files_below (remove_around keep ?child (NDir b sub)))"
          by (auto simp: Let_def)
        then obtain es' where "sub = Some es'" by (cases sub) auto
        with "4.IH"(2) [OF refl refl False2 lead NDir _ q(2)] q(1) show ?thesis by auto
      qed (use "4.prems" False False2 lead in \<open>auto simp: Let_def\<close>)
    qed
  qed
qed auto

section \<open>Facts about sizes\<close>

lemma single_bytes_le: "single_bytes True n \<le> single_bytes False n"
  by (cases n) (auto simp: single_bytes_def Let_def)

lemma sum_list_map_le: "(\<And>x. x \<in> set xs \<Longrightarrow> f x \<le> g x) \<Longrightarrow> sum_list (map f xs) \<le> sum_list (map g xs)"
  for f g :: "'a \<Rightarrow> nat"
  by (induction xs) (auto intro: add_mono)

lemma walk_size_le: "walk_size True n \<le> walk_size False n"
  unfolding walk_size_def Let_def
  by (intro add_mono sum_list_map_le) (simp_all add: single_bytes_le)

section \<open>A tree the job has not touched\<close>

text \<open>Names a directory can have, each once, and nothing but readable files and directories.\<close>

definition good_name :: "string \<Rightarrow> bool" where
  "good_name x \<longleftrightarrow> x \<noteq> [] \<and> x \<noteq> ''.'' \<and> CHR ''/'' \<notin> set x"

fun plain_tree :: "fnode \<Rightarrow> bool"
  and plain_entries :: "(string \<times> fnode) list \<Rightarrow> bool" where
  "plain_tree (NDir b (Some es)) = (distinct (map fst es) \<and> plain_entries es)"
| "plain_tree (NFile f) = True"
| "plain_tree _ = False"
| "plain_entries [] = True"
| "plain_entries ((name, n) # es) = (good_name name \<and> plain_tree n \<and> plain_entries es)"

lemma split_slash_good:
  "CHR ''/'' \<notin> set x \<Longrightarrow> split_slash_from acc (x @ t) =
     (case t of [] \<Rightarrow> [rev acc @ x] | c # t' \<Rightarrow>
        if c = CHR ''/'' then (rev acc @ x) # split_slash_from [] t' else split_slash_from (rev x @ acc) t)"
  by (induction x arbitrary: acc) (auto split: list.splits)

lemma path_parts_slashed: "list_all good_name ps \<Longrightarrow> path_parts (slashed ps) = ps"
proof -
  assume good: "list_all good_name ps"
  have "ps \<noteq> [] \<Longrightarrow> split_slash_from [] (slashed ps) = ps"
    using good
  proof (induction ps rule: induct_list012)
    case (2 x)
    then show ?case using split_slash_good [of x "[]" "[]"] by (simp add: slashed_def good_name_def)
  next
    case (3 x y zs)
    then have "CHR ''/'' \<notin> set x" by (simp add: good_name_def)
    from split_slash_good [OF this, of "[]" "''/'' @ slashed (y # zs)"] 3 show ?case
      by (simp add: slashed_def)
  qed simp
  moreover have "filter (\<lambda>x. x \<noteq> [] \<and> x \<noteq> ''.'') ps = ps"
    using good by (auto simp: filter_id_conv list_all_iff good_name_def)
  ultimately show ?thesis
    by (cases "ps = []") (simp_all add: path_parts_def slashed_def)
qed

lemma plain_files:
  "plain_tree n \<Longrightarrow> (p, f) \<in> set (files_below n) \<Longrightarrow> list_all good_name p \<and> node_at n p = Some (NFile f)"
  "plain_entries es \<Longrightarrow> distinct (map fst es) \<Longrightarrow> (p, f) \<in> set (files_of_entries es) \<Longrightarrow>
     list_all good_name p \<and> node_at (NDir b (Some es)) p = Some (NFile f)"
proof (induction n and es arbitrary: p and p b rule: files_below_files_of_entries.induct)
  case (5 name n es)
  then consider q where "p = name # q" "(q, f) \<in> set (files_below n)"
    | "(p, f) \<in> set (files_of_entries es)" by auto
  then show ?case
  proof cases
    case 1
    then show ?thesis using "5.IH"(1) [of q] "5.prems"(1) by simp
  next
    case 2
    have tail: "list_all good_name p \<and> node_at (NDir b (Some es)) p = Some (NFile f)"
      using "5.IH"(2) [of p b] "5.prems"(1,2) 2 by simp
    then obtain x q where p: "p = x # q" "x \<in> fst ` set es"
      by (cases p) (force split: option.splits dest!: map_of_SomeD)+
    then have "x \<noteq> name" using "5.prems"(2) by auto
    then show ?thesis using tail p(1) by simp
  qed
qed auto

lemma plain_counts:
  "plain_tree n \<Longrightarrow> count_names n = (case n of NFile f \<Rightarrow> 0 | _ \<Rightarrow> length (files_below n))"
  "plain_entries es \<Longrightarrow> count_entries es = length (files_of_entries es)"
proof (induction n and es rule: files_below_files_of_entries.induct)
  case (5 name n es)
  then show ?case by (cases n rule: files_below.cases) auto
qed auto

lemma plain_no_link:
  "plain_tree n \<Longrightarrow> \<not> has_link n \<and> \<not> unlisted n"
  "plain_entries es \<Longrightarrow> \<not> entries_have_link es \<and> \<not> entries_unlisted es"
  by (induction n and es rule: plain_tree_plain_entries.induct) auto

text \<open>An output directory as the job found it holds nothing new.\<close>

lemma untouched_no_content:
  assumes "plain_tree (NDir b es)" and "length (files_below (NDir b es)) \<le> MAX_TRACKED"
  shows "\<not> has_new_content name (Some (NDir b es)) (scan name (Some (NDir b es)))"
proof -
  let ?n = "NDir b es"
  let ?fs = "sort_key fst (files_below ?n)"
  have scan: "scan name (Some ?n) = map (\<lambda>pf. (slashed (fst pf), stat_of (snd pf))) ?fs"
    using assms(2) by (simp add: scan_def)
  have "filter (\<lambda>e. case node_at ?n (path_parts (fst e)) of Some (NFile f) \<Rightarrow> stat_of f = snd e | _ \<Rightarrow> False)
      (scan name (Some ?n)) = scan name (Some ?n)"
    unfolding scan
    by (rule filter_True) (auto dest!: plain_files(1) [OF assms(1)] simp: path_parts_slashed)
  then have "length (unchanged ?n (scan name (Some ?n))) = length (files_below ?n)"
    by (simp add: unchanged_def) (simp add: scan)
  then show ?thesis
    using plain_counts(1) [OF assms(1)] plain_no_link(1) [OF assms(1)] by (simp add: has_new_content_def)
qed


section \<open>Properties\<close>

definition demo_file :: "int \<Rightarrow> nat \<Rightarrow> finfo" where
  "demo_file mtime inode =
     \<lparr>fi_size = 10, fi_mtime = mtime, fi_blocks = 8, fi_inode = (1, inode), fi_nlink = 1,
      fi_regular = True, fi_shared_bytes = 0\<rparr>"

definition demo_workdir :: fnode where
  "demo_workdir =
     NDir 8 (Some [(''train.py'', NFile (demo_file 1 1)),
       (''results'', NDir 8 (Some [(''old.md'', NFile (demo_file 1 2)), (''new.md'', NFile (demo_file 9 3))])),
       (''venv'', NDir 8 (Some [(''lib'', NFile (demo_file 1 4))]))])"

text \<open>
  A sweep that keeps outputs takes the checkout and nothing else: every kept path that
  was there is there afterwards, untouched, and every file that is left lies at or below a
  kept path.
\<close>

theorem remove_around_exact:
  assumes "n = NDir b (Some es)"
  shows "(\<forall>k \<in> set keep. \<forall>m. k \<noteq> [] \<longrightarrow> node_at n k = Some m \<longrightarrow>
            node_at (remove_around keep [] n) k = Some m) \<and>
    (\<forall>(p, f) \<in> set (files_below (remove_around keep [] n)). \<exists>k \<in> set keep. take (length k) p = k)"
proof (intro conjI ballI allI impI)
  show "node_at (remove_around keep [] n) k = Some m"
    if "k \<in> set keep" "k \<noteq> []" "node_at n k = Some m" for k m
    using remove_around_keeps(1) [of k keep "[]" k n m] that by simp
  show "case x of (p, f) \<Rightarrow> \<exists>k \<in> set keep. take (length k) p = k"
    if "x \<in> set (files_below (remove_around keep [] n))" for x
    using remove_around_only_kept(1) [of n b "fst x" "snd x" keep "[]"] that assms
    by (cases x) simp
qed

theorem remove_around_exact_witness:
  "node_at (remove_around [[''results'', ''new.md'']] [] demo_workdir) [''results'', ''new.md''] =
     Some (NFile (demo_file 9 3))"
  using remove_around_exact [OF demo_workdir_def, of "[[''results'', ''new.md'']]"]
  by (simp add: demo_workdir_def)

text \<open>
  A delete never promises more than the tree holds: what removing a tree would give
  back is at most what \<open>du\<close> says it occupies.
\<close>

theorem reclaimable_at_most_du: "reclaimable_bytes n \<le> dir_size n"
  by (simp add: reclaimable_bytes_def dir_size_def walk_size_le)

text \<open>
  Declaring an output is not producing one: an output directory of plain files that is
  exactly as the baseline found it holds no new content, as long as the baseline could
  track all its files.
\<close>

theorem untouched_output_is_not_new:
  assumes "plain_tree (NDir b es)" and "length (files_below (NDir b es)) \<le> MAX_TRACKED"
  shows "\<not> has_new_content name (Some (NDir b es)) (scan name (Some (NDir b es)))"
  by (rule untouched_no_content [OF assms])

theorem untouched_output_is_not_new_witness:
  "\<not> has_new_content ''w'' (Some demo_workdir) (scan ''w'' (Some demo_workdir))"
  unfolding demo_workdir_def
  by (rule untouched_output_is_not_new) (simp_all add: good_name_def MAX_TRACKED_def)

end
