(* ===== verification/Host.thy ===== *)
theory Host
  imports Files
begin

text \<open>
  The tree under gpuc home as the host's processes see it (\<open>src/gpuc/host/paths.py\<close>), and
  the file operations of \<open>src/gpuc/host/jobs.py\<close> and \<open>checkout.py\<close> on it. A job dir keeps
  what reading its \<open>spec.json\<close> and \<open>state.json\<close> gives: the record, or the exception a
  reader raises (an unreadable file is \<open>RuntimeError\<close>); by the round trips of the codec, a
  write followed by a read is the identity. Every read-modify-write of a state holds the
  job's \<open>flock\<close>, so it is one step here: a function of the host that returns its result and
  the host afterwards.
\<close>

section \<open>State\<close>

record archive =
  ar_tree :: fnode
  ar_bytes :: nat

record job_dir =
  jd_spec :: "jobspec res"
  jd_state :: "jobstate res"
  jd_log :: "string list"
  jd_workdir :: "fnode option"
  jd_archive :: "archive option"
  jd_baseline :: baseline
  jd_outside :: "(string \<times> fnode) list"

record staged_dir =
  sg_workdir :: "fnode option"
  sg_archive :: "archive option"
  sg_changed :: seconds

record host =
  h_jobs :: "(job_id \<times> job_dir) list"
  h_incoming :: "(job_id \<times> staged_dir) list"
  h_secrets :: "job_id list"
  h_draining :: bool
  h_config :: "hostconfig res"
  h_scratch :: bool

definition job_of :: "job_id \<Rightarrow> host \<Rightarrow> job_dir option" where
  "job_of j h = map_of (h_jobs h) j"

definition has_job :: "job_id \<Rightarrow> host \<Rightarrow> bool" where
  "has_job j h \<longleftrightarrow> job_of j h \<noteq> None"

definition update_job :: "job_id \<Rightarrow> (job_dir \<Rightarrow> job_dir) \<Rightarrow> host \<Rightarrow> host" where
  "update_job j f h = h\<lparr>h_jobs := AList.map_entry j f (h_jobs h)\<rparr>"

section \<open>Reading and writing a job's files\<close>

definition read_spec :: "job_id \<Rightarrow> host \<Rightarrow> jobspec res" where
  "read_spec j h = (case job_of j h of None \<Rightarrow> Inl RuntimeError | Some d \<Rightarrow> jd_spec d)"

definition read_state :: "job_id \<Rightarrow> host \<Rightarrow> jobstate res" where
  "read_state j h = (case job_of j h of None \<Rightarrow> Inl RuntimeError | Some d \<Rightarrow> jd_state d)"

definition write_state :: "job_id \<Rightarrow> jobstate \<Rightarrow> host \<Rightarrow> host" where
  "write_state j s h = update_job j (\<lambda>d. d\<lparr>jd_state := Inr s\<rparr>) h"

definition list_job_ids :: "host \<Rightarrow> job_id list" where
  "list_job_ids h = sort (map fst (h_jobs h))"

text \<open>
  \<open>with locked(job_id): state = read_state(job_id) \<dots>\<close>: a missing job is
  \<open>FileNotFoundError\<close>, an unreadable state raises; otherwise \<open>body\<close> decides the result and
  whether a state is written.
\<close>

definition with_state ::
  "job_id \<Rightarrow> (jobstate \<Rightarrow> 'r res \<times> jobstate option) \<Rightarrow> host \<Rightarrow> 'r res \<times> host" where
  "with_state j body h =
     (if \<not> has_job j h then (Inl FileNotFoundError, h)
      else (case read_state j h of
          Inl e \<Rightarrow> (Inl e, h)
        | Inr s \<Rightarrow> (case body s of
            (r, None) \<Rightarrow> (r, h)
          | (r, Some s') \<Rightarrow> (r, write_state j s' h))))"

definition update_state :: "job_id \<Rightarrow> (jobstate \<Rightarrow> jobstate) \<Rightarrow> host \<Rightarrow> jobstate res \<times> host" where
  "update_state j f h = with_state j (\<lambda>s. (Inr (f s), Some (f s))) h"

text \<open>\<open>finish\<close>: the one write that ends a job, a compare-and-set on its status.\<close>

definition finish ::
  "job_id \<Rightarrow> outcome \<Rightarrow> string \<Rightarrow> bool \<Rightarrow> string \<Rightarrow> (jobstate \<Rightarrow> jobstate) \<Rightarrow> host \<Rightarrow>
   jobstate option res \<times> host" where
  "finish j oc expect forget now extra h =
     with_state j (\<lambda>s.
       if st_status s \<noteq> expect then (Inr None, None)
       else let s' = finished_state oc forget now extra s in (Inr (Some s'), Some s')) h"

definition record_upload ::
  "job_id \<Rightarrow> string \<Rightarrow> string option \<Rightarrow> string option \<Rightarrow> string option \<Rightarrow> host \<Rightarrow> unit res \<times> host" where
  "record_upload j to out ok_at err h =
     with_state j (\<lambda>s. (Inr (), Some (record_upload_state to out ok_at err s))) h"

definition clear_output_uploads :: "job_id \<Rightarrow> host \<Rightarrow> unit res \<times> host" where
  "clear_output_uploads j h = with_state j (\<lambda>s. (Inr (), Some (forget_output_uploads s))) h"

text \<open>\<open>note\<close> of the queue: one line appended to the job's own log.\<close>

definition note_log :: "job_id \<Rightarrow> string \<Rightarrow> host \<Rightarrow> host" where
  "note_log j message h = update_job j (\<lambda>d. d\<lparr>jd_log := jd_log d @ [''>>> '' @ message]\<rparr>) h"

section \<open>The archived checkout\<close>

text \<open>
  \<open>archive_staged\<close>: the staged workdir becomes the archive beside it, once; \<open>gz\<close> is what
  the compressed file takes on disk.
\<close>

definition archive_staged :: "(fnode \<Rightarrow> nat) \<Rightarrow> staged_dir \<Rightarrow> staged_dir" where
  "archive_staged gz sg =
     (let sg' = (case (sg_archive sg, sg_workdir sg) of
          (None, Some wd) \<Rightarrow> sg\<lparr>sg_archive := Some \<lparr>ar_tree = wd, ar_bytes = gz wd\<rparr>\<rparr>
        | _ \<Rightarrow> sg)
      in sg'\<lparr>sg_workdir := None\<rparr>)"

text \<open>
  \<open>restore\<close>: the job has a workdir, unpacked from its archive if it has none, or the reason
  it cannot have one.
\<close>

definition restore :: "job_id \<Rightarrow> host \<Rightarrow> string option \<times> host" where
  "restore j h =
     (case job_of j h of
        None \<Rightarrow> (if h_scratch h then Some ''no workdir and no archived checkout to restore it from''
                 else None, h)
      | Some d \<Rightarrow>
          if jd_workdir d \<noteq> None then (None, h)
          else (case jd_archive d of
              None \<Rightarrow> (if h_scratch h
                 then Some ''no workdir and no archived checkout to restore it from'' else None, h)
            | Some a \<Rightarrow> (None, update_job j (\<lambda>d. d\<lparr>jd_workdir := Some (ar_tree a)\<rparr>) h)))"

section \<open>The contract of a keyed store\<close>

text \<open>
  What the operations on a job's state rely on: reading back a write gives it, a write to
  one job is not seen by a read of another, and a write neither adds nor removes a job.
\<close>

locale keyed_store =
  fixes rd :: "'k \<Rightarrow> 'h \<Rightarrow> 'v res" and wr :: "'k \<Rightarrow> 'v \<Rightarrow> 'h \<Rightarrow> 'h" and here :: "'k \<Rightarrow> 'h \<Rightarrow> bool"
  assumes rd_wr: "here k h \<Longrightarrow> rd k' (wr k v h) = (if k' = k then Inr v else rd k' h)"
    and here_wr: "here k' (wr k v h) = here k' h"
begin

lemma rd_own: "here k h \<Longrightarrow> rd k (wr k v h) = Inr v"
  by (simp add: rd_wr)

lemma rd_other: "here k h \<Longrightarrow> k' \<noteq> k \<Longrightarrow> rd k' (wr k v h) = rd k' h"
  by (simp add: rd_wr)

lemma last_write_wins: "here k h \<Longrightarrow> rd k' (wr k w (wr k v h)) = rd k' (wr k w h)"
  by (simp add: rd_wr here_wr)

lemma writes_commute:
  "here k h \<Longrightarrow> here k' h \<Longrightarrow> k \<noteq> k' \<Longrightarrow> rd x (wr k v (wr k' w h)) = rd x (wr k' w (wr k v h))"
  by (simp add: rd_wr here_wr)

end

lemma job_of_update: "job_of k (update_job j f h) = (if k = j then map_option f (job_of j h) else job_of k h)"
  by (auto simp: job_of_def update_job_def map_of_map_entry split: option.splits)

lemma has_job_update [simp]: "has_job k (update_job j f h) = has_job k h"
  by (simp add: has_job_def job_of_update)

lemma has_job_write [simp]: "has_job k (write_state j s h) = has_job k h"
  by (simp add: write_state_def)

interpretation states: keyed_store read_state write_state has_job
  by unfold_locales (auto simp: read_state_def write_state_def job_of_update has_job_def)

lemma read_spec_write [simp]: "read_spec k (write_state j s h) = read_spec k h"
  by (auto simp: read_spec_def write_state_def job_of_update split: option.splits)

lemma read_update_log [simp]:
  "read_state k (note_log j m h) = read_state k h" "read_spec k (note_log j m h) = read_spec k h"
  "has_job k (note_log j m h) = has_job k h"
  by (auto simp: note_log_def read_state_def read_spec_def job_of_update split: option.splits)

lemma keys_map_entry [simp]: "map fst (AList.map_entry k f xs) = map fst xs"
  by (induction xs) auto

lemma list_job_ids_update [simp]:
  "list_job_ids (update_job j f h) = list_job_ids h" "list_job_ids (write_state j s h) = list_job_ids h"
  "list_job_ids (note_log j m h) = list_job_ids h"
  by (simp_all add: list_job_ids_def update_job_def write_state_def note_log_def)

lemma host_fields_update [simp]:
  "h_draining (update_job j f h) = h_draining h" "h_config (update_job j f h) = h_config h"
  "h_secrets (update_job j f h) = h_secrets h" "h_incoming (update_job j f h) = h_incoming h"
  "h_scratch (update_job j f h) = h_scratch h"
  by (simp_all add: update_job_def)

text \<open>What a locked read-modify-write can do: refuse, decline, or write this job's state.\<close>

lemma with_state_cases:
  assumes "with_state j body h = (r, h')"
  obtains (missing) "\<not> has_job j h" "r = Inl FileNotFoundError" "h' = h"
    | (unreadable) e where "has_job j h" "read_state j h = Inl e" "r = Inl e" "h' = h"
    | (declined) s where "has_job j h" "read_state j h = Inr s" "body s = (r, None)" "h' = h"
    | (wrote) s s' where "has_job j h" "read_state j h = Inr s" "body s = (r, Some s')"
        "h' = write_state j s' h"
  using assms that
  by (auto simp: with_state_def split: if_splits sum.splits prod.splits option.splits)

lemma with_state_other: "k \<noteq> j \<Longrightarrow> read_state k (snd (with_state j body h)) = read_state k h"
  by (cases "with_state j body h" rule: prod.exhaust)
    (auto elim!: with_state_cases simp: states.rd_other)

lemma with_state_keeps [simp]:
  "has_job k (snd (with_state j body h)) = has_job k h"
  "read_spec k (snd (with_state j body h)) = read_spec k h"
  "list_job_ids (snd (with_state j body h)) = list_job_ids h"
  by (cases "with_state j body h", auto elim!: with_state_cases)+

end
