(* ===== verification/Procs.thy ===== *)
theory Procs
  imports Host
begin

text \<open>
  \<open>src/gpuc/host/procs.py\<close>: when a recorded process is still the same process, and the one way a
  job's processes are stopped. What \<open>/proc\<close> and the kernel answer is a record of facts the
  functions are given; what the functions do to processes is the list of effects they
  return, in order.
\<close>

section \<open>Facts about processes\<close>

record kernel =
  k_boot_id :: "string option"
  k_init_start :: "string option"
  k_pid_exists :: "int \<Rightarrow> bool"
  k_starttime :: "int \<Rightarrow> string option"
  k_group_exists :: "int \<Rightarrow> bool"
  k_own_group :: int

text \<open>\<open>text.split()\<close>: the runs of characters that are not white space.\<close>

fun split_ws_from :: "string \<Rightarrow> string \<Rightarrow> string list" where
  "split_ws_from acc [] = (if acc = [] then [] else [rev acc])"
| "split_ws_from acc (c # t) =
     (if is_space c then (if acc = [] then split_ws_from [] t else rev acc # split_ws_from [] t)
      else split_ws_from (c # acc) t)"

definition split_ws :: "string \<Rightarrow> string list" where
  "split_ws t = split_ws_from [] t"

text \<open>What follows the last \<open>)\<close>, if there is one.\<close>

definition after_last_paren :: "string \<Rightarrow> string option" where
  "after_last_paren t =
     (if CHR '')'' \<in> set t then Some (rev (takeWhile (\<lambda>c. c \<noteq> CHR '')'') (rev t))) else None)"

definition parse_starttime :: "string \<Rightarrow> string option" where
  "parse_starttime stat =
     (case after_last_paren stat of
        None \<Rightarrow> None
      | Some rest \<Rightarrow> let fields = split_ws rest in if length fields < 20 then None else Some (fields ! 19))"

definition pid_alive :: "kernel \<Rightarrow> int \<Rightarrow> bool" where
  "pid_alive k pid \<longleftrightarrow> pid > 0 \<and> k_pid_exists k pid"

definition process_group_alive :: "kernel \<Rightarrow> int \<Rightarrow> bool" where
  "process_group_alive k pgid = k_group_exists k pgid"

definition from_another_boot :: "kernel \<Rightarrow> string option \<Rightarrow> string option \<Rightarrow> bool" where
  "from_another_boot k rec_boot rec_init =
     (if blank rec_boot \<or> blank (k_boot_id k) then False
      else if rec_boot \<noteq> k_boot_id k then True
      else \<not> blank rec_init \<and> \<not> blank (k_init_start k) \<and> rec_init \<noteq> k_init_start k)"

definition recorded_process_alive ::
  "kernel \<Rightarrow> int option \<Rightarrow> string option \<Rightarrow> string option \<Rightarrow> string option \<Rightarrow> bool" where
  "recorded_process_alive k pid rec_boot rec_start rec_init =
     (case pid of
        None \<Rightarrow> False
      | Some p \<Rightarrow>
          if p = 0 \<or> \<not> pid_alive k p then False
          else if from_another_boot k rec_boot rec_init then False
          else \<not> (\<not> blank rec_start \<and> \<not> blank (k_starttime k p) \<and> rec_start \<noteq> k_starttime k p))"

text \<open>\<open>fields[2].isdigit()\<close> and \<open>int(fields[2])\<close>.\<close>

definition all_digits :: "string \<Rightarrow> bool" where
  "all_digits t \<longleftrightarrow> t \<noteq> [] \<and> list_all is_digit t"

definition digits_int :: "string \<Rightarrow> int" where
  "digits_int t = digits_val (map digit_val t)"

text \<open>\<open>_live_pgrp\<close>: \<open>rpartition\<close> of a text with no \<open>)\<close> leaves the whole text.\<close>

definition live_pgrp :: "string \<Rightarrow> int option" where
  "live_pgrp stat =
     (let rest = (case after_last_paren stat of Some r \<Rightarrow> r | None \<Rightarrow> stat); fields = split_ws rest
      in if length fields < 3 \<or> fields ! 0 = ''Z'' \<or> \<not> all_digits (fields ! 2) then None
         else Some (digits_int (fields ! 2)))"

fun contains :: "string \<Rightarrow> string \<Rightarrow> bool" where
  "contains [] pat = (pat = [])"
| "contains (c # t) pat = (starts_with (c # t) pat \<or> contains t pat)"

definition after_last_colon :: "string \<Rightarrow> string" where
  "after_last_colon t = rev (takeWhile (\<lambda>c. c \<noteq> CHR '':'') (rev t))"

definition in_unit :: "string \<Rightarrow> string \<Rightarrow> bool" where
  "in_unit cgroup unit_name =
     list_ex (\<lambda>line. contains (after_last_colon line @ ''/'') (''/'' @ unit_name @ ''/'')) (splitlines cgroup)"

section \<open>A job's processes\<close>

record job_processes =
  jp_cgroup_unit :: "string option"
  jp_job_pgid :: "int option"
  jp_runner_pid :: "int option"

definition no_processes :: job_processes where
  "no_processes = \<lparr>jp_cgroup_unit = None, jp_job_pgid = None, jp_runner_pid = None\<rparr>"

definition processes_of :: "kernel \<Rightarrow> jobstate \<Rightarrow> job_processes" where
  "processes_of k s =
     (if from_another_boot k (st_runner_boot_id s) (st_runner_init_start s) then no_processes
      else \<lparr>jp_cgroup_unit = st_cgroup_unit s,
            jp_job_pgid = (if st_pgid s = Some 0 then None else st_pgid s),
            jp_runner_pid = st_runner_pid s\<rparr>)"

datatype sig = SIGTERM | SIGKILL

datatype effect = StopUnit string | KillGroup int sig | KillPid int sig

text \<open>A process group a job may be signalled through: known and above 1.\<close>

definition usable_group :: "int option \<Rightarrow> int option" where
  "usable_group g = (case g of Some p \<Rightarrow> if p \<noteq> 0 \<and> p > 1 then Some p else None | None \<Rightarrow> None)"

text \<open>
  \<open>stop\<close>: the scope, then SIGTERM to the group and SIGKILL if it outlives the grace period.
  \<open>term_ok\<close> says whether the SIGTERM found the group; \<open>polls\<close> are the answers of
  \<open>process_group_alive\<close>, one per turn of the loop before the deadline.
\<close>

definition stop :: "job_processes \<Rightarrow> bool \<Rightarrow> bool list \<Rightarrow> effect list" where
  "stop jp term_ok polls =
     (case jp_cgroup_unit jp of Some u \<Rightarrow> [StopUnit u] | None \<Rightarrow> []) @
     (case usable_group (jp_job_pgid jp) of
        None \<Rightarrow> []
      | Some g \<Rightarrow>
          KillGroup g SIGTERM #
          (if term_ok \<and> list_all id polls then [KillGroup g SIGKILL] else []))"

text \<open>
  \<open>members\<close>: the pids of \<open>/proc\<close> in the job's group or scope; each entry is its name and the
  texts of its \<open>stat\<close> and \<open>cgroup\<close>, \<open>None\<close> where reading raises.
\<close>

definition member_pid ::
  "int option \<Rightarrow> string option \<Rightarrow> string \<times> string option \<times> string option \<Rightarrow> int option" where
  "member_pid pgid unit_name e =
     (case e of (name, stat, cgroup) \<Rightarrow>
        if \<not> all_digits name then None
        else (case Option.bind stat live_pgrp of
            None \<Rightarrow> None
          | Some g \<Rightarrow>
              if Some g = pgid then Some (digits_int name)
              else (case (unit_name, cgroup) of
                  (Some u, Some text) \<Rightarrow> if in_unit text u then Some (digits_int name) else None
                | _ \<Rightarrow> None)))"

definition members :: "job_processes \<Rightarrow> (string \<times> string option \<times> string option) list \<Rightarrow> int list" where
  "members jp proc_entries =
     (let pgid = usable_group (jp_job_pgid jp); unit_name = jp_cgroup_unit jp
      in if pgid = None \<and> unit_name = None then []
         else sort (List.map_filter (member_pid pgid unit_name) proc_entries))"

definition kill_now :: "kernel \<Rightarrow> job_processes \<Rightarrow> effect list" where
  "kill_now k jp =
     (if blank (jp_cgroup_unit jp) then [] else [StopUnit (the (jp_cgroup_unit jp))]) @
     (case usable_group (jp_job_pgid jp) of
        None \<Rightarrow> []
      | Some g \<Rightarrow>
          if g = k_own_group k \<or> \<not> process_group_alive k g then [] else [KillGroup g SIGKILL])"

definition escalate :: "kernel \<Rightarrow> job_processes \<Rightarrow> seconds \<Rightarrow> seconds \<Rightarrow> effect list" where
  "escalate k jp elapsed grace =
     (if elapsed \<le> grace then []
      else kill_now k jp @
        (case usable_group (jp_runner_pid jp) of
           None \<Rightarrow> []
         | Some runner \<Rightarrow>
             (if elapsed > 2 * grace \<and> pid_alive k runner then [KillPid runner SIGTERM] else []) @
             (if elapsed > 3 * grace \<and> process_group_alive k runner then [KillGroup runner SIGKILL] else [])))"

definition KILL_GRACE_S :: seconds where "KILL_GRACE_S = 15"

section \<open>Properties\<close>

lemma split_ws_append_space:
  assumes "is_space c"
  shows "split_ws_from acc (c # t) = (if acc = [] then [] else [rev acc]) @ split_ws t"
  using assms by (simp add: split_ws_def)

lemma after_last_paren_app:
  assumes "CHR '')'' \<notin> set rest"
  shows "after_last_paren (pre @ '')'' @ rest) = Some rest"
proof -
  have "takeWhile (\<lambda>c. c \<noteq> CHR '')'') (rev rest @ CHR '')'' # rev pre) = rev rest"
    using assms by (subst takeWhile_append2) auto
  then show ?thesis by (simp add: after_last_paren_def)
qed

text \<open>
  The start time is found whatever the process calls itself: with any command name,
  spaces and parentheses included, field 22 of \<open>/proc/<pid>/stat\<close> is what is read, as long as
  the fields after the name hold no parenthesis.
\<close>

theorem starttime_ignores_comm:
  assumes "CHR '')'' \<notin> set rest" and "length (split_ws rest) \<ge> 20"
  shows "parse_starttime (pre @ ''('' @ comm @ '')'' @ rest) = Some (split_ws rest ! 19)"
  using assms after_last_paren_app [OF assms(1), of "pre @ ''('' @ comm"]
  by (simp add: parse_starttime_def Let_def)

theorem starttime_ignores_comm_witness:
  "parse_starttime ''4242 (a) 1 2 3 (b) S 1 2 3 4 5 6 7 8 9 10 11 12 13 14 15 16 17 18 99 20'' = Some ''99''"
  using starttime_ignores_comm [of "'' S 1 2 3 4 5 6 7 8 9 10 11 12 13 14 15 16 17 18 99 20''" "''4242 ''" "''a) 1 2 3 (b''"]
  by (simp add: split_ws_def is_space_def)

text \<open>
  A record from another boot names nothing: neither killing, nor stopping, nor
  escalating a job whose runner was recorded in another boot of the machine or container
  sends any signal, and no recorded runner of it counts as alive.
\<close>

theorem another_boot_is_left_alone:
  assumes "from_another_boot k (st_runner_boot_id s) (st_runner_init_start s)"
  shows "kill_now k (processes_of k s) = [] \<and> stop (processes_of k s) t ps = [] \<and>
    escalate k (processes_of k s) e g = [] \<and> members (processes_of k s) es = [] \<and>
    \<not> recorded_process_alive k (st_runner_pid s) (st_runner_boot_id s) start (st_runner_init_start s)"
  using assms
  by (simp add: processes_of_def no_processes_def kill_now_def stop_def escalate_def members_def
      usable_group_def blank_def recorded_process_alive_def Let_def split: option.split)

definition demo_kernel :: kernel where
  "demo_kernel = \<lparr>k_boot_id = Some ''now'', k_init_start = None, k_pid_exists = (\<lambda>_. True),
     k_starttime = (\<lambda>_. Some ''7''), k_group_exists = (\<lambda>_. True), k_own_group = 99\<rparr>"

theorem another_boot_witness:
  "kill_now demo_kernel (processes_of demo_kernel
     (blank_state\<lparr>st_pgid := Some 4242, st_runner_pid := Some 4241, st_runner_boot_id := Some ''then''\<rparr>)) = []"
  using another_boot_is_left_alone [of demo_kernel
      "blank_state\<lparr>st_pgid := Some 4242, st_runner_pid := Some 4241, st_runner_boot_id := Some ''then''\<rparr>"]
  by (simp add: from_another_boot_def demo_kernel_def blank_def blank_state_def)

text \<open>
  Escalation climbs and never misfires: nothing inside the first grace period, what is
  done at one moment is done at every later one too, the runner itself is
  signalled only after two periods, and no signal ever goes to process or group 0 or 1, nor
  does the killing of the job's group ever hit the caller's own.
\<close>

theorem escalate_ladder:
  assumes "0 < g"
  shows "(e \<le> g \<longrightarrow> escalate k jp e g = []) \<and>
    (\<forall>p sg. KillPid p sg \<in> set (escalate k jp e g) \<longrightarrow> e > 2 * g \<and> sg = SIGTERM \<and> p > 1 \<and> Some p = jp_runner_pid jp) \<and>
    (\<forall>p sg. KillGroup p sg \<in> set (escalate k jp e g) \<longrightarrow> p > 1 \<and>
       (Some p = jp_job_pgid jp \<and> p \<noteq> k_own_group k \<or> e > 3 * g \<and> Some p = jp_runner_pid jp)) \<and>
    (e \<le> e' \<longrightarrow> (\<forall>x \<in> set (escalate k jp e g). x \<in> set (escalate k jp e' g)))"
proof (intro conjI impI allI)
  show "e \<le> g \<Longrightarrow> escalate k jp e g = []" by (simp add: escalate_def)
next
  fix p sg assume "KillPid p sg \<in> set (escalate k jp e g)"
  then show "e > 2 * g" "sg = SIGTERM" "p > 1" "Some p = jp_runner_pid jp"
    by (auto simp: escalate_def kill_now_def usable_group_def split: if_splits option.splits)
next
  fix p sg assume "KillGroup p sg \<in> set (escalate k jp e g)"
  then show "p > 1" "Some p = jp_job_pgid jp \<and> p \<noteq> k_own_group k \<or> e > 3 * g \<and> Some p = jp_runner_pid jp"
    by (auto simp: escalate_def kill_now_def usable_group_def split: if_splits option.splits)
next
  assume "e \<le> e'"
  then show "\<forall>x \<in> set (escalate k jp e g). x \<in> set (escalate k jp e' g)"
    by (auto simp: escalate_def split: if_splits option.splits)
qed

theorem escalate_ladder_witness:
  "escalate demo_kernel \<lparr>jp_cgroup_unit = None, jp_job_pgid = Some 4242, jp_runner_pid = Some 4241\<rparr> 10 15 = []"
  using escalate_ladder [of 15 10 demo_kernel "\<lparr>jp_cgroup_unit = None, jp_job_pgid = Some 4242, jp_runner_pid = Some 4241\<rparr>"]
  by simp

end
