(* ===== verification/Gpus.thy ===== *)
theory Gpus
  imports Procs
begin

text \<open>
  \<open>src/gpuc/host/gpus.py\<close>: the cards nvidia-smi reports, what a host's entries name among
  them, and which shared cards nobody is using. \<open>smi\<close> is the injectable runner of the
  source: the text nvidia-smi printed for these arguments, or the \<open>GpuError\<close> of a call that
  failed. Text is ASCII, as nvidia-smi's is: \<open>isdigit\<close> and \<open>split\<close> are those of ASCII.
\<close>

section \<open>Errors and cells\<close>

datatype smi_error = GpuError string | SmiRaised pyerr

type_synonym 'a smi_res = "smi_error + 'a"
type_synonym smi_runner = "string list \<Rightarrow> string smi_res"

fun split_char_from :: "char \<Rightarrow> string \<Rightarrow> string \<Rightarrow> string list" where
  "split_char_from sep acc [] = [rev acc]"
| "split_char_from sep acc (c # t) =
     (if c = sep then rev acc # split_char_from sep [] t else split_char_from sep (c # acc) t)"

definition cells_of :: "string \<Rightarrow> string list" where
  "cells_of line = map strip (split_char_from (CHR '','') [] line)"

definition isdigit :: "string \<Rightarrow> bool" where
  "isdigit t \<longleftrightarrow> t \<noteq> [] \<and> list_all is_digit t"

text \<open>\<open>memory.replace(".", "", 1)\<close>.\<close>

definition drop_first_dot :: "string \<Rightarrow> string" where
  "drop_first_dot t = takeWhile (\<lambda>c. c \<noteq> CHR ''.'') t @ drop 1 (dropWhile (\<lambda>c. c \<noteq> CHR ''.'') t)"

section \<open>The table\<close>

record gpu =
  gp_index :: "int option"
  gp_uuid :: uuid
  gp_name :: string
  gp_memory_mib :: "int option"

definition TABLE_FIELDS :: "string list" where
  "TABLE_FIELDS = [''index'', ''uuid'', ''name'', ''memory.total'']"

definition memory_of :: "string \<Rightarrow> int option smi_res" where
  "memory_of memory =
     (if isdigit (drop_first_dot memory)
      then (case float_of_str memory of
          None \<Rightarrow> Inl (SmiRaised ValueError)
        | Some f \<Rightarrow> (case py_int f of
            None \<Rightarrow> Inl (SmiRaised OverflowError)
          | Some n \<Rightarrow> Inr (Some n)))
      else Inr None)"

text \<open>One line of the table: not a row, or the card it describes.\<close>

definition parse_row :: "string \<Rightarrow> gpu option smi_res" where
  "parse_row line =
     (let cells = cells_of line
      in if length cells < 2 \<or> \<not> starts_with (cells ! 1) ''GPU-'' then Inr None
         else if \<not> isdigit (cells ! 0) then Inr None
         else
           let memory = (if length cells > 3 \<and> cells ! 3 \<noteq> [] then hd (split_ws (cells ! 3)) else [])
           in map_sum id (\<lambda>mem. Some \<lparr>gp_index = Some (digits_val (map digit_val (cells ! 0))),
                gp_uuid = cells ! 1, gp_name = (if length cells > 2 then cells ! 2 else []),
                gp_memory_mib = mem\<rparr>) (memory_of memory))"

fun parse_rows :: "string list \<Rightarrow> gpu list smi_res" where
  "parse_rows [] = Inr []"
| "parse_rows (line # lines) =
     (case parse_row line of
        Inl e \<Rightarrow> Inl e
      | Inr None \<Rightarrow> parse_rows lines
      | Inr (Some g) \<Rightarrow> map_sum id ((#) g) (parse_rows lines))"

definition parse_table :: "string \<Rightarrow> gpu list smi_res" where
  "parse_table t = parse_rows (splitlines t)"

text \<open>\<open>text.strip()[-200:]\<close>.\<close>

definition tail200 :: "string \<Rightarrow> string" where
  "tail200 t = drop (length t - 200) t"

definition no_rows :: "string list \<Rightarrow> string \<Rightarrow> smi_error" where
  "no_rows flds t =
     GpuError (''nvidia-smi --query-gpu='' @ join '','' flds @ '' returned no card rows: ''
       @ str_repr (tail200 (strip t)))"

definition list_gpus :: "smi_runner \<Rightarrow> gpu list smi_res" where
  "list_gpus smi =
     (case smi [''--query-gpu='' @ join '','' TABLE_FIELDS, ''--format=csv,noheader,nounits''] of
        Inl e \<Rightarrow> Inl e
      | Inr t \<Rightarrow>
          (case parse_table t of
             Inl e \<Rightarrow> Inl e
           | Inr table \<Rightarrow>
               if table = [] \<and> strip t \<noteq> [] then Inl (no_rows TABLE_FIELDS t) else Inr table))"

text \<open>\<open>_query\<close>: every line that is not blank has exactly the flds asked for.\<close>

fun query_rows :: "string list \<Rightarrow> string list \<Rightarrow> string list list smi_res" where
  "query_rows flds [] = Inr []"
| "query_rows flds (l # lines) =
     (let line = strip l
      in if line = [] then query_rows flds lines
         else
           let cells = cells_of line
           in if length cells \<noteq> length flds
              then Inl (GpuError (''nvidia-smi --query-gpu='' @ join '','' flds @ '' returned ''
                @ nat_str (length cells) @ '' field(s) in '' @ str_repr line @ '', expected ''
                @ nat_str (length flds)))
              else map_sum id ((#) cells) (query_rows flds lines))"

definition query :: "string list \<Rightarrow> smi_runner \<Rightarrow> string list \<Rightarrow> string list list smi_res" where
  "query flds smi extra =
     (case smi ([''--query-gpu='' @ join '','' flds, ''--format=csv,noheader,nounits''] @ extra) of
        Inl e \<Rightarrow> Inl e
      | Inr t \<Rightarrow> query_rows flds (splitlines t))"

definition driver_version :: "smi_runner \<Rightarrow> string smi_res" where
  "driver_version smi =
     (case query [''driver_version''] smi [] of
        Inl e \<Rightarrow> Inl e
      | Inr [] \<Rightarrow> Inl (GpuError ''nvidia-smi reported no GPUs, so no driver version'')
      | Inr (row # _) \<Rightarrow> Inr (row ! 0))"

section \<open>What a host's entries name\<close>

record resolution =
  rs_owned :: "uuid list"
  rs_shared :: "uuid list"
  rs_missing :: "string list"
  rs_shared_missing :: "string list"
  rs_duplicates :: "string list"

definition by_index :: "gpu list \<Rightarrow> (string \<times> uuid) list" where
  "by_index table =
     dict_of (List.map_filter (\<lambda>g. map_option (\<lambda>i. (int_str i, gp_uuid g)) (gp_index g)) table)"

definition lookup_entry :: "gpu list \<Rightarrow> string \<Rightarrow> uuid option" where
  "lookup_entry table entry =
     (if isdigit entry then map_of (by_index table) entry
      else if entry \<in> set (map gp_uuid table) then Some entry else None)"

text \<open>The loop over the owned entries, then the one over the shared entries.\<close>

fun resolve_owned :: "gpu list \<Rightarrow> string list \<Rightarrow> resolution \<Rightarrow> resolution" where
  "resolve_owned table [] r = r"
| "resolve_owned table (entry # es) r =
     resolve_owned table es
       (case lookup_entry table entry of
          None \<Rightarrow> r\<lparr>rs_missing := rs_missing r @ [entry]\<rparr>
        | Some u \<Rightarrow>
            if u \<in> set (rs_owned r) then r\<lparr>rs_duplicates := rs_duplicates r @ [entry]\<rparr>
            else r\<lparr>rs_owned := rs_owned r @ [u]\<rparr>)"

fun resolve_shared :: "gpu list \<Rightarrow> string list \<Rightarrow> resolution \<Rightarrow> resolution" where
  "resolve_shared table [] r = r"
| "resolve_shared table (entry # es) r =
     resolve_shared table es
       (case lookup_entry table entry of
          None \<Rightarrow> r\<lparr>rs_shared_missing := rs_shared_missing r @ [entry]\<rparr>
        | Some u \<Rightarrow>
            if u \<in> set (rs_owned r) \<or> u \<in> set (rs_shared r)
            then r\<lparr>rs_duplicates := rs_duplicates r @ [entry]\<rparr>
            else r\<lparr>rs_shared := rs_shared r @ [u]\<rparr>)"

definition nothing_resolved :: resolution where
  "nothing_resolved =
     \<lparr>rs_owned = [], rs_shared = [], rs_missing = [], rs_shared_missing = [], rs_duplicates = []\<rparr>"

definition owned_entries :: "string list option \<Rightarrow> gpu list \<Rightarrow> string list \<Rightarrow> string list" where
  "owned_entries owned table sh =
     (case owned of
        Some es \<Rightarrow> es
      | None \<Rightarrow> filter (\<lambda>u. Some u \<notin> set (map (lookup_entry table) sh)) (map gp_uuid table))"

definition resolve :: "string list option \<Rightarrow> gpu list \<Rightarrow> string list \<Rightarrow> resolution" where
  "resolve owned table sh =
     resolve_shared table sh (resolve_owned table (owned_entries owned table sh) nothing_resolved)"

definition describe_table :: "gpu list \<Rightarrow> string" where
  "describe_table table =
     (let t = join '', '' (map (\<lambda>g. (case gp_index g of None \<Rightarrow> ''None'' | Some i \<Rightarrow> int_str i) @ ''='' @ gp_uuid g) table)
      in if t = [] then ''(no GPUs)'' else t)"

section \<open>What is on a card\<close>

record usage =
  us_uuid :: uuid
  us_memory_mib :: "pyfloat option"
  us_utilization_pct :: "pyfloat option"

definition usage_unused :: "usage \<Rightarrow> bool" where
  "usage_unused u \<longleftrightarrow> us_memory_mib u = Some (Fin 0) \<and> us_utilization_pct u = Some (Fin 0)"

text \<open>\<open>f"{x:.0f}"\<close>.\<close>

fun fixed0 :: "pyfloat \<Rightarrow> string" where
  "fixed0 (Fin r) =
     (let (n, d) = quotient_of \<bar>r\<bar> in (if r < 0 then ''-'' else []) @ int_str (round_half_even n d))"
| "fixed0 PosInf = ''inf''"
| "fixed0 NegInf = ''-inf''"
| "fixed0 NaN = ''nan''"

definition usage_describe :: "usage \<Rightarrow> string" where
  "usage_describe u =
     (case us_memory_mib u of None \<Rightarrow> ''?'' | Some m \<Rightarrow> fixed0 m) @ '' MiB, ''
     @ (case us_utilization_pct u of None \<Rightarrow> ''?'' | Some p \<Rightarrow> fixed0 p) @ ''% util''"

definition USAGE_FIELDS :: "string list" where
  "USAGE_FIELDS = [''memory.used'', ''utilization.gpu'']"

text \<open>\<open>sample_utilization\<close>: the reading of each card asked about.\<close>

fun utilization_rows :: "uuid list \<Rightarrow> string list list \<Rightarrow> (uuid \<times> pyfloat) list \<Rightarrow> (uuid \<times> pyfloat) list smi_res" where
  "utilization_rows uuids [] out = Inr out"
| "utilization_rows uuids (row # rows) out =
     (if row ! 0 \<in> set uuids
      then (case float_of_str (row ! 1) of
          None \<Rightarrow> Inl (GpuError (''nvidia-smi reported utilization.gpu for '' @ row ! 0 @ ''='' @ str_repr (row ! 1)
            @ '', which is not a number''))
        | Some f \<Rightarrow> utilization_rows uuids rows (AList.update (row ! 0) f out))
      else utilization_rows uuids rows out)"

definition sample_utilization :: "uuid list \<Rightarrow> smi_runner \<Rightarrow> (uuid \<times> pyfloat) list smi_res" where
  "sample_utilization uuids smi =
     (if uuids = [] then Inr []
      else (case query [''uuid'', ''utilization.gpu''] smi [''-i'', join '','' uuids] of
          Inl e \<Rightarrow> Inl e
        | Inr rows \<Rightarrow> utilization_rows uuids rows []))"

definition usage_of_row :: "string list \<Rightarrow> uuid \<times> usage" where
  "usage_of_row row =
     (row ! 0, \<lparr>us_uuid = row ! 0, us_memory_mib = float_of_str (row ! 1),
                us_utilization_pct = float_of_str (row ! 2)\<rparr>)"

text \<open>\<open>snapshot\<close>: one call for the cards and what is on each.\<close>

definition usage_line :: "nat \<Rightarrow> string \<Rightarrow> (uuid \<times> usage) option" where
  "usage_line n line =
     (let cells = cells_of line
      in if length cells = n \<and> starts_with (cells ! 1) ''GPU-''
         then Some (cells ! 1, \<lparr>us_uuid = cells ! 1, us_memory_mib = float_of_str (cells ! 4),
                us_utilization_pct = float_of_str (cells ! 5)\<rparr>)
         else None)"

definition snapshot :: "smi_runner \<Rightarrow> (gpu list \<times> (uuid \<times> usage) list) smi_res" where
  "snapshot smi =
     (let flds = TABLE_FIELDS @ USAGE_FIELDS
      in case smi [''--query-gpu='' @ join '','' flds, ''--format=csv,noheader,nounits''] of
           Inl e \<Rightarrow> Inl e
         | Inr t \<Rightarrow>
             (case parse_table t of
                Inl e \<Rightarrow> Inl e
              | Inr table \<Rightarrow>
                  if table = [] \<and> strip t \<noteq> [] then Inl (no_rows flds t)
                  else Inr (table, dict_of (List.map_filter (usage_line (length flds)) (splitlines t)))))"

text \<open>
  \<open>unused_gpus\<close>: the cards nobody is on, and why each other card is not taken. Only a
  \<open>GpuError\<close> is caught.
\<close>

definition usage_samples :: "uuid list \<Rightarrow> smi_runner \<Rightarrow> ((uuid \<times> usage) list \<times> string option) smi_res" where
  "usage_samples uuids smi =
     (case query (''uuid'' # USAGE_FIELDS) smi [''-i'', join '','' uuids] of
        Inl (GpuError m) \<Rightarrow> Inr ([], Some m)
      | Inl (SmiRaised e) \<Rightarrow> Inl (SmiRaised e)
      | Inr rows \<Rightarrow> Inr (dict_of (map usage_of_row rows), None))"

definition why_in_use :: "(uuid \<times> usage) list \<Rightarrow> string option \<Rightarrow> uuid \<Rightarrow> string option" where
  "why_in_use samples failure u =
     (case map_of samples u of
        None \<Rightarrow> Some (if blank failure then ''nvidia-smi reported nothing about it''
                      else ''could not be read ('' @ the failure @ '')'')
      | Some us \<Rightarrow> if usage_unused us then None else Some (usage_describe us))"

definition unused_gpus :: "uuid list \<Rightarrow> smi_runner \<Rightarrow> (uuid list \<times> (uuid \<times> string) list) smi_res" where
  "unused_gpus uuids smi =
     (if uuids = [] then Inr ([], [])
      else map_sum id (\<lambda>sf.
          (filter (\<lambda>u. why_in_use (fst sf) (snd sf) u = None) uuids,
           dict_of (List.map_filter (\<lambda>u. map_option (Pair u) (why_in_use (fst sf) (snd sf) u)) uuids)))
        (usage_samples uuids smi))"

section \<open>What resolving keeps\<close>

lemma set_dict_of: "set (dict_of kvs) \<subseteq> set kvs"
proof -
  have upd: "set (AList.update k v xs) \<subseteq> insert (k, v) (set xs)" for k v and xs :: "('a \<times> 'b) list"
    by (induction xs) auto
  have "set (foldl (\<lambda>d kv. AList.update (fst kv) (snd kv) d) d kvs) \<subseteq> set d \<union> set kvs" for d
  proof (induction kvs arbitrary: d)
    case (Cons kv kvs)
    from Cons [of "AList.update (fst kv) (snd kv) d"] upd [of "fst kv" "snd kv" d] show ?case by auto
  qed simp
  from this [of "[]"] show ?thesis by (simp add: dict_of_def)
qed

lemma lookup_present: "lookup_entry table e = Some u \<Longrightarrow> u \<in> set (map gp_uuid table)"
  using set_dict_of
  by (fastforce simp: lookup_entry_def by_index_def List.map_filter_def split: if_splits dest!: map_of_SomeD)

lemma resolve_owned_facts:
  fixes r :: resolution and table :: "gpu list" and es :: "string list"
  assumes "distinct (rs_owned r)"
  defines "r' \<equiv> resolve_owned table es r"
  shows "distinct (rs_owned r')" "rs_shared r' = rs_shared r" "rs_shared_missing r' = rs_shared_missing r"
    "u \<in> set (rs_owned r') \<longleftrightarrow> u \<in> set (rs_owned r) \<or> Some u \<in> lookup_entry table ` set es"
    "rs_missing r' = rs_missing r @ filter (\<lambda>e. lookup_entry table e = None) es"
    "length (rs_owned r') + length (rs_missing r') + length (rs_duplicates r') =
       length (rs_owned r) + length (rs_missing r) + length (rs_duplicates r) + length es"
proof -
  have "distinct (rs_owned r') \<and> rs_shared r' = rs_shared r \<and> rs_shared_missing r' = rs_shared_missing r \<and>
    (u \<in> set (rs_owned r') \<longleftrightarrow> u \<in> set (rs_owned r) \<or> Some u \<in> lookup_entry table ` set es) \<and>
    rs_missing r' = rs_missing r @ filter (\<lambda>e. lookup_entry table e = None) es \<and>
    length (rs_owned r') + length (rs_missing r') + length (rs_duplicates r') =
       length (rs_owned r) + length (rs_missing r) + length (rs_duplicates r) + length es"
    using assms(1) unfolding r'_def
  proof (induction es arbitrary: r)
    case (Cons e es)
    show ?case
    proof (cases "lookup_entry table e")
      case None
      then show ?thesis using Cons.IH [of "r\<lparr>rs_missing := rs_missing r @ [e]\<rparr>"] Cons.prems by auto
    next
      case (Some v)
      show ?thesis
      proof (cases "v \<in> set (rs_owned r)")
        case True
        then show ?thesis
          using Cons.IH [of "r\<lparr>rs_duplicates := rs_duplicates r @ [e]\<rparr>"] Cons.prems Some by auto
      next
        case False
        then show ?thesis
          using Cons.IH [of "r\<lparr>rs_owned := rs_owned r @ [v]\<rparr>"] Cons.prems Some by auto
      qed
    qed
  qed simp
  then show "distinct (rs_owned r')" "rs_shared r' = rs_shared r" "rs_shared_missing r' = rs_shared_missing r"
    "u \<in> set (rs_owned r') \<longleftrightarrow> u \<in> set (rs_owned r) \<or> Some u \<in> lookup_entry table ` set es"
    "rs_missing r' = rs_missing r @ filter (\<lambda>e. lookup_entry table e = None) es"
    "length (rs_owned r') + length (rs_missing r') + length (rs_duplicates r') =
       length (rs_owned r) + length (rs_missing r) + length (rs_duplicates r) + length es" by blast+
qed

lemma resolve_shared_facts:
  fixes r :: resolution and table :: "gpu list" and es :: "string list"
  assumes "distinct (rs_shared r)" and "set (rs_shared r) \<inter> set (rs_owned r) = {}"
  defines "r' \<equiv> resolve_shared table es r"
  shows "distinct (rs_shared r')" "rs_owned r' = rs_owned r" "rs_missing r' = rs_missing r"
    "u \<in> set (rs_shared r') \<longleftrightarrow> u \<notin> set (rs_owned r) \<and> (u \<in> set (rs_shared r) \<or> Some u \<in> lookup_entry table ` set es)"
    "rs_shared_missing r' = rs_shared_missing r @ filter (\<lambda>e. lookup_entry table e = None) es"
    "length (rs_shared r') + length (rs_shared_missing r') + length (rs_duplicates r') =
       length (rs_shared r) + length (rs_shared_missing r) + length (rs_duplicates r) + length es"
proof -
  have "distinct (rs_shared r') \<and> rs_owned r' = rs_owned r \<and> rs_missing r' = rs_missing r \<and>
    (u \<in> set (rs_shared r') \<longleftrightarrow> u \<notin> set (rs_owned r) \<and> (u \<in> set (rs_shared r) \<or> Some u \<in> lookup_entry table ` set es)) \<and>
    rs_shared_missing r' = rs_shared_missing r @ filter (\<lambda>e. lookup_entry table e = None) es \<and>
    length (rs_shared r') + length (rs_shared_missing r') + length (rs_duplicates r') =
       length (rs_shared r) + length (rs_shared_missing r) + length (rs_duplicates r) + length es"
    using assms(1,2) unfolding r'_def
  proof (induction es arbitrary: r)
    case (Cons e es)
    show ?case
    proof (cases "lookup_entry table e")
      case None
      then show ?thesis using Cons.IH [of "r\<lparr>rs_shared_missing := rs_shared_missing r @ [e]\<rparr>"] Cons.prems by auto
    next
      case (Some v)
      show ?thesis
      proof (cases "v \<in> set (rs_owned r) \<or> v \<in> set (rs_shared r)")
        case True
        then show ?thesis
          using Cons.IH [of "r\<lparr>rs_duplicates := rs_duplicates r @ [e]\<rparr>"] Cons.prems Some by auto
      next
        case False
        then show ?thesis
          using Cons.IH [of "r\<lparr>rs_shared := rs_shared r @ [v]\<rparr>"] Cons.prems Some by auto
      qed
    qed
  qed auto
  then show "distinct (rs_shared r')" "rs_owned r' = rs_owned r" "rs_missing r' = rs_missing r"
    "u \<in> set (rs_shared r') \<longleftrightarrow> u \<notin> set (rs_owned r) \<and> (u \<in> set (rs_shared r) \<or> Some u \<in> lookup_entry table ` set es)"
    "rs_shared_missing r' = rs_shared_missing r @ filter (\<lambda>e. lookup_entry table e = None) es"
    "length (rs_shared r') + length (rs_shared_missing r') + length (rs_duplicates r') =
       length (rs_shared r) + length (rs_shared_missing r) + length (rs_duplicates r) + length es" by blast+
qed

section \<open>Properties of the cards\<close>

lemma resolve_cards:
  "distinct (rs_owned (resolve owned table sh))" "distinct (rs_shared (resolve owned table sh))"
  "set (rs_owned (resolve owned table sh)) \<inter> set (rs_shared (resolve owned table sh)) = {}"
proof -
  let ?r = "resolve_owned table (owned_entries owned table sh) nothing_resolved"
  have d: "distinct (rs_owned nothing_resolved)" by (simp add: nothing_resolved_def)
  note o = resolve_owned_facts [OF d, where table = table and es = "owned_entries owned table sh"]
  have s: "distinct (rs_shared ?r)" "set (rs_shared ?r) \<inter> set (rs_owned ?r) = {}"
    using o(2) by (simp_all add: nothing_resolved_def)
  note h = resolve_shared_facts [OF s, where table = table and es = sh]
  show "distinct (rs_owned (resolve owned table sh))" using h(2) o(1) by (simp add: resolve_def)
  show "distinct (rs_shared (resolve owned table sh))" using h(1) by (simp add: resolve_def)
  show "set (rs_owned (resolve owned table sh)) \<inter> set (rs_shared (resolve owned table sh)) = {}"
    using h(2,4) by (auto simp: resolve_def)
qed

text \<open>
  Entries resolve to cards exactly: each card is named once and is owned or shared but
  not both; a card is owned when an owned entry names it, shared when a shared entry names
  one that is not owned, and always a card nvidia-smi reported; the entries that name no
  card are the missing ones; and every entry is accounted for as a card, missing or a
  duplicate.
\<close>

theorem resolve_exact:
  fixes owned :: "string list option" and table :: "gpu list" and sh :: "string list"
  defines "r \<equiv> resolve owned table sh" and "es \<equiv> owned_entries owned table sh"
  shows "distinct (rs_owned r @ rs_shared r) \<and> set (rs_owned r @ rs_shared r) \<subseteq> set (map gp_uuid table) \<and>
    set (rs_owned r) = {u. \<exists>e \<in> set es. lookup_entry table e = Some u} \<and>
    set (rs_shared r) = {u. \<exists>e \<in> set sh. lookup_entry table e = Some u} - set (rs_owned r) \<and>
    rs_missing r = filter (\<lambda>e. lookup_entry table e = None) es \<and>
    rs_shared_missing r = filter (\<lambda>e. lookup_entry table e = None) sh \<and>
    length (rs_owned r) + length (rs_shared r) + length (rs_missing r) + length (rs_shared_missing r)
      + length (rs_duplicates r) = length es + length sh"
proof -
  let ?r = "resolve_owned table es nothing_resolved"
  have d: "distinct (rs_owned nothing_resolved)" by (simp add: nothing_resolved_def)
  note o = resolve_owned_facts [OF d, where table = table and es = es]
  have s: "distinct (rs_shared ?r)" "set (rs_shared ?r) \<inter> set (rs_owned ?r) = {}"
    using o(2) by (simp_all add: nothing_resolved_def)
  note h = resolve_shared_facts [OF s, where table = table and es = sh]
  have r: "r = resolve_shared table sh ?r" by (simp add: r_def es_def resolve_def)
  have own: "set (rs_owned r) = {u. \<exists>e \<in> set es. lookup_entry table e = Some u}"
    using h(2) o(4) by (force simp: r nothing_resolved_def)
  have shr: "set (rs_shared r) = {u. \<exists>e \<in> set sh. lookup_entry table e = Some u} - set (rs_owned r)"
    using h(2,4) o(2) by (force simp: r nothing_resolved_def)
  have "distinct (rs_owned r @ rs_shared r)" using resolve_cards [of owned table sh] by (simp add: r_def)
  moreover have "set (rs_owned r @ rs_shared r) \<subseteq> set (map gp_uuid table)"
    using own shr lookup_present by (auto simp del: set_map)
  moreover have "rs_missing r = filter (\<lambda>e. lookup_entry table e = None) es"
    "rs_shared_missing r = filter (\<lambda>e. lookup_entry table e = None) sh"
    using h(3,5) o(3,5) by (simp_all add: r nothing_resolved_def)
  moreover have "length (rs_owned r) + length (rs_shared r) + length (rs_missing r) + length (rs_shared_missing r)
      + length (rs_duplicates r) = length es + length sh"
    using h(2,3,6) o(2,3,6) by (simp add: r nothing_resolved_def)
  ultimately show ?thesis using own shr by blast
qed

lemma keys_map_filter_pair:
  "fst ` set (List.map_filter (\<lambda>u. map_option (Pair u) (f u)) us) = {u \<in> set us. f u \<noteq> None}"
  by (induction us) (auto simp: List.map_filter_simps split: option.splits)

lemma unused_split:
  assumes "unused_gpus uuids smi = Inr (free, used)"
  shows "set free \<union> fst ` set used = set uuids" "set free \<inter> fst ` set used = {}"
    "distinct uuids \<Longrightarrow> distinct free"
proof -
  obtain f where f: "free = filter (\<lambda>u. f u = None) uuids"
    "used = dict_of (List.map_filter (\<lambda>u. map_option (Pair u) (f u)) uuids)"
    using assms by (cases "uuids = []"; cases "usage_samples uuids smi")
      (auto simp: unused_gpus_def dict_of_def List.map_filter_simps)
  have "fst ` set used = {u \<in> set uuids. f u \<noteq> None}"
    unfolding f(2) keys_dict_of by (rule keys_map_filter_pair)
  then show "set free \<union> fst ` set used = set uuids" "set free \<inter> fst ` set used = {}"
    "distinct uuids \<Longrightarrow> distinct free" by (auto simp: f(1))
qed

text \<open>
  C19. A shared card is borrowed only on evidence: the answer splits the cards asked about
  into free and in use, and a card is free only when nvidia-smi answered a row for it that
  says zero memory and zero utilization. A failed call, a missing row or a reading that is
  no number never makes a card free.
\<close>

theorem borrowed_only_if_idle:
  assumes "unused_gpus uuids smi = Inr (free, used)"
  shows "set free \<union> fst ` set used = set uuids \<and> set free \<inter> fst ` set used = {} \<and>
    (\<forall>u \<in> set free. \<exists>rows row. query (''uuid'' # USAGE_FIELDS) smi [''-i'', join '','' uuids] = Inr rows \<and>
       row \<in> set rows \<and> row ! 0 = u \<and> float_of_str (row ! 1) = Some (Fin 0) \<and> float_of_str (row ! 2) = Some (Fin 0))"
proof -
  have "\<exists>rows row. query (''uuid'' # USAGE_FIELDS) smi [''-i'', join '','' uuids] = Inr rows \<and>
       row \<in> set rows \<and> row ! 0 = u \<and> float_of_str (row ! 1) = Some (Fin 0) \<and> float_of_str (row ! 2) = Some (Fin 0)"
    if u: "u \<in> set free" for u
  proof -
    obtain samples failure where sf: "usage_samples uuids smi = Inr (samples, failure)"
      "why_in_use samples failure u = None"
      using assms u by (cases "uuids = []"; cases "usage_samples uuids smi") (auto simp: unused_gpus_def)
    from sf(2) obtain us where us: "map_of samples u = Some us" "usage_unused us"
      by (auto simp: why_in_use_def split: option.splits if_splits)
    obtain rows where rows: "query (''uuid'' # USAGE_FIELDS) smi [''-i'', join '','' uuids] = Inr rows"
      "samples = dict_of (map usage_of_row rows)"
      using sf(1) us(1) by (auto simp: usage_samples_def split: sum.splits smi_error.splits)
    from us(1) rows(2) have "(u, us) \<in> set (map usage_of_row rows)"
      using set_dict_of map_of_SomeD by fastforce
    then obtain row where "row \<in> set rows" "usage_of_row row = (u, us)" by auto
    with us(2) rows(1) show ?thesis by (auto simp: usage_of_row_def usage_unused_def)
  qed
  with unused_split [OF assms] show ?thesis by blast
qed

definition demo_smi :: smi_runner where
  "demo_smi args =
     Inr (if args ! 0 = ''--query-gpu=uuid,memory.used,utilization.gpu''
          then ''GPU-a, 0, 0'' @ [CHR 0x0A] @ ''GPU-b, 0, [N/A]''
          else ''0, GPU-a, A100, 40960'' @ [CHR 0x0A] @ ''1, GPU-b, A100, 40960'')"

lemma demo_unused: "unused_gpus [''GPU-a'', ''GPU-b''] demo_smi = Inr ([''GPU-a''], [(''GPU-b'', ''0 MiB, ?% util'')])"
  by code_simp

theorem borrowed_only_if_idle_witness:
  "set [''GPU-a''] \<union> fst ` set [(''GPU-b'', ''0 MiB, ?% util'')] = set [''GPU-a'', ''GPU-b''] \<and>
   (\<exists>rows row. query (''uuid'' # USAGE_FIELDS) demo_smi [''-i'', join '','' [''GPU-a'', ''GPU-b'']] = Inr rows \<and>
      row \<in> set rows \<and> row ! 0 = ''GPU-a'' \<and> float_of_str (row ! 1) = Some (Fin 0))"
  using borrowed_only_if_idle [OF demo_unused] by fastforce

end
