(* ===== verification/Cleanup.thy ===== *)
theory Cleanup
  imports Host
begin

text \<open>
  \<open>src/gpuc/host/cleanup.py\<close>: what may be deleted of a job, by whom and on what evidence, the
  sweep of workdirs, the purge of job dirs, the secrets of a finished job and the staged
  dirs a submit left behind. \<open>fromiso\<close> stands for \<open>datetime.fromisoformat\<close> read as seconds (it
  answers \<open>None\<close> where that raises) and \<open>moment\<close> for the time of the call. A removal of
  files always succeeds here; the \<open>OSError\<close> branches that report a failed one are not
  modelled, except for the writes of a state, whose errors are values.
\<close>

section \<open>Exceptions caught by class\<close>

definition catching :: "pyerr list \<Rightarrow> 'a \<Rightarrow> 'a res \<Rightarrow> 'a res" where
  "catching errs dflt m = (case m of Inl e \<Rightarrow> if e \<in> set errs then Inr dflt else Inl e | Inr x \<Rightarrow> Inr x)"

lemma catching_simps [simp]:
  "catching errs dflt (Inr x) = Inr x"
  "catching errs dflt (Inl e) = (if e \<in> set errs then Inr dflt else Inl e)"
  by (simp_all add: catching_def)

section \<open>Times and reports\<close>

definition parse_time :: "(string \<Rightarrow> seconds option) \<Rightarrow> string option \<Rightarrow> seconds option" where
  "parse_time fromiso stamp = (case stamp of None \<Rightarrow> None | Some t \<Rightarrow> if t = [] then None else fromiso t)"

definition below_float :: "rat \<Rightarrow> pyfloat \<Rightarrow> bool" where
  "below_float x f = (case f of Fin r \<Rightarrow> x < r | PosInf \<Rightarrow> True | _ \<Rightarrow> False)"

text \<open>\<open>f"{x:.1f}"\<close>.\<close>

definition fixed1 :: "rat \<Rightarrow> string" where
  "fixed1 x =
     (let (n, d) = quotient_of \<bar>x\<bar>; t = round_half_even (10 * n) d
      in (if x < 0 then ''-'' else []) @ int_str (t div 10) @ ''.'' @ int_str (t mod 10))"

record candidate =
  cd_job_id :: job_id
  cd_status :: string
  cd_bytes :: nat
  cd_ended_at :: "string option"
  cd_age_days :: "rat option"
  cd_mirrored_at :: "string option"
  cd_mirror :: "string option"
  cd_forced :: bool

definition candidate_of :: "jobstate \<Rightarrow> job_id \<Rightarrow> nat \<Rightarrow> rat option \<Rightarrow> bool \<Rightarrow> candidate" where
  "candidate_of s j bytes age was_forced =
     (let m = (if mirrored s then mirror s else None)
      in \<lparr>cd_job_id = j, cd_status = st_status s, cd_bytes = bytes, cd_ended_at = st_ended_at s,
          cd_age_days = age, cd_mirrored_at = Option.bind m up_ok_at, cd_mirror = map_option up_to m,
          cd_forced = was_forced\<rparr>)"

record skipped =
  sk_job_id :: job_id
  sk_why :: string

record clean_result =
  cr_dry_run :: bool
  cr_removed :: "candidate list"
  cr_skipped :: "skipped list"
  cr_purged :: "candidate list"
  cr_purge_skipped :: "skipped list"
  cr_incoming_removed :: "string list"
  cr_errors :: "string list"
  cr_s3_prefix :: "string option"

definition freed_bytes :: "clean_result \<Rightarrow> nat" where
  "freed_bytes r = sum_list (map cd_bytes (cr_removed r)) + sum_list (map cd_bytes (cr_purged r))"

section \<open>What a job still holds\<close>

definition remove_secrets :: "job_id \<Rightarrow> host \<Rightarrow> host" where
  "remove_secrets j h = h\<lparr>h_secrets := filter (\<lambda>x. x \<noteq> j) (h_secrets h)\<rparr>"

definition ephemeral_host :: "host \<Rightarrow> bool res" where
  "ephemeral_host h =
     catching [RuntimeError, OSError, ValueError] False (map_sum id ephemeral (h_config h))"

definition host_s3_prefix :: "host \<Rightarrow> string option res" where
  "host_s3_prefix h =
     catching [RuntimeError, OSError, ValueError] None
       (map_sum id (\<lambda>c. if blank (cf_s3_prefix c) then None else cf_s3_prefix c) (h_config h))"

definition has_workdir :: "job_id \<Rightarrow> host \<Rightarrow> bool" where
  "has_workdir j h = (case job_of j h of None \<Rightarrow> False | Some d \<Rightarrow> jd_workdir d \<noteq> None)"

text \<open>
  \<open>_written_outputs\<close>: the outputs of one kind (kept on the host, or uploaded) that gained
  anything, \<open>None\<close> for a path that cannot even be resolved.
\<close>

definition written_output :: "job_dir \<Rightarrow> job_id \<Rightarrow> output_rec \<Rightarrow> string option list" where
  "written_output d j out =
     (case output_key out j of
        Inl e \<Rightarrow> [None]
      | Inr key \<Rightarrow>
          let tree = (case jd_workdir d of Some t \<Rightarrow> t | None \<Rightarrow> NDir 0 (Some []));
              es = (case map_of (jd_baseline d) key of Some es \<Rightarrow> es | None \<Rightarrow> [])
          in if has_new_content (last_part key) (output_node tree (jd_outside d) key) es
             then [Some key] else [])"

definition written_outputs :: "job_id \<Rightarrow> jobspec \<Rightarrow> bool \<Rightarrow> host \<Rightarrow> string option list" where
  "written_outputs j spec keeps h =
     (case job_of j h of
        None \<Rightarrow> []
      | Some d \<Rightarrow> concat (map (written_output d j) (filter (\<lambda>out. kept out = keeps) (sp_outputs spec))))"

text \<open>\<open>outputs_pending\<close>: why a job's outputs are only on this host.\<close>

definition outputs_pending :: "job_id \<Rightarrow> jobspec \<Rightarrow> jobstate \<Rightarrow> host \<Rightarrow> string option res" where
  "outputs_pending j spec s h =
     (if sp_outputs spec = [] \<or> \<not> st_ran s then Inr None
      else bind_res (outputs_uploaded s spec) (\<lambda>uploaded.
        if uploaded then Inr None
        else if \<not> has_workdir j h then Inr None
        else if written_outputs j spec False h = [] then Inr None
        else Inr (Some (''outputs not confirmed uploaded'' @
          (if st_outputs_lost s then '' (the drain gave up: outputs_lost)'' else [])))))"

definition settle_secrets :: "job_id \<Rightarrow> jobstate \<Rightarrow> host \<Rightarrow> string option res \<times> host" where
  "settle_secrets j s h =
     (case ephemeral_host h of
        Inl e \<Rightarrow> (Inl e, h)
      | Inr False \<Rightarrow> (Inr None, remove_secrets j h)
      | Inr True \<Rightarrow>
          (case catching [RuntimeError, ValueError] None (map_sum id Some (read_spec j h)) of
             Inl e \<Rightarrow> (Inl e, h)
           | Inr None \<Rightarrow> (Inr None, remove_secrets j h)
           | Inr (Some spec) \<Rightarrow>
               (case outputs_pending j spec s h of
                  Inl e \<Rightarrow> (Inl e, h)
                | Inr (Some why) \<Rightarrow> (Inr (Some why), h)
                | Inr None \<Rightarrow> (Inr None, remove_secrets j h))))"

definition should_remove :: "string \<Rightarrow> string \<Rightarrow> bool" where
  "should_remove policy status =
     (if status \<notin> set FINISHED_STATUSES then False
      else if policy = ''always'' then True
      else if policy = ''on_success'' then status = ''succeeded''
      else False)"

definition kept_outputs ::
  "job_id \<Rightarrow> jobspec option \<Rightarrow> jobstate option \<Rightarrow> host \<Rightarrow> string list res" where
  "kept_outputs j spec state h =
     catching [RuntimeError, ValueError, OSError] []
       (bind_res (case spec of Some sp \<Rightarrow> Inr sp | None \<Rightarrow> read_spec j h) (\<lambda>sp.
        bind_res (case state of Some s \<Rightarrow> Inr s | None \<Rightarrow> read_state j h) (\<lambda>s.
          Inr (if st_ran s then List.map_filter id (written_outputs j sp True h) else []))))"

definition archive_bytes :: "job_id \<Rightarrow> host \<Rightarrow> nat" where
  "archive_bytes j h =
     (case Option.bind (job_of j h) jd_archive of Some a \<Rightarrow> ar_bytes a | None \<Rightarrow> 0)"

definition has_archive :: "job_id \<Rightarrow> host \<Rightarrow> bool" where
  "has_archive j h \<longleftrightarrow> Option.bind (job_of j h) jd_archive \<noteq> None"

definition has_checkout :: "job_id \<Rightarrow> host \<Rightarrow> bool res" where
  "has_checkout j h =
     (if \<not> has_workdir j h then Inr (has_archive j h)
      else catching [RuntimeError, OSError] True
        (map_sum id (\<lambda>s. st_checkout_removed_at s = None) (read_state j h)))"

definition workdir_tree :: "job_id \<Rightarrow> host \<Rightarrow> fnode" where
  "workdir_tree j h =
     (case Option.bind (job_of j h) jd_workdir of Some t \<Rightarrow> t | None \<Rightarrow> NDir 0 (Some []))"

definition workdir_size :: "job_id \<Rightarrow> host \<Rightarrow> nat option res" where
  "workdir_size j h =
     bind_res (has_checkout j h) (\<lambda>there.
       if \<not> there then Inr None
       else if \<not> has_workdir j h then Inr (Some (archive_bytes j h))
       else bind_res (kept_outputs j None None h) (\<lambda>keys.
         let tree = workdir_tree j h; keep = kept_paths tree keys
         in Inr (Some (reclaimable_bytes tree - kept_size tree keep + archive_bytes j h))))"

section \<open>May it be deleted?\<close>

record evidence =
  ev_automatic :: bool
  ev_policy :: bool
  ev_force :: bool
  ev_verified :: "job_id list option"

definition ASKED :: evidence where
  "ASKED = \<lparr>ev_automatic = False, ev_policy = False, ev_force = False, ev_verified = None\<rparr>"

datatype what = WORKDIR | JOBDIR

definition not_backed_up :: "string option \<Rightarrow> string" where
  "not_backed_up prefix =
     (if prefix = None then ''not backed up: no s3_prefix on this host''
      else ''not backed up: final upload failed'')"

text \<open>The refusals of a whole job dir, in the order the code collects them.\<close>

definition jobdir_reasons :: "job_id \<Rightarrow> jobspec \<Rightarrow> jobstate \<Rightarrow> evidence \<Rightarrow> host \<Rightarrow> string list res" where
  "jobdir_reasons j spec s ev h =
     bind_res
       (if \<not> mirrored s then map_sum id (\<lambda>p. [not_backed_up p]) (host_s3_prefix h)
        else Inr (case ev_verified ev of
          Some vs \<Rightarrow> if j \<notin> set vs then [''not backed up: the mirror has no log for it''] else []
        | None \<Rightarrow> [])) (\<lambda>r1.
     bind_res (outputs_pending j spec s h) (\<lambda>pending.
     bind_res (kept_outputs j (Some spec) (Some s) h) (\<lambda>keeps.
       Inr (r1 @ (case pending of Some why \<Rightarrow> [why] | None \<Rightarrow> []) @
         (if keeps \<noteq> [] then [''keeps outputs on this host: '' @ join '', '' keeps] else [])))))"

definition may_delete ::
  "job_id \<Rightarrow> jobstate \<Rightarrow> what \<Rightarrow> evidence \<Rightarrow> host \<Rightarrow> string option res" where
  "may_delete j s w ev h =
     (if \<not> finished s then Inr (Some (''status '' @ st_status s))
      else if w = WORKDIR \<and> \<not> (ev_automatic ev \<or> ev_policy ev) then Inr None
      else (case read_spec j h of
          Inl e \<Rightarrow> if e = RuntimeError \<or> e = ValueError then Inr (Some ''no readable spec.json'') else Inl e
        | Inr spec \<Rightarrow>
            if w = WORKDIR
            then (if ev_policy ev \<and> \<not> should_remove (sp_cleanup spec) (st_status s)
                  then Inr (Some (''cleanup: '' @ sp_cleanup spec))
                  else if ev_automatic ev \<and> sp_cleanup spec = ''never'' then Inr (Some ''cleanup: never'')
                  else outputs_pending j spec s h)
            else map_sum id (\<lambda>reasons.
                if reasons \<noteq> [] \<and> \<not> ev_force ev then Some (join ''; '' reasons) else None)
              (jobdir_reasons j spec s ev h)))"


section \<open>The sweep of workdirs\<close>

text \<open>\<open>_finished_age\<close>: the state of a finished job and its age, or why it is no candidate.\<close>

definition finished_age ::
  "(string \<Rightarrow> seconds option) \<Rightarrow> job_id \<Rightarrow> seconds \<Rightarrow> host \<Rightarrow> (skipped + jobstate \<times> rat option) res" where
  "finished_age fromiso j moment h =
     (case read_state j h of
        Inl e \<Rightarrow> if e = RuntimeError
          then Inr (Inl \<lparr>sk_job_id = j, sk_why = ''no readable state.json''\<rparr>) else Inl e
      | Inr s \<Rightarrow>
          if \<not> finished s then Inr (Inl \<lparr>sk_job_id = j, sk_why = ''status '' @ st_status s\<rparr>)
          else Inr (Inr (s, map_option (\<lambda>ended. (moment - ended) / 86400) (parse_time fromiso (st_ended_at s)))))"

definition too_young :: "job_id \<Rightarrow> rat option \<Rightarrow> pyfloat \<Rightarrow> skipped option" where
  "too_young j age older =
     (case age of
        None \<Rightarrow> Some \<lparr>sk_job_id = j, sk_why = ''finished but records no usable ended_at''\<rparr>
      | Some a \<Rightarrow> if below_float a older
          then Some \<lparr>sk_job_id = j, sk_why = ''only '' @ fixed1 a @ '' days old''\<rparr> else None)"

text \<open>One turn of the loop of \<open>candidates\<close>: nothing, a refusal, or a candidate.\<close>

datatype verdict = Silent | Refused skipped | Picked candidate

definition candidate_for ::
  "(string \<Rightarrow> seconds option) \<Rightarrow> bool \<Rightarrow> pyfloat option \<Rightarrow> seconds \<Rightarrow> job_id list option \<Rightarrow> evidence \<Rightarrow>
   host \<Rightarrow> job_id \<Rightarrow> verdict res" where
  "candidate_for fromiso all_finished older moment only ev h j =
     (if (case only of Some js \<Rightarrow> j \<notin> set js | None \<Rightarrow> False) then Inr Silent
      else bind_res (has_checkout j h) (\<lambda>there.
        if \<not> there
        then Inr (if only = None then Silent
                  else Refused \<lparr>sk_job_id = j, sk_why =
                    (if has_workdir j h then ''checkout already gone; only kept outputs remain''
                     else ''workdir already gone'')\<rparr>)
        else bind_res (finished_age fromiso j moment h) (\<lambda>fa.
          case fa of
            Inl sk \<Rightarrow> Inr (Refused sk)
          | Inr (s, age) \<Rightarrow>
              (case (case older of
                  Some days \<Rightarrow> too_young j age days
                | None \<Rightarrow> if all_finished then None
                    else Some \<lparr>sk_job_id = j, sk_why = ''no selection given''\<rparr>) of
                 Some sk \<Rightarrow> Inr (Refused sk)
               | None \<Rightarrow>
                   bind_res (may_delete j s WORKDIR ev h) (\<lambda>why.
                     case why of
                       Some reason \<Rightarrow> Inr (Refused \<lparr>sk_job_id = j, sk_why = reason\<rparr>)
                     | None \<Rightarrow>
                         bind_res (workdir_size j h) (\<lambda>size.
                           Inr (Picked (candidate_of s j
                             (case size of Some n \<Rightarrow> n | None \<Rightarrow> 0) age False))))))))"

definition picked_of :: "verdict list \<Rightarrow> candidate list" where
  "picked_of vs = List.map_filter (\<lambda>v. case v of Picked c \<Rightarrow> Some c | _ \<Rightarrow> None) vs"

definition refused_of :: "verdict list \<Rightarrow> skipped list" where
  "refused_of vs = List.map_filter (\<lambda>v. case v of Refused k \<Rightarrow> Some k | _ \<Rightarrow> None) vs"

definition candidates ::
  "(string \<Rightarrow> seconds option) \<Rightarrow> bool \<Rightarrow> pyfloat option \<Rightarrow> seconds \<Rightarrow> job_id list option \<Rightarrow> evidence \<Rightarrow>
   host \<Rightarrow> (candidate list \<times> skipped list) res" where
  "candidates fromiso all_finished older moment only ev h =
     map_sum id (\<lambda>vs. (picked_of vs, refused_of vs))
       (map_res (candidate_for fromiso all_finished older moment only ev h) (list_job_ids h))"

text \<open>
  \<open>remove_workdir\<close>: the archive and the checkout go; with kept outputs the directory stays
  with exactly those, and the state says so.
\<close>

definition remove_workdir :: "job_id \<Rightarrow> nat option \<Rightarrow> string \<Rightarrow> host \<Rightarrow> nat res \<times> host" where
  "remove_workdir j measured now h =
     (case has_checkout j h of
        Inl e \<Rightarrow> (Inl e, h)
      | Inr False \<Rightarrow> (Inr 0, h)
      | Inr True \<Rightarrow>
          let ab = archive_bytes j h;
              h1 = update_job j (\<lambda>d. d\<lparr>jd_archive := None\<rparr>) h
          in if \<not> has_workdir j h then (Inr ab, h1)
             else (case kept_outputs j None None h1 of
                 Inl e \<Rightarrow> (Inl e, h1)
               | Inr keys \<Rightarrow>
                   let tree = workdir_tree j h; keep = kept_paths tree keys;
                       held = (if keep = [] then 0 else kept_size tree keep);
                       size = (case measured of Some n \<Rightarrow> n | None \<Rightarrow> reclaimable_bytes tree - held + ab)
                   in if keep = [] then (Inr size, update_job j (\<lambda>d. d\<lparr>jd_workdir := None\<rparr>) h1)
                      else
                        let h2 = update_job j (\<lambda>d. d\<lparr>jd_workdir := Some (remove_around keep [] tree)\<rparr>) h1
                        in (case update_state j (\<lambda>s. s\<lparr>st_checkout_removed_at := Some now,
                                   st_workdir_bytes := Some 0, st_kept_bytes := Some (int held)\<rparr>) h2 of
                              (Inl e, h3) \<Rightarrow> (Inl e, h3)
                            | (Inr _, h3) \<Rightarrow> (Inr size, h3))))"

definition record_workdir_size :: "job_id \<Rightarrow> host \<Rightarrow> nat res \<times> host" where
  "record_workdir_size j h =
     (case bind_res (workdir_size j h) (\<lambda>sz. map_sum id (\<lambda>there. if there then sz else None) (has_checkout j h)) of
        Inl e \<Rightarrow> (Inl e, h)
      | Inr sz \<Rightarrow>
          let recorded = (case sz of Some n \<Rightarrow> n | None \<Rightarrow> 0)
          in (case update_state j (\<lambda>s. s\<lparr>st_workdir_bytes := Some (int recorded)\<rparr>) h of
                (Inl e, h') \<Rightarrow> (if e \<in> {RuntimeError, OSError, FileNotFoundError, KeyError} then Inr recorded else Inl e, h')
              | (Inr _, h') \<Rightarrow> (Inr recorded, h')))"

text \<open>\<open>stale_incoming\<close>: staged dirs nothing has changed for an hour, in name order.\<close>

definition INCOMING_STALE_S :: seconds where "INCOMING_STALE_S = 3600"

definition stale_incoming :: "seconds \<Rightarrow> host \<Rightarrow> job_id list" where
  "stale_incoming moment h =
     map fst (filter (\<lambda>e. moment - sg_changed (snd e) > INCOMING_STALE_S)
       (sort_key fst (h_incoming h)))"

definition remove_stale_incoming :: "seconds \<Rightarrow> host \<Rightarrow> string list \<times> host" where
  "remove_stale_incoming moment h =
     (let stale = stale_incoming moment h
      in (stale, foldl (\<lambda>h j. remove_secrets j (h\<lparr>h_incoming := AList.delete j (h_incoming h)\<rparr>)) h stale))"

text \<open>
  The loop of \<open>clean\<close> over the candidates. An error while writing the state of a swept job
  is reported, one of another class ends the sweep as it does in the code.
\<close>

fun clean_loop :: "string \<Rightarrow> candidate list \<Rightarrow> clean_result \<Rightarrow> host \<Rightarrow> clean_result res \<times> host" where
  "clean_loop now [] r h = (Inr r, h)"
| "clean_loop now (c # cs) r h =
     (case remove_workdir (cd_job_id c) (Some (cd_bytes c)) now h of
        (Inl e, h1) \<Rightarrow>
          if e \<in> {OSError, FileNotFoundError}
          then clean_loop now cs
            (r\<lparr>cr_errors := cr_errors r @ [cd_job_id c @ '': could not remove workdir'']\<rparr>) h1
          else (Inl e, h1)
      | (Inr _, h1) \<Rightarrow>
          let r1 = r\<lparr>cr_removed := cr_removed r @ [c]\<rparr>
          in (case update_state (cd_job_id c) (\<lambda>s. s\<lparr>st_workdir_bytes := Some 0\<rparr>) h1 of
                (Inl e, h2) \<Rightarrow>
                  if e \<in> {RuntimeError, OSError, FileNotFoundError, KeyError}
                  then clean_loop now cs
                    (r1\<lparr>cr_errors := cr_errors r1 @ [cd_job_id c @ '': workdir removed but state not updated'']\<rparr>) h2
                  else (Inl e, h2)
              | (Inr _, h2) \<Rightarrow> clean_loop now cs r1 h2))"

definition empty_result :: "bool \<Rightarrow> skipped list \<Rightarrow> skipped list \<Rightarrow> string option \<Rightarrow> clean_result" where
  "empty_result dry sks purge_sks prefix =
     \<lparr>cr_dry_run = dry, cr_removed = [], cr_skipped = sks, cr_purged = [],
      cr_purge_skipped = purge_sks, cr_incoming_removed = [], cr_errors = [], cr_s3_prefix = prefix\<rparr>"

definition clean ::
  "(string \<Rightarrow> seconds option) \<Rightarrow> string \<Rightarrow> bool \<Rightarrow> pyfloat option \<Rightarrow> bool \<Rightarrow> seconds \<Rightarrow> job_id list option \<Rightarrow>
   evidence \<Rightarrow> host \<Rightarrow> clean_result res \<times> host" where
  "clean fromiso now all_finished older dry_run moment only ev h =
     (case bind_res (candidates fromiso all_finished older moment only ev h) (\<lambda>ps.
             map_sum id (\<lambda>prefix. (ps, prefix)) (host_s3_prefix h)) of
        Inl e \<Rightarrow> (Inl e, h)
      | Inr ((picked, sks), prefix) \<Rightarrow>
          let r = empty_result dry_run sks [] prefix
          in if dry_run
             then (Inr (r\<lparr>cr_removed := picked, cr_incoming_removed := stale_incoming moment h\<rparr>), h)
             else (case clean_loop now picked r h of
                 (Inl e, h1) \<Rightarrow> (Inl e, h1)
               | (Inr r1, h1) \<Rightarrow>
                   let (gone, h2) = remove_stale_incoming moment h1
                   in (Inr (r1\<lparr>cr_incoming_removed := gone\<rparr>), h2)))"

section \<open>The purge of job dirs\<close>

text \<open>What purging frees is a report only: \<open>record_bytes\<close> is what the record's files take.\<close>

definition job_dir_bytes :: "(job_id \<Rightarrow> nat) \<Rightarrow> job_id \<Rightarrow> host \<Rightarrow> nat" where
  "job_dir_bytes record_bytes j h =
     record_bytes j + archive_bytes j h + (if has_workdir j h then reclaimable_bytes (workdir_tree j h) else 0)"

definition purge_for ::
  "(string \<Rightarrow> seconds option) \<Rightarrow> (job_id \<Rightarrow> nat) \<Rightarrow> pyfloat \<Rightarrow> seconds \<Rightarrow> job_id list option \<Rightarrow> evidence \<Rightarrow>
   host \<Rightarrow> job_id \<Rightarrow> verdict res" where
  "purge_for fromiso record_bytes older moment only ev h j =
     (if (case only of Some js \<Rightarrow> j \<notin> set js | None \<Rightarrow> False) then Inr Silent
      else bind_res (finished_age fromiso j moment h) (\<lambda>fa.
        case fa of
          Inl sk \<Rightarrow> Inr (Refused sk)
        | Inr (s, age) \<Rightarrow>
            (case (if only = None then too_young j age older else None) of
               Some sk \<Rightarrow> Inr (Refused sk)
             | None \<Rightarrow>
                 bind_res (may_delete j s JOBDIR ev h) (\<lambda>why.
                   case why of
                     Some reason \<Rightarrow> Inr (Refused \<lparr>sk_job_id = j, sk_why = reason\<rparr>)
                   | None \<Rightarrow>
                       bind_res (if ev_force ev
                                 then may_delete j s JOBDIR (ASKED\<lparr>ev_verified := ev_verified ev\<rparr>) h
                                 else Inr None) (\<lambda>unforced.
                         Inr (Picked (candidate_of s j (job_dir_bytes record_bytes j h) age
                           (unforced \<noteq> None))))))))"

definition purge_candidates ::
  "(string \<Rightarrow> seconds option) \<Rightarrow> (job_id \<Rightarrow> nat) \<Rightarrow> pyfloat \<Rightarrow> seconds \<Rightarrow> job_id list option \<Rightarrow> evidence \<Rightarrow>
   host \<Rightarrow> (candidate list \<times> skipped list) res" where
  "purge_candidates fromiso record_bytes older moment only ev h =
     map_sum id (\<lambda>vs. (picked_of vs, refused_of vs))
       (map_res (purge_for fromiso record_bytes older moment only ev h) (list_job_ids h))"

definition remove_job_dir :: "job_id \<Rightarrow> host \<Rightarrow> host" where
  "remove_job_dir j h = remove_secrets j (h\<lparr>h_jobs := AList.delete j (h_jobs h)\<rparr>)"

definition purge_job_dirs ::
  "(string \<Rightarrow> seconds option) \<Rightarrow> (job_id \<Rightarrow> nat) \<Rightarrow> pyfloat \<Rightarrow> bool \<Rightarrow> seconds \<Rightarrow> job_id list option \<Rightarrow>
   evidence \<Rightarrow> host \<Rightarrow> clean_result res \<times> host" where
  "purge_job_dirs fromiso record_bytes older dry_run moment only ev h =
     (case bind_res (purge_candidates fromiso record_bytes older moment only ev h) (\<lambda>ps.
             map_sum id (\<lambda>prefix. (ps, prefix)) (host_s3_prefix h)) of
        Inl e \<Rightarrow> (Inl e, h)
      | Inr ((picked, sks), prefix) \<Rightarrow>
          (Inr (empty_result dry_run [] sks prefix\<lparr>cr_purged := picked\<rparr>),
           if dry_run then h else foldl (\<lambda>h c. remove_job_dir (cd_job_id c) h) h picked))"

definition purge ::
  "(string \<Rightarrow> seconds option) \<Rightarrow> (job_id \<Rightarrow> nat) \<Rightarrow> string \<Rightarrow> pyfloat \<Rightarrow> bool \<Rightarrow> seconds \<Rightarrow> job_id list option \<Rightarrow>
   evidence \<Rightarrow> host \<Rightarrow> clean_result res \<times> host" where
  "purge fromiso record_bytes now older dry_run moment only ev h =
     (case purge_job_dirs fromiso record_bytes older dry_run moment only ev h of
        (Inl e, h1) \<Rightarrow> (Inl e, h1)
      | (Inr r, h1) \<Rightarrow>
          let gone = map cd_job_id (cr_purged r); named = (only \<noteq> None)
          in (case clean fromiso now named (if named then None else Some older) dry_run moment only ev h1 of
                (Inl e, h2) \<Rightarrow> (Inl e, h2)
              | (Inr sw, h2) \<Rightarrow>
                  (Inr (r\<lparr>cr_removed := filter (\<lambda>c. cd_job_id c \<notin> set gone) (cr_removed sw),
                          cr_skipped := filter (\<lambda>k. sk_job_id k \<notin> set gone) (cr_skipped sw),
                          cr_incoming_removed := cr_incoming_removed sw,
                          cr_errors := cr_errors r @ cr_errors sw\<rparr>), h2)))"


section \<open>What the loops pick\<close>

lemma map_res_set: "map_res f xs = Inr ys \<Longrightarrow> y \<in> set ys \<Longrightarrow> \<exists>x \<in> set xs. f x = Inr y"
  by (induction xs arbitrary: ys) (auto elim!: bind_res_Inr)

lemma picked_of_set: "c \<in> set (picked_of vs) \<longleftrightarrow> Picked c \<in> set vs"
  by (induction vs) (auto simp: picked_of_def List.map_filter_simps split: verdict.splits)

lemma candidate_id [simp]: "cd_job_id (candidate_of s j n a f) = j" "cd_status (candidate_of s j n a f) = st_status s"
  by (simp_all add: candidate_of_def Let_def)

lemma finished_age_Inr:
  assumes "finished_age fromiso j moment h = Inr (Inr (s, age))"
  shows "read_state j h = Inr s \<and> finished s"
  using assms by (auto simp: finished_age_def split: sum.splits if_splits)

lemma candidate_for_picked:
  assumes "candidate_for fromiso allf older moment only ev h j = Inr (Picked c)"
  shows "cd_job_id c = j \<and> (\<exists>s. read_state j h = Inr s \<and> finished s \<and> may_delete j s WORKDIR ev h = Inr None)"
  using assms
  by (auto simp: candidate_for_def elim!: bind_res_Inr dest!: finished_age_Inr
      split: if_splits sum.splits prod.splits option.splits)

lemma purge_for_picked:
  assumes "purge_for fromiso rb older moment only ev h j = Inr (Picked c)"
  shows "cd_job_id c = j \<and> (\<exists>s. read_state j h = Inr s \<and> finished s \<and> may_delete j s JOBDIR ev h = Inr None \<and>
    (\<not> cd_forced c \<longrightarrow> ev_force ev \<longrightarrow> may_delete j s JOBDIR (ASKED\<lparr>ev_verified := ev_verified ev\<rparr>) h = Inr None))"
  using assms
  by (auto simp: purge_for_def candidate_of_def Let_def elim!: bind_res_Inr dest!: finished_age_Inr
      split: if_splits sum.splits prod.splits option.splits)

text \<open>A job dir nobody forces needs its record mirrored and its outputs safe.\<close>

definition backed_up :: "job_id \<Rightarrow> jobstate \<Rightarrow> job_id list option \<Rightarrow> host \<Rightarrow> bool" where
  "backed_up j s verified h \<longleftrightarrow>
     (\<exists>spec. read_spec j h = Inr spec \<and> mirrored s \<and> (\<forall>vs. verified = Some vs \<longrightarrow> j \<in> set vs) \<and>
        outputs_pending j spec s h = Inr None \<and> kept_outputs j (Some spec) (Some s) h = Inr [])"

lemma map_sum_Inr: "map_sum id f m = Inr y \<longleftrightarrow> (\<exists>x. m = Inr x \<and> y = f x)"
  by (cases m) auto

lemma join_nonempty_reasons: "jobdir_reasons j spec s ev h = Inr [] \<Longrightarrow>
    mirrored s \<and> (\<forall>vs. ev_verified ev = Some vs \<longrightarrow> j \<in> set vs) \<and>
    outputs_pending j spec s h = Inr None \<and> kept_outputs j (Some spec) (Some s) h = Inr []"
  by (auto simp: jobdir_reasons_def map_sum_Inr elim!: bind_res_Inr split: if_splits option.splits)

lemma may_delete_jobdir:
  assumes "may_delete j s JOBDIR ev h = Inr None"
  shows "finished s \<and> (ev_force ev \<or> backed_up j s (ev_verified ev) h)"
proof (cases "ev_force ev")
  case True
  then show ?thesis using assms by (auto simp: may_delete_def split: if_splits)
next
  case False
  from assms have fin: "finished s" by (auto simp: may_delete_def split: if_splits)
  with assms obtain spec where spec: "read_spec j h = Inr spec"
    by (auto simp: may_delete_def split: sum.splits if_splits)
  with assms fin False have "jobdir_reasons j spec s ev h = Inr []"
    by (auto simp: may_delete_def map_sum_Inr split: if_splits)
  from join_nonempty_reasons [OF this] spec fin show ?thesis by (auto simp: backed_up_def)
qed

section \<open>What the loops change\<close>

text \<open>What a sweep may change of a job dir: its workdir, its archive, and three fields of its state.\<close>

definition core_state :: "jobstate \<Rightarrow> jobstate" where
  "core_state s = s\<lparr>st_checkout_removed_at := None, st_workdir_bytes := None, st_kept_bytes := None\<rparr>"

definition same_record :: "job_dir \<Rightarrow> job_dir \<Rightarrow> bool" where
  "same_record d d' \<longleftrightarrow> jd_spec d' = jd_spec d \<and> jd_log d' = jd_log d \<and> jd_baseline d' = jd_baseline d \<and>
     map_sum id core_state (jd_state d') = map_sum id core_state (jd_state d)"

lemma same_record_refl [simp]: "same_record d d"
  by (simp add: same_record_def)

lemma same_record_trans: "same_record d d' \<Longrightarrow> same_record d' d'' \<Longrightarrow> same_record d d''"
  by (simp add: same_record_def)

text \<open>A host after a sweep of some jobs: the others untouched, their records kept.\<close>

definition swept :: "job_id set \<Rightarrow> host \<Rightarrow> host \<Rightarrow> bool" where
  "swept js h h' \<longleftrightarrow> list_job_ids h' = list_job_ids h \<and> h_secrets h' = h_secrets h \<and>
     h_incoming h' = h_incoming h \<and> h_config h' = h_config h \<and> h_draining h' = h_draining h \<and>
     (\<forall>k. k \<notin> js \<longrightarrow> job_of k h' = job_of k h) \<and>
     (\<forall>k. rel_option same_record (job_of k h) (job_of k h'))"

lemma swept_refl [simp]: "swept js h h"
  by (simp add: swept_def option.rel_refl)

lemma swept_trans: "swept js h h' \<Longrightarrow> swept ks h' h'' \<Longrightarrow> swept (js \<union> ks) h h''"
proof -
  assume a: "swept js h h'" "swept ks h' h''"
  have "rel_option same_record (job_of k h) (job_of k h'')" for k
    using a option.rel_transp [of same_record] same_record_trans
    unfolding swept_def transp_def by (metis (full_types))
  then show ?thesis using a by (simp add: swept_def)
qed

lemma swept_update:
  assumes "\<And>d. job_of j h = Some d \<Longrightarrow> same_record d (f d)"
  shows "swept {j} h (update_job j f h)"
  using assms by (auto simp: swept_def job_of_update option.rel_map intro: option.rel_refl
      split: option.splits) (auto simp: option.rel_sel)

lemma swept_update_state:
  assumes "\<And>s. core_state (f s) = core_state s"
  shows "swept {j} h (snd (update_state j f h))"
proof -
  obtain r h' where eq: "with_state j (\<lambda>s. (Inr (f s), Some (f s))) h = (r, h')"
    by (cases "with_state j (\<lambda>s. (Inr (f s) :: jobstate res, Some (f s))) h")
  then have "swept {j} h h'"
  proof (cases rule: with_state_cases)
    case (wrote s s')
    have "swept {j} h (update_job j (\<lambda>d. d\<lparr>jd_state := Inr s'\<rparr>) h)"
    proof (rule swept_update)
      fix d assume "job_of j h = Some d"
      then have "jd_state d = Inr s" using wrote(2) by (simp add: read_state_def)
      moreover have "s' = f s" using wrote(3) by simp
      ultimately show "same_record d (d\<lparr>jd_state := Inr s'\<rparr>)"
        using assms by (simp add: same_record_def)
    qed
    then show ?thesis using wrote(4) by (simp add: write_state_def)
  qed simp_all
  then show ?thesis using eq by (simp add: update_state_def)
qed

lemma swept_remove_workdir: "swept {j} h (snd (remove_workdir j measured now h))"
proof -
  have s1: "swept {j} h (update_job j (\<lambda>d. d\<lparr>jd_archive := None\<rparr>) h)" for h
    by (rule swept_update) (simp add: same_record_def)
  have s2: "swept {j} h (update_job j (\<lambda>d. d\<lparr>jd_workdir := w\<rparr>) h)" for h w
    by (rule swept_update) (simp add: same_record_def)
  have s3: "swept {j} h (snd (update_state j (\<lambda>s. s\<lparr>st_checkout_removed_at := Some now,
      st_workdir_bytes := Some 0, st_kept_bytes := Some x\<rparr>) h))" for h x
    by (rule swept_update_state) (simp add: core_state_def)
  note two = swept_trans [OF s1 s2, simplified] and three = swept_trans [OF swept_trans [OF s1 s2] s3, simplified]
  let ?h1 = "update_job j (\<lambda>d. d\<lparr>jd_archive := None\<rparr>) h"
  show ?thesis
  proof (cases "has_checkout j h = Inr True \<and> has_workdir j h")
    case False
    then show ?thesis using s1 by (auto simp: remove_workdir_def Let_def split: sum.splits bool.splits)
  next
    case True
    show ?thesis
    proof (cases "kept_outputs j None None ?h1")
      case (Inl e)
      then show ?thesis using True s1 by (simp add: remove_workdir_def)
    next
      case (Inr keys)
      then show ?thesis using True two three
        by (simp add: remove_workdir_def Let_def case_prod_unfold split: sum.split)
    qed
  qed
qed

lemma clean_loop_swept: "swept (cd_job_id ` set cs) h (snd (clean_loop now cs r h))"
proof (induction cs arbitrary: r h)
  case (Cons c cs)
  let ?j = "cd_job_id c"
  let ?upd = "\<lambda>s. s\<lparr>st_workdir_bytes := Some 0\<rparr>"
  have one: "swept {?j} h h1" if "remove_workdir ?j (Some (cd_bytes c)) now h = (x, h1)" for x h1
    using swept_remove_workdir [of ?j h "Some (cd_bytes c)" now] that by simp
  have upd: "swept {?j} h1 h2" if "update_state ?j ?upd h1 = (x, h2)" for x h1 h2
    using swept_update_state [of ?upd ?j h1] that by (simp add: core_state_def)
  have step: "swept (insert ?j (cd_job_id ` set cs)) h (snd (clean_loop now cs r' h'))"
    if "swept {?j} h h'" for r' h'
    using swept_trans [OF that Cons.IH [of h' r']] by simp
  have weak: "swept (insert ?j A) h h'" if "swept {?j} h h'" for A h'
    using swept_trans [OF that swept_refl [of A]] by simp
  obtain x h1 where x: "remove_workdir ?j (Some (cd_bytes c)) now h = (x, h1)" by fastforce
  obtain y h2 where y: "update_state ?j ?upd h1 = (y, h2)" by fastforce
  have h2: "swept {?j} h h2" using swept_trans [OF one [OF x] upd [OF y]] by simp
  show ?case
  proof (cases x)
    case (Inl e)
    then show ?thesis using x weak [OF one [OF x]] step [OF one [OF x]] by simp
  next
    case (Inr n)
    then show ?thesis using x y weak [OF h2] step [OF h2] by (cases y) (simp_all add: Let_def)
  qed
qed simp

lemma remove_stale_incoming_jobs:
  "job_of k (snd (remove_stale_incoming moment h)) = job_of k h"
  "list_job_ids (snd (remove_stale_incoming moment h)) = list_job_ids h"
  "h_config (snd (remove_stale_incoming moment h)) = h_config h"
  "set (h_secrets (snd (remove_stale_incoming moment h))) = set (h_secrets h) - set (stale_incoming moment h)"
proof -
  let ?rm = "\<lambda>h j. remove_secrets j (h\<lparr>h_incoming := AList.delete j (h_incoming h)\<rparr>)"
  have "job_of k (foldl ?rm h js) = job_of k h \<and> list_job_ids (foldl ?rm h js) = list_job_ids h \<and>
      h_config (foldl ?rm h js) = h_config h \<and> set (h_secrets (foldl ?rm h js)) = set (h_secrets h) - set js" for js
    by (induction js arbitrary: h) (auto simp: remove_secrets_def job_of_def list_job_ids_def)
  then show "job_of k (snd (remove_stale_incoming moment h)) = job_of k h"
    "list_job_ids (snd (remove_stale_incoming moment h)) = list_job_ids h"
    "h_config (snd (remove_stale_incoming moment h)) = h_config h"
    "set (h_secrets (snd (remove_stale_incoming moment h))) = set (h_secrets h) - set (stale_incoming moment h)"
    by (simp_all add: remove_stale_incoming_def Let_def)
qed

lemma clean_effect:
  assumes "clean fromiso now allf older dry moment only ev h = (r, h')"
  shows "h' = h \<or> (\<not> dry \<and> (\<exists>picked sks r0. candidates fromiso allf older moment only ev h = Inr (picked, sks) \<and>
    (let h1 = snd (clean_loop now picked r0 h) in h' = h1 \<or> h' = snd (remove_stale_incoming moment h1))))"
proof (cases "candidates fromiso allf older moment only ev h")
  case (Inl e)
  then show ?thesis using assms by (simp add: clean_def)
next
  case (Inr ps)
  obtain picked sks where ps: "ps = (picked, sks)" by fastforce
  show ?thesis
  proof (cases "host_s3_prefix h")
    case (Inl e)
    then show ?thesis using assms Inr by (simp add: clean_def)
  next
    case prefix: (Inr prefix)
    show ?thesis
    proof (cases dry)
      case True
      then show ?thesis using assms Inr ps prefix by (simp add: clean_def Let_def)
    next
      case False
      let ?r0 = "empty_result dry sks [] prefix"
      have "h' = snd (clean_loop now picked ?r0 h) \<or>
          h' = snd (remove_stale_incoming moment (snd (clean_loop now picked ?r0 h)))"
        using assms Inr ps prefix False
        by (auto simp: clean_def Let_def case_prod_unfold split: sum.splits)
      then show ?thesis using Inr ps False by (auto simp: Let_def)
    qed
  qed
qed

lemma candidates_ids:
  assumes "candidates fromiso allf older moment only ev h = Inr (picked, sks)" and "c \<in> set picked"
  shows "\<exists>s. read_state (cd_job_id c) h = Inr s \<and> finished s \<and> may_delete (cd_job_id c) s WORKDIR ev h = Inr None"
proof -
  from assms obtain vs where "map_res (candidate_for fromiso allf older moment only ev h) (list_job_ids h) = Inr vs"
    "Picked c \<in> set vs" by (auto simp: candidates_def map_sum_Inr picked_of_set)
  from map_res_set [OF this] candidate_for_picked show ?thesis by blast
qed

lemma foldl_remove_job_dir:
  "job_of k (foldl (\<lambda>h c. remove_job_dir (cd_job_id c) h) h cs) = (if k \<in> cd_job_id ` set cs then None else job_of k h)"
  by (induction cs arbitrary: h) (auto simp: remove_job_dir_def remove_secrets_def job_of_def delete_conv')


lemma clean_swept:
  assumes "clean fromiso now allf older dry moment only ev h = (r, h')"
  shows "\<exists>js. (\<forall>j \<in> js. \<exists>s. read_state j h = Inr s \<and> finished s \<and> may_delete j s WORKDIR ev h = Inr None) \<and>
    list_job_ids h' = list_job_ids h \<and> (\<forall>k. k \<notin> js \<longrightarrow> job_of k h' = job_of k h) \<and>
    (\<forall>k. rel_option same_record (job_of k h) (job_of k h'))"
  using clean_effect [OF assms]
proof
  assume "h' = h"
  then show ?thesis by (intro exI [of _ "{}"]) (simp add: option.rel_refl)
next
  assume "\<not> dry \<and> (\<exists>picked sks r0. candidates fromiso allf older moment only ev h = Inr (picked, sks) \<and>
    (let h1 = snd (clean_loop now picked r0 h) in h' = h1 \<or> h' = snd (remove_stale_incoming moment h1)))"
  then obtain picked sks r0 h1 where c: "candidates fromiso allf older moment only ev h = Inr (picked, sks)"
    and h1: "h1 = snd (clean_loop now picked r0 h)" "h' = h1 \<or> h' = snd (remove_stale_incoming moment h1)"
    by (auto simp: Let_def)
  have sw: "swept (cd_job_id ` set picked) h h1" unfolding h1 by (rule clean_loop_swept)
  have same: "job_of k h' = job_of k h1" "list_job_ids h' = list_job_ids h1" for k
    using h1(2) by (auto simp: remove_stale_incoming_jobs)
  show ?thesis
    using sw same candidates_ids [OF c]
    by (intro exI [of _ "cd_job_id ` set picked"]) (auto simp: swept_def)
qed

lemma purge_swept:
  assumes "purge_job_dirs fromiso rb older dry moment only ev h = (r, h')"
  shows "\<exists>js. (\<forall>j \<in> js. \<exists>s. read_state j h = Inr s \<and> finished s \<and> may_delete j s JOBDIR ev h = Inr None) \<and>
    (dry \<longrightarrow> h' = h) \<and> (\<forall>k. job_of k h' = (if k \<in> js \<and> \<not> dry then None else job_of k h))"
proof (cases "purge_candidates fromiso rb older moment only ev h")
  case (Inl e)
  then show ?thesis using assms by (intro exI [of _ "{}"]) (simp add: purge_job_dirs_def)
next
  case (Inr ps)
  obtain picked sks where ps: "ps = (picked, sks)" by fastforce
  have ids: "\<exists>s. read_state (cd_job_id c) h = Inr s \<and> finished s \<and> may_delete (cd_job_id c) s JOBDIR ev h = Inr None"
    if "c \<in> set picked" for c
  proof -
    from Inr ps that obtain vs where "map_res (purge_for fromiso rb older moment only ev h) (list_job_ids h) = Inr vs"
      "Picked c \<in> set vs" by (auto simp: purge_candidates_def map_sum_Inr picked_of_set)
    from map_res_set [OF this] purge_for_picked show ?thesis by blast
  qed
  have h': "h' = h \<or> (\<not> dry \<and> h' = foldl (\<lambda>h c. remove_job_dir (cd_job_id c) h) h picked)" "dry \<longrightarrow> h' = h"
    using assms Inr ps
    by (cases "host_s3_prefix h"; auto simp: purge_job_dirs_def split: if_splits)+
  from h'(1) show ?thesis
  proof
    assume "h' = h"
    then show ?thesis by (intro exI [of _ "{}"]) simp
  next
    assume "\<not> dry \<and> h' = foldl (\<lambda>h c. remove_job_dir (cd_job_id c) h) h picked"
    then show ?thesis
      using ids by (intro exI [of _ "cd_job_id ` set picked"]) (auto simp: foldl_remove_job_dir)
  qed
qed

section \<open>Properties of deleting\<close>

definition demo_job :: "jobspec \<Rightarrow> jobstate \<Rightarrow> job_dir" where
  "demo_job spec s =
     \<lparr>jd_spec = Inr spec, jd_state = Inr s, jd_log = [], jd_workdir = Some demo_workdir,
      jd_archive = None, jd_baseline = [], jd_outside = []\<rparr>"

definition plain_spec :: "job_id \<Rightarrow> int \<Rightarrow> jobspec" where
  "plain_spec j gpus =
     \<lparr>sp_job_id = j, sp_command = ''true'', sp_name = [], sp_setup = None, sp_python = DEFAULT_PYTHON,
      sp_gpus = gpus, sp_use_shared = False, sp_env = [], sp_secrets = [], sp_outputs = [],
      sp_sync_interval_s = 180, sp_priority = 50, sp_max_runtime_min = None,
      sp_estimated_runtime_min = None, sp_progress_command = None, sp_progress_interval_s = Fin 60,
      sp_auto_preempt = False, sp_cleanup = ''on_success'', sp_requeued_from = None\<rparr>"

text \<open>A host with a finished job \<open>a\<close>, a running job \<open>b\<close> and two queued ones.\<close>

definition demo_host :: host where
  "demo_host =
     \<lparr>h_jobs =
        [(''a'', demo_job (plain_spec ''a'' 1) (blank_state\<lparr>st_status := ''succeeded'', st_ended_at := Some ''t''\<rparr>)),
         (''b'', demo_job (plain_spec ''b'' 1)
            (blank_state\<lparr>st_status := ''running'', st_gpus := [''G0''], st_priority := 10\<rparr>)),
         (''c'', demo_job (plain_spec ''c'' 1) (blank_state\<lparr>st_priority := 5, st_ran := False\<rparr>)),
         (''d'', demo_job (plain_spec ''d'' 0) (blank_state\<lparr>st_priority := 1, st_ran := False\<rparr>))],
      h_incoming = [], h_secrets = [''a'', ''c''], h_draining = False, h_config = Inr blank_config,
      h_scratch = False\<rparr>"

text \<open>
  C13. A sweep never touches a job that is not over: whatever \<open>clean\<close> was asked and however
  it ends, every job dir that was there is there with its spec, its log and its state (but
  for the three fields that describe the workdir), a job whose state is unreadable or not
  finished is not touched at all, and a dry run changes nothing.
\<close>

theorem clean_never_touches_unfinished:
  assumes "clean fromiso now allf older dry moment only ev h = (r, h')"
  shows "list_job_ids h' = list_job_ids h \<and> (dry \<longrightarrow> h' = h) \<and>
    (\<forall>k. rel_option same_record (job_of k h) (job_of k h')) \<and>
    (\<forall>k. (\<forall>s. read_state k h = Inr s \<longrightarrow> \<not> finished s) \<longrightarrow> job_of k h' = job_of k h)"
proof -
  from clean_swept [OF assms] obtain js where js:
    "\<forall>j \<in> js. \<exists>s. read_state j h = Inr s \<and> finished s \<and> may_delete j s WORKDIR ev h = Inr None"
    "list_job_ids h' = list_job_ids h" "\<forall>k. k \<notin> js \<longrightarrow> job_of k h' = job_of k h"
    "\<forall>k. rel_option same_record (job_of k h) (job_of k h')" by blast
  moreover have "dry \<longrightarrow> h' = h" using clean_effect [OF assms] by auto
  ultimately show ?thesis by blast
qed

theorem clean_never_touches_unfinished_witness:
  "job_of ''b'' (snd (clean (\<lambda>t. Some 0) ''now'' True None False 9 None ASKED demo_host)) = job_of ''b'' demo_host"
proof -
  obtain r h' where c: "clean (\<lambda>t. Some 0) ''now'' True None False 9 None ASKED demo_host = (r, h')" by fastforce
  from clean_never_touches_unfinished [OF c] have
    "(\<forall>s. read_state ''b'' demo_host = Inr s \<longrightarrow> \<not> finished s) \<longrightarrow> job_of ''b'' h' = job_of ''b'' demo_host"
    by blast
  then show ?thesis using c by (simp add: read_state_def job_of_def demo_host_def demo_job_def finished_def blank_state_def)
qed

text \<open>
  An automatic sweep loses nothing: a delete nobody typed leaves the workdir of a job
  whose policy is \<open>never\<close>, whose spec cannot be read, or whose outputs are not confirmed
  uploaded.
\<close>

theorem automatic_clean_keeps_pending_outputs:
  assumes "clean fromiso now allf older dry moment only ev h = (r, h')" and "ev_automatic ev"
    and "\<forall>spec s. read_spec j h = Inr spec \<longrightarrow> read_state j h = Inr s \<longrightarrow>
      sp_cleanup spec = ''never'' \<or> outputs_pending j spec s h \<noteq> Inr None"
  shows "job_of j h' = job_of j h"
proof (rule ccontr)
  assume "job_of j h' \<noteq> job_of j h"
  with clean_swept [OF assms(1)] obtain s where s: "read_state j h = Inr s"
    "may_delete j s WORKDIR ev h = Inr None" by blast
  then show False
    using assms(2,3) by (auto simp: may_delete_def split: sum.splits if_splits)
qed

definition never_host :: host where
  "never_host = demo_host\<lparr>h_jobs := [(''a'', demo_job ((plain_spec ''a'' 1)\<lparr>sp_cleanup := ''never''\<rparr>)
     (blank_state\<lparr>st_status := ''succeeded'', st_ended_at := Some ''t''\<rparr>))]\<rparr>"

theorem automatic_clean_witness:
  "job_of ''a'' (snd (clean (\<lambda>t. Some 0) ''now'' True None False 9 None (ASKED\<lparr>ev_automatic := True\<rparr>) never_host)) =
     job_of ''a'' never_host"
proof -
  obtain r h' where c: "clean (\<lambda>t. Some 0) ''now'' True None False 9 None (ASKED\<lparr>ev_automatic := True\<rparr>) never_host = (r, h')"
    by fastforce
  have "job_of ''a'' h' = job_of ''a'' never_host"
    by (rule automatic_clean_keeps_pending_outputs [OF c])
      (simp_all add: read_spec_def job_of_def never_host_def demo_job_def)
  then show ?thesis using c by simp
qed

text \<open>
  C14. A purge takes only what is safe elsewhere: the job dirs that go are those of finished
  jobs, and without \<open>--force\<close> only those whose record is mirrored (and in the verified
  listing, if one is given), with no output pending and none kept on the host. Every other
  job dir is untouched, and a dry run changes nothing.
\<close>

theorem purge_takes_only_backed_up:
  assumes "purge_job_dirs fromiso rb older dry moment only ev h = (r, h')"
  shows "(dry \<longrightarrow> h' = h) \<and> (\<forall>k. job_of k h' = job_of k h \<or>
    (\<not> dry \<and> job_of k h' = None \<and> (\<exists>s. read_state k h = Inr s \<and> finished s \<and>
       (ev_force ev \<or> backed_up k s (ev_verified ev) h))))"
proof -
  from purge_swept [OF assms] obtain js where js:
    "\<forall>j \<in> js. \<exists>s. read_state j h = Inr s \<and> finished s \<and> may_delete j s JOBDIR ev h = Inr None"
    "dry \<longrightarrow> h' = h" "\<forall>k. job_of k h' = (if k \<in> js \<and> \<not> dry then None else job_of k h)" by blast
  then show ?thesis using may_delete_jobdir by (metis (full_types))
qed

theorem purge_witness:
  "job_of ''a'' (snd (purge_job_dirs (\<lambda>t. Some 0) (\<lambda>j. 0) (Fin 7) False 999999999 None ASKED demo_host)) = job_of ''a'' demo_host"
proof -
  obtain r h' where c: "purge_job_dirs (\<lambda>t. Some 0) (\<lambda>j. 0) (Fin 7) False 999999999 None ASKED demo_host = (r, h')"
    by fastforce
  have a: "read_state ''a'' demo_host = Inr (blank_state\<lparr>st_status := ''succeeded'', st_ended_at := Some ''t''\<rparr>)"
    by (simp add: read_state_def job_of_def demo_host_def demo_job_def)
  from purge_takes_only_backed_up [OF c] have
    "job_of ''a'' h' = job_of ''a'' demo_host \<or> (\<exists>s. read_state ''a'' demo_host = Inr s \<and> mirrored s)"
    unfolding backed_up_def ASKED_def by fastforce
  then have "job_of ''a'' h' = job_of ''a'' demo_host"
    unfolding a by (auto simp: mirrored_def mirror_def blank_state_def)
  then show ?thesis using c by simp
qed

text \<open>
  A finished job's secrets go: settling them removes exactly that job's file and
  nothing else, except on an ephemeral host while the job's outputs are pending, when the
  file stays and the reason is given.
\<close>

theorem settle_secrets_correct:
  assumes "settle_secrets j s h = (Inr why, h')"
  shows "case why of
      None \<Rightarrow> h' = h\<lparr>h_secrets := filter (\<lambda>x. x \<noteq> j) (h_secrets h)\<rparr>
    | Some reason \<Rightarrow> h' = h \<and> ephemeral_host h = Inr True \<and>
        (\<exists>spec. read_spec j h = Inr spec \<and> outputs_pending j spec s h = Inr (Some reason))"
  using assms
  by (auto simp: settle_secrets_def remove_secrets_def catching_def map_sum_Inr
      split: sum.splits bool.splits option.splits if_splits)

theorem settle_secrets_witness:
  "h_secrets (snd (settle_secrets ''a'' blank_state demo_host)) = [''c'']"
proof -
  have c: "settle_secrets ''a'' blank_state demo_host = (Inr None, snd (settle_secrets ''a'' blank_state demo_host))"
    by (simp add: settle_secrets_def ephemeral_host_def demo_host_def blank_config_def ephemeral_def)
  from settle_secrets_correct [OF c] show ?thesis by (simp add: demo_host_def)
qed

end
