(* ===== verification/Queue.thy ===== *)
theory Queue
  imports Procs Cleanup
begin

text \<open>
  \<open>src/gpuc/host/queue.py\<close>: the queue is every job whose state is \<open>queued\<close>, in
  \<open>(priority, job_id)\<close> order, and every change of a job's state is a compare-and-set under
  the job's own lock. Each operation is a function of the host that returns its result and
  the host afterwards. A \<open>raise ValueError(...)\<close> of \<open>preempt\<close> is one constructor of
  \<open>refusal\<close> per message.
\<close>

section \<open>Entries\<close>

record queue_entry =
  qe_priority :: int
  qe_job_id :: job_id
  qe_attempt :: int

definition qe_key :: "queue_entry \<Rightarrow> queue_key" where
  "qe_key e = (qe_priority e, qe_job_id e)"

definition PREEMPTED :: string where "PREEMPTED = ''preempted''"

text \<open>\<open>STOP_REASONS.get(intent or "")\<close>.\<close>

definition stop_reason :: "string option \<Rightarrow> string option" where
  "stop_reason intent =
     (if intent = Some CANCEL then Some ''cancelled''
      else if intent = Some PREEMPT then Some PREEMPTED else None)"

section \<open>Accepting a job\<close>

text \<open>
  \<open>enqueue\<close>: the staged dir gets its spec and initial state, is archived on a host with
  scratch, and is renamed into \<open>jobs/\<close>; \<open>gz\<close> is the size an archive takes.
\<close>

definition empty_dir :: fnode where "empty_dir = NDir 0 (Some [])"

definition staged_for :: "job_id \<Rightarrow> host \<Rightarrow> staged_dir" where
  "staged_for j h =
     (case map_of (h_incoming h) j of
        Some sg \<Rightarrow> sg
      | None \<Rightarrow> \<lparr>sg_workdir = None, sg_archive = None, sg_changed = 0\<rparr>)"

definition enqueue :: "(fnode \<Rightarrow> nat) \<Rightarrow> jobspec \<Rightarrow> host \<Rightarrow> job_id res \<times> host" where
  "enqueue gz spec h =
     (let j = sp_job_id spec
      in if has_job j h then (Inl FileExistsError, h)
         else
           let sg = staged_for j h;
               sg1 = (if sg_archive sg = None \<and> sg_workdir sg = None
                      then sg\<lparr>sg_workdir := Some empty_dir\<rparr> else sg);
               sg2 = (if h_scratch h then archive_staged gz sg1 else sg1);
               d = \<lparr>jd_spec = Inr spec, jd_state = Inr (initial spec), jd_log = [],
                    jd_workdir = sg_workdir sg2, jd_archive = sg_archive sg2, jd_baseline = [],
                    jd_outside = []\<rparr>
           in (Inr j, h\<lparr>h_jobs := h_jobs h @ [(j, d)], h_incoming := AList.delete j (h_incoming h)\<rparr>))"

section \<open>Reading the queue\<close>

text \<open>An unreadable state is passed over; an exception of another class ends the listing.\<close>

fun queued_entries :: "job_id list \<Rightarrow> host \<Rightarrow> queue_entry list res" where
  "queued_entries [] h = Inr []"
| "queued_entries (j # js) h =
     (case read_state j h of
        Inl e \<Rightarrow> if e = RuntimeError then queued_entries js h else Inl e
      | Inr s \<Rightarrow>
          if st_status s = ''queued''
          then map_sum id ((#) \<lparr>qe_priority = st_priority s, qe_job_id = j, qe_attempt = st_attempt s\<rparr>)
                 (queued_entries js h)
          else queued_entries js h)"

definition list_queued :: "host \<Rightarrow> queue_entry list res" where
  "list_queued h = map_sum id (sort_key qe_key) (queued_entries (list_job_ids h) h)"

text \<open>\<open>_wants_cards\<close>: an unreadable spec counts as wanting some.\<close>

definition wants_cards :: "job_id \<Rightarrow> host \<Rightarrow> bool res" where
  "wants_cards j h =
     catching [RuntimeError, ValueError, OSError] True (map_sum id (\<lambda>sp. sp_gpus sp > 0) (read_spec j h))"

fun first_ahead :: "queue_key \<Rightarrow> job_id \<Rightarrow> queue_entry list \<Rightarrow> host \<Rightarrow> queue_entry option res" where
  "first_ahead mine j [] h = Inr None"
| "first_ahead mine j (e # es) h =
     (if qe_key e \<ge> mine then Inr None
      else if qe_job_id e \<noteq> j
      then bind_res (wants_cards (qe_job_id e) h) (\<lambda>w.
             if w then Inr (Some e) else first_ahead mine j es h)
      else first_ahead mine j es h)"

definition queued_ahead_of :: "job_id \<Rightarrow> int \<Rightarrow> host \<Rightarrow> queue_entry option res" where
  "queued_ahead_of j priority h =
     bind_res (list_queued h) (\<lambda>es. first_ahead (priority, j) j es h)"

fun others_wanting :: "job_id \<Rightarrow> queue_entry list \<Rightarrow> host \<Rightarrow> queue_entry list res" where
  "others_wanting j [] h = Inr []"
| "others_wanting j (e # es) h =
     (if qe_job_id e = j then others_wanting j es h
      else bind_res (wants_cards (qe_job_id e) h) (\<lambda>w.
             map_sum id (\<lambda>rest. if w then e # rest else rest) (others_wanting j es h)))"

section \<open>Taking a job out of the queue\<close>

definition claimed_state :: "jobspec option \<Rightarrow> (jobstate \<Rightarrow> jobstate) \<Rightarrow> jobstate \<Rightarrow> jobstate" where
  "claimed_state spec upd s =
     (let s1 = (case spec of
          Some sp \<Rightarrow> if st_live_max_runtime s then s
            else s\<lparr>st_max_runtime_min := sp_max_runtime_min sp, st_live_max_runtime := True\<rparr>
        | None \<Rightarrow> s)
      in upd s1)"

definition claim ::
  "job_id \<Rightarrow> int \<Rightarrow> jobspec option \<Rightarrow> (jobstate \<Rightarrow> jobstate) \<Rightarrow> host \<Rightarrow> bool res \<times> host" where
  "claim j attempt spec upd h =
     with_state j (\<lambda>s.
       if st_status s \<noteq> ''queued'' \<or> st_attempt s \<noteq> attempt then (Inr False, None)
       else (Inr True, Some (claimed_state spec upd s))) h"

text \<open>The fields a runner claims a job with.\<close>

record runner_id =
  ri_gpus :: "uuid list"
  ri_started_at :: string
  ri_isolation :: string
  ri_pid :: int
  ri_boot_id :: "string option"
  ri_init_start :: "string option"
  ri_starttime :: "string option"

definition claim_fields :: "runner_id \<Rightarrow> jobstate \<Rightarrow> jobstate" where
  "claim_fields r s =
     s\<lparr>st_status := ''running'', st_gpus := ri_gpus r, st_phase := Some ''setup'',
       st_started_at := Some (ri_started_at r), st_isolation := Some (ri_isolation r),
       st_runner_pid := Some (ri_pid r), st_runner_boot_id := ri_boot_id r,
       st_runner_init_start := ri_init_start r, st_runner_starttime := ri_starttime r\<rparr>"

definition runner_claim :: "job_id \<Rightarrow> int \<Rightarrow> jobspec \<Rightarrow> runner_id \<Rightarrow> host \<Rightarrow> bool res \<times> host" where
  "runner_claim j attempt spec r h = claim j attempt (Some spec) (claim_fields r) h"

section \<open>Cancelling\<close>

definition cancelled_state :: "string \<Rightarrow> jobstate \<Rightarrow> jobstate" where
  "cancelled_state now s =
     (if st_status s = ''queued''
      then s\<lparr>st_status := ''cancelled'', st_reason := Some ''cancelled'', st_ended_at := Some now,
             st_intent := None\<rparr>
      else s\<lparr>st_intent := Some CANCEL\<rparr>)"

definition cancel :: "job_id \<Rightarrow> string \<Rightarrow> host \<Rightarrow> string res \<times> host" where
  "cancel j now h =
     (case with_state j (\<lambda>s.
             if finished s then (Inr (Inl (st_status s)), None)
             else (Inr (Inr (cancelled_state now s)), Some (cancelled_state now s))) h of
        (Inl e, h1) \<Rightarrow> (Inl e, h1)
      | (Inr (Inl status), h1) \<Rightarrow> (Inr status, h1)
      | (Inr (Inr s), h1) \<Rightarrow>
          if st_status s \<noteq> ''cancelled'' then (Inr ''cancelling'', h1)
          else (case settle_secrets j s h1 of
              (Inl e, h2) \<Rightarrow> (Inl e, h2)
            | (Inr _, h2) \<Rightarrow> (Inr ''cancelled'', h2)))"

definition stop_requested :: "job_id \<Rightarrow> host \<Rightarrow> string option res" where
  "stop_requested j h =
     (case read_state j h of
        Inl e \<Rightarrow> if e = RuntimeError then Inr None else Inl e
      | Inr s \<Rightarrow> Inr (stop_reason (st_intent s)))"

definition is_preempted :: "job_id \<Rightarrow> host \<Rightarrow> bool res" where
  "is_preempted j h =
     (case read_state j h of
        Inl e \<Rightarrow> if e = RuntimeError then Inr False else Inl e
      | Inr s \<Rightarrow> Inr (st_intent s = Some PREEMPT))"

section \<open>Preempting\<close>

datatype refusal =
    NoSuchJob
  | BadPriority int
  | AlreadyFinished string
  | NotRunning string
  | BeingCancelled
  | HoldsNoGpus
  | HostDraining
  | NothingElseQueued
  | ComesBackFirst job_id int
  | Raised pyerr

definition refuse_if_nothing_else_can_run :: "job_id \<Rightarrow> int \<Rightarrow> host \<Rightarrow> refusal option" where
  "refuse_if_nothing_else_can_run j priority h =
     (if h_draining h then Some HostDraining
      else (case queued_ahead_of j priority h of
          Inl e \<Rightarrow> Some (Raised e)
        | Inr (Some _) \<Rightarrow> None
        | Inr None \<Rightarrow>
            (case bind_res (list_queued h) (\<lambda>es. others_wanting j es h) of
               Inl e \<Rightarrow> Some (Raised e)
             | Inr [] \<Rightarrow> Some NothingElseQueued
             | Inr (first # _) \<Rightarrow> Some (ComesBackFirst (qe_job_id first) (qe_priority first)))))"

definition preempt_refusal :: "job_id \<Rightarrow> int option \<Rightarrow> jobstate \<Rightarrow> host \<Rightarrow> refusal option" where
  "preempt_refusal j priority s h =
     (if finished s then Some (AlreadyFinished (st_status s))
      else if st_status s \<noteq> ''running'' then Some (NotRunning (st_status s))
      else if st_intent s = Some CANCEL then Some BeingCancelled
      else (case wants_cards j h of
          Inl e \<Rightarrow> Some (Raised e)
        | Inr False \<Rightarrow> Some HoldsNoGpus
        | Inr True \<Rightarrow>
            refuse_if_nothing_else_can_run j (case priority of Some p \<Rightarrow> p | None \<Rightarrow> st_priority s) h))"

definition preempt :: "job_id \<Rightarrow> int option \<Rightarrow> host \<Rightarrow> (refusal + string) \<times> host" where
  "preempt j priority h =
     (if \<not> has_job j h then (Inl NoSuchJob, h)
      else if (case priority of Some p \<Rightarrow> \<not> (0 \<le> p \<and> p \<le> 99) | None \<Rightarrow> False)
      then (Inl (BadPriority (the priority)), h)
      else (case read_state j h of
          Inl e \<Rightarrow> (Inl (Raised e), h)
        | Inr s \<Rightarrow>
            (case preempt_refusal j priority s h of
               Some r \<Rightarrow> (Inl r, h)
             | None \<Rightarrow>
                 (Inr ''preempting'',
                  write_state j (s\<lparr>st_intent := Some PREEMPT,
                    st_priority := (case priority of Some p \<Rightarrow> p | None \<Rightarrow> st_priority s)\<rparr>) h))))"

section \<open>Queueing an attempt again\<close>

text \<open>\<open>_write_queued_again\<close>: a fresh state; only what a queued job is ordered by survives.\<close>

definition queued_again :: "jobstate \<Rightarrow> bool \<Rightarrow> int option \<Rightarrow> jobstate" where
  "queued_again s did_run restarts =
     blank_state\<lparr>st_status := ''queued'', st_attempt := st_attempt s + 1, st_priority := st_priority s,
       st_estimated_runtime_min := st_estimated_runtime_min s,
       st_max_runtime_min := st_max_runtime_min s, st_live_max_runtime := st_live_max_runtime s,
       st_ran := did_run, st_restarts := (case restarts of Some n \<Rightarrow> n | None \<Rightarrow> st_restarts s)\<rparr>"

definition next_attempt :: "job_id \<Rightarrow> bool \<Rightarrow> host \<Rightarrow> int option res \<times> host" where
  "next_attempt j did_run h =
     (case with_state j (\<lambda>s.
             if st_status s \<noteq> ''running'' \<or> st_intent s \<noteq> Some PREEMPT then (Inr None, None)
             else (Inr (Some (st_attempt s + 1, st_priority s)),
                   Some (queued_again s (st_ran s \<or> did_run) None))) h of
        (Inl e, h1) \<Rightarrow> (Inl e, h1)
      | (Inr None, h1) \<Rightarrow> (Inr None, h1)
      | (Inr (Some (attempt, priority)), h1) \<Rightarrow>
          (Inr (Some attempt),
           note_log j (''preempted; queued again as attempt '' @ int_str attempt @ '' at priority ''
             @ int_str priority @ '', to run from the start in this same workdir'') h1))"

definition MAX_RESTARTS :: int where "MAX_RESTARTS = 3"

text \<open>
  \<open>requeue_after_restart\<close>: the locked read-modify-write, then either \<open>finish\<close> (in a second
  lock, as in the code) or a line in the log.
\<close>

definition restart_body :: "kernel \<Rightarrow> jobstate \<Rightarrow> (jobstate \<times> jobstate option) option res \<times> jobstate option" where
  "restart_body k s =
     (if st_status s \<noteq> ''running'' \<or> \<not> from_another_boot k (st_runner_boot_id s) (st_runner_init_start s)
      then (Inr None, None)
      else if st_intent s = Some PREEMPT
      then (let s' = queued_again s (st_ran s) None in (Inr (Some (s, Some s')), Some s'))
      else if st_intent s \<noteq> Some CANCEL \<and> st_restarts s < MAX_RESTARTS
      then (let s' = queued_again s (st_ran s) (Some (st_restarts s + 1)) in (Inr (Some (s, Some s')), Some s'))
      else (Inr (Some (s, None)), None))"

definition restart_outcome :: "jobstate \<Rightarrow> outcome" where
  "restart_outcome s =
     (if st_intent s = Some CANCEL
      then \<lparr>oc_status = ''cancelled'', oc_reason = Some ''cancelled'', oc_exit_code = 1, oc_ran = False\<rparr>
      else \<lparr>oc_status = ''failed'', oc_reason = Some ''host-restarted'', oc_exit_code = 1, oc_ran = False\<rparr>)"

definition requeue_after_restart :: "kernel \<Rightarrow> job_id \<Rightarrow> string \<Rightarrow> host \<Rightarrow> jobstate option res \<times> host" where
  "requeue_after_restart k j now h =
     (case with_state j (restart_body k) h of
        (Inl e, h1) \<Rightarrow> (Inl e, h1)
      | (Inr None, h1) \<Rightarrow> (Inr None, h1)
      | (Inr (Some (s, None)), h1) \<Rightarrow> finish j (restart_outcome s) ''running'' True now id h1
      | (Inr (Some (s, Some written)), h1) \<Rightarrow>
          (Inr (Some written),
           note_log j (''the host restarted while this job was running; queued again as attempt ''
             @ int_str (st_attempt written)
             @ (if st_intent s = Some PREEMPT then []
                else '' (restart '' @ int_str (st_restarts written) @ '' of at most '' @ int_str MAX_RESTARTS @ '')'')
             @ '', to run from the start in this same workdir'') h1))"


section \<open>The queue is what the states say\<close>

lemma queued_entries_set:
  assumes "queued_entries js h = Inr es"
  shows "set es = {\<lparr>qe_priority = st_priority s, qe_job_id = j, qe_attempt = st_attempt s\<rparr> | j s.
      j \<in> set js \<and> read_state j h = Inr s \<and> st_status s = ''queued''}"
    and "map qe_job_id es = filter (\<lambda>j. \<exists>s. read_state j h = Inr s \<and> st_status s = ''queued'') js"
proof -
  have "set es = {\<lparr>qe_priority = st_priority s, qe_job_id = j, qe_attempt = st_attempt s\<rparr> | j s.
      j \<in> set js \<and> read_state j h = Inr s \<and> st_status s = ''queued''} \<and>
    map qe_job_id es = filter (\<lambda>j. \<exists>s. read_state j h = Inr s \<and> st_status s = ''queued'') js"
    using assms
    by (induction js arbitrary: es) (auto simp: map_sum_Inr split: sum.splits if_splits)
  then show "set es = {\<lparr>qe_priority = st_priority s, qe_job_id = j, qe_attempt = st_attempt s\<rparr> | j s.
      j \<in> set js \<and> read_state j h = Inr s \<and> st_status s = ''queued''}"
    and "map qe_job_id es = filter (\<lambda>j. \<exists>s. read_state j h = Inr s \<and> st_status s = ''queued'') js"
    by simp_all
qed

lemma has_job_ids: "has_job j h \<longleftrightarrow> j \<in> set (list_job_ids h)"
  by (auto simp: has_job_def job_of_def list_job_ids_def map_of_eq_None_iff)

lemma readable_has_job: "read_state j h = Inr s \<Longrightarrow> has_job j h"
  by (auto simp: read_state_def has_job_def split: option.splits)

lemma list_queued_spec:
  assumes "list_queued h = Inr es"
  shows "sorted (map qe_key es)"
    and "e \<in> set es \<longleftrightarrow> (\<exists>s. read_state (qe_job_id e) h = Inr s \<and> st_status s = ''queued'' \<and>
      qe_priority e = st_priority s \<and> qe_attempt e = st_attempt s)"
    and "distinct (map fst (h_jobs h)) \<Longrightarrow> distinct (map qe_job_id es)"
proof -
  from assms obtain xs where xs: "queued_entries (list_job_ids h) h = Inr xs" "es = sort_key qe_key xs"
    by (auto simp: list_queued_def map_sum_Inr)
  show "sorted (map qe_key es)" using xs(2) by simp
  have "e \<in> set xs \<longleftrightarrow> (\<exists>s. read_state (qe_job_id e) h = Inr s \<and> st_status s = ''queued'' \<and>
      qe_priority e = st_priority s \<and> qe_attempt e = st_attempt s)"
    unfolding queued_entries_set(1) [OF xs(1)]
    using readable_has_job has_job_ids by (cases e) fastforce
  then show "e \<in> set es \<longleftrightarrow> (\<exists>s. read_state (qe_job_id e) h = Inr s \<and> st_status s = ''queued'' \<and>
      qe_priority e = st_priority s \<and> qe_attempt e = st_attempt s)"
    using xs(2) by simp
  show "distinct (map qe_job_id es)" if "distinct (map fst (h_jobs h))"
  proof -
    have "distinct (map qe_job_id xs)"
      unfolding queued_entries_set(2) [OF xs(1)] using that by (simp add: list_job_ids_def)
    moreover have "mset (map qe_job_id es) = mset (map qe_job_id xs)" using xs(2) by simp
    ultimately show ?thesis using mset_eq_imp_distinct_iff by blast
  qed
qed

lemma first_ahead_Some:
  assumes "first_ahead mine j es h = Inr (Some e)"
  shows "e \<in> set es \<and> qe_key e < mine \<and> qe_job_id e \<noteq> j \<and> wants_cards (qe_job_id e) h = Inr True"
  using assms by (induction es) (auto elim!: bind_res_Inr split: if_splits)

section \<open>Two processes, one job\<close>

lemma claim_cases:
  assumes "claim j attempt spec upd h = (r, h')"
  obtains (won) s where "r = Inr True" "has_job j h" "read_state j h = Inr s" "st_status s = ''queued''"
      "st_attempt s = attempt" "h' = write_state j (claimed_state spec upd s) h"
    | (lost) "r \<noteq> Inr True" "h' = h"
proof -
  from assms have "with_state j (\<lambda>s. if st_status s \<noteq> ''queued'' \<or> st_attempt s \<noteq> attempt then (Inr False, None)
       else (Inr True, Some (claimed_state spec upd s))) h = (r, h')" by (simp add: claim_def)
  then show ?thesis
    by (cases rule: with_state_cases) (auto intro: won lost split: if_splits)
qed

lemma claimed_running: "st_status (claimed_state spec (claim_fields r) s) = ''running''"
  by (simp add: claimed_state_def claim_fields_def Let_def)

lemma claim_after:
  assumes "has_job j h" and "read_state j h = Inr s" and "st_status s \<noteq> ''queued''"
  shows "claim j attempt spec upd h = (Inr False, h)"
  using assms by (simp add: claim_def with_state_def)

end
