(* ===== verification/Lifecycle.thy ===== *)
theory Lifecycle
  imports Queue
begin

text \<open>
  The life of a job across every operation that may change its state: the queue's, the
  runner's and the dispatcher's. \<open>spec_step\<close> is the abstract state machine the code's
  comments promise; \<open>life\<close> is the relation of the code's own operations on a host, each a
  step under the job's lock; the refinement says that every operation moves every job by
  one step of the machine, so what holds of the machine's runs holds of any interleaving
  of a dispatcher, a runner and the commands of an ssh session.
\<close>

section \<open>Runs of a guarded relation\<close>

text \<open>
  A step relation with an invariant it keeps and a preorder its steps climb: then every
  reachable state satisfies the invariant and is above the one it was reached from.
\<close>

locale guarded_runs =
  fixes step :: "'s \<Rightarrow> 's \<Rightarrow> bool" and inv :: "'s \<Rightarrow> bool" and climbs :: "'s \<Rightarrow> 's \<Rightarrow> bool"
  assumes step_inv: "inv s \<Longrightarrow> step s t \<Longrightarrow> inv t"
    and step_climbs: "inv s \<Longrightarrow> step s t \<Longrightarrow> climbs s t"
    and climbs_refl: "climbs s s"
    and climbs_trans: "climbs s t \<Longrightarrow> climbs t u \<Longrightarrow> climbs s u"
begin

lemma run_inv: "step\<^sup>*\<^sup>* s t \<Longrightarrow> inv s \<Longrightarrow> inv t"
  by (induction rule: rtranclp_induct) (auto intro: step_inv)

lemma run_climbs: "step\<^sup>*\<^sup>* s t \<Longrightarrow> inv s \<Longrightarrow> climbs s t"
proof (induction rule: rtranclp_induct)
  case base
  show ?case by (rule climbs_refl)
next
  case (step t u)
  then show ?case using step_climbs run_inv climbs_trans by blast
qed

end

section \<open>The abstract machine\<close>

datatype stage = LQueued int | LRunning int "string option" | LDone string int

inductive spec_step :: "stage \<Rightarrow> stage \<Rightarrow> bool" where
  stay: "spec_step l l"
| start: "spec_step (LQueued n) (LRunning n None)"
| drop: "st \<in> set FINISHED_STATUSES \<Longrightarrow> spec_step (LQueued n) (LDone st n)"
| ask_cancel: "spec_step (LRunning n i) (LRunning n (Some ''cancel''))"
| ask_preempt: "i \<noteq> Some ''cancel'' \<Longrightarrow> spec_step (LRunning n i) (LRunning n (Some ''preempt''))"
| again: "i \<noteq> Some ''cancel'' \<Longrightarrow> spec_step (LRunning n i) (LQueued (n + 1))"
| finish: "st \<in> set FINISHED_STATUSES \<Longrightarrow> spec_step (LRunning n i) (LDone st n)"

inductive_cases spec_step_done: "spec_step (LDone st n) l"
inductive_cases spec_step_running: "spec_step (LRunning n i) l"
inductive_simps spec_step_queued: "spec_step (LQueued n) l"

fun stage_attempt :: "stage \<Rightarrow> int" where
  "stage_attempt (LQueued n) = n"
| "stage_attempt (LRunning n i) = n"
| "stage_attempt (LDone st n) = n"

text \<open>Over whatever is asked of it: done, or running and being cancelled.\<close>

fun doomed :: "stage \<Rightarrow> bool" where
  "doomed (LDone st n) = True"
| "doomed (LRunning n i) = (i = Some ''cancel'')"
| "doomed (LQueued n) = False"

definition stage_climbs :: "stage \<Rightarrow> stage \<Rightarrow> bool" where
  "stage_climbs l l' \<longleftrightarrow> stage_attempt l \<le> stage_attempt l' \<and> (doomed l \<longrightarrow> doomed l' \<and> stage_attempt l' = stage_attempt l) \<and>
     (\<forall>st n. l = LDone st n \<longrightarrow> l' = l) \<and> (\<forall>n i. l = LRunning n i \<longrightarrow> l' \<noteq> LQueued n)"

lemma spec_step_climbs: "spec_step l l' \<Longrightarrow> stage_climbs l l'"
  by (induction rule: spec_step.induct) (auto simp: stage_climbs_def)

interpretation machine: guarded_runs spec_step "\<lambda>l. True" stage_climbs
proof
  show "stage_climbs l l'" if "spec_step l l'" for l l' by (rule spec_step_climbs [OF that])
  show "stage_climbs l l" for l by (simp add: stage_climbs_def)
  show "stage_climbs l m" if "stage_climbs l k" "stage_climbs k m" for l k m
    using that by (cases k) (fastforce simp: stage_climbs_def)+
qed simp

definition stage_of :: "jobstate \<Rightarrow> stage" where
  "stage_of s =
     (if st_status s = ''queued'' then LQueued (st_attempt s)
      else if st_status s = ''running'' then LRunning (st_attempt s) (st_intent s)
      else LDone (st_status s) (st_attempt s))"

section \<open>What every state of a job satisfies\<close>

definition state_ok :: "jobstate \<Rightarrow> bool" where
  "state_ok s \<longleftrightarrow>
     (st_status s = ''queued'' \<or> st_status s = ''running'' \<or> finished s) \<and>
     (st_intent s \<noteq> None \<longrightarrow> st_status s = ''running'') \<and>
     st_intent s \<in> {None, Some CANCEL, Some PREEMPT} \<and>
     1 \<le> st_attempt s \<and> 0 \<le> st_restarts s \<and> st_restarts s \<le> MAX_RESTARTS \<and>
     (st_status s \<noteq> ''running'' \<longrightarrow> st_phase s = None \<and> st_pgid s = None \<and> st_cgroup_unit s = None \<and> st_eta s = None) \<and>
     (st_status s = ''queued'' \<longrightarrow> st_gpus s = [] \<and> st_reason s = None \<and> st_ended_at s = None) \<and>
     (finished s \<longrightarrow> st_ended_at s \<noteq> None)"

text \<open>What one operation may do to a state: one step of the machine, and what never goes back.\<close>

definition moves :: "jobstate \<Rightarrow> jobstate \<Rightarrow> bool" where
  "moves s s' \<longleftrightarrow> state_ok s' \<and> spec_step (stage_of s) (stage_of s') \<and> (st_ran s \<longrightarrow> st_ran s') \<and>
     st_restarts s \<le> st_restarts s' \<and>
     (finished s \<longrightarrow> st_reason s' = st_reason s \<and> st_exit_code s' = st_exit_code s \<and> st_ended_at s' = st_ended_at s)"

lemma state_ok_initial: "state_ok (initial spec)"
  by (simp add: state_ok_def initial_def blank_state_def finished_def MAX_RESTARTS_def)

lemma moves_claim:
  assumes "state_ok s" and "st_status s = ''queued''"
  shows "moves s (claimed_state (Some spec) (claim_fields r) s)"
  using assms
  by (auto simp: moves_def state_ok_def claimed_state_def claim_fields_def Let_def finished_def
      stage_of_def spec_step_queued)

lemma moves_cancel:
  assumes "state_ok s" and "\<not> finished s"
  shows "moves s (cancelled_state now s)"
proof (cases "st_status s = ''queued''")
  case True
  then show ?thesis using assms
    by (simp add: moves_def state_ok_def cancelled_state_def finished_def stage_of_def spec_step.drop)
next
  case False
  then have "st_status s = ''running''" using assms by (simp add: state_ok_def)
  then show ?thesis using assms
    by (simp add: moves_def state_ok_def cancelled_state_def finished_def stage_of_def spec_step.ask_cancel)
qed

lemma moves_preempt:
  assumes "state_ok s" and "st_status s = ''running''" and "st_intent s \<noteq> Some CANCEL"
  shows "moves s (s\<lparr>st_intent := Some PREEMPT, st_priority := p\<rparr>)"
  using assms by (simp add: moves_def state_ok_def finished_def stage_of_def spec_step.ask_preempt)

lemma moves_again:
  assumes "state_ok s" and "st_status s = ''running''" and "st_intent s \<noteq> Some CANCEL"
    and "st_ran s \<longrightarrow> did_run" and "\<forall>n. restarts = Some n \<longrightarrow> st_restarts s \<le> n \<and> n \<le> MAX_RESTARTS"
  shows "moves s (queued_again s did_run restarts)"
  using assms
  by (cases restarts)
    (simp_all add: moves_def state_ok_def queued_again_def blank_state_def finished_def stage_of_def
      spec_step.again)

text \<open>What \<open>finished_state\<close> leaves in the fields the invariant speaks of.\<close>

lemma finished_state_fields:
  fixes oc :: outcome and forget :: bool and now :: string and s :: jobstate
    and extra :: "jobstate \<Rightarrow> jobstate" and ps :: "string list"
  assumes "extra = id \<or> extra = (\<lambda>s. s\<lparr>st_problems := ps\<rparr>)"
  defines "t \<equiv> finished_state oc forget now extra s"
  shows "st_status t = oc_status oc" "st_intent t = None" "st_attempt t = st_attempt s"
    "st_restarts t = st_restarts s" "st_phase t = None" "st_pgid t = None" "st_cgroup_unit t = None"
    "st_eta t = None" "st_ended_at t = Some now" "st_ran t = (st_ran s \<or> oc_ran oc)"
    "st_reason t = oc_reason oc"
  using assms(1) unfolding t_def
  by (auto simp: finished_state_def forget_output_uploads_def Let_def)

lemma moves_finish:
  assumes "state_ok s" and "\<not> finished s" and "oc_status oc \<in> set FINISHED_STATUSES"
    and "extra = id \<or> extra = (\<lambda>s. s\<lparr>st_problems := ps\<rparr>)"
  shows "moves s (finished_state oc forget now extra s)"
proof -
  let ?t = "finished_state oc forget now extra s"
  note f = finished_state_fields [OF assms(4), of oc forget now s]
  have fin: "finished ?t" using assms(3) f(1) by (simp add: finished_def)
  then have stat: "st_status ?t \<noteq> ''queued''" "st_status ?t \<noteq> ''running''" by (auto simp: finished_def)
  have "state_ok ?t" using assms(1) f fin stat by (simp add: state_ok_def)
  moreover have "spec_step (stage_of s) (stage_of ?t)"
    using assms(1-3) f(1,3) stat
    by (cases "st_status s = ''queued''")
      (simp_all add: stage_of_def state_ok_def spec_step.drop spec_step.finish del: job_constants)
  ultimately show ?thesis using assms(2) f by (simp add: moves_def)
qed

text \<open>
  The writes that describe a job rather than move it (progress, samples, uploads, sizes,
  the settings of \<open>gpuc set\<close>): they leave the status, the intent, the attempt and the
  restarts alone, and what only a running job has they change on a running job only.
\<close>

definition describes :: "jobstate \<Rightarrow> jobstate \<Rightarrow> bool" where
  "describes s s' \<longleftrightarrow> st_status s' = st_status s \<and> st_intent s' = st_intent s \<and>
     st_attempt s' = st_attempt s \<and> st_restarts s' = st_restarts s \<and> (st_ran s \<longrightarrow> st_ran s') \<and>
     st_reason s' = st_reason s \<and> st_ended_at s' = st_ended_at s \<and> st_exit_code s' = st_exit_code s \<and>
     st_gpus s' = st_gpus s \<and>
     (st_status s \<noteq> ''running'' \<longrightarrow> st_phase s' = st_phase s \<and> st_pgid s' = st_pgid s \<and>
        st_cgroup_unit s' = st_cgroup_unit s \<and> st_eta s' = st_eta s)"

lemma moves_describes:
  assumes ok: "state_ok s" and d: "describes s s'"
  shows "moves s s'"
proof -
  have same: "st_status s' = st_status s" "st_intent s' = st_intent s" "st_attempt s' = st_attempt s"
    "st_restarts s' = st_restarts s" "st_ran s \<longrightarrow> st_ran s'" "st_reason s' = st_reason s"
    "st_ended_at s' = st_ended_at s" "st_exit_code s' = st_exit_code s" "st_gpus s' = st_gpus s"
    using d by (simp_all add: describes_def)
  have fin: "finished s' = finished s" by (simp add: finished_def same)
  have "state_ok s'"
  proof (cases "st_status s = ''running''")
    case True
    then show ?thesis using ok by (simp add: state_ok_def same fin)
  next
    case False
    then have "st_phase s' = st_phase s" "st_pgid s' = st_pgid s" "st_cgroup_unit s' = st_cgroup_unit s"
      "st_eta s' = st_eta s" using d by (simp_all add: describes_def)
    then have "state_ok s' = state_ok s" by (simp only: state_ok_def same fin)
    then show ?thesis using ok by simp
  qed
  moreover have "stage_of s' = stage_of s" by (simp add: stage_of_def same)
  ultimately show ?thesis by (simp add: moves_def same spec_step.stay)
qed

text \<open>A move that starts nothing: a running job was running before, on the same cards.\<close>

definition calm :: "jobstate \<Rightarrow> jobstate \<Rightarrow> bool" where
  "calm s s' \<longleftrightarrow> moves s s' \<and> (st_status s' = ''running'' \<longrightarrow> st_status s = ''running'' \<and> st_gpus s' = st_gpus s)"

lemma calm_cancel: "state_ok s \<Longrightarrow> \<not> finished s \<Longrightarrow> calm s (cancelled_state now s)"
  using moves_cancel by (simp add: calm_def cancelled_state_def)

lemma calm_preempt:
  "state_ok s \<Longrightarrow> st_status s = ''running'' \<Longrightarrow> st_intent s \<noteq> Some CANCEL \<Longrightarrow>
   calm s (s\<lparr>st_intent := Some PREEMPT, st_priority := p\<rparr>)"
  using moves_preempt by (simp add: calm_def)

lemma calm_again:
  assumes "state_ok s" and "st_status s = ''running''" and "st_intent s \<noteq> Some CANCEL"
    and "st_ran s \<longrightarrow> did_run" and "\<forall>n. restarts = Some n \<longrightarrow> st_restarts s \<le> n \<and> n \<le> MAX_RESTARTS"
  shows "calm s (queued_again s did_run restarts)"
  using moves_again [OF assms] by (simp add: calm_def queued_again_def)

lemma calm_finish:
  assumes "state_ok s" and "\<not> finished s" and "oc_status oc \<in> set FINISHED_STATUSES"
    and "extra = id \<or> extra = (\<lambda>s. s\<lparr>st_problems := ps\<rparr>)"
  shows "calm s (finished_state oc forget now extra s)"
proof -
  have "st_status (finished_state oc forget now extra s) \<noteq> ''running''"
    using finished_state_fields(1) [OF assms(4), of oc forget now s] assms(3) by auto
  then show ?thesis using moves_finish [OF assms] by (simp add: calm_def)
qed

lemma calm_describes: "state_ok s \<Longrightarrow> describes s s' \<Longrightarrow> calm s s'"
  using moves_describes by (simp add: calm_def describes_def)

lemma initial_queued: "st_status (initial spec) = ''queued''"
  by (simp add: initial_def blank_state_def)

section \<open>The operations on a host\<close>

inductive calm_op :: "host \<Rightarrow> host \<Rightarrow> bool" where
  accepted: "calm_op h (snd (enqueue gz spec h))"
| cancelled: "calm_op h (snd (cancel j now h))"
| preempted: "calm_op h (snd (preempt j priority h))"
| returned: "calm_op h (snd (next_attempt j did_run h))"
| restarted: "calm_op h (snd (requeue_after_restart k j now h))"
| ended: "oc_status oc \<in> set FINISHED_STATUSES \<Longrightarrow> expect = ''running'' \<or> expect = ''queued'' \<Longrightarrow>
    calm_op h (snd (Host.finish j oc expect forget now (\<lambda>s. s\<lparr>st_problems := ps\<rparr>) h))"
| described: "\<forall>s. describes s (f s) \<Longrightarrow> calm_op h (snd (update_state j f h))"
| swept: "calm_op h (snd (clean fromiso now allf older dry moment only ev h))"
| purged: "calm_op h (snd (purge_job_dirs fromiso rb days dry moment only ev h))"

text \<open>The one operation that starts a job is a runner's claim.\<close>

inductive life :: "host \<Rightarrow> host \<Rightarrow> bool" where
  quiet: "calm_op h h' \<Longrightarrow> life h h'"
| claimed: "life h (snd (runner_claim j attempt spec r h))"

text \<open>
  What an operation does to the states: a readable one is kept, moved or gone with its job
  dir; one that was not readable is new, or still unreadable.
\<close>

definition host_ok :: "host \<Rightarrow> bool" where
  "host_ok h \<longleftrightarrow> (\<forall>j s. read_state j h = Inr s \<longrightarrow> state_ok s)"

definition host_rel :: "(jobstate \<Rightarrow> jobstate \<Rightarrow> bool) \<Rightarrow> host \<Rightarrow> host \<Rightarrow> bool" where
  "host_rel R h h' \<longleftrightarrow> (\<forall>j. case read_state j h of
       Inr s \<Rightarrow> \<not> has_job j h' \<or> (\<exists>s'. read_state j h' = Inr s' \<and> (s' = s \<or> R s s'))
     | Inl e \<Rightarrow> (\<forall>s'. read_state j h' = Inr s' \<longrightarrow> \<not> has_job j h \<and> state_ok s' \<and> st_status s' = ''queued''))"

abbreviation host_moves :: "host \<Rightarrow> host \<Rightarrow> bool" where
  "host_moves \<equiv> host_rel moves"

lemma host_rel_mono: "host_rel R h h' \<Longrightarrow> (\<And>s s'. R s s' \<Longrightarrow> S s s') \<Longrightarrow> host_rel S h h'"
  unfolding host_rel_def by (fastforce split: sum.splits)

lemma host_rel_same:
  assumes "\<And>k. read_state k h' = read_state k h"
  shows "host_rel R h h'"
  using assms by (simp add: host_rel_def split: sum.split)

lemma host_rel_refl [simp]: "host_rel R h h"
  by (rule host_rel_same) simp

lemma host_rel_then_same:
  assumes "host_rel R h h'" and "\<And>k. read_state k h'' = read_state k h'" and "\<And>k. has_job k h'' = has_job k h'"
  shows "host_rel R h h''"
  using assms(1) unfolding host_rel_def assms(2,3) .

lemma host_rel_write:
  assumes "has_job j h" and "read_state j h = Inr s" and "R s s'"
  shows "host_rel R h (write_state j s' h)"
  using assms by (auto simp: host_rel_def states.rd_wr split: sum.split)

lemma host_rel_with_state:
  assumes "host_ok h"
    and "\<And>s r s'. state_ok s \<Longrightarrow> body s = (r, Some s') \<Longrightarrow> R s s'"
  shows "host_rel R h (snd (with_state j body h))"
proof (cases "with_state j body h")
  case (Pair r h')
  then show ?thesis
  proof (cases rule: with_state_cases)
    case (wrote s s')
    then have "state_ok s" using assms(1) by (simp add: host_ok_def)
    from host_rel_write [where R = R, OF wrote(1,2) assms(2) [OF this wrote(3)]] wrote(4) Pair show ?thesis by simp
  qed (use Pair in simp_all)
qed

lemma calm_moves: "host_rel calm h h' \<Longrightarrow> host_moves h h'"
  by (erule host_rel_mono) (simp add: calm_def)

lemma settle_secrets_states:
  "read_state k (snd (settle_secrets j s h)) = read_state k h"
  "has_job k (snd (settle_secrets j s h)) = has_job k h"
  by (auto simp: settle_secrets_def remove_secrets_def read_state_def has_job_def job_of_def
      split: sum.splits bool.splits option.splits)

section \<open>Every operation moves every job by one step\<close>

lemma enqueue_calm: "host_rel calm h (snd (enqueue gz spec h))"
proof (cases "has_job (sp_job_id spec) h")
  case True
  then show ?thesis by (simp add: enqueue_def Let_def)
next
  case False
  let ?h' = "snd (enqueue gz spec h)"
  have other: "read_state k ?h' = read_state k h" if "k \<noteq> sp_job_id spec" for k
    using False that
    by (simp add: enqueue_def Let_def read_state_def job_of_def map_add_def split: option.splits)
  have new: "read_state (sp_job_id spec) ?h' = Inr (initial spec)"
    using False
    by (simp add: enqueue_def Let_def read_state_def job_of_def has_job_def map_add_def split: option.splits)
  have old: "\<exists>e. read_state (sp_job_id spec) h = Inl e"
    using False by (simp add: read_state_def has_job_def)
  show ?thesis
    unfolding host_rel_def
  proof
    fix k
    show "case read_state k h of
        Inr s \<Rightarrow> \<not> has_job k ?h' \<or> (\<exists>s'. read_state k ?h' = Inr s' \<and> (s' = s \<or> calm s s'))
      | Inl e \<Rightarrow> \<forall>s'. read_state k ?h' = Inr s' \<longrightarrow> \<not> has_job k h \<and> state_ok s' \<and> st_status s' = ''queued''"
      using False other [of k] new old state_ok_initial initial_queued
      by (cases "k = sp_job_id spec") (auto split: sum.split)
  qed
qed

lemma runner_claim_moves:
  assumes "host_ok h"
  shows "host_moves h (snd (runner_claim j attempt spec r h))"
  unfolding runner_claim_def claim_def
  by (rule host_rel_with_state [OF assms]) (auto intro: moves_claim split: if_splits)

lemma snd_relabel:
  "snd (case p of (Inl e, h2) \<Rightarrow> (Inl e, h2) | (Inr _, h2) \<Rightarrow> (Inr c, h2)) = snd p"
  by (simp add: case_prod_unfold split: sum.split)

lemma cancel_calm:
  assumes "host_ok h"
  shows "host_rel calm h (snd (cancel j now h))"
proof -
  let ?body = "\<lambda>s. if finished s then (Inr (Inl (st_status s)) :: (string + jobstate) res, None)
             else (Inr (Inr (cancelled_state now s)), Some (cancelled_state now s))"
  have m: "host_rel calm h (snd (with_state j ?body h))"
    by (rule host_rel_with_state [OF assms]) (auto intro: calm_cancel split: if_splits)
  obtain x h1 where x: "with_state j ?body h = (x, h1)" by fastforce
  have "snd (cancel j now h) = h1 \<or> (\<exists>s. snd (cancel j now h) = snd (settle_secrets j s h1))"
    using x by (auto simp: cancel_def snd_relabel split: sum.split)
  then show ?thesis using m x settle_secrets_states host_rel_then_same [of calm h h1] by auto
qed

lemma preempt_refusal_None:
  assumes "preempt_refusal j priority s h = None"
  shows "\<not> finished s \<and> st_status s = ''running'' \<and> st_intent s \<noteq> Some CANCEL \<and> wants_cards j h = Inr True \<and>
    refuse_if_nothing_else_can_run j (case priority of Some p \<Rightarrow> p | None \<Rightarrow> st_priority s) h = None"
  using assms by (simp add: preempt_refusal_def split: if_splits sum.splits bool.splits)

lemma preempt_cases:
  assumes "preempt j priority h = (r, h')"
  obtains (refused) e where "r = Inl e" "h' = h"
    | (accepted) s where "r = Inr ''preempting''" "has_job j h" "read_state j h = Inr s"
        "\<forall>p. priority = Some p \<longrightarrow> 0 \<le> p \<and> p \<le> 99" "preempt_refusal j priority s h = None"
        "h' = write_state j (s\<lparr>st_intent := Some PREEMPT,
           st_priority := (case priority of Some p \<Rightarrow> p | None \<Rightarrow> st_priority s)\<rparr>) h"
proof (cases r)
  case (Inl e)
  have "h' = h" using assms Inl by (auto simp: preempt_def split: if_splits sum.splits option.splits)
  with Inl show ?thesis by (rule refused)
next
  case (Inr x)
  from assms Inr have job: "has_job j h" and pr: "\<forall>p. priority = Some p \<longrightarrow> 0 \<le> p \<and> p \<le> 99"
    by (auto simp: preempt_def split: if_splits)
  from assms Inr job obtain s where s: "read_state j h = Inr s" "preempt_refusal j priority s h = None"
    by (auto simp: preempt_def split: if_splits sum.splits option.splits)
  from pr have "\<not> (case priority of Some p \<Rightarrow> \<not> (0 \<le> p \<and> p \<le> 99) | None \<Rightarrow> False)" by (cases priority) simp_all
  then have "r = Inr ''preempting''" "h' = write_state j (s\<lparr>st_intent := Some PREEMPT,
           st_priority := (case priority of Some p \<Rightarrow> p | None \<Rightarrow> st_priority s)\<rparr>) h"
    using assms job s by (simp_all add: preempt_def)
  then show ?thesis using accepted job s pr by blast
qed

lemma preempt_calm:
  assumes "host_ok h"
  shows "host_rel calm h (snd (preempt j priority h))"
proof (cases "preempt j priority h")
  case (Pair r h')
  then show ?thesis
  proof (cases rule: preempt_cases)
    case (accepted s)
    note p = preempt_refusal_None [OF accepted(5)]
    have "state_ok s" using assms accepted(3) by (simp add: host_ok_def)
    with p have "calm s (s\<lparr>st_intent := Some PREEMPT,
        st_priority := (case priority of Some p \<Rightarrow> p | None \<Rightarrow> st_priority s)\<rparr>)"
      by (intro calm_preempt) simp_all
    from host_rel_write [where R = calm, OF accepted(2,3) this] show ?thesis using Pair accepted(6) by simp
  qed (use Pair in simp)
qed

lemma next_attempt_calm:
  assumes "host_ok h"
  shows "host_rel calm h (snd (next_attempt j did_run h))"
proof -
  let ?body = "\<lambda>s. if st_status s \<noteq> ''running'' \<or> st_intent s \<noteq> Some PREEMPT
      then (Inr None :: (int \<times> int) option res, None)
      else (Inr (Some (st_attempt s + 1, st_priority s)), Some (queued_again s (st_ran s \<or> did_run) None))"
  have m: "host_rel calm h (snd (with_state j ?body h))"
    by (rule host_rel_with_state [OF assms]) (auto intro!: calm_again split: if_splits)
  obtain x h1 where x: "with_state j ?body h = (x, h1)" by fastforce
  have "snd (next_attempt j did_run h) = h1 \<or> (\<exists>m. snd (next_attempt j did_run h) = note_log j m h1)"
    using x by (auto simp: next_attempt_def split: sum.split option.split)
  then show ?thesis using m x host_rel_then_same [of calm h h1] by auto
qed

lemma restart_body_calm:
  assumes ok: "state_ok s" and "restart_body k s = (r, Some s')"
  shows "calm s s'"
proof -
  have run: "st_status s = ''running''" and intent: "st_intent s \<noteq> Some CANCEL"
    and s': "s' = queued_again s (st_ran s) None \<or>
      st_restarts s < MAX_RESTARTS \<and> s' = queued_again s (st_ran s) (Some (st_restarts s + 1))"
    using assms(2) by (auto simp: restart_body_def Let_def split: if_splits)
  from s' show ?thesis
    using calm_again [OF ok run intent, of "st_ran s"] by auto
qed

lemma finish_calm:
  assumes "host_ok h" and "oc_status oc \<in> set FINISHED_STATUSES" and "expect = ''running'' \<or> expect = ''queued''"
    and "extra = id \<or> extra = (\<lambda>s. s\<lparr>st_problems := ps\<rparr>)"
  shows "host_rel calm h (snd (Host.finish j oc expect forget now extra h))"
  unfolding Host.finish_def
proof (rule host_rel_with_state [OF assms(1)])
  fix s r s'
  assume ok: "state_ok s" and "(if st_status s \<noteq> expect then (Inr None, None)
      else let s' = finished_state oc forget now extra s in (Inr (Some s'), Some s')) = (r :: jobstate option res, Some s')"
  then have "st_status s = expect" and s': "s' = finished_state oc forget now extra s"
    by (auto simp: Let_def split: if_splits)
  then have "\<not> finished s" using assms(3) by (auto simp: finished_def)
  then show "calm s s'" unfolding s' by (rule calm_finish [OF ok _ assms(2,4)])
qed

lemma requeue_calm:
  assumes "host_ok h"
  shows "host_rel calm h (snd (requeue_after_restart k j now h))"
proof -
  have m: "host_rel calm h (snd (with_state j (restart_body k) h))"
    by (rule host_rel_with_state [OF assms restart_body_calm])
  obtain x h1 where x: "with_state j (restart_body k) h = (x, h1)" by fastforce
  show ?thesis
  proof (cases "\<exists>s. x = Inr (Some (s, None))")
    case True
    then obtain s where s: "x = Inr (Some (s, None))" by blast
    from x have "h1 = h"
      by (cases rule: with_state_cases) (auto simp: s restart_body_def Let_def split: if_splits)
    then have "requeue_after_restart k j now h = Host.finish j (restart_outcome s) ''running'' True now id h"
      using x s by (simp add: requeue_after_restart_def)
    moreover have "oc_status (restart_outcome s) \<in> set FINISHED_STATUSES" by (simp add: restart_outcome_def)
    ultimately show ?thesis using finish_calm [OF assms, of "restart_outcome s" "''running''" id] by simp
  next
    case False
    then have "snd (requeue_after_restart k j now h) = h1 \<or> (\<exists>m. snd (requeue_after_restart k j now h) = note_log j m h1)"
      using x by (auto simp: requeue_after_restart_def split: sum.split option.split)
    then show ?thesis using m x host_rel_then_same [of calm h h1] by auto
  qed
qed

lemma update_state_calm:
  assumes "host_ok h" and "\<forall>s. describes s (f s)"
  shows "host_rel calm h (snd (update_state j f h))"
  unfolding update_state_def
  by (rule host_rel_with_state [OF assms(1)]) (use assms(2) calm_describes in auto)

lemma core_state_describes: "core_state s' = core_state s \<Longrightarrow> describes s s'"
  by (cases s, cases s') (simp add: core_state_def describes_def)

lemma clean_calm:
  assumes "host_ok h"
  shows "host_rel calm h (snd (clean fromiso now allf older dry moment only ev h))"
proof -
  obtain r h' where c: "clean fromiso now allf older dry moment only ev h = (r, h')" by fastforce
  from clean_swept [OF c] have rel: "rel_option same_record (job_of k h) (job_of k h')" for k by blast
  have "case read_state k h of
        Inr s \<Rightarrow> \<not> has_job k h' \<or> (\<exists>s'. read_state k h' = Inr s' \<and> (s' = s \<or> calm s s'))
      | Inl e \<Rightarrow> \<forall>s'. read_state k h' = Inr s' \<longrightarrow> \<not> has_job k h \<and> state_ok s' \<and> st_status s' = ''queued''" for k
  proof (cases "job_of k h")
    case None
    then show ?thesis using rel [of k] by (simp add: read_state_def)
  next
    case (Some d)
    then obtain d' where d': "job_of k h' = Some d'" "same_record d d'"
      using rel [of k] by (auto simp: option_rel_Some1)
    show ?thesis
    proof (cases "jd_state d")
      case (Inl e)
      then show ?thesis using Some d' by (cases "jd_state d'") (simp_all add: read_state_def same_record_def)
    next
      case (Inr s)
      then obtain s' where s': "jd_state d' = Inr s'" "core_state s' = core_state s"
        using d'(2) by (cases "jd_state d'") (simp_all add: same_record_def)
      have "read_state k h = Inr s" using Some Inr by (simp add: read_state_def)
      then have "state_ok s" using assms by (simp add: host_ok_def)
      from calm_describes [OF this core_state_describes [OF s'(2)]]
      show ?thesis using Some Inr d'(1) s'(1) by (simp add: read_state_def)
    qed
  qed
  then show ?thesis using c by (simp add: host_rel_def)
qed

lemma purge_calm: "host_rel calm h (snd (purge_job_dirs fromiso rb older dry moment only ev h))"
proof -
  obtain r h' where c: "purge_job_dirs fromiso rb older dry moment only ev h = (r, h')" by fastforce
  from purge_swept [OF c] have gone: "job_of k h' = None \<or> job_of k h' = job_of k h" for k by metis
  have "case read_state k h of
        Inr s \<Rightarrow> \<not> has_job k h' \<or> (\<exists>s'. read_state k h' = Inr s' \<and> (s' = s \<or> calm s s'))
      | Inl e \<Rightarrow> \<forall>s'. read_state k h' = Inr s' \<longrightarrow> \<not> has_job k h \<and> state_ok s' \<and> st_status s' = ''queued''" for k
    using gone [of k] by (auto simp: read_state_def has_job_def split: sum.split)
  then show ?thesis using c by (simp add: host_rel_def)
qed

lemma calm_op_calm:
  assumes "calm_op h h'" and "host_ok h"
  shows "host_rel calm h h'"
  using assms
proof cases
  case (ended oc expect j forget now ps)
  then show ?thesis using finish_calm [OF assms(2) ended(2,3)] by blast
next
  case (described f j)
  then show ?thesis using update_state_calm [OF assms(2)] by blast
qed (simp_all add: assms(2) enqueue_calm cancel_calm preempt_calm next_attempt_calm requeue_calm clean_calm purge_calm)

lemma life_moves:
  assumes "life h h'" and "host_ok h"
  shows "host_moves h h'"
  using assms by cases (simp_all add: calm_moves calm_op_calm runner_claim_moves)

lemma host_movesD:
  assumes "host_moves h h'"
  shows "read_state j h = Inr s \<Longrightarrow> has_job j h' \<Longrightarrow> \<exists>s'. read_state j h' = Inr s' \<and> (s' = s \<or> moves s s')"
    and "read_state j h = Inl e \<Longrightarrow> read_state j h' = Inr s' \<Longrightarrow> \<not> has_job j h \<and> state_ok s'"
proof -
  have m: "case read_state j h of
       Inr s \<Rightarrow> \<not> has_job j h' \<or> (\<exists>s'. read_state j h' = Inr s' \<and> (s' = s \<or> moves s s'))
     | Inl e \<Rightarrow> (\<forall>s'. read_state j h' = Inr s' \<longrightarrow> \<not> has_job j h \<and> state_ok s' \<and> st_status s' = ''queued'')"
    using assms unfolding host_rel_def by (rule spec)
  show "\<exists>s'. read_state j h' = Inr s' \<and> (s' = s \<or> moves s s')" if "read_state j h = Inr s" "has_job j h'"
    using m that by simp
  show "\<not> has_job j h \<and> state_ok s'" if "read_state j h = Inl e" "read_state j h' = Inr s'"
    using m that by simp
qed

lemma host_moves_ok:
  assumes ok: "host_ok h" and m: "host_moves h h'"
  shows "host_ok h'"
  unfolding host_ok_def
proof (intro allI impI)
  fix j s'
  assume r: "read_state j h' = Inr s'"
  show "state_ok s'"
  proof (cases "read_state j h")
    case (Inl e)
    then show ?thesis using host_movesD(2) [OF m Inl r] by simp
  next
    case (Inr s)
    from host_movesD(1) [OF m Inr readable_has_job [OF r]] r have "s' = s \<or> moves s s'" by simp
    moreover have "state_ok s" using ok Inr by (simp add: host_ok_def)
    ultimately show ?thesis by (auto simp: moves_def)
  qed
qed

section \<open>Runs\<close>

text \<open>The operations in which the job's dir is not purged, and what they climb for the job.\<close>

definition life_of :: "job_id \<Rightarrow> host \<Rightarrow> host \<Rightarrow> bool" where
  "life_of j h h' \<longleftrightarrow> life h h' \<and> (has_job j h \<longrightarrow> has_job j h')"

definition progress :: "jobstate \<Rightarrow> jobstate \<Rightarrow> bool" where
  "progress s s' \<longleftrightarrow> spec_step\<^sup>*\<^sup>* (stage_of s) (stage_of s') \<and> (st_ran s \<longrightarrow> st_ran s') \<and> st_restarts s \<le> st_restarts s' \<and>
     (finished s \<longrightarrow> st_reason s' = st_reason s \<and> st_exit_code s' = st_exit_code s \<and> st_ended_at s' = st_ended_at s)"

definition climbs_of :: "job_id \<Rightarrow> host \<Rightarrow> host \<Rightarrow> bool" where
  "climbs_of j h h' \<longleftrightarrow> (\<forall>s. read_state j h = Inr s \<longrightarrow> (\<exists>s'. read_state j h' = Inr s' \<and> progress s s'))"

lemma finished_stage: "finished s \<Longrightarrow> stage_of s = LDone (st_status s) (st_attempt s)"
  by (auto simp: finished_def stage_of_def)

lemma stage_climbs_run: "spec_step\<^sup>*\<^sup>* l l' \<Longrightarrow> stage_climbs l l'"
  by (rule machine.run_climbs) simp_all

lemma stage_status: "stage_of s' = LDone st n \<Longrightarrow> st_status s' = st"
  by (auto simp: stage_of_def split: if_splits)

lemma progress_finished:
  assumes "progress s s'" and "finished s"
  shows "finished s' \<and> st_status s' = st_status s \<and> st_attempt s' = st_attempt s"
proof -
  have "stage_of s' = stage_of s"
    using stage_climbs_run assms finished_stage by (auto simp: progress_def stage_climbs_def)
  then have "stage_of s' = LDone (st_status s) (st_attempt s)" using finished_stage [OF assms(2)] by simp
  then have "st_status s' = st_status s" "st_attempt s' = st_attempt s"
    by (auto simp: stage_of_def split: if_splits)
  then show ?thesis using assms(2) by (simp add: finished_def)
qed

lemma progress_trans:
  assumes "progress s t" and "progress t u"
  shows "progress s u"
proof -
  have "spec_step\<^sup>*\<^sup>* (stage_of s) (stage_of u)"
    using assms by (auto simp: progress_def intro: rtranclp_trans)
  then show ?thesis using assms progress_finished [OF assms(1)] by (auto simp: progress_def)
qed

interpretation runs: guarded_runs "life_of j" host_ok "climbs_of j" for j
proof
  fix h h' h'' :: host
  show "host_ok h'" if "host_ok h" "life_of j h h'"
    using that host_moves_ok life_moves by (auto simp: life_of_def)
  show "climbs_of j h h'" if ok: "host_ok h" and l: "life_of j h h'"
    unfolding climbs_of_def
  proof (intro allI impI)
    fix s
    assume s: "read_state j h = Inr s"
    have "has_job j h'" using l readable_has_job [OF s] by (simp add: life_of_def)
    moreover have "host_moves h h'" using l ok life_moves by (simp add: life_of_def)
    ultimately obtain s' where s': "read_state j h' = Inr s'" "s' = s \<or> moves s s'"
      using host_movesD(1) s by blast
    then have "progress s s'" by (auto simp: progress_def moves_def)
    then show "\<exists>s'. read_state j h' = Inr s' \<and> progress s s'" using s' by blast
  qed
  show "climbs_of j h h" by (auto simp: climbs_of_def progress_def)
  show "climbs_of j h h''" if "climbs_of j h h'" "climbs_of j h' h''"
    using that progress_trans unfolding climbs_of_def by meson
qed

interpretation hosts: guarded_runs life host_ok "\<lambda>h h'. True"
  by unfold_locales (auto intro: host_moves_ok life_moves)

section \<open>Properties of a job's life\<close>

lemma cancel_answer:
  assumes ok: "host_ok h" and "cancel j now h = (Inr answer, h1)"
    and "answer = ''cancelled'' \<or> answer = ''cancelling''"
  shows "\<exists>s s1. read_state j h = Inr s \<and> read_state j h1 = Inr s1 \<and> st_attempt s1 = st_attempt s \<and> doomed (stage_of s1)"
proof -
  have job: "has_job j h" using assms(2) by (auto simp: cancel_def with_state_def split: if_splits)
  obtain s where s: "read_state j h = Inr s"
    using assms(2) job by (auto simp: cancel_def with_state_def split: sum.splits)
  show ?thesis
  proof (cases "finished s")
    case True
    then have "h1 = h" using assms(2) job s by (simp add: cancel_def with_state_def)
    moreover have "doomed (stage_of s)" by (simp add: finished_stage [OF True])
    ultimately show ?thesis using s by auto
  next
    case False
    let ?s1 = "cancelled_state now s"
    have st: "st_status s = ''queued'' \<or> st_status s = ''running''"
      using False ok s by (auto simp: host_ok_def state_ok_def)
    have doom: "doomed (stage_of ?s1)" "st_attempt ?s1 = st_attempt s"
      using st by (auto simp: cancelled_state_def stage_of_def CANCEL_def)
    have "h1 = snd (cancel j now h)" using assms(2) by simp
    also have "read_state j \<dots> = Inr ?s1"
      using job s False by (simp add: cancel_def with_state_def snd_relabel settle_secrets_states states.rd_own)
    finally show ?thesis using s doom by blast
  qed
qed

lemma host_ok_demo: "host_ok demo_host"
  by (auto simp: host_ok_def read_state_def job_of_def demo_host_def demo_job_def blank_state_def state_ok_def
      finished_def MAX_RESTARTS_def CANCEL_def PREEMPT_def split: if_splits option.splits)


definition bare_host :: host where
  "bare_host = demo_host\<lparr>h_jobs := []\<rparr>"

lemma life_two: "life h h1 \<Longrightarrow> life h1 h2 \<Longrightarrow> life\<^sup>*\<^sup>* h h2"
  by (meson converse_rtranclp_into_rtranclp rtranclp.rtrancl_refl)


text \<open>
  C4. Refinement: every operation of the code, on a host whose states are consistent, moves
  every job by one step of the abstract machine, or leaves its job dir gone (a purge).
\<close>

theorem operations_refine_machine:
  assumes "host_ok h" and "life h h'" and "read_state j h = Inr s" and "has_job j h'"
  shows "\<exists>s'. read_state j h' = Inr s' \<and> spec_step (stage_of s) (stage_of s')"
  using host_movesD(1) [OF life_moves [OF assms(2,1)] assms(3,4)] spec_step.stay by (auto simp: moves_def)

theorem operations_refine_machine_witness:
  "\<exists>s'. read_state ''b'' (snd (cancel ''b'' ''t'' demo_host)) = Inr s' \<and> spec_step (LRunning 1 None) (stage_of s')"
proof -
  let ?s = "blank_state\<lparr>st_status := ''running'', st_gpus := [''G0''], st_priority := 10\<rparr>"
  have s: "read_state ''b'' demo_host = Inr ?s"
    by (simp add: read_state_def job_of_def demo_host_def demo_job_def)
  have here: "has_job ''b'' (snd (cancel ''b'' ''t'' demo_host))"
    by (simp add: cancel_def with_state_def s finished_def cancelled_state_def blank_state_def)
      (simp add: has_job_def job_of_def demo_host_def)
  from operations_refine_machine [OF host_ok_demo life.quiet [OF calm_op.cancelled] s here] show ?thesis
    by (simp add: stage_of_def blank_state_def)
qed

text \<open>
  C6. A finished job stays as it finished: over any run of operations in which its dir is
  not purged, its state stays readable and keeps its status, reason, exit code, end time and
  attempt.
\<close>

theorem finished_is_final:
  assumes "host_ok h" and "(life_of j)\<^sup>*\<^sup>* h h'" and "read_state j h = Inr s" and "finished s"
  shows "\<exists>s'. read_state j h' = Inr s' \<and> st_status s' = st_status s \<and> st_reason s' = st_reason s \<and>
    st_exit_code s' = st_exit_code s \<and> st_ended_at s' = st_ended_at s \<and> st_attempt s' = st_attempt s"
proof -
  obtain s' where s': "read_state j h' = Inr s'" "progress s s'"
    using runs.run_climbs [OF assms(2,1)] assms(3) by (auto simp: climbs_of_def)
  with progress_finished [OF s'(2) assms(4)] assms(4) show ?thesis by (auto simp: progress_def)
qed

lemma life_of_step: "life h h' \<Longrightarrow> (has_job j h \<longrightarrow> has_job j h') \<Longrightarrow> (life_of j)\<^sup>*\<^sup>* h h'"
  by (auto simp: life_of_def)

theorem finished_is_final_witness:
  "\<exists>s'. read_state ''a'' (snd (enqueue (\<lambda>t. 0) (plain_spec ''e'' 1) demo_host)) = Inr s' \<and> st_status s' = ''succeeded''"
proof -
  let ?s = "blank_state\<lparr>st_status := ''succeeded'', st_ended_at := Some ''t''\<rparr>"
  let ?h = "snd (enqueue (\<lambda>t. 0) (plain_spec ''e'' 1) demo_host)"
  have s: "read_state ''a'' demo_host = Inr ?s"
    by (simp add: read_state_def job_of_def demo_host_def demo_job_def)
  have "has_job ''a'' ?h"
    by (simp add: enqueue_def Let_def has_job_def job_of_def demo_host_def plain_spec_def)
  then have run: "(life_of ''a'')\<^sup>*\<^sup>* demo_host ?h" by (intro life_of_step life.quiet [OF calm_op.accepted]) simp
  from finished_is_final [OF host_ok_demo run s] show ?thesis by (auto simp: finished_def)
qed

lemma finish_keeps [simp]: "has_job k (snd (Host.finish j oc expect forget now extra h)) = has_job k h"
  by (simp add: Host.finish_def)

lemma requeue_keeps: "has_job k h \<longrightarrow> has_job k (snd (requeue_after_restart kn j now h))"
proof -
  obtain x h1 where x: "with_state j (restart_body kn) h = (x, h1)" by fastforce
  have "has_job k h1 = has_job k h" using with_state_keeps(1) [of k j "restart_body kn" h] x by simp
  then show ?thesis using x
    by (auto simp: requeue_after_restart_def split: sum.split option.split prod.split)
qed

text \<open>
  C7. A cancel sticks: once \<open>cancel\<close> has answered \<open>cancelled\<close> or \<open>cancelling\<close>, then over any
  run of operations that does not purge the job, it is never queued again, and no attempt
  after the one that was cancelled ever runs.
\<close>

theorem cancel_sticks:
  assumes "host_ok h" and "cancel j now h = (Inr answer, h1)" and "answer = ''cancelled'' \<or> answer = ''cancelling''"
    and "(life_of j)\<^sup>*\<^sup>* h1 h'"
  shows "\<exists>s s'. read_state j h = Inr s \<and> read_state j h' = Inr s' \<and> st_attempt s' = st_attempt s \<and>
    (finished s' \<or> st_status s' = ''running'' \<and> st_intent s' = Some CANCEL)"
proof -
  have h1: "h1 = snd (cancel j now h)" using assms(2) by simp
  have ok1: "host_ok h1" unfolding h1 by (rule host_moves_ok [OF assms(1) calm_moves [OF cancel_calm [OF assms(1)]]])
  obtain s s1 where s: "read_state j h = Inr s" "read_state j h1 = Inr s1"
    "st_attempt s1 = st_attempt s" "doomed (stage_of s1)"
    using cancel_answer [OF assms(1-3)] by blast
  obtain s' where s': "read_state j h' = Inr s'" "progress s1 s'"
    using runs.run_climbs [OF assms(4) ok1] s(2) by (auto simp: climbs_of_def)
  then have d: "doomed (stage_of s')" "stage_attempt (stage_of s') = stage_attempt (stage_of s1)"
    using stage_climbs_run s(4) by (auto simp: progress_def stage_climbs_def)
  have att: "stage_attempt (stage_of t) = st_attempt t" for t by (simp add: stage_of_def)
  have "state_ok s'" using runs.run_inv [OF assms(4) ok1] s'(1) by (simp add: host_ok_def)
  then have "finished s' \<or> st_status s' = ''running'' \<and> st_intent s' = Some CANCEL"
    using d(1) by (auto simp: stage_of_def state_ok_def split: if_splits)
  then show ?thesis using s s' d(2) att by auto
qed

lemma cancel_demo: "cancel ''b'' ''t'' demo_host = (Inr ''cancelling'', snd (cancel ''b'' ''t'' demo_host))"
  by (simp add: cancel_def with_state_def read_state_def has_job_def job_of_def demo_host_def demo_job_def finished_def
      cancelled_state_def blank_state_def)

theorem cancel_sticks_witness:
  "\<exists>s'. read_state ''b'' (snd (requeue_after_restart demo_kernel ''b'' ''u'' (snd (cancel ''b'' ''t'' demo_host)))) = Inr s' \<and>
    st_attempt s' = 1 \<and> (finished s' \<or> st_status s' = ''running'' \<and> st_intent s' = Some CANCEL)"
proof -
  let ?h1 = "snd (cancel ''b'' ''t'' demo_host)"
  let ?h2 = "snd (requeue_after_restart demo_kernel ''b'' ''u'' ?h1)"
  have run: "(life_of ''b'')\<^sup>*\<^sup>* ?h1 ?h2" by (rule life_of_step [OF life.quiet [OF calm_op.restarted] requeue_keeps])
  have "read_state ''b'' demo_host = Inr (blank_state\<lparr>st_status := ''running'', st_gpus := [''G0''], st_priority := 10\<rparr>)"
    by (simp add: read_state_def job_of_def demo_host_def demo_job_def)
  with cancel_sticks [OF host_ok_demo cancel_demo _ run] show ?thesis by (auto simp: blank_state_def)
qed

text \<open>
  C8. One attempt, one runner: once a claim of an attempt has won, every later claim of the
  same attempt loses and changes nothing, whatever happened in between short of a purge.
\<close>

theorem attempt_claimed_once:
  assumes "host_ok h" and "runner_claim j n spec r h = (Inr True, h1)" and "(life_of j)\<^sup>*\<^sup>* h1 h'"
  shows "runner_claim j n spec' r' h' = (Inr False, h')"
proof -
  have h1: "h1 = snd (runner_claim j n spec r h)" using assms(2) by simp
  have ok1: "host_ok h1" unfolding h1 by (rule host_moves_ok [OF assms(1) runner_claim_moves [OF assms(1)]])
  from assms(2) have "claim j n (Some spec) (claim_fields r) h = (Inr True, h1)" by (simp add: runner_claim_def)
  then obtain s1 where s1: "read_state j h1 = Inr s1" "st_status s1 = ''running''" "st_attempt s1 = n"
  proof (cases rule: claim_cases)
    case (won s)
    show ?thesis
    proof (rule that)
      show "read_state j h1 = Inr (claimed_state (Some spec) (claim_fields r) s)"
        using won by (simp add: states.rd_own)
    qed (use won in \<open>simp_all add: claimed_state_def claim_fields_def Let_def\<close>)
  qed simp
  obtain s' where s': "read_state j h' = Inr s'" "progress s1 s'"
    using runs.run_climbs [OF assms(3) ok1] s1(1) by (auto simp: climbs_of_def)
  have "stage_of s1 = LRunning n (st_intent s1)" using s1 by (simp add: stage_of_def)
  moreover have "stage_climbs (stage_of s1) (stage_of s')" using s'(2) stage_climbs_run by (simp add: progress_def)
  ultimately have "stage_of s' \<noteq> LQueued n" by (simp add: stage_climbs_def)
  then have "\<not> (st_status s' = ''queued'' \<and> st_attempt s' = n)" by (auto simp: stage_of_def)
  then show ?thesis
    using readable_has_job [OF s'(1)] s'(1) by (auto simp: runner_claim_def claim_def with_state_def)
qed

definition demo_runner :: runner_id where
  "demo_runner =
     \<lparr>ri_gpus = [''G1''], ri_started_at = ''t'', ri_isolation = ''cgroup'', ri_pid = 7, ri_boot_id = Some ''boot'',
      ri_init_start = None, ri_starttime = Some ''9''\<rparr>"

lemma claim_demo:
  "runner_claim ''c'' 1 (plain_spec ''c'' 1) demo_runner demo_host =
     (Inr True, snd (runner_claim ''c'' 1 (plain_spec ''c'' 1) demo_runner demo_host))"
  by (simp add: runner_claim_def claim_def with_state_def read_state_def has_job_def job_of_def demo_host_def
      demo_job_def blank_state_def)

theorem attempt_claimed_once_witness:
  "fst (runner_claim ''c'' 1 (plain_spec ''c'' 1) demo_runner
     (snd (runner_claim ''c'' 1 (plain_spec ''c'' 1) demo_runner demo_host))) = Inr False"
  using attempt_claimed_once [OF host_ok_demo claim_demo rtranclp.rtrancl_refl] by simp

text \<open>
  The queue is what the states say: \<open>list_queued\<close> lists each job whose state reads and is
  \<open>queued\<close>, once, with its priority and attempt, and nothing else, in \<open>(priority, job_id)\<close>
  order.
\<close>

theorem list_queued_exact:
  assumes "list_queued h = Inr es" and "distinct (map fst (h_jobs h))"
  shows "sorted (map qe_key es) \<and> distinct (map qe_job_id es) \<and>
    (\<forall>e. e \<in> set es \<longleftrightarrow> (\<exists>s. read_state (qe_job_id e) h = Inr s \<and> st_status s = ''queued'' \<and>
      qe_priority e = st_priority s \<and> qe_attempt e = st_attempt s))"
  using list_queued_spec [OF assms(1)] assms(2) by blast

lemma list_queued_demo:
  "list_queued demo_host = Inr [\<lparr>qe_priority = 1, qe_job_id = ''d'', qe_attempt = 1\<rparr>,
     \<lparr>qe_priority = 5, qe_job_id = ''c'', qe_attempt = 1\<rparr>]"
  by (simp add: list_queued_def list_job_ids_def demo_host_def read_state_def job_of_def demo_job_def blank_state_def
      qe_key_def sort_key_def insort_key_def)

theorem list_queued_exact_witness:
  "sorted (map qe_key [\<lparr>qe_priority = 1, qe_job_id = ''d'', qe_attempt = 1\<rparr>,
     \<lparr>qe_priority = 5, qe_job_id = ''c'', qe_attempt = 1\<rparr>]) \<and> distinct [''d'', ''c'']"
  using list_queued_exact [OF list_queued_demo] by (simp add: demo_host_def)

lemma refuse_None:
  assumes "refuse_if_nothing_else_can_run j p h = None"
  shows "\<not> h_draining h \<and> (\<exists>es e. list_queued h = Inr es \<and> e \<in> set es \<and> qe_key e < (p, j) \<and>
    qe_job_id e \<noteq> j \<and> wants_cards (qe_job_id e) h = Inr True)"
proof -
  have "\<not> h_draining h" using assms by (auto simp: refuse_if_nothing_else_can_run_def)
  moreover obtain e where "queued_ahead_of j p h = Inr (Some e)"
    using assms by (auto simp: refuse_if_nothing_else_can_run_def split: if_splits sum.splits option.splits list.splits)
  then obtain es where "list_queued h = Inr es" "first_ahead (p, j) j es h = Inr (Some e)"
    by (auto simp: queued_ahead_of_def elim!: bind_res_Inr)
  ultimately show ?thesis using first_ahead_Some by blast
qed

text \<open>
  A preemption makes way for somebody: \<open>preempt\<close> either refuses and changes nothing, or
  the job was running, was not being cancelled, holds cards, the host is not draining, and
  a queued job that wants cards sorts before the place the preempted one will come back to;
  then only that job's intent and priority are written.
\<close>

theorem preempt_makes_way:
  assumes "preempt j priority h = (r, h')"
  shows "(\<exists>e. r = Inl e) \<and> h' = h \<or>
    r = Inr ''preempting'' \<and> (\<exists>s p. read_state j h = Inr s \<and> st_status s = ''running'' \<and> st_intent s \<noteq> Some CANCEL \<and>
      wants_cards j h = Inr True \<and> \<not> h_draining h \<and>
      p = (case priority of Some q \<Rightarrow> q | None \<Rightarrow> st_priority s) \<and>
      (\<exists>es e. list_queued h = Inr es \<and> e \<in> set es \<and> qe_key e < (p, j) \<and> wants_cards (qe_job_id e) h = Inr True) \<and>
      h' = write_state j (s\<lparr>st_intent := Some PREEMPT, st_priority := p\<rparr>) h)"
  using assms
proof (cases rule: preempt_cases)
  case (accepted s)
  let ?p = "case priority of Some q \<Rightarrow> q | None \<Rightarrow> st_priority s"
  note p = preempt_refusal_None [OF accepted(5)]
  then have r: "refuse_if_nothing_else_can_run j ?p h = None" by simp
  from refuse_None [OF r] obtain es e where e: "list_queued h = Inr es" "e \<in> set es" "qe_key e < (?p, j)"
    "wants_cards (qe_job_id e) h = Inr True" "\<not> h_draining h" by (elim conjE exE)
  show ?thesis
    by (intro disjI2 conjI exI [of _ s] exI [of _ ?p] exI [of _ es] exI [of _ e])
      (use p e accepted in simp_all)
qed simp

theorem preempt_makes_way_witness:
  "fst (preempt ''b'' None demo_host) = Inr ''preempting'' \<and> fst (preempt ''c'' None demo_host) \<noteq> Inr ''preempting''"
proof
  have sp: "read_spec ''c'' demo_host = Inr (plain_spec ''c'' 1)" "read_spec ''b'' demo_host = Inr (plain_spec ''b'' 1)"
    "read_spec ''d'' demo_host = Inr (plain_spec ''d'' 0)"
    by (simp_all add: read_spec_def job_of_def demo_host_def demo_job_def)
  have w: "wants_cards ''c'' demo_host = Inr True" "wants_cards ''b'' demo_host = Inr True"
    "wants_cards ''d'' demo_host = Inr False"
    by (simp_all add: wants_cards_def sp plain_spec_def)
  have q: "queued_ahead_of ''b'' 10 demo_host = Inr (Some \<lparr>qe_priority = 5, qe_job_id = ''c'', qe_attempt = 1\<rparr>)"
    by (simp add: queued_ahead_of_def list_queued_demo qe_key_def w)
  have b: "read_state ''b'' demo_host = Inr (blank_state\<lparr>st_status := ''running'', st_gpus := [''G0''], st_priority := 10\<rparr>)"
    by (simp add: read_state_def job_of_def demo_host_def demo_job_def)
  have draining: "\<not> h_draining demo_host" by (simp add: demo_host_def)
  show "fst (preempt ''b'' None demo_host) = Inr ''preempting''"
    using w q b by (simp add: preempt_def preempt_refusal_def refuse_if_nothing_else_can_run_def readable_has_job
        finished_def blank_state_def draining)
  have "read_state ''c'' demo_host = Inr (blank_state\<lparr>st_priority := 5, st_ran := False\<rparr>)"
    by (simp add: read_state_def job_of_def demo_host_def demo_job_def)
  then show "fst (preempt ''c'' None demo_host) \<noteq> Inr ''preempting''"
    using preempt_makes_way [of "''c''" None demo_host] by (cases "preempt ''c'' None demo_host") (auto simp: blank_state_def)
qed

text \<open>
  C9. After a reboot a job runs again, but not for ever: a job that was running under another
  boot is queued again as the next attempt, at its priority, with what it ran remembered; a
  plain restart counts one, a preempted job's does not; a cancelled one is closed as
  cancelled, and one that has restarted three times as failed. A job of this boot, or one
  that is not running, is left alone.
\<close>

theorem restart_requeues:
  assumes "read_state j h = Inr s" and "requeue_after_restart k j now h = (r, h')"
  shows "if st_status s \<noteq> ''running'' \<or> \<not> from_another_boot k (st_runner_boot_id s) (st_runner_init_start s)
    then r = Inr None \<and> h' = h
    else \<exists>s'. r = Inr (Some s') \<and> read_state j h' = Inr s' \<and>
      (if st_intent s = Some PREEMPT \<or> st_intent s \<noteq> Some CANCEL \<and> st_restarts s < 3
       then st_status s' = ''queued'' \<and> st_attempt s' = st_attempt s + 1 \<and> st_priority s' = st_priority s \<and>
         st_ran s' = st_ran s \<and> st_intent s' = None \<and>
         st_restarts s' = (if st_intent s = Some PREEMPT then st_restarts s else st_restarts s + 1)
       else st_status s' = (if st_intent s = Some CANCEL then ''cancelled'' else ''failed'') \<and>
         st_reason s' = Some (if st_intent s = Some CANCEL then ''cancelled'' else ''host-restarted'') \<and>
         st_attempt s' = st_attempt s \<and> st_intent s' = None \<and> st_ended_at s' = Some now)"
proof -
  have job: "has_job j h" using readable_has_job [OF assms(1)] .
  let ?again = "st_intent s = Some PREEMPT \<or> st_intent s \<noteq> Some CANCEL \<and> st_restarts s < 3"
  show ?thesis
  proof (cases "st_status s \<noteq> ''running'' \<or> \<not> from_another_boot k (st_runner_boot_id s) (st_runner_init_start s)")
    case True
    then show ?thesis using assms job by (auto simp: requeue_after_restart_def with_state_def restart_body_def)
  next
    case False
    show ?thesis
    proof (cases ?again)
      case True
      then show ?thesis using False assms job
        by (auto simp: requeue_after_restart_def with_state_def restart_body_def Let_def MAX_RESTARTS_def states.rd_own
            queued_again_def blank_state_def)
    next
      case no: False
      let ?s' = "finished_state (restart_outcome s) True now id s"
      have "requeue_after_restart k j now h = (Inr (Some ?s'), write_state j ?s' h)"
        using False no assms(1) job
        by (auto simp: requeue_after_restart_def with_state_def restart_body_def Let_def MAX_RESTARTS_def Host.finish_def)
      then have "r = Inr (Some ?s')" "read_state j h' = Inr ?s'"
        using assms(2) job by (auto simp: states.rd_own)
      moreover have out: "oc_status (restart_outcome s) = (if st_intent s = Some CANCEL then ''cancelled'' else ''failed'')"
        "oc_reason (restart_outcome s) = Some (if st_intent s = Some CANCEL then ''cancelled'' else ''host-restarted'')"
        by (simp_all add: restart_outcome_def)
      note f = finished_state_fields [of id _ "restart_outcome s" True now s, OF disjI1 [OF refl]]
      have "st_status ?s' = (if st_intent s = Some CANCEL then ''cancelled'' else ''failed'')"
        "st_reason ?s' = Some (if st_intent s = Some CANCEL then ''cancelled'' else ''host-restarted'')"
        "st_attempt ?s' = st_attempt s" "st_intent ?s' = None" "st_ended_at ?s' = Some now"
        using f(1,2,3,9,11) by (simp_all only: out)
      ultimately show ?thesis unfolding if_not_P [OF False] if_not_P [OF no] by blast
    qed
  qed
qed

theorem restart_requeues_witness:
  "(\<exists>s'. read_state ''b'' (snd (requeue_after_restart demo_kernel ''b'' ''u''
     (snd (update_state ''b'' (\<lambda>s. s\<lparr>st_runner_boot_id := Some ''old''\<rparr>) demo_host)))) = Inr s' \<and>
     st_status s' = ''queued'' \<and> st_attempt s' = 2 \<and> st_restarts s' = 1)"
proof -
  let ?h = "snd (update_state ''b'' (\<lambda>s. s\<lparr>st_runner_boot_id := Some ''old''\<rparr>) demo_host)"
  let ?s = "blank_state\<lparr>st_status := ''running'', st_gpus := [''G0''], st_priority := 10, st_runner_boot_id := Some ''old''\<rparr>"
  have s: "read_state ''b'' ?h = Inr ?s"
    by (simp add: update_state_def with_state_def read_state_def has_job_def job_of_def demo_host_def demo_job_def
        write_state_def update_job_def)
  obtain r h' where q: "requeue_after_restart demo_kernel ''b'' ''u'' ?h = (r, h')" by fastforce
  have "from_another_boot demo_kernel (Some ''old'') (st_runner_init_start ?s)"
    by (simp add: from_another_boot_def demo_kernel_def blank_def)
  with restart_requeues [OF s q] show ?thesis using q by (auto simp: blank_state_def PREEMPT_def CANCEL_def)
qed

end
