(* ===== verification/Effects.thy ===== *)
theory Effects
  imports Prelude
begin

text \<open>
  Code that reads and changes a state and may raise: a function of the state that gives a
  result or an exception together with the state it leaves behind, which is the state at
  the moment of the \<open>raise\<close> when there is one. Sequencing and loops, and the contract under
  which a property of states survives them.
\<close>

type_synonym ('a, 's) eff = "'s \<Rightarrow> 'a res \<times> 's"

definition ret :: "'a \<Rightarrow> ('a, 's) eff" where
  "ret x s = (Inr x, s)"

definition throw :: "pyerr \<Rightarrow> ('a, 's) eff" where
  "throw e s = (Inl e, s)"

definition seq :: "('a, 's) eff \<Rightarrow> ('a \<Rightarrow> ('b, 's) eff) \<Rightarrow> ('b, 's) eff" where
  "seq m f s = (case m s of (Inl e, s') \<Rightarrow> (Inl e, s') | (Inr x, s') \<Rightarrow> f x s')"

text \<open>A computation that only reads.\<close>

definition asks :: "('s \<Rightarrow> 'a res) \<Rightarrow> ('a, 's) eff" where
  "asks f s = (f s, s)"

text \<open>\<open>try: m except <errs>: dflt\<close>; what was changed before the raise stays changed.\<close>

definition try_eff :: "(pyerr \<Rightarrow> bool) \<Rightarrow> 'a \<Rightarrow> ('a, 's) eff \<Rightarrow> ('a, 's) eff" where
  "try_eff caught dflt m s = (case m s of (Inl e, s') \<Rightarrow> (if caught e then Inr dflt else Inl e, s') | r \<Rightarrow> r)"

fun for_each :: "('x \<Rightarrow> (unit, 's) eff) \<Rightarrow> 'x list \<Rightarrow> (unit, 's) eff" where
  "for_each f [] s = (Inr (), s)"
| "for_each f (x # xs) s = (case f x s of (Inl e, s') \<Rightarrow> (Inl e, s') | (Inr _, s') \<Rightarrow> for_each f xs s')"

lemma eff_simps [simp]:
  "ret x s = (Inr x, s)" "throw e s = (Inl e, s)" "asks f s = (f s, s)"
  by (simp_all add: ret_def throw_def asks_def)

lemma seq_Inr:
  "seq m f s = (Inr x, u) \<longleftrightarrow> (\<exists>a t. m s = (Inr a, t) \<and> f a t = (Inr x, u))"
  by (auto simp: seq_def split: prod.splits sum.splits)

lemma seq_Inr_unit:
  "seq (m :: (unit, 's) eff) f s = (Inr x, u) \<longleftrightarrow> (\<exists>t. m s = (Inr (), t) \<and> f () t = (Inr x, u))"
  by (simp add: seq_Inr)

lemma seq_after [simp]: "m s = (Inr a, t) \<Longrightarrow> seq m f s = f a t"
  by (simp add: seq_def)

lemma seq_raised [simp]: "m s = (Inl e, t) \<Longrightarrow> seq m f s = (Inl e, t)"
  by (simp add: seq_def)

section \<open>Steps that keep a relation\<close>

text \<open>
  A preorder on states that single effects climb is climbed by every sequence, \<open>try\<close> and loop of
  them, however the run ends.
\<close>

locale climbing =
  fixes le :: "'s \<Rightarrow> 's \<Rightarrow> bool"
  assumes refl: "le s s" and trans: "le s t \<Longrightarrow> le t u \<Longrightarrow> le s u"
begin

lemma seq_le:
  assumes "le s (snd (m s))" and "\<And>x t. m s = (Inr x, t) \<Longrightarrow> le t (snd (f x t))"
  shows "le s (snd (seq m f s))"
proof (cases "m s")
  case (Pair r t)
  show ?thesis
  proof (cases r)
    case (Inl e)
    then show ?thesis using Pair assms(1) by (simp add: seq_def)
  next
    case (Inr x)
    have "le s t" using assms(1) Pair by simp
    moreover have "le t (snd (f x t))" using assms(2) Pair Inr by simp
    ultimately show ?thesis using Pair Inr trans [of s t] by simp
  qed
qed

lemma try_le: "le s (snd (m s)) \<Longrightarrow> le s (snd (try_eff c d m s))"
  by (auto simp: try_eff_def split: prod.splits sum.splits)

lemma for_each_le:
  assumes "\<And>x t. x \<in> set xs \<Longrightarrow> le s t \<Longrightarrow> le t (snd (f x t))"
  shows "le s (snd (for_each f xs s))"
proof -
  have "le t (snd (for_each f xs t))" if "le s t" for t
    using assms that
  proof (induction xs arbitrary: t)
    case Nil
    show ?case by (simp add: refl)
  next
    case (Cons x xs)
    have one: "le t (snd (f x t))" using Cons.prems by simp
    show ?case
    proof (cases "f x t")
      case (Pair r u)
      then have tu: "le t u" using one by simp
      show ?thesis
      proof (cases r)
        case (Inr y)
        have "le s u" using Cons.prems(2) tu by (rule trans)
        then have "le u (snd (for_each f xs u))" using Cons.IH Cons.prems(1) by simp
        then show ?thesis using Pair Inr tu trans [of t u] by simp
      qed (use Pair tu in simp)
    qed
  qed
  then show ?thesis using refl by blast
qed

end

section \<open>Invariants of a computation\<close>

text \<open>A predicate on states that a computation keeps, whether it returns or raises.\<close>

named_theorems keeps_rules \<open>introduction rules for the structure of a computation that keeps a predicate\<close>

definition keeps :: "('s \<Rightarrow> bool) \<Rightarrow> ('a, 's) eff \<Rightarrow> bool" where
  "keeps P m \<longleftrightarrow> (\<forall>s. P s \<longrightarrow> P (snd (m s)))"

lemma keepsD: "keeps P m \<Longrightarrow> P s \<Longrightarrow> m s = (r, t) \<Longrightarrow> P t"
  by (metis keeps_def snd_conv)

lemma keepsI: "(\<And>s. P s \<Longrightarrow> P (snd (m s))) \<Longrightarrow> keeps P m"
  by (simp add: keeps_def)

lemma keeps_ret [keeps_rules]: "keeps P (ret x)"
  by (simp add: keeps_def)

lemma keeps_throw [keeps_rules]: "keeps P (throw e)"
  by (simp add: keeps_def)

lemma keeps_asks [keeps_rules]: "keeps P (asks f)"
  by (simp add: keeps_def)

text \<open>Handling what a computation raised.\<close>

lemma keeps_handle:
  assumes "keeps P m" "\<And>x. keeps P (f x)" "\<And>e. keeps P (g e)"
  shows "keeps P (\<lambda>y. case m y of (Inr x, t) \<Rightarrow> f x t | (Inl e, t) \<Rightarrow> g e t)"
proof (rule keepsI)
  fix s
  assume "P s"
  obtain r t where m: "m s = (r, t)" by fastforce
  then have "P t" using keepsD [OF assms(1) \<open>P s\<close>] by blast
  then show "P (snd (case m s of (Inr x, t) \<Rightarrow> f x t | (Inl e, t) \<Rightarrow> g e t))"
    using m assms(2,3) by (cases r) (simp_all add: keeps_def)
qed

lemma keeps_seq [keeps_rules]: "keeps P m \<Longrightarrow> (\<And>x. keeps P (f x)) \<Longrightarrow> keeps P (seq m f)"
proof (rule keepsI)
  fix s
  assume one: "keeps P m" and more: "\<And>x. keeps P (f x)" and "P s"
  obtain r t where m: "m s = (r, t)" by fastforce
  then have "P t" using keepsD [OF one \<open>P s\<close>] by blast
  then show "P (snd (seq m f s))" using m more by (cases r) (simp_all add: seq_def keeps_def)
qed

lemma keeps_if [keeps_rules]: "(c \<Longrightarrow> keeps P m) \<Longrightarrow> (\<not> c \<Longrightarrow> keeps P n) \<Longrightarrow> keeps P (if c then m else n)"
  by simp

lemma keeps_option [keeps_rules]:
  "keeps P m \<Longrightarrow> (\<And>x. keeps P (f x)) \<Longrightarrow> keeps P (case v of None \<Rightarrow> m | Some x \<Rightarrow> f x)"
  by (simp split: option.split)

lemma keeps_sum [keeps_rules]:
  "(\<And>x. keeps P (f x)) \<Longrightarrow> (\<And>x. keeps P (g x)) \<Longrightarrow> keeps P (case v of Inl x \<Rightarrow> f x | Inr x \<Rightarrow> g x)"
  by (simp split: sum.split)

lemma keeps_try [keeps_rules]: "keeps P m \<Longrightarrow> keeps P (try_eff c d m)"
  by (rule keepsI) (auto simp: try_eff_def split: prod.split sum.split dest: keepsD)

lemma keeps_for_each [keeps_rules]: "(\<And>x. keeps P (f x)) \<Longrightarrow> keeps P (for_each f xs)"
proof (rule keepsI)
  fix s
  assume one: "\<And>x. keeps P (f x)" and "P s"
  then show "P (snd (for_each f xs s))"
  proof (induction xs arbitrary: s)
    case (Cons x xs)
    obtain r t where f: "f x s = (r, t)" by fastforce
    then have "P t" using keepsD [OF one Cons.prems(2)] by blast
    then show ?case using Cons.IH [OF one] f by (cases r) simp_all
  qed simp
qed

text \<open>A computation that looks at the state to decide what to do next.\<close>

lemma keeps_look: "(\<And>y. keeps P (g y)) \<Longrightarrow> keeps P (\<lambda>y. g y y)"
  by (simp add: keeps_def)

lemma keeps_cond: "keeps P m \<Longrightarrow> keeps P n \<Longrightarrow> keeps P (\<lambda>y. if c y then m y else n y)"
  by (simp add: keeps_def)

text \<open>The results of a computation under a precondition: what it returns with, what it raises with.\<close>

definition triple :: "('s \<Rightarrow> bool) \<Rightarrow> ('a, 's) eff \<Rightarrow> ('a \<Rightarrow> 's \<Rightarrow> bool) \<Rightarrow> (pyerr \<Rightarrow> 's \<Rightarrow> bool) \<Rightarrow> bool" where
  "triple P m Q E \<longleftrightarrow> (\<forall>s. P s \<longrightarrow> (case m s of (Inr x, t) \<Rightarrow> Q x t | (Inl e, t) \<Rightarrow> E e t))"

lemma tripleI: "(\<And>s x t. P s \<Longrightarrow> m s = (Inr x, t) \<Longrightarrow> Q x t) \<Longrightarrow> (\<And>s e t. P s \<Longrightarrow> m s = (Inl e, t) \<Longrightarrow> E e t) \<Longrightarrow> triple P m Q E"
  unfolding triple_def by (simp split: prod.split sum.split)

lemma triple_Inr: "triple P m Q E \<Longrightarrow> P s \<Longrightarrow> m s = (Inr x, t) \<Longrightarrow> Q x t"
  unfolding triple_def by (drule spec [of _ s]) simp

lemma triple_Inl: "triple P m Q E \<Longrightarrow> P s \<Longrightarrow> m s = (Inl e, t) \<Longrightarrow> E e t"
  unfolding triple_def by (drule spec [of _ s]) simp

lemma triple_seq:
  assumes m: "triple P m R E" and f: "\<And>x. triple (R x) (f x) Q E"
  shows "triple P (seq m f) Q E"
  unfolding triple_def
proof (intro allI impI)
  fix s
  assume "P s"
  obtain r t where mt: "m s = (r, t)" by fastforce
  show "case seq m f s of (Inr x, t) \<Rightarrow> Q x t | (Inl e, t) \<Rightarrow> E e t"
  proof (cases r)
    case (Inl e)
    then show ?thesis using triple_Inl [OF m \<open>P s\<close>] mt by simp
  next
    case (Inr x)
    then show ?thesis using triple_Inr [OF m \<open>P s\<close>] mt f [of x] by (simp add: triple_def)
  qed
qed

lemma triple_keeps: "keeps P m \<Longrightarrow> (\<And>e s. P s \<Longrightarrow> E e s) \<Longrightarrow> triple P m (\<lambda>_. P) E"
  by (rule tripleI) (auto dest: keepsD)

lemma triple_if: "(c \<Longrightarrow> triple P m Q E) \<Longrightarrow> (\<not> c \<Longrightarrow> triple P n Q E) \<Longrightarrow> triple P (if c then m else n) Q E"
  by simp

lemma triple_weaken: "triple P m Q E \<Longrightarrow> (\<And>s. P' s \<Longrightarrow> P s) \<Longrightarrow> (\<And>x s. Q x s \<Longrightarrow> Q' x s) \<Longrightarrow> (\<And>e s. E e s \<Longrightarrow> E' e s) \<Longrightarrow> triple P' m Q' E'"
  by (rule tripleI) (metis triple_Inr triple_Inl)+

lemma triple_look: "(\<And>y. P y \<Longrightarrow> triple (\<lambda>s. s = y) (g y) Q E) \<Longrightarrow> triple P (\<lambda>y. g y y) Q E"
  by (rule tripleI) (auto dest: triple_Inr triple_Inl)

lemma triple_pure: "(A \<Longrightarrow> triple P m Q E) \<Longrightarrow> triple (\<lambda>s. P s \<and> A) m Q E"
  by (auto simp: triple_def)

end
