(* ===== verification/Dispatcher.thy ===== *)
theory Dispatcher
  imports Plan Gpus Lifecycle Effects
begin

text \<open>
  \<open>src/gpuc/host/dispatcher.py\<close>: the loop that serves one host's queue. The state is the
  \<open>Dispatcher\<close> object, the host it works on and the signals it has sent. \<open>world\<close> is what one
  call is given from outside: the answers of the kernel, of nvidia-smi, of the clock and
  of \<open>owner.json\<close>, and what a spawn, an upload and the provider's terminate call come to.
  What other processes do to the host between two calls is a step of the system
  (\<open>System.thy\<close>), not part of a call. Lines written to the dispatcher's own log are left out,
  with the fields that only decide whether a line is logged again; lines written to a job's
  log are kept.

  nvidia-smi is asked about the shared cards when a pool is built rather than when the walk
  first needs the answer: the answer of one call is the same either way, and it is kept for
  the pass.
\<close>

section \<open>State\<close>

record running_entry =
  en_gpus :: "uuid list"
  en_attempt :: int
  en_popen :: "int option"
  en_runner_pid :: "int option"
  en_boot_id :: "string option"
  en_starttime :: "string option"
  en_init_start :: "string option"

record dispatcher =
  dp_running :: "(job_id \<times> running_entry) list"
  dp_queue_empty_since :: "seconds option"
  dp_terminate_retry_at :: "seconds option"
  dp_last_reclaim_at :: "seconds option"
  dp_last_incoming_sweep_at :: "seconds option"
  dp_instance :: string
  dp_replaced :: "string option"
  dp_last_requeue_scan :: "seconds option"
  dp_requeue_until :: "seconds option"
  dp_stop_sent :: "(job_id \<times> seconds) list"
  dp_config :: "hostconfig option"
  dp_cards :: "resolution option"
  dp_table_error :: "string option"
  dp_unreadable_since :: "seconds option"
  dp_borrowable :: "(uuid list \<times> nat) option"
  dp_queued :: "queue_entry list option"
  dp_claimed :: "uuid list option"
  dp_draining :: "bool option"
  dp_consecutive_failures :: nat
  dp_should_exit :: bool

record sys =
  sy_disp :: dispatcher
  sy_host :: host
  sy_signals :: "effect list"

record world =
  wd_kernel :: kernel
  wd_smi :: smi_runner
  wd_now :: seconds
  wd_moment :: seconds
  wd_stamp :: string
  wd_fromiso :: "string \<Rightarrow> seconds option"
  wd_owner :: "string option"
  wd_child_alive :: "int \<Rightarrow> bool"
  wd_spawn :: "job_id \<Rightarrow> uuid list \<Rightarrow> int \<Rightarrow> int option"
  wd_record_bytes :: "job_id \<Rightarrow> nat"
  wd_upload :: "nat \<Rightarrow> job_id \<Rightarrow> bool"
  wd_time_left :: "nat \<Rightarrow> bool"
  wd_mirrored :: bool
  wd_terminated :: bool

definition REQUEUE_SCAN_S :: seconds where "REQUEUE_SCAN_S = 30"
definition REQUEUE_WINDOW_S :: seconds where "REQUEUE_WINDOW_S = 600"
definition SYNC_STOP_PATIENCE_S :: seconds where "SYNC_STOP_PATIENCE_S = 1800"
definition TERMINATE_RETRY_S :: seconds where "TERMINATE_RETRY_S = 600"
definition MAX_CONSECUTIVE_FAILURES :: nat where "MAX_CONSECUTIVE_FAILURES = 20"
definition RETENTION_INTERVAL_S :: seconds where "RETENTION_INTERVAL_S = 3600"
definition SMI_PATIENCE_S :: seconds where "SMI_PATIENCE_S = 300"
definition OUTPUT_RETRY_ATTEMPTS :: nat where "OUTPUT_RETRY_ATTEMPTS = 3"

section \<open>Access to the parts\<close>

definition disp :: "(dispatcher \<Rightarrow> dispatcher) \<Rightarrow> (unit, sys) eff" where
  "disp f y = (Inr (), y\<lparr>sy_disp := f (sy_disp y)\<rparr>)"

definition on_host :: "(host \<Rightarrow> 'a res \<times> host) \<Rightarrow> ('a, sys) eff" where
  "on_host f y = (case f (sy_host y) of (r, h) \<Rightarrow> (r, y\<lparr>sy_host := h\<rparr>))"

definition signals :: "effect list \<Rightarrow> (unit, sys) eff" where
  "signals es y = (Inr (), y\<lparr>sy_signals := sy_signals y @ es\<rparr>)"

definition state_of :: "job_id \<Rightarrow> (jobstate, sys) eff" where
  "state_of j = asks (\<lambda>y. read_state j (sy_host y))"

definition is_running :: "job_id \<Rightarrow> sys \<Rightarrow> bool" where
  "is_running j y \<longleftrightarrow> map_of (dp_running (sy_disp y)) j \<noteq> None"

definition set_entry :: "job_id \<Rightarrow> running_entry \<Rightarrow> (unit, sys) eff" where
  "set_entry j e = disp (\<lambda>d. d\<lparr>dp_running := AList.update j e (dp_running d)\<rparr>)"

definition drop_entry :: "job_id \<Rightarrow> (unit, sys) eff" where
  "drop_entry j = disp (\<lambda>d. d\<lparr>dp_running := AList.delete j (dp_running d),
     dp_stop_sent := AList.delete j (dp_stop_sent d)\<rparr>)"

text \<open>\<open>_Running.adopted\<close> and \<open>alive\<close>.\<close>

definition adopted :: "jobstate \<Rightarrow> running_entry" where
  "adopted s =
     \<lparr>en_gpus = st_gpus s, en_attempt = st_attempt s, en_popen = None, en_runner_pid = st_runner_pid s,
      en_boot_id = st_runner_boot_id s, en_starttime = st_runner_starttime s,
      en_init_start = st_runner_init_start s\<rparr>"

definition spawned :: "uuid list \<Rightarrow> int \<Rightarrow> int \<Rightarrow> running_entry" where
  "spawned cards attempt pid =
     \<lparr>en_gpus = cards, en_attempt = attempt, en_popen = Some pid, en_runner_pid = None,
      en_boot_id = None, en_starttime = None, en_init_start = None\<rparr>"

definition alive :: "world \<Rightarrow> running_entry \<Rightarrow> bool" where
  "alive w e =
     (case en_popen e of
        Some pid \<Rightarrow> wd_child_alive w pid
      | None \<Rightarrow> recorded_process_alive (wd_kernel w) (en_runner_pid e) (en_boot_id e) (en_starttime e) (en_init_start e))"

definition runner_alive :: "world \<Rightarrow> jobstate \<Rightarrow> bool" where
  "runner_alive w s =
     recorded_process_alive (wd_kernel w) (st_runner_pid s) (st_runner_boot_id s) (st_runner_starttime s) (st_runner_init_start s)"

section \<open>What a pass reads once\<close>

definition the_config :: "(hostconfig, sys) eff" where
  "the_config y =
     (case dp_config (sy_disp y) of
        Some c \<Rightarrow> (Inr c, y)
      | None \<Rightarrow> (case h_config (sy_host y) of
          Inl e \<Rightarrow> (Inl e, y)
        | Inr c \<Rightarrow> (Inr c, y\<lparr>sy_disp := (sy_disp y)\<lparr>dp_config := Some c\<rparr>\<rparr>)))"

definition the_queue :: "(queue_entry list, sys) eff" where
  "the_queue y =
     (case dp_queued (sy_disp y) of
        Some q \<Rightarrow> (Inr q, y)
      | None \<Rightarrow> (case list_queued (sy_host y) of
          Inl e \<Rightarrow> (Inl e, y)
        | Inr q \<Rightarrow> (Inr q, y\<lparr>sy_disp := (sy_disp y)\<lparr>dp_queued := Some q\<rparr>\<rparr>)))"

definition going_away :: "(bool, sys) eff" where
  "going_away y =
     (case dp_draining (sy_disp y) of
        Some b \<Rightarrow> (Inr b, y)
      | None \<Rightarrow> (let b = h_draining (sy_host y) in (Inr b, y\<lparr>sy_disp := (sy_disp y)\<lparr>dp_draining := Some b\<rparr>\<rparr>)))"

text \<open>\<open>_stand_down_if_replaced\<close>, with \<open>owner.replaced_by\<close>.\<close>

definition replaced_by :: "world \<Rightarrow> string \<Rightarrow> string option" where
  "replaced_by w me = (case wd_owner w of None \<Rightarrow> None | Some o' \<Rightarrow> if o' \<noteq> me then Some o' else None)"

definition stand_down :: "world \<Rightarrow> (bool, sys) eff" where
  "stand_down w y =
     (if dp_replaced (sy_disp y) \<noteq> None then (Inr True, y)
      else (case replaced_by w (dp_instance (sy_disp y)) of
          None \<Rightarrow> (Inr False, y)
        | Some other \<Rightarrow>
            (Inr True, y\<lparr>sy_disp := (sy_disp y)\<lparr>dp_replaced := Some other, dp_running := [], dp_should_exit := True\<rparr>\<rparr>)))"

section \<open>Ending a job without its runner\<close>

definition failed_as :: "string \<Rightarrow> outcome" where
  "failed_as reason = \<lparr>oc_status = ''failed'', oc_reason = Some reason, oc_exit_code = 1, oc_ran = False\<rparr>"

definition is_runtime :: "pyerr \<Rightarrow> bool" where
  "is_runtime e \<longleftrightarrow> e = RuntimeError"

definition settle_job_secrets :: "job_id \<Rightarrow> jobstate \<Rightarrow> (unit, sys) eff" where
  "settle_job_secrets j s = seq (on_host (settle_secrets j s)) (\<lambda>_. ret ())"

definition forget_queued :: "job_id \<Rightarrow> (unit, sys) eff" where
  "forget_queued j = disp (\<lambda>d. d\<lparr>dp_queued := map_option (filter (\<lambda>e. qe_job_id e \<noteq> j)) (dp_queued d)\<rparr>)"

definition fail_queued :: "world \<Rightarrow> job_id \<Rightarrow> string \<Rightarrow> (unit, sys) eff" where
  "fail_queued w j reason =
     seq (stand_down w) (\<lambda>away.
       if away then ret ()
       else seq (try_eff is_runtime None
              (on_host (Host.finish j (failed_as reason) ''queued'' False (wd_stamp w) id))) (\<lambda>written.
         case written of
           None \<Rightarrow> ret ()
         | Some s \<Rightarrow> seq (settle_job_secrets j s) (\<lambda>_. forget_queued j)))"

text \<open>\<open>_mark_runner_died\<close>: what is left of the job dies before its cards are free.\<close>

definition mark_runner_died :: "world \<Rightarrow> job_id \<Rightarrow> string \<Rightarrow> (unit, sys) eff" where
  "mark_runner_died w j expect =
     seq (stand_down w) (\<lambda>away.
       if away then ret ()
       else seq (try_eff is_runtime None (seq (state_of j) (\<lambda>s. ret (Some s)))) (\<lambda>found.
         case found of
           None \<Rightarrow> ret ()
         | Some s \<Rightarrow>
             seq (signals (kill_now (wd_kernel w) (processes_of (wd_kernel w) s))) (\<lambda>_.
             seq (try_eff is_runtime None
                (on_host (Host.finish j (failed_as ''runner-died'') expect True (wd_stamp w) id))) (\<lambda>written.
               case written of None \<Rightarrow> ret () | Some s' \<Rightarrow> settle_job_secrets j s'))))"

definition requeue_restarted :: "world \<Rightarrow> job_id \<Rightarrow> (unit, sys) eff" where
  "requeue_restarted w j =
     seq (stand_down w) (\<lambda>away.
       if away then ret ()
       else seq (try_eff is_runtime None (on_host (requeue_after_restart (wd_kernel w) j (wd_stamp w)))) (\<lambda>written.
         case written of
           None \<Rightarrow> ret ()
         | Some s \<Rightarrow> if st_status s = ''queued'' then ret () else settle_job_secrets j s))"

section \<open>Startup\<close>

definition adopt_one :: "world \<Rightarrow> job_id \<Rightarrow> (unit, sys) eff" where
  "adopt_one w j y =
     (case read_state j (sy_host y) of
        Inl e \<Rightarrow> if e = RuntimeError then (Inr (), y) else (Inl e, y)
      | Inr s \<Rightarrow>
          if st_status s \<noteq> ''running'' \<or> is_running j y then (Inr (), y)
          else if from_another_boot (wd_kernel w) (st_runner_boot_id s) (st_runner_init_start s)
          then requeue_restarted w j y
          else if runner_alive w s then set_entry j (adopted s) y
          else mark_runner_died w j ''running'' y)"

definition adopt_orphans :: "world \<Rightarrow> (unit, sys) eff" where
  "adopt_orphans w y = for_each (adopt_one w) (list_job_ids (sy_host y)) y"

section \<open>Runners that are gone\<close>

definition settle_entry :: "world \<Rightarrow> job_id \<Rightarrow> running_entry \<Rightarrow> (unit, sys) eff" where
  "settle_entry w j e y =
     (case read_state j (sy_host y) of
        Inl er \<Rightarrow> if er = RuntimeError then (Inr (), y) else (Inl er, y)
      | Inr s \<Rightarrow>
          if finished s then (Inr (), y)
          else if st_status s = ''queued''
          then (if st_attempt s > en_attempt e then (Inr (), y) else mark_runner_died w j ''queued'' y)
          else
            let ours = (case en_popen e of Some pid \<Rightarrow> Some pid | None \<Rightarrow> en_runner_pid e)
            in if st_runner_pid s \<noteq> ours \<and> runner_alive w s then set_entry j (adopted s) y
               else mark_runner_died w j ''running'' y)"

definition reap_one :: "world \<Rightarrow> job_id \<times> running_entry \<Rightarrow> (unit, sys) eff" where
  "reap_one w je =
     (if alive w (snd je) then ret () else seq (drop_entry (fst je)) (\<lambda>_. settle_entry w (fst je) (snd je)))"

definition reap :: "world \<Rightarrow> (unit, sys) eff" where
  "reap w y = for_each (reap_one w) (dp_running (sy_disp y)) y"

section \<open>Stops that are not obeyed\<close>

definition state_or_empty :: "job_id \<Rightarrow> (jobstate, sys) eff" where
  "state_or_empty j = try_eff is_runtime blank_state (state_of j)"

definition escalate_one :: "world \<Rightarrow> job_id \<Rightarrow> (unit, sys) eff" where
  "escalate_one w j =
     seq (state_or_empty j) (\<lambda>s.
       if st_intent s = None then ret ()
       else
         seq (disp (\<lambda>d. d\<lparr>dp_stop_sent := setdefault j (wd_now w) (dp_stop_sent d)\<rparr>)) (\<lambda>_ y.
           let elapsed = wd_now w - the (map_of (dp_stop_sent (sy_disp y)) j);
               patience = (if st_phase s = Some ''sync'' then SYNC_STOP_PATIENCE_S else KILL_GRACE_S)
           in if elapsed \<le> patience then (Inr (), y)
              else signals (escalate (wd_kernel w) (processes_of (wd_kernel w) s)
                     (elapsed - patience + KILL_GRACE_S) KILL_GRACE_S) y))"

definition escalate_stops :: "world \<Rightarrow> (unit, sys) eff" where
  "escalate_stops w y = for_each (escalate_one w) (map fst (dp_running (sy_disp y))) y"

section \<open>The cards of a pass\<close>

definition resolution_of :: "world \<Rightarrow> (resolution, sys) eff" where
  "resolution_of w y =
     (case dp_cards (sy_disp y) of
        Some r \<Rightarrow> (Inr r, y)
      | None \<Rightarrow>
          (case list_gpus (wd_smi w) of
             Inl (SmiRaised e) \<Rightarrow> (Inl e, y)
           | Inl (GpuError m) \<Rightarrow>
               seq the_config (\<lambda>c y.
                 let r = resolve (cf_gpus c) [] (cf_shared_gpus c)
                 in (Inr r, y\<lparr>sy_disp := (sy_disp y)\<lparr>dp_cards := Some r\<rparr>\<rparr>))
                 (y\<lparr>sy_disp := (sy_disp y)\<lparr>dp_table_error := Some m\<rparr>\<rparr>)
           | Inr table \<Rightarrow>
               seq the_config (\<lambda>c y.
                 let r = resolve (cf_gpus c) table (cf_shared_gpus c)
                 in (Inr r, y\<lparr>sy_disp := (sy_disp y)\<lparr>dp_cards := Some r\<rparr>\<rparr>))
                 (y\<lparr>sy_disp := (sy_disp y)\<lparr>dp_table_error := None\<rparr>\<rparr>)))"

fun claimed_by :: "job_id list \<Rightarrow> host \<Rightarrow> uuid list res" where
  "claimed_by [] h = Inr []"
| "claimed_by (j # js) h =
     (case read_state j h of
        Inl e \<Rightarrow> if e = RuntimeError then claimed_by js h else Inl e
      | Inr s \<Rightarrow> map_sum id (\<lambda>cs. (if st_status s = ''running'' then st_gpus s else []) @ cs) (claimed_by js h))"

definition claimed_gpus :: "(uuid list, sys) eff" where
  "claimed_gpus y =
     (case dp_claimed (sy_disp y) of
        Some cs \<Rightarrow> (Inr cs, y)
      | None \<Rightarrow> (case claimed_by (list_job_ids (sy_host y)) (sy_host y) of
          Inl e \<Rightarrow> (Inl e, y)
        | Inr cs \<Rightarrow> (Inr cs, y\<lparr>sy_disp := (sy_disp y)\<lparr>dp_claimed := Some cs\<rparr>\<rparr>)))"

definition busy_gpus :: "(uuid list, sys) eff" where
  "busy_gpus = seq claimed_gpus (\<lambda>cs y. (Inr (concat (map (en_gpus \<circ> snd) (dp_running (sy_disp y))) @ cs), y))"

definition free_gpus :: "world \<Rightarrow> (uuid list, sys) eff" where
  "free_gpus w =
     seq busy_gpus (\<lambda>busy. seq (resolution_of w) (\<lambda>r. ret (filter (\<lambda>u. u \<notin> set busy) (rs_owned r))))"

definition borrow_reading :: "world \<Rightarrow> uuid list \<Rightarrow> (uuid list \<times> nat, sys) eff" where
  "borrow_reading w busy y =
     (case dp_borrowable (sy_disp y) of
        Some b \<Rightarrow> (Inr b, y)
      | None \<Rightarrow>
          seq (resolution_of w) (\<lambda>r y.
            case unused_gpus (filter (\<lambda>u. u \<notin> set busy) (rs_shared r)) (wd_smi w) of
              Inl (SmiRaised e) \<Rightarrow> (Inl e, y)
            | Inl (GpuError m) \<Rightarrow> (Inl RuntimeError, y)
            | Inr (unused, in_use) \<Rightarrow>
                (Inr (unused, length in_use),
                 y\<lparr>sy_disp := (sy_disp y)\<lparr>dp_borrowable := Some (unused, length in_use)\<rparr>\<rparr>)) y)"

definition borrowable_gpus :: "world \<Rightarrow> (uuid list \<times> nat, sys) eff" where
  "borrowable_gpus w =
     seq busy_gpus (\<lambda>busy. seq (borrow_reading w busy) (\<lambda>b. ret (filter (\<lambda>u. u \<notin> set busy) (fst b), snd b)))"

section \<open>The queue and the pool as the rule sees them\<close>

definition request_of :: "hostconfig \<Rightarrow> queue_entry \<Rightarrow> jobspec \<Rightarrow> request" where
  "request_of c e spec =
     \<lparr>rq_job_id = qe_job_id e, rq_gpus = nat (sp_gpus spec), rq_borrows = may_borrow c spec,
      rq_estimate_s = None, rq_priority = qe_priority e, rq_fills = sp_auto_preempt spec\<rparr>"

fun requests_from :: "world \<Rightarrow> queue_entry list \<Rightarrow> ((queue_entry \<times> request) list, sys) eff" where
  "requests_from w [] y = (Inr [], y)"
| "requests_from w (e # es) y =
     (if is_running (qe_job_id e) y then requests_from w es y
      else (case read_spec (qe_job_id e) (sy_host y) of
          Inl er \<Rightarrow>
            if er = RuntimeError \<or> er = ValueError
            then seq (fail_queued w (qe_job_id e) ''bad-spec'') (\<lambda>_. requests_from w es) y
            else (Inl er, y)
        | Inr spec \<Rightarrow>
            seq the_config (\<lambda>c. seq (requests_from w es) (\<lambda>rs. ret ((e, request_of c e spec) # rs))) y))"

definition requests :: "world \<Rightarrow> ((queue_entry \<times> request) list, sys) eff" where
  "requests w = seq the_queue (requests_from w)"

definition leaving :: "running_entry \<Rightarrow> job_id \<Rightarrow> host \<Rightarrow> bool res" where
  "leaving e j h =
     (case read_state j h of
        Inl er \<Rightarrow> if er = RuntimeError then Inr False else Inl er
      | Inr s \<Rightarrow>
          Inr (if st_status s = ''running'' then st_intent s \<noteq> None
               else \<not> (st_status s = ''queued'' \<and> st_attempt s = en_attempt e)))"

fun coming_back :: "uuid list \<Rightarrow> (job_id \<times> running_entry) list \<Rightarrow> host \<Rightarrow> uuid list res" where
  "coming_back visible [] h = Inr []"
| "coming_back visible ((j, e) # es) h =
     bind_res (leaving e j h) (\<lambda>l.
       map_sum id (\<lambda>cs. (if l then filter (\<lambda>u. u \<in> set visible) (en_gpus e) else []) @ cs)
         (coming_back visible es h))"

definition preemptable_of ::
  "world \<Rightarrow> resolution \<Rightarrow> job_id \<Rightarrow> running_entry \<Rightarrow> host \<Rightarrow> preemptable option res" where
  "preemptable_of w r j e h =
     (case catching [RuntimeError] blank_state (read_state j h) of
        Inl er \<Rightarrow> Inl er
      | Inr s \<Rightarrow>
          if st_intent s \<noteq> None then Inr None
          else (case catching [RuntimeError, ValueError] None (map_sum id Some (read_spec j h)) of
              Inl er \<Rightarrow> Inl er
            | Inr None \<Rightarrow> Inr None
            | Inr (Some spec) \<Rightarrow>
                if \<not> sp_auto_preempt spec \<or> st_status s \<noteq> ''running'' then Inr None
                else Inr (Some \<lparr>pe_job_id = j, pe_priority = st_priority s, pe_gpus = en_gpus e,
                  pe_started = (case parse_time (wd_fromiso w) (st_started_at s) of Some t \<Rightarrow> t | None \<Rightarrow> 0),
                  pe_owned = length (filter (\<lambda>u. u \<in> set (rs_owned r)) (en_gpus e)),
                  pe_borrowed = length (filter (\<lambda>u. u \<in> set (rs_shared r)) (en_gpus e))\<rparr>)))"

fun preemptables_in ::
  "world \<Rightarrow> resolution \<Rightarrow> (job_id \<times> running_entry) list \<Rightarrow> host \<Rightarrow> preemptable list res" where
  "preemptables_in w r [] h = Inr []"
| "preemptables_in w r ((j, e) # es) h =
     bind_res (preemptable_of w r j e h) (\<lambda>p.
       map_sum id (\<lambda>ps. (case p of Some x \<Rightarrow> x # ps | None \<Rightarrow> ps)) (preemptables_in w r es h))"

definition auto_preemptable :: "world \<Rightarrow> (preemptable list, sys) eff" where
  "auto_preemptable w =
     seq (resolution_of w) (\<lambda>r. asks (\<lambda>y. preemptables_in w r (dp_running (sy_disp y)) (sy_host y)))"

definition pool_of :: "world \<Rightarrow> (pool, sys) eff" where
  "pool_of w =
     seq (resolution_of w) (\<lambda>r.
     seq (free_gpus w) (\<lambda>free.
     seq (borrowable_gpus w) (\<lambda>reading.
     seq (asks (\<lambda>y. coming_back (rs_owned r @ rs_shared r) (dp_running (sy_disp y)) (sy_host y))) (\<lambda>back.
     seq (auto_preemptable w) (\<lambda>pre.
       ret \<lparr>owned_free = free, owned_present = length (rs_owned r), shared_visible = length (rs_shared r),
            owned_absent = rs_missing r, shared_absent = rs_shared_missing r, sample = Some reading,
            shared = set (rs_shared r), coming = back, preemptables = pre, shared_free = None, theirs = 0\<rparr>)))))"

section \<open>Launching\<close>

definition launch :: "world \<Rightarrow> job_id \<Rightarrow> uuid list \<Rightarrow> int \<Rightarrow> job_id list \<Rightarrow> (unit, sys) eff" where
  "launch w j cards attempt held_for =
     seq (disp (\<lambda>d. d\<lparr>dp_claimed := None\<rparr>)) (\<lambda>_.
     seq claimed_gpus (\<lambda>cs.
       if set cards \<inter> set cs \<noteq> {} then ret ()
       else seq (stand_down w) (\<lambda>away.
         if away then ret ()
         else (case wd_spawn w j cards attempt of
             None \<Rightarrow> fail_queued w j ''spawn-failed''
           | Some pid \<Rightarrow>
               seq (set_entry j (spawned cards attempt pid)) (\<lambda>_.
               seq (resolution_of w) (\<lambda>_.
                 if held_for = [] then ret ()
                 else on_host (\<lambda>h. (Inr (), note_log j (''auto_preempt: started on card(s) held for job ''
                   @ join '', '' held_for @ '', and stopped when that job can start'') h))))))))"

definition patience :: "world \<Rightarrow> (bool, sys) eff" where
  "patience w y =
     (let d = sy_disp y;
          since = (if dp_table_error d = None then None
                   else if dp_unreadable_since d = None then Some (wd_now w) else dp_unreadable_since d)
      in (Inr (case since of None \<Rightarrow> False | Some t \<Rightarrow> wd_now w - t < SMI_PATIENCE_S),
          y\<lparr>sy_disp := d\<lparr>dp_unreadable_since := since\<rparr>\<rparr>))"

definition attempts_of :: "(queue_entry \<times> request) list \<Rightarrow> job_id \<rightharpoonup> int" where
  "attempts_of rqs = map_of (rev (map (\<lambda>er. (qe_job_id (fst er), qe_attempt (fst er))) rqs))"

fun act_on :: "world \<Rightarrow> bool \<Rightarrow> (queue_entry \<times> request) list \<Rightarrow> decision \<Rightarrow> (unit, sys) eff" where
  "act_on w patient rqs (Fails j reason) = (if patient then ret () else fail_queued w j reason)"
| "act_on w patient rqs (Assigned j cards held_for) =
     (case attempts_of rqs j of None \<Rightarrow> throw KeyError | Some attempt \<Rightarrow> launch w j cards attempt held_for)"
| "act_on w patient rqs (Holds j a b g ps) = ret ()"
| "act_on w patient rqs (SteppedOver j n) = ret ()"

definition launch_ready :: "world \<Rightarrow> (unit, sys) eff" where
  "launch_ready w =
     seq going_away (\<lambda>away.
       if away then ret ()
       else seq (requests w) (\<lambda>rqs.
            seq (pool_of w) (\<lambda>p.
            seq (patience w) (\<lambda>patient. for_each (act_on w patient rqs) (plan (map snd rqs) p)))))"

section \<open>Automatic preemption\<close>

fun caught_refusal :: "refusal \<Rightarrow> bool" where
  "caught_refusal (Raised e) \<longleftrightarrow> e \<in> {ValueError, RuntimeError, OSError, FileNotFoundError, FileExistsError}"
| "caught_refusal _ \<longleftrightarrow> True"

fun raised_by :: "refusal \<Rightarrow> pyerr" where
  "raised_by (Raised e) = e"
| "raised_by _ = ValueError"

definition preempt_for :: "preemptable \<Rightarrow> queue_entry \<Rightarrow> (bool, sys) eff" where
  "preempt_for c waiting y =
     (case preempt (pe_job_id c) None (sy_host y) of
        (Inl r, h) \<Rightarrow> (if caught_refusal r then Inr False else Inl (raised_by r), y\<lparr>sy_host := h\<rparr>)
      | (Inr _, h) \<Rightarrow>
          (Inr True, y\<lparr>sy_host := note_log (pe_job_id c) (''auto_preempt: stopping so job '' @ qe_job_id waiting
             @ '' (priority '' @ int_str (qe_priority waiting) @ '') can have these GPUs'') h\<rparr>))"

fun preempt_each :: "(job_id \<rightharpoonup> preemptable) \<Rightarrow> queue_entry \<Rightarrow> job_id list \<Rightarrow> (unit, sys) eff" where
  "preempt_each cands waiting [] y = (Inr (), y)"
| "preempt_each cands waiting (j # js) y =
     (case cands j of
        None \<Rightarrow> (Inl KeyError, y)
      | Some c \<Rightarrow> seq (preempt_for c waiting) (\<lambda>stopped. if stopped then preempt_each cands waiting js else ret ()) y)"

fun first_stuck :: "decision list \<Rightarrow> (job_id \<times> job_id list) option" where
  "first_stuck [] = None"
| "first_stuck (Holds j a b gap ps # ds) = (if gap = 0 then first_stuck ds else Some (j, ps))"
| "first_stuck (d # ds) = first_stuck ds"

definition preempt_for_waiting :: "world \<Rightarrow> (unit, sys) eff" where
  "preempt_for_waiting w =
     seq going_away (\<lambda>away.
       if away then ret ()
       else seq (pool_of w) (\<lambda>p.
         if preemptables p = [] then ret ()
         else seq (requests w) (\<lambda>rqs.
           case first_stuck (plan (map snd rqs) p) of
             None \<Rightarrow> ret ()
           | Some (j, ps) \<Rightarrow>
               (case map_of (rev (map (\<lambda>er. (qe_job_id (fst er), fst er)) rqs)) j of
                  None \<Rightarrow> if ps = [] then ret () else throw KeyError
                | Some waiting \<Rightarrow>
                    preempt_each (map_of (rev (map (\<lambda>c. (pe_job_id c, c)) (preemptables p)))) waiting ps))))"

section \<open>Retention\<close>

definition AUTOMATIC :: evidence where "AUTOMATIC = ASKED\<lparr>ev_automatic := True\<rparr>"

fun float_less :: "pyfloat \<Rightarrow> pyfloat \<Rightarrow> bool" where
  "float_less (Fin a) (Fin b) = (a < b)"
| "float_less NegInf b = (b \<noteq> NegInf \<and> b \<noteq> NaN)"
| "float_less a PosInf = (a \<noteq> PosInf \<and> a \<noteq> NaN)"
| "float_less _ _ = False"

definition horizon :: "pyfloat option \<Rightarrow> pyfloat option \<Rightarrow> pyfloat option" where
  "horizon workdir_days purge_days =
     (case (workdir_days, purge_days) of
        (None, p) \<Rightarrow> p
      | (Some a, None) \<Rightarrow> Some a
      | (Some a, Some b) \<Rightarrow> Some (if float_less b a then b else a))"

definition due :: "seconds option \<Rightarrow> seconds \<Rightarrow> seconds \<Rightarrow> bool" where
  "due earlier now interval = (case earlier of None \<Rightarrow> True | Some t \<Rightarrow> \<not> (now - t < interval))"

definition maybe_reclaim :: "world \<Rightarrow> (unit, sys) eff" where
  "maybe_reclaim w y =
     (if \<not> due (dp_last_reclaim_at (sy_disp y)) (wd_now w) RETENTION_INTERVAL_S then (Inr (), y)
      else
        seq (disp (\<lambda>d. d\<lparr>dp_last_reclaim_at := Some (wd_now w)\<rparr>)) (\<lambda>_.
        seq the_config (\<lambda>c.
        seq (case cf_retention_days c of
               None \<Rightarrow> ret ()
             | Some days \<Rightarrow> seq (on_host (purge_job_dirs (wd_fromiso w) (wd_record_bytes w) days False (wd_moment w) None AUTOMATIC)) (\<lambda>_. ret ())) (\<lambda>_.
          case horizon (cf_workdir_days c) (cf_retention_days c) of
            None \<Rightarrow> ret ()
          | Some days \<Rightarrow> seq (on_host (clean (wd_fromiso w) (wd_stamp w) False (Some days) False (wd_moment w) None AUTOMATIC)) (\<lambda>_. ret ())))) y)"

definition sweep_stale_incoming :: "world \<Rightarrow> (unit, sys) eff" where
  "sweep_stale_incoming w y =
     (if \<not> due (dp_last_incoming_sweep_at (sy_disp y)) (wd_now w) RETENTION_INTERVAL_S then (Inr (), y)
      else seq (disp (\<lambda>d. d\<lparr>dp_last_incoming_sweep_at := Some (wd_now w)\<rparr>))
             (\<lambda>_. on_host (\<lambda>h. (Inr (), snd (remove_stale_incoming (wd_moment w) h)))) y)"

section \<open>Failures of a step\<close>

definition guard_step :: "(unit, sys) eff \<Rightarrow> (bool, sys) eff" where
  "guard_step m y =
     (case m y of
        (Inl e, y') \<Rightarrow> (Inr False, y'\<lparr>sy_disp := (sy_disp y')\<lparr>dp_consecutive_failures := dp_consecutive_failures (sy_disp y') + 1\<rparr>\<rparr>)
      | (Inr _, y') \<Rightarrow> (Inr True, y'\<lparr>sy_disp := (sy_disp y')\<lparr>dp_consecutive_failures := 0\<rparr>\<rparr>))"

section \<open>Outputs a terminating host still holds\<close>

fun unconfirmed :: "job_id list \<Rightarrow> host \<Rightarrow> job_id list res" where
  "unconfirmed [] h = Inr []"
| "unconfirmed (j # js) h =
     (case bind_res (read_state j h) (\<lambda>s. map_sum id (Pair s) (read_spec j h)) of
        Inl e \<Rightarrow> if e = RuntimeError \<or> e = ValueError then unconfirmed js h else Inl e
      | Inr (s, spec) \<Rightarrow>
          if st_status s = ''running'' then unconfirmed js h
          else bind_res (outputs_pending j spec s h) (\<lambda>why.
                 map_sum id (\<lambda>rest. if why = None then rest else j # rest) (unconfirmed js h)))"

text \<open>\<open>with suppress(RuntimeError, OSError, KeyError): update_state(\<dots>)\<close>.\<close>

definition record_lost :: "job_id \<Rightarrow> bool \<Rightarrow> (unit, sys) eff" where
  "record_lost j lost =
     try_eff (\<lambda>e. e \<in> {RuntimeError, OSError, FileNotFoundError, FileExistsError, KeyError}) ()
       (seq (on_host (update_state j (\<lambda>s. s\<lparr>st_outputs_lost := lost\<rparr>))) (\<lambda>_. ret ()))"

fun retry_round :: "world \<Rightarrow> nat \<Rightarrow> job_id list \<Rightarrow> (job_id list, sys) eff" where
  "retry_round w n [] y = (Inr [], y)"
| "retry_round w n (j # js) y =
     (if wd_upload w n j then seq (record_lost j False) (\<lambda>_. retry_round w n js) y
      else seq (retry_round w n js) (\<lambda>rest. ret (j # rest)) y)"

text \<open>The rounds \<open>n, \<dots>, OUTPUT_RETRY_ATTEMPTS\<close>; the counter is the rounds left after this one.\<close>

fun retry_rounds :: "world \<Rightarrow> nat \<Rightarrow> nat \<Rightarrow> job_id list \<Rightarrow> (job_id list, sys) eff" where
  "retry_rounds w n 0 pending = retry_round w n pending"
| "retry_rounds w n (Suc left_over) pending =
     seq (retry_round w n pending) (\<lambda>rest.
       if rest = [] \<or> \<not> wd_time_left w n then ret rest else retry_rounds w (Suc n) left_over rest)"

definition retry_unconfirmed_outputs :: "world \<Rightarrow> (unit, sys) eff" where
  "retry_unconfirmed_outputs w =
     seq (asks (\<lambda>y. unconfirmed (list_job_ids (sy_host y)) (sy_host y))) (\<lambda>pending.
       if pending = [] then ret ()
       else seq (retry_rounds w 1 (OUTPUT_RETRY_ATTEMPTS - 1) pending) (\<lambda>lost. for_each (\<lambda>j. record_lost j True) lost))"

section \<open>Terminating an idle host\<close>

definition set_draining :: "bool \<Rightarrow> (unit, sys) eff" where
  "set_draining b = on_host (\<lambda>h. (Inr (), h\<lparr>h_draining := b\<rparr>))"

text \<open>\<open>_final_sync_all\<close>: it raises when the record of any job could not be mirrored.\<close>

definition final_sync_all :: "world \<Rightarrow> hostconfig \<Rightarrow> (unit, sys) eff" where
  "final_sync_all w c = (if blank (cf_s3_prefix c) \<or> wd_mirrored w then ret () else throw RuntimeError)"

definition drain_and_terminate :: "world \<Rightarrow> (bool, sys) eff" where
  "drain_and_terminate w =
     seq (stand_down w) (\<lambda>away.
       if away then ret False
       else
         seq the_config (\<lambda>c.
         seq (set_draining True) (\<lambda>_.
         seq (guard_step (retry_unconfirmed_outputs w)) (\<lambda>_.
         seq (guard_step (final_sync_all w c)) (\<lambda>_.
         seq (stand_down w) (\<lambda>away.
           if away then seq (set_draining False) (\<lambda>_. ret False)
           else if wd_terminated w then seq (disp (\<lambda>d. d\<lparr>dp_should_exit := True\<rparr>)) (\<lambda>_. ret True)
           else seq (set_draining False) (\<lambda>_.
                seq (disp (\<lambda>d. d\<lparr>dp_terminate_retry_at := Some (wd_now w + TERMINATE_RETRY_S)\<rparr>)) (\<lambda>_.
                  ret False))))))))"

definition idle_enough :: "seconds \<Rightarrow> pyfloat \<Rightarrow> bool" where
  "idle_enough idle_s minutes = (case minutes of Fin m \<Rightarrow> idle_s \<ge> m * 60 | NegInf \<Rightarrow> True | _ \<Rightarrow> False)"

definition maybe_terminate :: "world \<Rightarrow> (unit, sys) eff" where
  "maybe_terminate w =
     seq the_config (\<lambda>c y.
       if \<not> ephemeral c then (Inr (), y)
       else if (case dp_terminate_retry_at (sy_disp y) of None \<Rightarrow> False | Some t \<Rightarrow> wd_now w < t) then (Inr (), y)
       else if dp_running (sy_disp y) \<noteq> [] then disp (\<lambda>d. d\<lparr>dp_queue_empty_since := None\<rparr>) y
       else seq the_queue (\<lambda>q.
         if q \<noteq> [] then disp (\<lambda>d. d\<lparr>dp_queue_empty_since := None\<rparr>)
         else
           seq (disp (\<lambda>d. d\<lparr>dp_queue_empty_since :=
               Some (case dp_queue_empty_since d of None \<Rightarrow> wd_now w | Some t \<Rightarrow> t)\<rparr>)) (\<lambda>_ y.
             if idle_enough (wd_now w - the (dp_queue_empty_since (sy_disp y))) (cf_idle_minutes c)
             then seq (drain_and_terminate w) (\<lambda>_. ret ()) y else (Inr (), y))) y)"

section \<open>One pass and the loop\<close>

definition requeue_other_boot :: "world \<Rightarrow> job_id \<Rightarrow> (unit, sys) eff" where
  "requeue_other_boot w j y =
     (if is_running j y then (Inr (), y)
      else try_eff is_runtime () (seq (state_of j) (\<lambda>s.
        if st_status s = ''running'' \<and> from_another_boot (wd_kernel w) (st_runner_boot_id s) (st_runner_init_start s)
        then requeue_restarted w j else ret ())) y)"

definition requeue_other_boots :: "world \<Rightarrow> (unit, sys) eff" where
  "requeue_other_boots w y =
     (if (case dp_requeue_until (sy_disp y) of None \<Rightarrow> True | Some t \<Rightarrow> wd_now w > t) then (Inr (), y)
      else if \<not> due (dp_last_requeue_scan (sy_disp y)) (wd_now w) REQUEUE_SCAN_S then (Inr (), y)
      else seq (disp (\<lambda>d. d\<lparr>dp_last_requeue_scan := Some (wd_now w)\<rparr>))
             (\<lambda>_ y. for_each (requeue_other_boot w) (list_job_ids (sy_host y)) y) y)"

definition fresh_pass :: "dispatcher \<Rightarrow> dispatcher" where
  "fresh_pass d = d\<lparr>dp_cards := None, dp_borrowable := None, dp_queued := None, dp_claimed := None, dp_draining := None\<rparr>"

definition reread_config :: "(unit, sys) eff" where
  "reread_config y =
     (case h_config (sy_host y) of
        Inl e \<Rightarrow> (Inl e, y)
      | Inr c \<Rightarrow> (Inr (), y\<lparr>sy_disp := (sy_disp y)\<lparr>dp_config := Some c\<rparr>\<rparr>))"

definition serve_queue :: "world \<Rightarrow> (unit, sys) eff" where
  "serve_queue w =
     seq (escalate_stops w) (\<lambda>_.
     seq (launch_ready w) (\<lambda>_.
     seq (preempt_for_waiting w) (\<lambda>_.
     seq (disp (\<lambda>d. d\<lparr>dp_queued := None\<rparr>)) (\<lambda>_.
     seq (maybe_reclaim w) (\<lambda>_.
     seq (sweep_stale_incoming w) (\<lambda>_.
       maybe_terminate w))))))"

definition run_once :: "world \<Rightarrow> (unit, sys) eff" where
  "run_once w =
     seq (stand_down w) (\<lambda>away.
       if away then ret ()
       else
         seq reread_config (\<lambda>_.
         seq (requeue_other_boots w) (\<lambda>_.
         seq (disp fresh_pass) (\<lambda>_.
         seq (reap w) (\<lambda>_ y.
           if dp_replaced (sy_disp y) \<noteq> None then (Inr (), y) else serve_queue w y)))))"

definition idle_and_not_ephemeral :: "(bool, sys) eff" where
  "idle_and_not_ephemeral y =
     (if dp_running (sy_disp y) \<noteq> [] then (Inr False, y)
      else seq the_queue (\<lambda>q. if q \<noteq> [] then ret False else seq the_config (\<lambda>c. ret (\<not> ephemeral c))) y)"

text \<open>
  The loop of \<open>run\<close>, one world per turn: the exit code, an exception that ends the process,
  or \<open>None\<close> while it would go on.
\<close>

fun run_loop :: "world list \<Rightarrow> sys \<Rightarrow> int res option \<times> sys" where
  "run_loop [] y = (None, y)"
| "run_loop (w # ws) y =
     (if dp_should_exit (sy_disp y) then (Some (Inr 0), y)
      else (case guard_step (run_once w) y of
          (Inl e, y1) \<Rightarrow> (Some (Inl e), y1)
        | (Inr healthy, y1) \<Rightarrow>
            if dp_consecutive_failures (sy_disp y1) \<ge> MAX_CONSECUTIVE_FAILURES then (Some (Inr 1), y1)
            else if healthy
            then (case idle_and_not_ephemeral y1 of
                (Inl e, y2) \<Rightarrow> (Some (Inl e), y2)
              | (Inr True, y2) \<Rightarrow> (Some (Inr 0), y2)
              | (Inr False, y2) \<Rightarrow> run_loop ws y2)
            else run_loop ws y1))"

end
