(* ===== verification/System.thy ===== *)
theory System
  imports Dispatcher
begin

text \<open>
  A dispatcher, its runners and the commands of other processes on one host, in any order
  of steps. What a job holds is the cards of its entry in the dispatcher and the cards its
  state names while it is running. Every step but a launch leaves each job with no more
  than it held; a launch adds cards nothing held. So no card is ever under two jobs.
\<close>

section \<open>What a job holds\<close>

definition disk_cards :: "job_id \<Rightarrow> host \<Rightarrow> uuid set" where
  "disk_cards j h =
     (case read_state j h of
        Inl e \<Rightarrow> {}
      | Inr s \<Rightarrow> if st_status s = ''running'' then set (st_gpus s) else {})"

definition entry_cards :: "job_id \<Rightarrow> dispatcher \<Rightarrow> uuid set" where
  "entry_cards j d = (case map_of (dp_running d) j of None \<Rightarrow> {} | Some e \<Rightarrow> set (en_gpus e))"

definition held :: "job_id \<Rightarrow> sys \<Rightarrow> uuid set" where
  "held j y = entry_cards j (sy_disp y) \<union> disk_cards j (sy_host y)"

definition exclusive :: "sys \<Rightarrow> bool" where
  "exclusive y \<longleftrightarrow> (\<forall>j k. j \<noteq> k \<longrightarrow> held j y \<inter> held k y = {})"

definition sys_ok :: "sys \<Rightarrow> bool" where
  "sys_ok y \<longleftrightarrow> host_ok (sy_host y) \<and> distinct (map fst (dp_running (sy_disp y)))"

section \<open>Steps that hold no more\<close>

definition fewer :: "sys \<Rightarrow> sys \<Rightarrow> bool" where
  "fewer y y' \<longleftrightarrow> (sys_ok y \<longrightarrow> sys_ok y' \<and> (\<forall>k. held k y' \<subseteq> held k y))"

definition caches :: "sys \<Rightarrow> resolution option \<times> (uuid list \<times> nat) option \<times> uuid list option" where
  "caches y = (dp_cards (sy_disp y), dp_borrowable (sy_disp y), dp_claimed (sy_disp y))"

definition shrinks :: "sys \<Rightarrow> sys \<Rightarrow> bool" where
  "shrinks y y' \<longleftrightarrow> fewer y y' \<and> caches y' = caches y"

text \<open>Neither the host nor an entry changes.\<close>

definition same :: "sys \<Rightarrow> sys \<Rightarrow> bool" where
  "same y y' \<longleftrightarrow> sy_host y' = sy_host y \<and> dp_running (sy_disp y') = dp_running (sy_disp y)"

interpretation few: climbing fewer
  by unfold_locales (auto simp: fewer_def)

interpretation shr: climbing shrinks
  by unfold_locales (auto simp: shrinks_def fewer_def)

interpretation sam: climbing same
  by unfold_locales (simp_all add: same_def)

lemma shrinks_fewer: "shrinks y y' \<Longrightarrow> fewer y y'"
  by (simp add: shrinks_def)

lemma same_fewer: "same y y' \<Longrightarrow> fewer y y'"
  by (simp add: same_def fewer_def held_def entry_cards_def sys_ok_def)

lemma calm_disk:
  assumes "host_rel calm h h'"
  shows "disk_cards k h' \<subseteq> disk_cards k h"
proof (cases "read_state k h'")
  case (Inr s')
  note r' = Inr
  show ?thesis
  proof (cases "read_state k h")
    case (Inl e)
    have "st_status s' = ''queued''"
      using assms Inl r' unfolding host_rel_def by (fastforce dest: spec [of _ k])
    then show ?thesis using r' by (simp add: disk_cards_def)
  next
    case (Inr s)
    have "\<not> has_job k h' \<or> (\<exists>t. read_state k h' = Inr t \<and> (t = s \<or> calm s t))"
      using assms Inr unfolding host_rel_def by (fastforce dest: spec [of _ k])
    then have "s' = s \<or> calm s s'" using r' readable_has_job [OF r'] by simp
    then show ?thesis using Inr r' by (auto simp: disk_cards_def calm_def)
  qed
qed (simp add: disk_cards_def)

lemma on_host_fewer:
  assumes "\<And>h. host_ok h \<Longrightarrow> host_rel calm h (snd (f h))"
  shows "shrinks y (snd (on_host f y))"
proof -
  obtain r h where f: "f (sy_host y) = (r, h)" by fastforce
  have "fewer y (y\<lparr>sy_host := h\<rparr>)"
    using assms [of "sy_host y"] calm_disk host_moves_ok calm_moves f
    by (fastforce simp: fewer_def held_def sys_ok_def)
  then show ?thesis using f by (simp add: on_host_def shrinks_def caches_def)
qed

text \<open>A change of the dispatcher that touches neither the entries nor the caches.\<close>

lemma disp_shrinks:
  assumes "\<And>d. dp_running (f d) = dp_running d" "\<And>d. dp_cards (f d) = dp_cards d"
    "\<And>d. dp_borrowable (f d) = dp_borrowable d" "\<And>d. dp_claimed (f d) = dp_claimed d"
  shows "shrinks y (snd (disp f y))"
  using assms by (simp add: disp_def shrinks_def fewer_def held_def entry_cards_def caches_def sys_ok_def)

lemma with_disp_shrinks:
  assumes "dp_running d = dp_running (sy_disp y)" "dp_cards d = dp_cards (sy_disp y)"
    "dp_borrowable d = dp_borrowable (sy_disp y)" "dp_claimed d = dp_claimed (sy_disp y)"
  shows "shrinks y (y\<lparr>sy_disp := d\<rparr>)"
  using assms by (simp add: shrinks_def fewer_def held_def entry_cards_def caches_def sys_ok_def)

lemma signals_shrinks: "shrinks y (snd (signals es y))"
  by (simp add: signals_def shrinks_def fewer_def held_def caches_def sys_ok_def)

lemma pure_shrinks: "shrinks y (snd (ret x y))" "shrinks y (snd (throw e y))" "shrinks y (snd (asks f y))"
  by (simp_all add: shr.refl)

lemma drop_entry_shrinks: "shrinks y (snd (drop_entry j y))"
  by (auto simp: drop_entry_def disp_def shrinks_def fewer_def held_def entry_cards_def caches_def sys_ok_def
      delete_conv' distinct_delete)

lemma adopt_shrinks:
  assumes "read_state j (sy_host y) = Inr s" and "sys_ok y \<longrightarrow> st_status s = ''running''"
  shows "shrinks y (snd (set_entry j (adopted s) y))"
  using assms
  by (auto simp: set_entry_def disp_def shrinks_def fewer_def held_def entry_cards_def caches_def sys_ok_def
      disk_cards_def adopted_def update_conv' distinct_update)

lemma stand_down_shrinks: "shrinks y (snd (stand_down w y))"
  by (auto simp: stand_down_def shrinks_def fewer_def held_def entry_cards_def caches_def sys_ok_def split: option.split)

lemma state_of_shrinks: "shrinks y (snd (state_of j y))"
  by (simp add: state_of_def shr.refl)

lemma finish_shrinks:
  assumes "oc_status oc \<in> set FINISHED_STATUSES" and "expect = ''running'' \<or> expect = ''queued''"
  shows "shrinks y (snd (on_host (Host.finish j oc expect forget now id) y))"
  by (rule on_host_fewer) (rule finish_calm [OF _ assms], simp_all)

lemma settle_shrinks: "shrinks y (snd (settle_job_secrets j s y))"
  unfolding settle_job_secrets_def
  by (intro shr.seq_le on_host_fewer host_rel_same settle_secrets_states pure_shrinks)

lemmas shrink_rules = shr.seq_le shr.try_le shr.refl pure_shrinks stand_down_shrinks state_of_shrinks finish_shrinks
  settle_shrinks signals_shrinks drop_entry_shrinks

lemma failed_as_finished: "oc_status (failed_as r) \<in> set FINISHED_STATUSES"
  by (simp add: failed_as_def)

lemma forget_queued_shrinks: "shrinks y (snd (forget_queued j y))"
  unfolding forget_queued_def by (rule disp_shrinks) simp_all

lemma fail_queued_shrinks: "shrinks y (snd (fail_queued w j reason y))"
  unfolding fail_queued_def
  by (rule shr.seq_le [OF stand_down_shrinks])
    (auto intro!: shrink_rules failed_as_finished forget_queued_shrinks split: if_splits option.split)

lemma mark_runner_died_shrinks:
  assumes "expect = ''running'' \<or> expect = ''queued''"
  shows "shrinks y (snd (mark_runner_died w j expect y))"
  unfolding mark_runner_died_def using assms
  by (intro shr.seq_le [OF stand_down_shrinks])
    (auto intro!: shrink_rules failed_as_finished split: option.split)

lemma requeue_restarted_shrinks: "shrinks y (snd (requeue_restarted w j y))"
  unfolding requeue_restarted_def
  by (intro shr.seq_le [OF stand_down_shrinks])
    (auto intro!: shrink_rules on_host_fewer requeue_calm split: option.split)

lemma adopt_one_shrinks: "shrinks y (snd (adopt_one w j y))"
  by (auto simp: adopt_one_def requeue_restarted_shrinks mark_runner_died_shrinks adopt_shrinks shr.refl split: sum.split)

lemma adopt_orphans_shrinks: "shrinks y (snd (adopt_orphans w y))"
  unfolding adopt_orphans_def by (rule shr.for_each_le) (rule adopt_one_shrinks)

lemma not_queued_running: "state_ok s \<Longrightarrow> \<not> finished s \<Longrightarrow> st_status s \<noteq> ''queued'' \<Longrightarrow> st_status s = ''running''"
  by (simp add: state_ok_def)

lemma settle_entry_shrinks: "shrinks y (snd (settle_entry w j e y))"
proof (cases "read_state j (sy_host y)")
  case (Inr s)
  have "sys_ok y \<longrightarrow> \<not> finished s \<longrightarrow> st_status s \<noteq> ''queued'' \<longrightarrow> st_status s = ''running''"
    using not_queued_running Inr by (auto simp: sys_ok_def host_ok_def)
  then show ?thesis using Inr
    by (simp add: settle_entry_def Let_def shr.refl mark_runner_died_shrinks adopt_shrinks)
qed (simp add: settle_entry_def shr.refl)

lemma reap_shrinks: "shrinks y (snd (reap w y))"
  unfolding reap_def reap_one_def
  by (rule shr.for_each_le) (auto intro!: shrink_rules settle_entry_shrinks)

lemma escalate_stops_shrinks: "shrinks y (snd (escalate_stops w y))"
  unfolding escalate_stops_def
proof (rule shr.for_each_le)
  fix j t
  show "shrinks t (snd (escalate_one w j t))"
    unfolding escalate_one_def state_or_empty_def
    by (intro shr.seq_le shr.try_le state_of_shrinks)
      (auto simp: Let_def intro!: shr.seq_le disp_shrinks signals_shrinks shr.refl pure_shrinks)
qed

lemma the_config_shrinks: "shrinks y (snd (the_config y))"
  by (auto simp: the_config_def shr.refl intro!: with_disp_shrinks split: option.split sum.split)

lemma the_queue_shrinks: "shrinks y (snd (the_queue y))"
  by (auto simp: the_queue_def shr.refl intro!: with_disp_shrinks split: option.split sum.split)

lemma requests_from_shrinks: "shrinks y (snd (requests_from w es y))"
proof (induction es arbitrary: y)
  case (Cons e es)
  show ?case
    by (auto simp: Cons.IH shr.refl split: sum.split
        intro!: shr.seq_le fail_queued_shrinks the_config_shrinks pure_shrinks)
qed (simp add: shr.refl)

lemma requests_shrinks: "shrinks y (snd (requests w y))"
  unfolding requests_def by (intro shr.seq_le the_queue_shrinks requests_from_shrinks)

lemma going_away_shrinks: "shrinks y (snd (going_away y))"
  by (auto simp: going_away_def Let_def shr.refl intro!: with_disp_shrinks split: option.split)

section \<open>Steps that only read\<close>

lemma the_config_same: "same y (snd (the_config y))"
  by (auto simp: the_config_def same_def split: option.split sum.split)

lemma with_disp_same: "dp_running d = dp_running (sy_disp y) \<Longrightarrow> same y (y\<lparr>sy_disp := d\<rparr>)"
  by (simp add: same_def)

lemma resolution_same: "same y (snd (resolution_of w y))"
proof -
  have cfg: "same y (snd (seq the_config (\<lambda>c y. let r = f c in (Inr r, y\<lparr>sy_disp := (sy_disp y)\<lparr>dp_cards := Some r\<rparr>\<rparr>))
      (y\<lparr>sy_disp := (sy_disp y)\<lparr>dp_table_error := m\<rparr>\<rparr>)))" for f m
    by (rule sam.trans [of _ "y\<lparr>sy_disp := (sy_disp y)\<lparr>dp_table_error := m\<rparr>\<rparr>"])
      (auto intro!: with_disp_same sam.seq_le the_config_same simp: Let_def)
  show ?thesis
    by (auto simp: resolution_of_def sam.refl cfg split: option.split sum.split smi_error.split)
qed

lemma claimed_same: "same y (snd (claimed_gpus y))"
  by (auto simp: claimed_gpus_def same_def split: option.split sum.split)

lemma busy_same: "same y (snd (busy_gpus y))"
  unfolding busy_gpus_def by (intro sam.seq_le claimed_same) (simp add: sam.refl)

lemma free_same: "same y (snd (free_gpus w y))"
  unfolding free_gpus_def by (intro sam.seq_le busy_same resolution_same) (simp add: sam.refl)

lemma borrow_reading_same: "same y (snd (borrow_reading w busy y))"
  unfolding borrow_reading_def
  by (auto intro!: sam.seq_le resolution_same with_disp_same simp: sam.refl split: option.split sum.split smi_error.split)

lemma borrowable_same: "same y (snd (borrowable_gpus w y))"
  unfolding borrowable_gpus_def by (intro sam.seq_le busy_same borrow_reading_same) (simp add: sam.refl)

lemma auto_preemptable_same: "same y (snd (auto_preemptable w y))"
  unfolding auto_preemptable_def by (intro sam.seq_le resolution_same) (simp add: sam.refl)

lemma pool_same: "same y (snd (pool_of w y))"
  unfolding pool_of_def
  by (intro sam.seq_le resolution_same free_same borrowable_same auto_preemptable_same) (simp_all add: sam.refl)

lemma patience_same: "same y (snd (patience w y))"
  by (simp add: patience_def Let_def same_def)

section \<open>The pool offers nothing that is held\<close>

definition resolved :: "resolution \<Rightarrow> bool" where
  "resolved r \<longleftrightarrow> distinct (rs_owned r) \<and> distinct (rs_shared r) \<and> set (rs_owned r) \<inter> set (rs_shared r) = {}"

lemma resolved_resolve: "resolved (resolve owned table sh)"
  using resolve_cards by (simp add: resolved_def)

lemma the_config_caches: "the_config y = (r, y') \<Longrightarrow> caches y' = caches y"
  by (auto simp: the_config_def caches_def split: option.splits sum.splits)

lemma resolution_fresh:
  assumes "resolution_of w y = (Inr r, y')" and "dp_cards (sy_disp y) = None"
  shows "resolved r \<and> caches y' = (Some r, dp_borrowable (sy_disp y), dp_claimed (sy_disp y))"
proof -
  obtain table c m y1 where r: "r = resolve (cf_gpus c) table (cf_shared_gpus c)"
    and c: "the_config (y\<lparr>sy_disp := (sy_disp y)\<lparr>dp_table_error := m\<rparr>\<rparr>) = (Inr c, y1)"
    and y': "y' = y1\<lparr>sy_disp := (sy_disp y1)\<lparr>dp_cards := Some r\<rparr>\<rparr>"
    using assms by (auto simp: resolution_of_def seq_Inr Let_def split: sum.splits smi_error.splits)
  have "caches y1 = caches y" using the_config_caches [OF c] by (simp add: caches_def)
  then show ?thesis using r y' resolved_resolve by (simp add: caches_def)
qed

lemma resolution_cached: "dp_cards (sy_disp y) = Some r \<Longrightarrow> resolution_of w y = (Inr r, y)"
  by (simp add: resolution_of_def)

lemma claimed_by_covers:
  assumes "claimed_by js h = Inr cs" and "k \<in> set js"
  shows "disk_cards k h \<subseteq> set cs"
  using assms
proof (induction js arbitrary: cs)
  case (Cons j js)
  then show ?case
    by (cases "read_state j h") (auto simp: disk_cards_def map_sum_Inr split: if_splits)
qed simp

lemma disk_cards_listed: "disk_cards k h \<noteq> {} \<Longrightarrow> k \<in> set (list_job_ids h)"
  using readable_has_job has_job_ids by (auto simp: disk_cards_def split: sum.splits)

lemma claimed_covers:
  assumes "claimed_gpus y = (Inr cs, y')" and "dp_claimed (sy_disp y) = None"
  shows "disk_cards k (sy_host y) \<subseteq> set cs \<and>
    caches y' = (dp_cards (sy_disp y), dp_borrowable (sy_disp y), Some cs)"
proof -
  have c: "claimed_by (list_job_ids (sy_host y)) (sy_host y) = Inr cs"
    and y': "caches y' = (dp_cards (sy_disp y), dp_borrowable (sy_disp y), Some cs)"
    using assms by (auto simp: claimed_gpus_def caches_def split: sum.splits)
  show ?thesis using y' claimed_by_covers [OF c] disk_cards_listed by blast
qed

definition entry_list :: "dispatcher \<Rightarrow> uuid list" where
  "entry_list d = concat (map (en_gpus \<circ> snd) (dp_running d))"

lemma entry_listed: "entry_cards k d \<subseteq> set (entry_list d)"
  by (force simp: entry_cards_def entry_list_def split: option.splits dest: map_of_SomeD)

lemma busy_fresh:
  assumes "busy_gpus y = (Inr busy, y')" and "dp_claimed (sy_disp y) = None"
  obtains cs where "busy = entry_list (sy_disp y) @ cs" "\<And>k. held k y \<subseteq> set busy"
    "caches y' = (dp_cards (sy_disp y), dp_borrowable (sy_disp y), Some cs)"
    "dp_running (sy_disp y') = dp_running (sy_disp y)"
proof -
  from assms(1) obtain cs where c: "claimed_gpus y = (Inr cs, y')"
    and b: "busy = entry_list (sy_disp y') @ cs"
    by (auto simp: busy_gpus_def seq_Inr entry_list_def)
  have same: "dp_running (sy_disp y') = dp_running (sy_disp y)"
    using claimed_same [of y] c by (simp add: same_def)
  then have b': "busy = entry_list (sy_disp y) @ cs" using b by (simp add: entry_list_def)
  have "held k y \<subseteq> set busy" for k
    using claimed_covers [OF c assms(2), of k] entry_listed [of k "sy_disp y"] b' by (auto simp: held_def)
  with b' same claimed_covers [OF c assms(2)] show ?thesis by (intro that) auto
qed

lemma busy_cached:
  "dp_claimed (sy_disp y) = Some cs \<Longrightarrow> busy_gpus y = (Inr (entry_list (sy_disp y) @ cs), y)"
  by (simp add: busy_gpus_def claimed_gpus_def seq_def entry_list_def)

lemma borrow_fresh:
  assumes "borrow_reading w busy y = (Inr b, y')" and "dp_borrowable (sy_disp y) = None"
    and "dp_cards (sy_disp y) = Some r" and "resolved r"
  shows "distinct (fst b) \<and> set (fst b) \<subseteq> set (rs_shared r) - set busy"
proof -
  obtain used where u: "unused_gpus (filter (\<lambda>u. u \<notin> set busy) (rs_shared r)) (wd_smi w) = Inr (fst b, used)"
    using assms(1-3) resolution_cached [OF assms(3), of w]
    by (auto simp: borrow_reading_def split: sum.splits smi_error.splits prod.splits)
  show ?thesis using unused_split [OF u] assms(4) by (auto simp: resolved_def)
qed

lemma pool_free:
  assumes "pool_of w y = (Inr p, y')" and "caches y = (None, None, None)"
  shows "pool_wf p \<and> (\<forall>k. offered p \<inter> held k y = {})"
proof -
  from assms(1) obtain r y1 free y2 b y3 where
    r: "resolution_of w y = (Inr r, y1)" and free: "free_gpus w y1 = (Inr free, y2)"
    and b: "borrowable_gpus w y2 = (Inr b, y3)"
    and p: "owned_free p = free" "sample p = Some b" "shared_free p = None"
    by (auto simp: pool_of_def seq_Inr)
  have c0: "dp_cards (sy_disp y) = None" "dp_borrowable (sy_disp y) = None" "dp_claimed (sy_disp y) = None"
    using assms(2) by (simp_all add: caches_def)
  from resolution_fresh [OF r c0(1)] c0 have ok: "resolved r"
    and c1: "dp_cards (sy_disp y1) = Some r" "dp_borrowable (sy_disp y1) = None" "dp_claimed (sy_disp y1) = None"
    by (simp_all add: caches_def)
  have same1: "sy_host y1 = sy_host y" "dp_running (sy_disp y1) = dp_running (sy_disp y)"
    using resolution_same [of y w] r by (simp_all add: same_def)
  then have held1: "held k y1 = held k y" for k by (simp add: held_def entry_cards_def)
  from free obtain busy ya where busy: "busy_gpus y1 = (Inr busy, ya)"
    and free': "seq (resolution_of w) (\<lambda>r. ret (filter (\<lambda>u. u \<notin> set busy) (rs_owned r))) ya = (Inr free, y2)"
    by (auto simp: free_gpus_def seq_Inr)
  from busy_fresh [OF busy c1(3)] obtain cs where cs: "busy = entry_list (sy_disp y1) @ cs"
    "\<And>k. held k y1 \<subseteq> set busy" "caches ya = (dp_cards (sy_disp y1), dp_borrowable (sy_disp y1), Some cs)"
    "dp_running (sy_disp ya) = dp_running (sy_disp y1)" by blast
  have ya: "dp_cards (sy_disp ya) = Some r" "dp_borrowable (sy_disp ya) = None" "dp_claimed (sy_disp ya) = Some cs"
    using cs(3) c1 by (simp_all add: caches_def)
  have y2: "y2 = ya" "free = filter (\<lambda>u. u \<notin> set busy) (rs_owned r)"
    using free' resolution_cached [OF ya(1), of w] by auto
  have "busy_gpus ya = (Inr busy, ya)"
    using busy_cached [OF ya(3)] cs(1,4) by (simp add: entry_list_def)
  then obtain bb yb where bb: "borrow_reading w busy ya = (Inr bb, yb)" "fst b = filter (\<lambda>u. u \<notin> set busy) (fst bb)"
    using b y2(1) by (auto simp: borrowable_gpus_def seq_Inr)
  from borrow_fresh [OF bb(1) ya(2,1) ok] have bf: "distinct (fst bb)" "set (fst bb) \<subseteq> set (rs_shared r) - set busy" by simp_all
  have reading: "reading p = fst b" using p by (simp add: reading_def borrowable_def split: prod.split)
  have "pool_wf p" using ok bf y2(2) bb(2) reading p(1) by (auto simp: pool_wf_def resolved_def)
  moreover have "offered p \<inter> set busy = {}" using y2(2) bb(2) reading p(1) by (auto simp: offered_def)
  ultimately show ?thesis using cs(2) held1 by blast
qed

section \<open>A launch adds only what the rule assigned\<close>

definition grows :: "job_id \<Rightarrow> uuid set \<Rightarrow> sys \<Rightarrow> sys \<Rightarrow> bool" where
  "grows j A y y' \<longleftrightarrow> (sys_ok y \<longrightarrow> sys_ok y' \<and> (\<forall>k. held k y' \<subseteq> held k y \<union> (if k = j then A else {})))"

lemma fewer_grows: "fewer y y' \<Longrightarrow> grows j A y y'"
  by (auto simp: fewer_def grows_def)

lemma grows_trans: "fewer y t \<Longrightarrow> grows j A t u \<Longrightarrow> grows j A y u"
  unfolding fewer_def grows_def by blast

lemma trans_grows: "grows j A y t \<Longrightarrow> fewer t u \<Longrightarrow> grows j A y u"
  unfolding fewer_def grows_def by blast

lemma set_entry_grows: "grows j (set (en_gpus e)) y (snd (set_entry j e y))"
  by (auto simp: set_entry_def disp_def grows_def held_def entry_cards_def sys_ok_def update_conv' distinct_update)

lemma note_fewer: "fewer y (snd (on_host (\<lambda>h. (Inr x, note_log j m h)) y))"
  by (rule shrinks_fewer, rule on_host_fewer) (simp add: host_rel_same)

lemma claimed_none_fewer: "fewer y (snd (disp (\<lambda>d. d\<lparr>dp_claimed := None\<rparr>) y))"
  by (simp add: disp_def same_fewer same_def)

lemma spawn_grows:
  assumes "\<And>t. fewer t (snd (m t))"
  shows "grows j (set cards) y
     (snd (seq (set_entry j (spawned cards attempt pid)) (\<lambda>_. seq (resolution_of w) (\<lambda>_. m)) y))"
proof -
  obtain y1 where y1: "set_entry j (spawned cards attempt pid) y = (Inr (), y1)"
    by (simp add: set_entry_def disp_def)
  have "grows j (set cards) y y1"
    using set_entry_grows [of j "spawned cards attempt pid" y] y1 by (simp add: spawned_def)
  moreover have "fewer y1 (snd (seq (resolution_of w) (\<lambda>_. m) y1))"
    by (intro few.seq_le same_fewer [OF resolution_same] assms)
  ultimately show ?thesis using trans_grows y1 by simp
qed

lemma launch_grows: "grows j (set cards) y (snd (launch w j cards attempt held_for y))"
proof -
  obtain y1 where y1: "disp (\<lambda>d. d\<lparr>dp_claimed := None\<rparr>) y = (Inr (), y1)" "fewer y y1"
    using claimed_none_fewer [of y] by (simp add: disp_def)
  show ?thesis
  proof (cases "claimed_gpus y1")
    case (Pair r y2)
    have f2: "fewer y y2" using y1(2) same_fewer [OF claimed_same [of y1]] Pair few.trans by fastforce
    show ?thesis
    proof (cases r)
      case (Inl e)
      then show ?thesis using Pair y1 f2 fewer_grows by (simp add: launch_def)
    next
      case (Inr cs)
      obtain a y3 where y3: "stand_down w y2 = (Inr a, y3)"
        by (cases "stand_down w y2" rule: prod.exhaust) (auto simp: stand_down_def split: if_splits option.splits)
      have f3: "fewer y y3" using few.trans [OF f2 shrinks_fewer [OF stand_down_shrinks [of y2 w]]] y3 by simp
      let ?note = "if held_for = [] then ret () else on_host (\<lambda>h. (Inr (), note_log j (''auto_preempt: started on card(s) held for job ''
                   @ join '', '' held_for @ '', and stopped when that job can start'') h))"
      have quiet: "fewer t (snd (?note t))" for t by (simp add: few.refl note_fewer del: append.simps)
      consider (busy) "set cards \<inter> set cs \<noteq> {}" | (away) "set cards \<inter> set cs = {}" "a"
        | (failed) "set cards \<inter> set cs = {}" "\<not> a" "wd_spawn w j cards attempt = None"
        | (started) pid where "set cards \<inter> set cs = {}" "\<not> a" "wd_spawn w j cards attempt = Some pid"
        by (cases "wd_spawn w j cards attempt") auto
      then show ?thesis
      proof cases
        case busy
        then have "launch w j cards attempt held_for y = (Inr (), y2)" using Pair Inr y1(1) by (simp add: launch_def)
        then show ?thesis using fewer_grows [OF f2] by simp
      next
        case away
        then have "launch w j cards attempt held_for y = (Inr (), y3)" using Pair Inr y1(1) y3 by (simp add: launch_def)
        then show ?thesis using fewer_grows [OF f3] by simp
      next
        case failed
        then have "launch w j cards attempt held_for y = fail_queued w j ''spawn-failed'' y3"
          using Pair Inr y1(1) y3 by (simp add: launch_def)
        then show ?thesis using grows_trans [OF f3 fewer_grows [OF shrinks_fewer [OF fail_queued_shrinks]]] by simp
      next
        case started
        then have "launch w j cards attempt held_for y =
            seq (set_entry j (spawned cards attempt pid)) (\<lambda>_. seq (resolution_of w) (\<lambda>_. ?note)) y3"
          using Pair Inr y1(1) y3 by (simp add: launch_def del: append.simps)
        then show ?thesis using grows_trans [OF f3 spawn_grows [OF quiet]] by simp
      qed
    qed
  qed
qed

lemma act_on_grows: "grows (decision_job d) (decision_cards d) y (snd (act_on w patient rqs d y))"
  by (cases d) (auto simp: fewer_grows few.refl shrinks_fewer fail_queued_shrinks launch_grows split: option.split)

text \<open>The loop over the decisions: each takes cards nothing holds, not even one taken before.\<close>

lemma act_loop_exclusive:
  assumes "sys_ok y" and "exclusive y"
    and "\<And>d k. d \<in> set ds \<Longrightarrow> decision_cards d \<inter> held k y = {}"
    and "\<And>i k. i < k \<Longrightarrow> k < length ds \<Longrightarrow> decision_cards (ds ! i) \<inter> decision_cards (ds ! k) = {}"
  shows "sys_ok (snd (for_each (act_on w patient rqs) ds y)) \<and> exclusive (snd (for_each (act_on w patient rqs) ds y))"
  using assms
proof (induction ds arbitrary: y)
  case (Cons d ds)
  obtain r y1 where y1: "act_on w patient rqs d y = (r, y1)" by fastforce
  have g: "sys_ok y1" "held k y1 \<subseteq> held k y \<union> (if k = decision_job d then decision_cards d else {})" for k
    using act_on_grows [of d y w patient rqs] y1 Cons.prems(1) by (simp_all add: grows_def)
  have free: "decision_cards d \<inter> held k y = {}" for k using Cons.prems(3) by simp
  have ex: "exclusive y1"
    unfolding exclusive_def
  proof (intro allI impI)
    fix j k :: job_id
    assume jk: "j \<noteq> k"
    let ?c = "\<lambda>k. if k = decision_job d then decision_cards d else {}"
    have "?c j \<inter> ?c k = {}" using jk by auto
    moreover have "held j y \<inter> held k y = {}" using jk Cons.prems(2) by (simp add: exclusive_def)
    moreover have "?c j \<inter> held k y = {}" "?c k \<inter> held j y = {}" using free by simp_all
    ultimately have "(held j y \<union> ?c j) \<inter> (held k y \<union> ?c k) = {}" by blast
    then show "held j y1 \<inter> held k y1 = {}" using g(2) [of j] g(2) [of k] by blast
  qed
  have rest: "decision_cards d' \<inter> held k y1 = {}" if in_ds: "d' \<in> set ds" for d' k
  proof -
    obtain i where i: "i < length ds" "d' = ds ! i" using in_ds by (auto simp: in_set_conv_nth)
    have "decision_cards d \<inter> decision_cards d' = {}" using Cons.prems(4) [of 0 "Suc i"] i by simp
    moreover have "decision_cards d' \<inter> held k y = {}" using Cons.prems(3) in_ds by simp
    ultimately show ?thesis using g(2) [of k] by (auto split: if_splits)
  qed
  have dis: "decision_cards (ds ! i) \<inter> decision_cards (ds ! k) = {}" if "i < k" "k < length ds" for i k
    using Cons.prems(4) [of "Suc i" "Suc k"] that by simp
  show ?case
    using y1 g(1) ex Cons.IH [OF g(1) ex rest dis] by (cases r) simp_all
qed simp

lemma plan_decisions_disjoint:
  assumes "pool_wf p" and "i < k" and "k < length (plan rs p)"
  shows "decision_cards (plan rs p ! i) \<inter> decision_cards (plan rs p ! k) = {}"
  using pw.run_takes_disjoint [of "start_walk p" i k rs] assms by (simp add: plan_def pw.length_run)

lemma plan_decisions_offered:
  assumes "pool_wf p" and "d \<in> set (plan rs p)"
  shows "decision_cards d \<subseteq> offered p"
proof -
  obtain i where "i < length (plan rs p)" "d = plan rs p ! i" using assms(2) by (auto simp: in_set_conv_nth)
  then show ?thesis
    using pw.run_takes_from_start [of "start_walk p" i rs] assms(1) by (simp add: plan_def pw.length_run)
qed

lemma launch_ready_exclusive:
  assumes "sys_ok y" and "exclusive y" and "caches y = (None, None, None)"
  shows "sys_ok (snd (launch_ready w y)) \<and> exclusive (snd (launch_ready w y))"
proof -
  have down: "sys_ok t \<and> exclusive t" if "fewer y t" for t
    using that assms(1,2) unfolding fewer_def exclusive_def by blast
  obtain a y1 where y1: "going_away y = (Inr a, y1)"
    by (cases "going_away y") (auto simp: going_away_def Let_def split: option.splits)
  have s1: "shrinks y y1" using going_away_shrinks [of y] y1 by simp
  obtain r2 y2 where y2: "requests w y1 = (r2, y2)" by fastforce
  have s2: "shrinks y y2" using requests_shrinks [of y1 w] y2 shr.trans [OF s1] by simp
  obtain r3 y3 where y3: "pool_of w y2 = (r3, y3)" by fastforce
  have s3: "same y2 y3" using pool_same [of y2 w] y3 by simp
  have f3: "fewer y y3" using few.trans [OF shrinks_fewer [OF s2] same_fewer [OF s3]] .
  show ?thesis
  proof (cases "a \<or> (\<exists>e. r2 = Inl e) \<or> (\<exists>e. r3 = Inl e)")
    case True
    then show ?thesis
      using y1 y2 y3 down [OF shrinks_fewer [OF s1]] down [OF shrinks_fewer [OF s2]] down [OF f3]
      by (cases a; cases r2; cases r3) (simp_all add: launch_ready_def)
  next
    case False
    then obtain rqs p where rp: "\<not> a" "r2 = Inr rqs" "r3 = Inr p" by (cases r2; cases r3) auto
    have "caches y2 = (None, None, None)" using s2 assms(3) by (simp add: shrinks_def)
    from pool_free [OF y3 [unfolded rp(3)] this] have wf: "pool_wf p" and off: "\<And>k. offered p \<inter> held k y2 = {}" by blast+
    obtain pt y4 where y4: "patience w y3 = (Inr pt, y4)" by (simp add: patience_def Let_def)
    have s4: "same y2 y4" using sam.trans [OF s3] patience_same [of y3 w] y4 by simp
    have f4: "fewer y y4" using few.trans [OF shrinks_fewer [OF s2] same_fewer [OF s4]] .
    have held4: "held k y4 = held k y2" for k using s4 by (simp add: same_def held_def entry_cards_def)
    have "launch_ready w y = for_each (act_on w pt rqs) (plan (map snd rqs) p) y4"
      using y1 y2 y3 y4 rp by (simp add: launch_ready_def)
    moreover have "sys_ok (snd (for_each (act_on w pt rqs) (plan (map snd rqs) p) y4)) \<and>
        exclusive (snd (for_each (act_on w pt rqs) (plan (map snd rqs) p) y4))"
      using down [OF f4] plan_decisions_offered [OF wf] off plan_decisions_disjoint [OF wf]
      by (intro act_loop_exclusive) (auto simp: held4, blast+)
    ultimately show ?thesis by simp
  qed
qed

section \<open>The rest of a pass holds no more\<close>

lemma pure_fewer: "fewer y (snd (ret x y))" "fewer y (snd (throw e y))" "fewer y (snd (asks f y))"
  by (simp_all add: few.refl)

lemma with_disp_fewer: "dp_running d = dp_running (sy_disp y) \<Longrightarrow> fewer y (y\<lparr>sy_disp := d\<rparr>)"
  by (rule same_fewer) (simp add: same_def)

lemma disp_fewer: "(\<And>d. dp_running (f d) = dp_running d) \<Longrightarrow> fewer y (snd (disp f y))"
  by (simp add: disp_def with_disp_fewer)

lemma preempt_for_fewer: "fewer y (snd (preempt_for c waiting y))"
proof -
  obtain r h where p: "preempt (pe_job_id c) None (sy_host y) = (r, h)" by fastforce
  have one: "fewer y (y\<lparr>sy_host := h\<rparr>)"
    using shrinks_fewer [OF on_host_fewer [of "\<lambda>h. map_prod (\<lambda>_. Inr ()) id (preempt (pe_job_id c) None h)" y]]
      preempt_calm p by (simp add: on_host_def)
  show ?thesis
  proof (cases r)
    case (Inl e)
    then show ?thesis using p one by (simp add: preempt_for_def)
  next
    case (Inr x)
    let ?m = "''auto_preempt: stopping so job '' @ qe_job_id waiting
             @ '' (priority '' @ int_str (qe_priority waiting) @ '') can have these GPUs''"
    have "fewer (y\<lparr>sy_host := h\<rparr>) (y\<lparr>sy_host := note_log (pe_job_id c) ?m h\<rparr>)"
      using note_fewer [of "y\<lparr>sy_host := h\<rparr>" "()" "pe_job_id c" ?m] by (simp add: on_host_def del: append.simps)
    then show ?thesis using p Inr few.trans [OF one] by (simp add: preempt_for_def del: append.simps)
  qed
qed

lemma preempt_each_fewer: "fewer y (snd (preempt_each cands waiting js y))"
proof (induction js arbitrary: y)
  case (Cons j js)
  then show ?case
    by (auto simp: few.refl split: option.split intro!: few.seq_le preempt_for_fewer pure_fewer)
qed (simp add: few.refl)

lemma preempt_for_waiting_fewer: "fewer y (snd (preempt_for_waiting w y))"
  unfolding preempt_for_waiting_def
  by (auto intro!: few.seq_le shrinks_fewer [OF going_away_shrinks] shrinks_fewer [OF requests_shrinks]
      same_fewer [OF pool_same] pure_fewer preempt_each_fewer few.refl split: option.split)

lemma calm_on_host: "(\<And>h. host_ok h \<Longrightarrow> host_rel calm h (snd (f h))) \<Longrightarrow> fewer y (snd (on_host f y))"
  by (rule shrinks_fewer) (rule on_host_fewer)

lemma the_config_fewer: "fewer y (snd (the_config y))"
  by (rule shrinks_fewer [OF the_config_shrinks])

lemma the_queue_fewer: "fewer y (snd (the_queue y))"
  by (rule shrinks_fewer [OF the_queue_shrinks])

lemma stand_down_fewer: "fewer y (snd (stand_down w y))"
  by (rule shrinks_fewer [OF stand_down_shrinks])

lemmas fewer_rules = few.seq_le few.try_le few.refl pure_fewer the_config_fewer the_queue_fewer stand_down_fewer disp_fewer

lemma maybe_reclaim_fewer: "fewer y (snd (maybe_reclaim w y))"
  unfolding maybe_reclaim_def
  by (auto intro!: fewer_rules calm_on_host purge_calm clean_calm split: option.split)

lemma sweep_fewer: "fewer y (snd (sweep_stale_incoming w y))"
proof -
  have "read_state k (snd (remove_stale_incoming m h)) = read_state k h" for k m h
    by (simp add: read_state_def remove_stale_incoming_jobs)
  then show ?thesis
    unfolding sweep_stale_incoming_def
    by (auto intro!: fewer_rules calm_on_host host_rel_same)
qed

lemma describes_lost: "describes s (s\<lparr>st_outputs_lost := b\<rparr>)"
  by (simp add: describes_def)

lemma record_lost_fewer: "fewer y (snd (record_lost j b y))"
  unfolding record_lost_def
  by (auto intro!: fewer_rules calm_on_host update_state_calm describes_lost)

lemma retry_round_fewer: "fewer y (snd (retry_round w n js y))"
proof (induction js arbitrary: y)
  case (Cons j js)
  then show ?case by (auto intro!: fewer_rules record_lost_fewer)
qed (simp add: few.refl)

lemma retry_rounds_fewer: "fewer y (snd (retry_rounds w n m js y))"
proof (induction m arbitrary: n js y)
  case (Suc m)
  then show ?case by (auto intro!: fewer_rules retry_round_fewer)
qed (simp add: retry_round_fewer)

lemma retry_unconfirmed_fewer: "fewer y (snd (retry_unconfirmed_outputs w y))"
  unfolding retry_unconfirmed_outputs_def
  by (auto intro!: fewer_rules retry_rounds_fewer few.for_each_le record_lost_fewer)

lemma guard_fewer: "fewer y (snd (m y)) \<Longrightarrow> fewer y (snd (guard_step m y))"
  by (auto simp: guard_step_def split: prod.splits sum.splits elim!: few.trans intro!: with_disp_fewer)

lemma set_draining_fewer: "fewer y (snd (set_draining b y))"
  unfolding set_draining_def
  by (rule calm_on_host, rule host_rel_same) (simp add: read_state_def job_of_def)

lemma drain_fewer: "fewer y (snd (drain_and_terminate w y))"
  unfolding drain_and_terminate_def final_sync_all_def
  by (auto intro!: fewer_rules guard_fewer retry_unconfirmed_fewer set_draining_fewer)

lemma maybe_terminate_fewer: "fewer y (snd (maybe_terminate w y))"
  unfolding maybe_terminate_def
  by (auto intro!: fewer_rules drain_fewer)

lemma requeue_other_boots_fewer: "fewer y (snd (requeue_other_boots w y))"
proof -
  have "fewer t (snd (requeue_other_boot w j t))" for j t
    unfolding requeue_other_boot_def
    by (auto intro!: fewer_rules shrinks_fewer [OF state_of_shrinks] shrinks_fewer [OF requeue_restarted_shrinks])
  then show ?thesis
    unfolding requeue_other_boots_def by (auto intro!: fewer_rules few.for_each_le)
qed

section \<open>A whole pass\<close>

lemma fewer_keeps: "fewer y y' \<Longrightarrow> sys_ok y \<Longrightarrow> exclusive y \<Longrightarrow> sys_ok y' \<and> exclusive y'"
  unfolding fewer_def exclusive_def by blast

definition good :: "sys \<Rightarrow> bool" where
  "good y \<longleftrightarrow> sys_ok y \<and> exclusive y"

lemma good_fewer: "good y \<Longrightarrow> fewer y y' \<Longrightarrow> good y'"
  using fewer_keeps by (auto simp: good_def)

lemma good_seq:
  assumes "good (snd (m y))" and "\<And>x t. m y = (Inr x, t) \<Longrightarrow> good t \<Longrightarrow> good (snd (f x t))"
  shows "good (snd (seq m f y))"
  using assms by (cases "m y" rule: prod.exhaust) (auto simp: seq_def split: sum.split)

lemma serve_queue_good:
  assumes "good y" and "caches y = (None, None, None)"
  shows "good (snd (serve_queue w y))"
  unfolding serve_queue_def
proof (rule good_seq)
  show "good (snd (escalate_stops w y))" by (rule good_fewer [OF assms(1) shrinks_fewer [OF escalate_stops_shrinks]])
next
  fix x t
  assume t: "escalate_stops w y = (Inr x, t)" "good t"
  have "caches t = (None, None, None)"
    using escalate_stops_shrinks [of y w] t(1) assms(2) by (simp add: shrinks_def)
  then have l: "good (snd (launch_ready w t))"
    using launch_ready_exclusive t(2) by (simp add: good_def)
  have rest: "fewer u (snd (seq (preempt_for_waiting w) (\<lambda>_. seq (disp (\<lambda>d. d\<lparr>dp_queued := None\<rparr>)) (\<lambda>_.
      seq (maybe_reclaim w) (\<lambda>_. seq (sweep_stale_incoming w) (\<lambda>_. maybe_terminate w)))) u))" for u
    by (auto intro!: fewer_rules preempt_for_waiting_fewer maybe_reclaim_fewer sweep_fewer maybe_terminate_fewer)
  show "good (snd (seq (launch_ready w) (\<lambda>_. seq (preempt_for_waiting w) (\<lambda>_. seq (disp (\<lambda>d. d\<lparr>dp_queued := None\<rparr>)) (\<lambda>_.
      seq (maybe_reclaim w) (\<lambda>_. seq (sweep_stale_incoming w) (\<lambda>_. maybe_terminate w))))) t))"
    by (rule good_seq) (simp_all add: l good_fewer [OF _ rest])
qed

lemma run_once_good:
  assumes "good y"
  shows "good (snd (run_once w y))"
proof -
  have down: "good (snd (m t))" if "good t" "fewer t (snd (m t))" for m :: "('a, sys) eff" and t
    using that good_fewer by blast
  have cfg: "fewer t (snd (reread_config t))" for t
    by (auto simp: reread_config_def few.refl intro!: with_disp_fewer split: sum.split)
  show ?thesis
    unfolding run_once_def
  proof (rule good_seq, rule good_fewer [OF assms stand_down_fewer])
    fix a t
    assume t: "good t"
    show "good (snd ((if a then ret () else seq reread_config (\<lambda>_. seq (requeue_other_boots w) (\<lambda>_.
         seq (disp fresh_pass) (\<lambda>_. seq (reap w) (\<lambda>_ y.
           if dp_replaced (sy_disp y) \<noteq> None then (Inr (), y) else serve_queue w y))))) t))"
    proof (cases a)
      case False
      have last: "good (snd (seq (disp fresh_pass) (\<lambda>_. seq (reap w) (\<lambda>_ y.
           if dp_replaced (sy_disp y) \<noteq> None then (Inr (), y) else serve_queue w y)) u))" if u: "good u" for u
      proof -
        let ?v = "u\<lparr>sy_disp := fresh_pass (sy_disp u)\<rparr>"
        have v: "disp fresh_pass u = (Inr (), ?v)" by (simp add: disp_def)
        have gv: "good ?v" by (rule good_fewer [OF u with_disp_fewer]) (simp add: fresh_pass_def)
        have cv: "caches ?v = (None, None, None)" by (simp add: caches_def fresh_pass_def)
        have "good (snd (seq (reap w) (\<lambda>_ y. if dp_replaced (sy_disp y) \<noteq> None then (Inr (), y) else serve_queue w y) ?v))"
        proof (rule good_seq, rule good_fewer [OF gv shrinks_fewer [OF reap_shrinks]])
          fix x z
          assume z: "reap w ?v = (Inr x, z)" "good z"
          have "caches z = (None, None, None)" using reap_shrinks [of ?v w] z(1) cv by (simp add: shrinks_def)
          then show "good (snd (if dp_replaced (sy_disp z) \<noteq> None then (Inr (), z) else serve_queue w z))"
            using z(2) serve_queue_good by simp
        qed
        then show ?thesis using v by simp
      qed
      have "good (snd (seq reread_config (\<lambda>_. seq (requeue_other_boots w) (\<lambda>_.
         seq (disp fresh_pass) (\<lambda>_. seq (reap w) (\<lambda>_ y.
           if dp_replaced (sy_disp y) \<noteq> None then (Inr (), y) else serve_queue w y)))) t))"
      proof (rule good_seq, rule good_fewer [OF t cfg], rule good_seq)
        fix x u
        assume "good u"
        then show "good (snd (requeue_other_boots w u))" by (rule good_fewer [OF _ requeue_other_boots_fewer])
      qed (rule last)
      then show ?thesis using False by simp
    qed (use t in simp)
  qed
qed

section \<open>The system\<close>

text \<open>
  The steps of one host: a pass of the dispatcher; its start, which adopts what it finds; a
  runner it started claiming its job with the cards and the attempt it was given; every
  other operation on the host, by a runner or a command; and the end of a dispatcher, whose
  successor starts with no entries. A runner that outlives the dispatcher that started it
  has claimed its job: the window before that claim is the subject of
  \<open>orphan_runner_shares_a_card\<close>.
\<close>

inductive sys_step :: "sys \<Rightarrow> sys \<Rightarrow> bool" where
  pass: "sys_step y (snd (run_once w y))"
| startup: "sys_step y (snd (adopt_orphans w y))"
| runner_claims: "map_of (dp_running (sy_disp y)) j = Some e \<Longrightarrow> ri_gpus r = en_gpus e \<Longrightarrow>
    sys_step y (y\<lparr>sy_host := snd (runner_claim j (en_attempt e) spec r (sy_host y))\<rparr>)"
| other: "calm_op (sy_host y) h' \<Longrightarrow> sys_step y (y\<lparr>sy_host := h'\<rparr>)"
| successor: "dp_running d = [] \<Longrightarrow> sys_step y (y\<lparr>sy_disp := d\<rparr>)"

lemma claim_good:
  assumes "good y" and e: "map_of (dp_running (sy_disp y)) j = Some e" and r: "ri_gpus r = en_gpus e"
  shows "good (y\<lparr>sy_host := snd (runner_claim j (en_attempt e) spec r (sy_host y))\<rparr>)"
proof -
  let ?h = "snd (runner_claim j (en_attempt e) spec r (sy_host y))"
  have ok: "host_ok (sy_host y)" using assms(1) by (simp add: good_def sys_ok_def)
  have "disk_cards k ?h \<subseteq> held k y" for k
  proof (cases "runner_claim j (en_attempt e) spec r (sy_host y)")
    case (Pair x h')
    then have "claim j (en_attempt e) (Some spec) (claim_fields r) (sy_host y) = (x, h')" by (simp add: runner_claim_def)
    then show ?thesis
    proof (cases rule: claim_cases)
      case (won s)
      then show ?thesis using Pair e r
        by (auto simp: disk_cards_def states.rd_wr held_def entry_cards_def claimed_state_def claim_fields_def Let_def)
    next
      case lost
      then show ?thesis using Pair by (simp add: held_def)
    qed
  qed
  then have "fewer y (y\<lparr>sy_host := ?h\<rparr>)"
    using host_moves_ok [OF ok runner_claim_moves [OF ok]] by (auto simp: fewer_def held_def sys_ok_def)
  then show ?thesis by (rule good_fewer [OF assms(1)])
qed

lemma other_good:
  assumes "good y" and "calm_op (sy_host y) h'"
  shows "good (y\<lparr>sy_host := h'\<rparr>)"
proof -
  have ok: "host_ok (sy_host y)" using assms(1) by (simp add: good_def sys_ok_def)
  note c = calm_op_calm [OF assms(2) ok]
  have "fewer y (y\<lparr>sy_host := h'\<rparr>)"
    using calm_disk [OF c] host_moves_ok [OF ok calm_moves [OF c]] by (auto simp: fewer_def held_def sys_ok_def)
  then show ?thesis by (rule good_fewer [OF assms(1)])
qed

lemma sys_step_good: "good y \<Longrightarrow> sys_step y y' \<Longrightarrow> good y'"
proof (erule sys_step.cases, goal_cases)
  case (5 d z)
  then have "fewer z (z\<lparr>sy_disp := d\<rparr>)" by (simp add: fewer_def held_def entry_cards_def sys_ok_def)
  then show ?case using 5 good_fewer by blast
qed (auto intro: run_once_good claim_good other_good good_fewer shrinks_fewer adopt_orphans_shrinks)

interpretation system: guarded_runs sys_step good "\<lambda>y y'. True"
  by unfold_locales (auto intro: sys_step_good)

definition idle_dispatcher :: "string \<Rightarrow> dispatcher" where
  "idle_dispatcher me =
     \<lparr>dp_running = [], dp_queue_empty_since = None, dp_terminate_retry_at = None, dp_last_reclaim_at = None,
      dp_last_incoming_sweep_at = None, dp_instance = me, dp_replaced = None, dp_last_requeue_scan = None,
      dp_requeue_until = None, dp_stop_sent = [], dp_config = None, dp_cards = None, dp_table_error = None,
      dp_unreadable_since = None, dp_borrowable = None, dp_queued = None, dp_claimed = None, dp_draining = None,
      dp_consecutive_failures = 0, dp_should_exit = False\<rparr>"

lemma idle_good:
  assumes "dp_running (sy_disp y) = []" and "h_jobs (sy_host y) = []"
  shows "good y"
  using assms
  by (simp add: good_def sys_ok_def exclusive_def host_ok_def held_def entry_cards_def disk_cards_def read_state_def
      job_of_def)


section \<open>A host with two cards and two jobs\<close>

definition demo_world :: world where
  "demo_world =
     \<lparr>wd_kernel = demo_kernel, wd_smi = demo_smi, wd_now = 100, wd_moment = 100, wd_stamp = ''t'',
      wd_fromiso = (\<lambda>t. Some 0), wd_owner = None, wd_child_alive = (\<lambda>p. True), wd_spawn = (\<lambda>j cs a. Some 77),
      wd_record_bytes = (\<lambda>j. 0), wd_upload = (\<lambda>n j. True), wd_time_left = (\<lambda>n. True), wd_mirrored = True,
      wd_terminated = True\<rparr>"

definition demo_start :: "string list \<Rightarrow> sys" where
  "demo_start cards =
     \<lparr>sy_disp = idle_dispatcher ''me'',
      sy_host = \<lparr>h_jobs = [], h_incoming = [], h_secrets = [], h_draining = False,
        h_config = Inr (blank_config\<lparr>cf_gpus := Some cards\<rparr>), h_scratch = False\<rparr>,
      sy_signals = []\<rparr>"

definition demo_submit :: "jobspec \<Rightarrow> sys \<Rightarrow> sys" where
  "demo_submit spec y = y\<lparr>sy_host := snd (enqueue (\<lambda>t. 0) spec (sy_host y))\<rparr>"

definition demo_claims :: "job_id \<Rightarrow> uuid list \<Rightarrow> sys \<Rightarrow> sys" where
  "demo_claims j cards y =
     y\<lparr>sy_host := snd (runner_claim j 1 (plain_spec j 1) (demo_runner\<lparr>ri_gpus := cards\<rparr>) (sy_host y))\<rparr>"

definition demo_launched :: sys where
  "demo_launched = snd (run_once demo_world
     (demo_submit (plain_spec ''b'' 1) (demo_submit (plain_spec ''a'' 1) (demo_start [''0'', ''1'']))))"

lemma demo_entries: "dp_running (sy_disp demo_launched) =
    [(''a'', spawned [''GPU-a''] 1 77), (''b'', spawned [''GPU-b''] 1 77)]"
  by code_simp

definition demo_running :: sys where
  "demo_running = demo_claims ''b'' [''GPU-b''] (demo_claims ''a'' [''GPU-a''] demo_launched)"

lemma demo_run: "sys_step\<^sup>*\<^sup>* (demo_start [''0'', ''1'']) demo_running"
proof -
  let ?y0 = "demo_start [''0'', ''1'']"
  let ?y1 = "demo_submit (plain_spec ''a'' 1) ?y0"
  let ?y2 = "demo_submit (plain_spec ''b'' 1) ?y1"
  let ?y3 = "demo_claims ''a'' [''GPU-a''] demo_launched"
  have "sys_step ?y0 ?y1" "sys_step ?y1 ?y2"
    unfolding demo_submit_def by (rule sys_step.other, rule calm_op.accepted)+
  moreover have "sys_step ?y2 demo_launched" unfolding demo_launched_def by (rule sys_step.pass)
  moreover have "sys_step demo_launched ?y3"
    using sys_step.runner_claims [of demo_launched "''a''" "spawned [''GPU-a''] 1 77" "demo_runner\<lparr>ri_gpus := [''GPU-a'']\<rparr>"]
    by (simp add: demo_claims_def demo_entries spawned_def)
  moreover have "sys_step ?y3 demo_running"
    using sys_step.runner_claims [of ?y3 "''b''" "spawned [''GPU-b''] 1 77" "demo_runner\<lparr>ri_gpus := [''GPU-b'']\<rparr>"]
    by (simp add: demo_running_def demo_claims_def demo_entries spawned_def)
  ultimately show ?thesis by (meson rtranclp.rtrancl_into_rtrancl rtranclp.rtrancl_refl)
qed

lemma demo_running_a:
  "map_sum id (\<lambda>s. (st_status s, st_gpus s)) (read_state ''a'' (sy_host demo_running)) = Inr (''running'', [''GPU-a''])"
  by code_simp

lemma demo_running_b:
  "map_sum id (\<lambda>s. (st_status s, st_gpus s)) (read_state ''b'' (sy_host demo_running)) = Inr (''running'', [''GPU-b''])"
  by code_simp


text \<open>
  The run of a takeover: a dispatcher starts a runner for job \<open>a\<close> on the host's one card and
  ends before that runner claims; a more urgent job \<open>c\<close> is accepted; the successor finds
  nothing running, gives \<open>c\<close> the card, and its runner claims.
\<close>

definition takeover :: sys where
  "takeover =
     (let y1 = snd (run_once demo_world (demo_submit (plain_spec ''a'' 1) (demo_start [''0''])));
          y2 = demo_submit ((plain_spec ''c'' 1)\<lparr>sp_priority := 1\<rparr>) (y1\<lparr>sy_disp := idle_dispatcher ''me''\<rparr>);
          y3 = snd (run_once demo_world (snd (adopt_orphans demo_world y2)))
      in demo_claims ''c'' [''GPU-a''] y3)"


end
