(* ===== verification/Destinations.thy ===== *)
theory Destinations
  imports Cleanup Effects
begin

text \<open>
  \<open>src/gpuc/host/destinations.py\<close> and \<open>preflight.py\<close>: where a job's files go, the command lines
  that put them there, and the proof of a write before the job starts. The upload tools,
  the file system they are looked up in and the Hub's answer are parameters (\<open>tools\<close>); what
  a tool answers may depend on every call made before. The probe file itself is not part of
  the host's tree here.
\<close>

section \<open>Tools\<close>

type_synonym env = "(string \<times> string) list"
type_synonym call = "string list \<times> seconds option \<times> env option"

datatype http_answer = Answered int | HttpError int | NoAnswer

record tools =
  tl_home :: string
  tl_exists :: "string \<Rightarrow> bool"
  tl_which :: "string \<Rightarrow> string option \<Rightarrow> string option"
  tl_run :: "call list \<Rightarrow> call \<Rightarrow> string + int \<times> string"
  tl_http :: "string \<Rightarrow> string option \<Rightarrow> http_answer"

text \<open>What code that uploads works on: the host, and the commands run so far.\<close>

record shell =
  sh_host :: host
  sh_calls :: "call list"

definition at_host :: "(host \<Rightarrow> 'a res \<times> host) \<Rightarrow> ('a, 'z shell_scheme) eff" where
  "at_host f y = (case f (sh_host y) of (r, h) \<Rightarrow> (r, y\<lparr>sh_host := h\<rparr>))"

definition DEFAULT_TIMEOUT_S :: seconds where "DEFAULT_TIMEOUT_S = 1800"
definition PREFLIGHT_TIMEOUT_S :: seconds where "PREFLIGHT_TIMEOUT_S = 120"
definition META_TIMEOUT_S :: seconds where "META_TIMEOUT_S = 300"
definition HF_API :: string where "HF_API = ''https://huggingface.co/api''"

definition nl :: string where "nl = [CHR 0x0A]"

text \<open>The runner of a command: an answer, or the \<open>SyncError\<close> \<open>run_command\<close> turns every failure into.\<close>

definition command :: "tools \<Rightarrow> string list \<Rightarrow> seconds option \<Rightarrow> env option \<Rightarrow> (int \<times> string, 'z shell_scheme) eff" where
  "command t argv timeout env y =
     (case tl_run t (sh_calls y) (argv, timeout, env) of
        Inl m \<Rightarrow> (Inl (SyncError m), y\<lparr>sh_calls := sh_calls y @ [(argv, timeout, env)]\<rparr>)
      | Inr r \<Rightarrow> (Inr r, y\<lparr>sh_calls := sh_calls y @ [(argv, timeout, env)]\<rparr>))"

definition host_label :: "(string, 'z shell_scheme) eff" where
  "host_label = asks (\<lambda>y. catching [RuntimeError, OSError, FileNotFoundError, ValueError] ''unknown-host''
     (map_sum id cf_host (h_config (sh_host y))))"

definition last_n :: "nat \<Rightarrow> 'a list \<Rightarrow> 'a list" where
  "last_n n xs = drop (length xs - n) xs"

definition fail_command :: "string list \<Rightarrow> int \<Rightarrow> string \<Rightarrow> (unit, 'z shell_scheme) eff" where
  "fail_command argv code out =
     seq host_label (\<lambda>label. throw (SyncError (''`'' @ join '' '' argv @ ''` on host '' @ label @ '' exited ''
       @ int_str code @ nl @ join nl (last_n 10 (splitlines (strip out))))))"

definition BUNDLED :: "(string \<times> string) list" where
  "BUNDLED = [(''aws'', ''.local/aws-cli/v2/current/bin/aws''), (''hf'', ''.local/bin/hf'')]"

definition bundled :: "string \<Rightarrow> string" where
  "bundled name = (case map_of BUNDLED name of Some p \<Rightarrow> p | None \<Rightarrow> [])"

definition find_binary :: "tools \<Rightarrow> string \<Rightarrow> env option \<Rightarrow> string option" where
  "find_binary t name env =
     (let path = tl_home t @ ''/'' @ bundled name
      in if tl_exists t path then Some path
         else tl_which t name (case env of None \<Rightarrow> None | Some e \<Rightarrow> map_of e ''PATH''))"

definition binary :: "tools \<Rightarrow> string \<Rightarrow> env option \<Rightarrow> string \<Rightarrow> (string, 'z shell_scheme) eff" where
  "binary t name env purpose =
     (case find_binary t name env of
        Some p \<Rightarrow> ret p
      | None \<Rightarrow> seq host_label (\<lambda>label. throw (SyncError (''`'' @ name @ ''` CLI not found (looked in ~/''
          @ bundled name @ '' and PATH) on host '' @ label @ ''; cannot upload '' @ purpose))))"

definition preflight_failed :: "string \<Rightarrow> string \<Rightarrow> pyerr" where
  "preflight_failed cmd detail = PreflightFailed (cmd @ nl @ strip detail)"

definition missing_tool :: "string \<Rightarrow> string \<Rightarrow> pyerr" where
  "missing_tool name dropped =
     preflight_failed name (''`'' @ name @ ''` CLI not found (looked in ~/'' @ bundled name
       @ '' and PATH). Re-run `gpuc host bootstrap` for this host, or drop the job's '' @ dropped @ '' outputs.'')"

definition excludes :: "string list \<Rightarrow> string list" where
  "excludes names = concat (map (\<lambda>n. [''--exclude'', n]) names)"

definition run_tool :: "tools \<Rightarrow> string list \<Rightarrow> seconds option \<Rightarrow> env option \<Rightarrow> (unit, 'z shell_scheme) eff" where
  "run_tool t argv timeout env =
     seq (command t argv timeout env) (\<lambda>r. if fst r \<noteq> 0 then fail_command argv (fst r) (snd r) else ret ())"

section \<open>Destinations\<close>

datatype destination = S3 string | HuggingFace string string bool

definition mk_s3 :: "string \<Rightarrow> destination" where
  "mk_s3 t = S3 (rstrip_slash t)"

definition mk_hf :: "string \<Rightarrow> string \<Rightarrow> bool \<Rightarrow> destination" where
  "mk_hf repo path create = HuggingFace repo (strip_slash path) create"

fun dest_uri :: "destination \<Rightarrow> string" where
  "dest_uri (S3 u) = u"
| "dest_uri (HuggingFace repo path create) =
     (if path = [] then ''hf://'' @ repo else ''hf://'' @ repo @ ''/'' @ path)"

text \<open>\<open>of\<close>: the destinations one \<open>outputs:\<close> entry names.\<close>

definition destinations_of :: "output_rec \<Rightarrow> job_id \<Rightarrow> destination list res" where
  "destinations_of out j =
     bind_res (if blank (out_s3 out) then Inr []
               else map_sum id (\<lambda>u. [mk_s3 u]) (format_job_id (the (out_s3 out)) j)) (\<lambda>s3.
     bind_res (if blank (out_hf out) then Inr []
               else bind_res (format_job_id (the (out_hf out)) j) (\<lambda>repo.
                 bind_res (format_job_id (if blank (out_hf_path out) then j else the (out_hf_path out)) j) (\<lambda>path.
                   Inr [mk_hf repo path (out_hf_create out)]))) (\<lambda>hf.
       Inr (s3 @ hf)))"

definition target_name :: "string \<Rightarrow> string \<Rightarrow> string" where
  "target_name path name = (if path = [] then name else path @ ''/'' @ name)"

fun upload_dir ::
  "tools \<Rightarrow> destination \<Rightarrow> string \<Rightarrow> string list \<Rightarrow> seconds option \<Rightarrow> env option \<Rightarrow> (unit, 'z shell_scheme) eff" where
  "upload_dir t (S3 uri) local excl timeout env =
     seq (binary t ''aws'' env (local @ '' to '' @ uri)) (\<lambda>aws.
       run_tool t ([aws, ''s3'', ''sync'', local, uri, ''--only-show-errors''] @ excludes excl) timeout env)"
| "upload_dir t (HuggingFace repo path create) local excl timeout env =
     seq (binary t ''hf'' env (local @ '' to '' @ dest_uri (HuggingFace repo path create))) (\<lambda>hf.
       run_tool t ([hf, ''upload'', repo, local, path] @ excludes excl) timeout env)"

fun put_file ::
  "tools \<Rightarrow> destination \<Rightarrow> string \<Rightarrow> string \<Rightarrow> seconds option \<Rightarrow> env option \<Rightarrow> (unit, 'z shell_scheme) eff" where
  "put_file t (S3 uri) local name timeout env =
     seq (binary t ''aws'' env (local @ '' to '' @ uri)) (\<lambda>aws.
       run_tool t [aws, ''s3'', ''cp'', local, uri @ ''/'' @ name, ''--only-show-errors''] timeout env)"
| "put_file t (HuggingFace repo path create) local name timeout env =
     seq (binary t ''hf'' env (local @ '' to '' @ dest_uri (HuggingFace repo path create))) (\<lambda>hf.
       run_tool t [hf, ''upload'', repo, local, target_name path name] timeout env)"

section \<open>Proving a write before the job starts\<close>

definition hf_repo_exists :: "tools \<Rightarrow> string \<Rightarrow> env option \<Rightarrow> bool option" where
  "hf_repo_exists t repo env =
     (let var = (\<lambda>k. Option.bind env (\<lambda>e. map_of e k));
          token = (if blank (var ''HF_TOKEN'') then var ''HUGGING_FACE_HUB_TOKEN'' else var ''HF_TOKEN'')
      in (case tl_http t (HF_API @ ''/models/'' @ repo) (if blank token then None else token) of
            Answered status \<Rightarrow> Some (200 \<le> status \<and> status < 300)
          | HttpError code \<Rightarrow> if code \<in> {401, 403, 404} then Some False else None
          | NoAnswer \<Rightarrow> None))"

definition PREFLIGHT_NAME :: string where "PREFLIGHT_NAME = ''.preflight''"

text \<open>One command of a preflight: anything but exit 0 is the end of it, with what it said.\<close>

definition must_pass ::
  "tools \<Rightarrow> string list \<Rightarrow> env option \<Rightarrow> nat \<Rightarrow> string \<Rightarrow> (unit, 'z shell_scheme) eff" where
  "must_pass t argv env tail advice =
     seq (command t argv (Some PREFLIGHT_TIMEOUT_S) env) (\<lambda>r.
       if fst r \<noteq> 0
       then throw (preflight_failed (join '' '' argv)
              (''exited '' @ int_str (fst r) @ nl @ last_n tail (strip (snd r)) @ nl @ advice))
       else ret ())"

fun preflight :: "tools \<Rightarrow> destination \<Rightarrow> string \<Rightarrow> env option \<Rightarrow> (unit, 'z shell_scheme) eff" where
  "preflight t (S3 uri) probe env =
     (case find_binary t ''aws'' env of
        None \<Rightarrow> throw (missing_tool ''aws'' ''s3'')
      | Some aws \<Rightarrow>
          must_pass t [aws, ''s3'', ''cp'', probe, uri @ ''/'' @ PREFLIGHT_NAME, ''--only-show-errors''] env 800
            (''The job's environment must be able to write '' @ uri
               @ '': check the spec's `secrets:` (AWS_ACCESS_KEY_ID, AWS_SECRET_ACCESS_KEY) and the bucket name.''))"
| "preflight t (HuggingFace repo path create) probe env =
     (case find_binary t ''hf'' env of
        None \<Rightarrow> throw (missing_tool ''hf'' ''hf'')
      | Some hf \<Rightarrow>
          seq (must_pass t [hf, ''auth'', ''whoami''] env 500
                 ''The job's environment has no usable Hugging Face token: add HF_TOKEN to the spec's `secrets:`.'') (\<lambda>_.
          seq (if create
               then must_pass t [hf, ''repos'', ''create'', repo, ''--type'', ''model'', ''--exist-ok''] env 500 []
               else if hf_repo_exists t repo env = Some False
               then throw (preflight_failed (hf @ '' upload '' @ repo)
                      (''the repo '' @ repo @ '' does not exist, or this token cannot see it. Create it on the Hub, ''
                       @ ''or set `hf_create: true` on that output to have gpuc create it.''))
               else ret ()) (\<lambda>_.
          must_pass t [hf, ''upload'', repo, probe, target_name path PREFLIGHT_NAME] env 800
            (''The job's token must be able to write '' @ repo @ ''.''))))"

text \<open>\<open>sync.mirror_for\<close>: the host's mirror of a job's log and state, if it has one.\<close>

definition mirror_for :: "job_id \<Rightarrow> string option \<Rightarrow> destination option" where
  "mirror_for j prefix =
     (if blank prefix then None else Some (mk_s3 (rstrip_slash (the prefix) @ ''/jobs/'' @ j)))"

definition targets :: "jobspec \<Rightarrow> hostconfig \<Rightarrow> destination list res" where
  "targets spec c =
     map_sum id (\<lambda>ds. concat ds @ (case mirror_for (sp_job_id spec) (cf_s3_prefix c) of None \<Rightarrow> [] | Some m \<Rightarrow> [m]))
       (map_res (\<lambda>out. destinations_of out (sp_job_id spec)) (sp_outputs spec))"

fun preflight_all :: "tools \<Rightarrow> string \<Rightarrow> env option \<Rightarrow> destination list \<Rightarrow> (string list, 'z shell_scheme) eff" where
  "preflight_all t probe env [] y = (Inr [], y)"
| "preflight_all t probe env (d # ds) y =
     seq (preflight t d probe env) (\<lambda>_. seq (preflight_all t probe env ds) (\<lambda>us. ret (dest_uri d # us))) y"

definition preflight_run ::
  "tools \<Rightarrow> jobspec \<Rightarrow> hostconfig \<Rightarrow> string \<Rightarrow> env option \<Rightarrow> (string list, 'z shell_scheme) eff" where
  "preflight_run t spec c probe env = seq (asks (\<lambda>_. targets spec c)) (preflight_all t probe env)"

definition preflight_describe :: "string list \<Rightarrow> string" where
  "preflight_describe checked =
     (if checked = [] then ''sync preflight: nothing to check (no outputs and no s3_prefix)''
      else ''sync preflight ok: wrote '' @ PREFLIGHT_NAME @ '' to '' @ join '', '' checked)"

section \<open>What a preflight proves\<close>

text \<open>The command that writes the probe to a destination.\<close>

fun probe_write :: "tools \<Rightarrow> destination \<Rightarrow> string \<Rightarrow> env option \<Rightarrow> call" where
  "probe_write t (S3 uri) probe env =
     ([the (find_binary t ''aws'' env), ''s3'', ''cp'', probe, uri @ ''/'' @ PREFLIGHT_NAME, ''--only-show-errors''],
      Some PREFLIGHT_TIMEOUT_S, env)"
| "probe_write t (HuggingFace repo path create) probe env =
     ([the (find_binary t ''hf'' env), ''upload'', repo, probe, target_name path PREFLIGHT_NAME],
      Some PREFLIGHT_TIMEOUT_S, env)"

lemma must_pass_Inr:
  assumes "must_pass t argv env n adv y = (Inr (), y')"
  shows "\<exists>out. tl_run t (sh_calls y) (argv, Some PREFLIGHT_TIMEOUT_S, env) = Inr (0, out)"
    "y' = y\<lparr>sh_calls := sh_calls y @ [(argv, Some PREFLIGHT_TIMEOUT_S, env)]\<rparr>"
  using assms by (auto simp: must_pass_def command_def seq_def split: sum.splits if_splits)

text \<open>Written: the tool answered 0 to the probe's own write, some time before the calls end.\<close>

definition written :: "tools \<Rightarrow> string \<Rightarrow> env option \<Rightarrow> call list \<Rightarrow> destination \<Rightarrow> bool" where
  "written t probe env calls d \<longleftrightarrow>
     (\<exists>earlier later out. calls = earlier @ probe_write t d probe env # later
        \<and> tl_run t earlier (probe_write t d probe env) = Inr (0, out))"

lemma written_later: "written t probe env calls d \<Longrightarrow> written t probe env (calls @ later) d"
  by (auto simp: written_def) (metis append_Cons append_assoc)

lemma must_pass_written:
  assumes "must_pass t argv env n adv y = (Inr (), y')" "probe_write t d probe env = (argv, Some PREFLIGHT_TIMEOUT_S, env)"
  shows "sh_host y' = sh_host y \<and> (\<exists>new. sh_calls y' = sh_calls y @ new) \<and> written t probe env (sh_calls y') d"
  using must_pass_Inr [OF assms(1)] assms(2) unfolding written_def by auto

lemma preflight_Inr:
  fixes y y' :: "'a shell_scheme"
  assumes "preflight t d probe env y = (Inr (), y')"
  shows "sh_host y' = sh_host y" "\<exists>new. sh_calls y' = sh_calls y @ new" "written t probe env (sh_calls y') d"
proof -
  have "sh_host y' = sh_host y \<and> (\<exists>new. sh_calls y' = sh_calls y @ new) \<and> written t probe env (sh_calls y') d"
  proof (cases d)
    case (S3 uri)
    then obtain aws where aws: "find_binary t ''aws'' env = Some aws"
      using assms by (cases "find_binary t ''aws'' env") auto
    show ?thesis
      by (rule must_pass_written) (use S3 assms aws in \<open>simp_all\<close>)
  next
    case (HuggingFace repo path create)
    then obtain hf where hf: "find_binary t ''hf'' env = Some hf"
      using assms by (cases "find_binary t ''hf'' env") auto
    define m2 where "m2 = (if create
       then must_pass t [hf, ''repos'', ''create'', repo, ''--type'', ''model'', ''--exist-ok''] env 500 []
       else if hf_repo_exists t repo env = Some False
       then throw (preflight_failed (hf @ '' upload '' @ repo)
              (''the repo '' @ repo @ '' does not exist, or this token cannot see it. Create it on the Hub, ''
               @ ''or set `hf_create: true` on that output to have gpuc create it.''))
       else ret () :: (unit, 'a shell_scheme) eff)"
    have two: "sh_host z' = sh_host z \<and> (\<exists>new. sh_calls z' = sh_calls z @ new)" if "m2 z = (Inr (), z')" for z z'
      using that unfolding m2_def by (auto dest: must_pass_Inr(2) split: if_splits simp del: append.simps)
    have "\<exists>adv1 adv3 y1 y2. must_pass t [hf, ''auth'', ''whoami''] env 500 adv1 y = (Inr (), y1) \<and> m2 y1 = (Inr (), y2)
      \<and> must_pass t [hf, ''upload'', repo, probe, target_name path PREFLIGHT_NAME] env 800 adv3 y2 = (Inr (), y')"
      using assms unfolding HuggingFace preflight.simps hf option.case seq_Inr_unit m2_def [symmetric] by blast
    then obtain adv1 adv3 y1 y2 where m1: "must_pass t [hf, ''auth'', ''whoami''] env 500 adv1 y = (Inr (), y1)"
      and m2: "m2 y1 = (Inr (), y2)"
      and m3: "must_pass t [hf, ''upload'', repo, probe, target_name path PREFLIGHT_NAME] env 800 adv3 y2 = (Inr (), y')"
      by (elim exE conjE)
    have wr: "probe_write t d probe env = ([hf, ''upload'', repo, probe, target_name path PREFLIGHT_NAME], Some PREFLIGHT_TIMEOUT_S, env)"
      using HuggingFace hf by simp
    show ?thesis using must_pass_written [OF m3 wr] two [OF m2] must_pass_Inr(2) [OF m1] by auto
  qed
  then show "sh_host y' = sh_host y" "\<exists>new. sh_calls y' = sh_calls y @ new" "written t probe env (sh_calls y') d"
    by auto
qed

lemma preflight_all_Inr:
  "preflight_all t probe env ds y = (Inr us, y') \<Longrightarrow>
   us = map dest_uri ds \<and> sh_host y' = sh_host y \<and> (\<exists>new. sh_calls y' = sh_calls y @ new)
   \<and> (\<forall>d \<in> set ds. written t probe env (sh_calls y') d)"
proof (induction ds arbitrary: y us)
  case (Cons d ds)
  obtain y1 vs where one: "preflight t d probe env y = (Inr (), y1)"
    and rest: "preflight_all t probe env ds y1 = (Inr vs, y')" and us: "us = dest_uri d # vs"
    using Cons.prems by (auto simp: seq_Inr)
  obtain new where new: "sh_calls y' = sh_calls y1 @ new" using Cons.IH [OF rest] by blast
  have "written t probe env (sh_calls y') d" using preflight_Inr(3) [OF one] written_later new by simp
  then show ?case using Cons.IH [OF rest] preflight_Inr(1,2) [OF one] us by auto
qed simp

text \<open>
  A sync preflight that passes has proved every upload the job will need: each destination
  its outputs name, and the host's mirror if there is one, was written to with the job's own
  environment, by the same tool that will upload to it, and the tool said it worked. Nothing on the
  host is changed by it.
\<close>

theorem preflight_proves_writes:
  assumes "preflight_run t spec c probe env y = (Inr us, y')"
  shows "\<exists>ds. targets spec c = Inr ds \<and> us = map dest_uri ds \<and> sh_host y' = sh_host y
    \<and> (\<forall>d \<in> set ds. written t probe env (sh_calls y') d)"
  using assms by (auto simp: preflight_run_def seq_Inr dest!: preflight_all_Inr)

definition demo_tools :: tools where
  "demo_tools =
     \<lparr>tl_home = ''/root'', tl_exists = (\<lambda>p. True), tl_which = (\<lambda>n p. None), tl_run = (\<lambda>cs c. Inr (0, [])),
      tl_http = (\<lambda>url tok. NoAnswer)\<rparr>"

definition demo_output :: output_rec where
  "demo_output =
     \<lparr>out_path = ''ckpt'', out_s3 = Some ''s3://b/{job_id}/'', out_hf = Some ''org/model'', out_hf_path = None,
      out_hf_create = False\<rparr>"

definition demo_preflight :: "string list res \<times> shell" where
  "demo_preflight =
     preflight_run demo_tools ((plain_spec ''c'' 0)\<lparr>sp_outputs := [demo_output]\<rparr>) blank_config ''/root/.preflight'' None
       \<lparr>sh_host = demo_host, sh_calls = []\<rparr>"

theorem preflight_proves_writes_witness:
  "fst demo_preflight = Inr [''s3://b/c'', ''hf://org/model/c'']
   \<and> sh_host (snd demo_preflight) = demo_host
   \<and> written demo_tools ''/root/.preflight'' None (sh_calls (snd demo_preflight)) (S3 ''s3://b/c'')"
proof -
  have us: "fst demo_preflight = Inr [''s3://b/c'', ''hf://org/model/c'']" by code_simp
  have tg: "targets ((plain_spec ''c'' 0)\<lparr>sp_outputs := [demo_output]\<rparr>) blank_config
      = Inr [S3 ''s3://b/c'', HuggingFace ''org/model'' ''c'' False]" by code_simp
  have run: "preflight_run demo_tools ((plain_spec ''c'' 0)\<lparr>sp_outputs := [demo_output]\<rparr>) blank_config ''/root/.preflight'' None
      \<lparr>sh_host = demo_host, sh_calls = []\<rparr> = (Inr [''s3://b/c'', ''hf://org/model/c''], snd demo_preflight)"
    using us by (simp add: demo_preflight_def prod_eq_iff)
  show ?thesis using preflight_proves_writes [OF run] us tg by auto
qed

end
