(* ===== verification/Sync.thy ===== *)
theory Sync
  imports Destinations
begin

text \<open>
  \<open>src/gpuc/host/sync.py\<close>: which files go to which destination and when, and the record of each
  upload in the job's state. The clock and the stamp of a record are parameters that may
  differ at every command run (\<open>uplink\<close>); \<open>uk_workdir\<close> is where a job's workdir is, and \<open>uk_links\<close> is what a symbolic link below an output
  leads to. A log file is there once a line has been written to it.
\<close>

section \<open>Parameters\<close>

record uplink =
  uk_tools :: tools
  uk_home :: string
  uk_workdir :: "job_id \<Rightarrow> string"
  uk_time :: "nat \<Rightarrow> seconds"
  uk_stamp :: "nat \<Rightarrow> string"
  uk_links :: "string list \<Rightarrow> fnode option"

definition MIN_AGE_S :: seconds where "MIN_AGE_S = 10"
definition MAX_EXCLUDES :: nat where "MAX_EXCLUDES = 200"
definition MISSING_TICKS :: nat where "MISSING_TICKS = 2"

definition is_sync_error :: "pyerr \<Rightarrow> bool" where
  "is_sync_error e = (case e of SyncError _ \<Rightarrow> True | MissingOutput _ \<Rightarrow> True | TooManyRecentFiles _ \<Rightarrow> True | _ \<Rightarrow> False)"

fun is_missing :: "pyerr \<Rightarrow> bool" where
  "is_missing (MissingOutput _) = True"
| "is_missing _ = False"

fun is_too_many :: "pyerr \<Rightarrow> bool" where
  "is_too_many (TooManyRecentFiles _) = True"
| "is_too_many _ = False"

fun said :: "pyerr \<Rightarrow> string" where
  "said (SyncError m) = m"
| "said (MissingOutput m) = m"
| "said (TooManyRecentFiles m) = m"
| "said (PreflightFailed m) = m"
| "said (ProgressError m) = m"
| "said _ = []"

section \<open>Paths\<close>

definition job_path :: "uplink \<Rightarrow> job_id \<Rightarrow> string \<Rightarrow> string" where
  "job_path u j name = uk_home u @ ''/jobs/'' @ j @ ''/'' @ name"

text \<open>\<open>workdir / path\<close>: an absolute path replaces the workdir.\<close>

definition local_path :: "uplink \<Rightarrow> job_id \<Rightarrow> string \<Rightarrow> string" where
  "local_path u j p =
     (if starts_with p ''/'' then ''/'' @ slashed (path_parts p)
      else slashed (uk_workdir u j # path_parts p))"

section \<open>Files still being written\<close>

definition recent :: "seconds \<Rightarrow> finfo \<Rightarrow> bool" where
  "recent cutoff f \<longleftrightarrow> fi_regular f \<and> of_int (fi_mtime f) > cutoff * 1000000000"

fun recent_below :: "(string list \<Rightarrow> fnode option) \<Rightarrow> seconds \<Rightarrow> string list \<Rightarrow> fnode \<Rightarrow> string list"
  and recent_entries ::
    "(string list \<Rightarrow> fnode option) \<Rightarrow> seconds \<Rightarrow> string list \<Rightarrow> (string \<times> fnode) list \<Rightarrow> string list" where
  "recent_below links cutoff here (NDir b (Some es)) = recent_entries links cutoff here es"
| "recent_below links cutoff here (NFile f) = (if recent cutoff f then [slashed here] else [])"
| "recent_below links cutoff here (NLink b t) =
     (case links here of Some (NFile f) \<Rightarrow> if recent cutoff f then [slashed here] else [] | _ \<Rightarrow> [])"
| "recent_below links cutoff here _ = []"
| "recent_entries links cutoff here [] = []"
| "recent_entries links cutoff here ((name, n) # es) =
     recent_below links cutoff (here @ [name]) n @ recent_entries links cutoff here es"

text \<open>The node behind a path that may itself be a link.\<close>

definition behind :: "(string list \<Rightarrow> fnode option) \<Rightarrow> fnode option \<Rightarrow> fnode option" where
  "behind links node = (case node of Some (NLink b t) \<Rightarrow> links [] | Some Lost \<Rightarrow> None | n \<Rightarrow> n)"

definition recently_modified ::
  "(string list \<Rightarrow> fnode option) \<Rightarrow> seconds \<Rightarrow> fnode option \<Rightarrow> seconds \<Rightarrow> string list" where
  "recently_modified links now root_node min_age =
     (case behind links root_node of
        Some (NDir b es) \<Rightarrow> sort (recent_below links (now - min_age) [] (NDir b es))
      | _ \<Rightarrow> [])"

definition in_flight ::
  "uplink \<Rightarrow> (string list \<Rightarrow> fnode option) \<Rightarrow> string \<Rightarrow> fnode option \<Rightarrow> seconds \<Rightarrow> (string list, 'z shell_scheme) eff" where
  "in_flight u links local root_node min_age y =
     (let names = recently_modified links (uk_time u (length (sh_calls y))) root_node min_age
      in if length names > MAX_EXCLUDES
         then (Inl (TooManyRecentFiles (nat_str (length names) @ '' files under '' @ local
                 @ '' were modified in the last '' @ int_str (floor min_age) @ ''s (cap ''
                 @ nat_str MAX_EXCLUDES @ ''); skipping this sync tick'')), y)
         else (Inr names, y))"

section \<open>Uploading one output\<close>

definition stamped_upload ::
  "uplink \<Rightarrow> job_id \<Rightarrow> string \<Rightarrow> string option \<Rightarrow> string option \<Rightarrow> (unit, 'z shell_scheme) eff" where
  "stamped_upload u j to out err y =
     at_host (record_upload j to out
       (if err = None then Some (uk_stamp u (length (sh_calls y))) else None) err) y"

text \<open>The body of the loop over destinations: the \<open>SyncError\<close> it collects, if any.\<close>

definition attempt_upload ::
  "uplink \<Rightarrow> string \<Rightarrow> bool \<Rightarrow> bool \<Rightarrow> string list \<Rightarrow> seconds option \<Rightarrow> env option \<Rightarrow> destination \<Rightarrow> (unit, 'z shell_scheme) eff" where
  "attempt_upload u local there stale excl timeout env d =
     (if \<not> there then throw (MissingOutput (''output path does not exist: '' @ local))
      else if stale then throw (MissingOutput (''nothing new under '' @ local @ '': every file there was already in the checkout''))
      else upload_dir (uk_tools u) d local excl timeout env)"

definition upload_one ::
  "uplink \<Rightarrow> job_id \<Rightarrow> string \<Rightarrow> bool \<Rightarrow> (destination \<Rightarrow> (unit, 'z shell_scheme) eff) \<Rightarrow> destination \<Rightarrow>
   (pyerr option, 'z shell_scheme) eff" where
  "upload_one u j path record_missing attempt d y =
     (case attempt d y of
        (Inr _, y1) \<Rightarrow> seq (stamped_upload u j (dest_uri d) (Some path) None) (\<lambda>_. ret None) y1
      | (Inl e, y1) \<Rightarrow>
          if is_sync_error e
          then seq (if record_missing \<or> \<not> is_missing e
                    then stamped_upload u j (dest_uri d) (Some path) (Some (said e)) else ret ())
                 (\<lambda>_. ret (Some e)) y1
          else (Inl e, y1))"

fun upload_each ::
  "(destination \<Rightarrow> (pyerr option, 'z shell_scheme) eff) \<Rightarrow> destination list \<Rightarrow> (pyerr list, 'z shell_scheme) eff" where
  "upload_each one [] y = (Inr [], y)"
| "upload_each one (d # ds) y =
     seq (one d) (\<lambda>e. seq (upload_each one ds) (\<lambda>es. ret ((case e of None \<Rightarrow> [] | Some x \<Rightarrow> [x]) @ es))) y"

text \<open>\<open>_combined\<close>: the specific kind when every failure agrees.\<close>

definition combined :: "pyerr list \<Rightarrow> pyerr" where
  "combined es =
     (let m = join ''; '' (map said es)
      in if list_all is_missing es then MissingOutput m
         else if list_all is_too_many es then TooManyRecentFiles m
         else SyncError m)"

definition raise_combined :: "pyerr list \<Rightarrow> (unit, 'z shell_scheme) eff" where
  "raise_combined es = (if es = [] then ret () else throw (combined es))"

definition workdir_node :: "job_id \<Rightarrow> string \<Rightarrow> host \<Rightarrow> fnode option" where
  "workdir_node j key h =
     output_node (workdir_tree j h) (case job_of j h of None \<Rightarrow> [] | Some d \<Rightarrow> jd_outside d) key"

definition sync_output ::
  "uplink \<Rightarrow> output_rec \<Rightarrow> job_id \<Rightarrow> seconds \<Rightarrow> seconds option \<Rightarrow> env option \<Rightarrow> entries \<Rightarrow> bool \<Rightarrow>
   (unit, 'z shell_scheme) eff" where
  "sync_output u out j min_age timeout env es record_missing =
     seq (asks (\<lambda>_. output_key out j)) (\<lambda>key y.
       let node = workdir_node j key (sh_host y);
           links = (\<lambda>p. uk_links u (path_parts key @ p));
           local = local_path u j key;
           excl = (if too_many es then [] else case node of Some n \<Rightarrow> unchanged n es | None \<Rightarrow> []);
           stale = (es \<noteq> [] \<and> \<not> has_new_content (last_part key) node es)
       in seq (in_flight u links local node min_age) (\<lambda>busy.
          seq (asks (\<lambda>_. destinations_of out j)) (\<lambda>ds.
          seq (upload_each (upload_one u j (out_path out) record_missing
                 (attempt_upload u local (behind links node \<noteq> None) stale (excl @ busy) timeout env)) ds)
            raise_combined)) y)"

fun sync_each :: "(output_rec \<Rightarrow> (unit, 'z shell_scheme) eff) \<Rightarrow> output_rec list \<Rightarrow> (pyerr list, 'z shell_scheme) eff" where
  "sync_each one [] y = (Inr [], y)"
| "sync_each one (out # outs) y =
     (case one out y of
        (Inr _, y1) \<Rightarrow> sync_each one outs y1
      | (Inl e, y1) \<Rightarrow>
          if is_sync_error e then seq (sync_each one outs) (\<lambda>es. ret (e # es)) y1 else (Inl e, y1))"

definition baseline_of :: "job_id \<Rightarrow> host \<Rightarrow> baseline" where
  "baseline_of j h = (case job_of j h of None \<Rightarrow> [] | Some d \<Rightarrow> jd_baseline d)"

definition baseline_entries :: "baseline \<Rightarrow> output_rec \<Rightarrow> job_id \<Rightarrow> entries res" where
  "baseline_entries base out j =
     map_sum id (\<lambda>key. case map_of base key of Some es \<Rightarrow> es | None \<Rightarrow> []) (output_key out j)"

definition sync_one ::
  "uplink \<Rightarrow> job_id \<Rightarrow> seconds \<Rightarrow> seconds option \<Rightarrow> env option \<Rightarrow> baseline \<Rightarrow> bool \<Rightarrow> output_rec \<Rightarrow>
   (unit, 'z shell_scheme) eff" where
  "sync_one u j min_age timeout env base record_missing out =
     seq (asks (\<lambda>_. baseline_entries base out j)) (\<lambda>es.
       sync_output u out j min_age timeout env es record_missing)"

definition sync_outputs ::
  "uplink \<Rightarrow> output_rec list \<Rightarrow> job_id \<Rightarrow> seconds \<Rightarrow> seconds option \<Rightarrow> env option \<Rightarrow> baseline \<Rightarrow> bool \<Rightarrow>
   (unit, 'z shell_scheme) eff" where
  "sync_outputs u outs j min_age timeout env base record_missing =
     seq (sync_each (sync_one u j min_age timeout env base record_missing) outs) raise_combined"

section \<open>The mirror of the record\<close>

definition put_if :: "bool \<Rightarrow> (unit, 'z shell_scheme) eff \<Rightarrow> (unit, 'z shell_scheme) eff" where
  "put_if c m = (if c then m else ret ())"

definition has_log :: "job_id \<Rightarrow> host \<Rightarrow> bool" where
  "has_log j h \<longleftrightarrow> (case job_of j h of None \<Rightarrow> False | Some d \<Rightarrow> jd_log d \<noteq> [])"

definition sync_job_meta ::
  "uplink \<Rightarrow> job_id \<Rightarrow> string option \<Rightarrow> seconds option \<Rightarrow> env option \<Rightarrow> (unit, 'z shell_scheme) eff" where
  "sync_job_meta u j prefix timeout env =
     (case mirror_for j prefix of
        None \<Rightarrow> ret ()
      | Some m \<Rightarrow>
          seq (\<lambda>y. put_if (has_log j (sh_host y)) (put_file (uk_tools u) m (job_path u j ''log.txt'') ''log.txt'' timeout env) y) (\<lambda>_ y.
            put_if (has_job j (sh_host y)) (put_file (uk_tools u) m (job_path u j ''state.json'') ''state.json'' timeout env) y))"

definition mirror_meta :: "uplink \<Rightarrow> job_id \<Rightarrow> string option \<Rightarrow> env option \<Rightarrow> (destination option, 'z shell_scheme) eff" where
  "mirror_meta u j prefix env y =
     (case mirror_for j prefix of
        None \<Rightarrow> (Inr None, y)
      | Some m \<Rightarrow>
          (case sync_job_meta u j prefix (Some META_TIMEOUT_S) env y of
             (Inr _, y1) \<Rightarrow> seq (stamped_upload u j (dest_uri m) None None) (\<lambda>_. ret (Some m)) y1
           | (Inl e, y1) \<Rightarrow>
               if is_sync_error e
               then seq (stamped_upload u j (dest_uri m) None (Some (said e))) (\<lambda>_. throw e) y1
               else (Inl e, y1)))"

definition put_state :: "uplink \<Rightarrow> job_id \<Rightarrow> destination \<Rightarrow> env option \<Rightarrow> (string option, 'z shell_scheme) eff" where
  "put_state u j m env y =
     (case put_if (has_job j (sh_host y))
             (put_file (uk_tools u) m (job_path u j ''state.json'') ''state.json'' (Some META_TIMEOUT_S) env) y of
        (Inr _, y1) \<Rightarrow> (Inr None, y1)
      | (Inl e, y1) \<Rightarrow>
          if is_sync_error e
          then (Inr (Some (''the mirrored state.json is one revision behind (re-upload failed): '' @ said e)), y1)
          else (Inl e, y1))"

definition final_meta_sync :: "uplink \<Rightarrow> job_id \<Rightarrow> string option \<Rightarrow> env option \<Rightarrow> (string option, 'z shell_scheme) eff" where
  "final_meta_sync u j prefix env =
     seq (mirror_meta u j prefix env) (\<lambda>m. case m of None \<Rightarrow> ret None | Some d \<Rightarrow> put_state u j d env)"

section \<open>The loop beside a running job\<close>

record sync_loop =
  sl_last_error :: "string option"
  sl_missing_ticks :: nat

definition tick ::
  "uplink \<Rightarrow> jobspec \<Rightarrow> string option \<Rightarrow> env option \<Rightarrow> seconds \<Rightarrow> seconds option \<Rightarrow> bool \<Rightarrow> bool \<Rightarrow> (unit, 'z shell_scheme) eff" where
  "tick u spec prefix env min_age timeout record_missing meta y =
     seq (sync_outputs u (sp_outputs spec) (sp_job_id spec) min_age timeout env
            (baseline_of (sp_job_id spec) (sh_host y)) record_missing) (\<lambda>_.
       if meta then sync_job_meta u (sp_job_id spec) prefix timeout env else ret ()) y"

definition sync_note :: "job_id \<Rightarrow> string \<Rightarrow> 'z shell_scheme \<Rightarrow> 'z shell_scheme" where
  "sync_note j m y = y\<lparr>sh_host := note_log j (''sync: '' @ m) (sh_host y)\<rparr>"

text \<open>One turn of \<open>_loop\<close>: nothing a tick raises leaves the thread.\<close>

definition loop_turn ::
  "uplink \<Rightarrow> jobspec \<Rightarrow> string option \<Rightarrow> env option \<Rightarrow> sync_loop \<times> 'z shell_scheme \<Rightarrow> sync_loop \<times> 'z shell_scheme" where
  "loop_turn u spec prefix env ly =
     (case ly of (l, y) \<Rightarrow>
        (case tick u spec prefix env MIN_AGE_S (Some DEFAULT_TIMEOUT_S) (sl_missing_ticks l \<ge> MISSING_TICKS) True y of
           (Inr _, y1) \<Rightarrow> (l\<lparr>sl_missing_ticks := 0\<rparr>, y1)
         | (Inl (MissingOutput m), y1) \<Rightarrow>
             (l\<lparr>sl_missing_ticks := Suc (sl_missing_ticks l)\<rparr>, sync_note (sp_job_id spec) (''WARNING: '' @ m) y1)
         | (Inl (TooManyRecentFiles m), y1) \<Rightarrow> (l, sync_note (sp_job_id spec) (''WARNING: '' @ m) y1)
         | (Inl (SyncError m), y1) \<Rightarrow> (l\<lparr>sl_last_error := Some m\<rparr>, sync_note (sp_job_id spec) m y1)
         | (Inl e, y1) \<Rightarrow>
             (l\<lparr>sl_last_error := Some ''periodic sync raised''\<rparr>, sync_note (sp_job_id spec) ''periodic sync raised'' y1)))"

text \<open>\<open>final\<close>, once the thread has been joined.\<close>

definition final :: "uplink \<Rightarrow> jobspec \<Rightarrow> string option \<Rightarrow> env option \<Rightarrow> (unit, 'z shell_scheme) eff" where
  "final u spec prefix env =
     seq (try_eff (\<lambda>e. e \<in> {RuntimeError, OSError, FileNotFoundError}) ()
            (at_host (clear_output_uploads (sp_job_id spec)))) (\<lambda>_.
       tick u spec prefix env 0 None True False)"

section \<open>What is confirmed\<close>

text \<open>
  The destinations a state records as reached, those it records as reached at some time since
  the records were cleared, and how the two kinds of record change them.
\<close>

definition goods :: "jobstate \<Rightarrow> (string option \<times> string) set" where
  "goods s = set (done_uploads s)"

definition oks :: "jobstate \<Rightarrow> (string option \<times> string) set" where
  "oks s = {x. list_ex (\<lambda>v. (up_output v, up_to v) = x \<and> \<not> blank (up_ok_at v)) (st_uploads s)}"

lemma goods_ex: "goods s = {x. list_ex (\<lambda>v. (up_output v, up_to v) = x \<and> \<not> blank (up_ok_at v) \<and> blank (up_error v)) (st_uploads s)}"
  by (auto simp: goods_def done_uploads_def list_ex_iff)

lemma goods_oks: "goods s \<subseteq> oks s"
  by (auto simp: goods_ex oks_def list_ex_iff)

lemma note_ok_good:
  "ok \<noteq> [] \<Longrightarrow>
   list_ex (\<lambda>v. (up_output v, up_to v) = x \<and> \<not> blank (up_ok_at v) \<and> blank (up_error v)) (note_upload to out (Some ok) None us)
   \<longleftrightarrow> x = (out, to) \<or> list_ex (\<lambda>v. (up_output v, up_to v) = x \<and> \<not> blank (up_ok_at v) \<and> blank (up_error v)) us"
  by (induction us) (auto simp: noted_def blank_def)

lemma note_ok_oks:
  "ok \<noteq> [] \<Longrightarrow>
   list_ex (\<lambda>v. (up_output v, up_to v) = x \<and> \<not> blank (up_ok_at v)) (note_upload to out (Some ok) None us)
   \<longleftrightarrow> x = (out, to) \<or> list_ex (\<lambda>v. (up_output v, up_to v) = x \<and> \<not> blank (up_ok_at v)) us"
  by (induction us) (auto simp: noted_def blank_def)

lemma note_err_oks:
  "list_ex (\<lambda>v. (up_output v, up_to v) = x \<and> \<not> blank (up_ok_at v)) (note_upload to out None err us)
   \<longleftrightarrow> list_ex (\<lambda>v. (up_output v, up_to v) = x \<and> \<not> blank (up_ok_at v)) us"
  by (induction us) (auto simp: noted_def blank_def)

lemma record_goods:
  "ok \<noteq> [] \<Longrightarrow> goods (record_upload_state to out (Some ok) None s) = insert (out, to) (goods s)"
  "ok \<noteq> [] \<Longrightarrow> oks (record_upload_state to out (Some ok) None s) = insert (out, to) (oks s)"
  "oks (record_upload_state to out None err s) = oks s"
  by (auto simp: goods_ex oks_def record_upload_state_def note_ok_good note_ok_oks note_err_oks)

lemma cleared_oks: "(Some p, to) \<notin> oks (forget_output_uploads s)"
  by (auto simp: oks_def forget_output_uploads_def list_ex_iff blank_def)

section \<open>Uploads leave the host alone\<close>

interpretation still: climbing "\<lambda>y y' :: 'z shell_scheme. sh_host y' = sh_host y"
  by unfold_locales auto

lemma still_command: "sh_host (snd (command t argv to env y)) = sh_host y"
  by (simp add: command_def split: sum.split)

lemma still_label: "sh_host (snd (host_label y)) = sh_host y"
  by (simp add: host_label_def)

lemma still_fail: "sh_host (snd (fail_command argv c out y)) = sh_host y"
  unfolding fail_command_def by (rule still.seq_le) (auto simp: still_label)

lemma still_binary: "sh_host (snd (binary t n env p y)) = sh_host y"
  unfolding binary_def by (auto split: option.split intro!: still.seq_le simp: still_label)

lemma still_run: "sh_host (snd (run_tool t argv to env y)) = sh_host y"
  unfolding run_tool_def by (rule still.seq_le) (auto simp: still_command still_fail)

lemma still_upload_dir: "sh_host (snd (upload_dir t d local excl to env y)) = sh_host y"
  by (cases d) (auto intro!: still.seq_le simp: still_binary still_run)

lemma still_put_file: "sh_host (snd (put_file t d local name to env y)) = sh_host y"
  by (cases d) (auto intro!: still.seq_le simp: still_binary still_run)

lemma still_attempt: "sh_host (snd (attempt_upload u local there stale excl to env d y)) = sh_host y"
  by (simp add: attempt_upload_def still_upload_dir)

definition ready :: "job_id \<Rightarrow> 'z shell_scheme \<Rightarrow> bool" where
  "ready j y \<longleftrightarrow> has_job j (sh_host y) \<and> \<not> isl (read_state j (sh_host y)) \<and> \<not> isl (h_config (sh_host y))"

definition conf :: "(jobstate \<Rightarrow> 'b set) \<Rightarrow> job_id \<Rightarrow> 'z shell_scheme \<Rightarrow> 'b set" where
  "conf f j y = (case read_state j (sh_host y) of Inl e \<Rightarrow> {} | Inr s \<Rightarrow> f s)"

lemma ready_still: "sh_host y' = sh_host y \<Longrightarrow> ready j y' = ready j y" "sh_host y' = sh_host y \<Longrightarrow> conf f j y' = conf f j y"
  by (simp_all add: ready_def conf_def)

lemma label_ready: "ready j y \<Longrightarrow> \<exists>l. host_label y = (Inr l, y)"
  by (cases "h_config (sh_host y)") (auto simp: host_label_def ready_def)

lemma raises_sync:
  assumes "ready j y"
  shows command_err: "command t argv to env y = (Inl e, y') \<Longrightarrow> \<exists>m. e = SyncError m"
    and fail_err: "fail_command argv c out y = (Inl e, y') \<Longrightarrow> \<exists>m. e = SyncError m"
    and binary_err: "binary t n env p y = (Inl e, y') \<Longrightarrow> \<exists>m. e = SyncError m"
  using label_ready [OF assms]
  by (auto simp: command_def fail_command_def binary_def split: sum.splits option.splits)

lemma run_err:
  assumes "ready j y" "run_tool t argv to env y = (Inl e, y')"
  shows "\<exists>m. e = SyncError m"
proof (cases "command t argv to env y")
  case (Pair r y1)
  then have still: "sh_host y1 = sh_host y" using still_command [of t argv to env y] by simp
  show ?thesis
  proof (cases r)
    case (Inl e1)
    then show ?thesis using assms Pair command_err by (fastforce simp: run_tool_def)
  next
    case (Inr cr)
    then show ?thesis
      using assms Pair fail_err [of j y1] ready_still(1) [OF still, of j]
      by (auto simp: run_tool_def split: if_splits)
  qed
qed

lemma tool_err:
  assumes "ready j y" "seq (binary t n env p) (\<lambda>b. run_tool t (argv b) to env) y = (Inl e, y')"
  shows "\<exists>m. e = SyncError m"
proof (cases "binary t n env p y")
  case (Pair r y1)
  then have still: "sh_host y1 = sh_host y" using still_binary [of t n env p y] by simp
  show ?thesis
  proof (cases r)
    case (Inl e1)
    then show ?thesis using assms Pair binary_err by fastforce
  next
    case (Inr b)
    then show ?thesis using assms Pair run_err [of j y1] ready_still(1) [OF still, of j] by auto
  qed
qed

lemma attempt_err:
  assumes "ready j y" "attempt_upload u local there stale excl to env d y = (Inl e, y')"
  shows "is_sync_error e \<and> \<not> is_too_many e"
  using assms
  by (cases d) (auto simp: attempt_upload_def is_sync_error_def split: if_splits dest!: tool_err)

section \<open>One destination, one output, all of them\<close>

text \<open>
  What an upload to one destination leaves behind: its record, whichever way it went, and
  nothing else that a confirmation depends on.
\<close>

lemma stamped_ready:
  assumes "ready j y"
  obtains s where "read_state j (sh_host y) = Inr s"
    "stamped_upload u j to out err y = (Inr (), y\<lparr>sh_host := write_state j
       (record_upload_state to out (if err = None then Some (uk_stamp u (length (sh_calls y))) else None) err s) (sh_host y)\<rparr>)"
  using assms
  by (cases "read_state j (sh_host y)")
    (auto simp: ready_def stamped_upload_def at_host_def record_upload_def with_state_def)

lemma stamped_effect:
  assumes "ready j y" "\<And>n. uk_stamp u n \<noteq> []" and run: "stamped_upload u j to out err y = (r, y')"
  shows "r = Inr ()" "ready j y'"
    "err = None \<Longrightarrow> conf goods j y' = insert (out, to) (conf goods j y)"
    "err = None \<Longrightarrow> conf oks j y' = insert (out, to) (conf oks j y)"
    "err \<noteq> None \<Longrightarrow> conf oks j y' = conf oks j y"
proof -
  obtain s where s: "read_state j (sh_host y) = Inr s"
    and y': "y' = y\<lparr>sh_host := write_state j
       (record_upload_state to out (if err = None then Some (uk_stamp u (length (sh_calls y))) else None) err s) (sh_host y)\<rparr>"
    and r: "r = Inr ()"
    using stamped_ready [OF assms(1), of u to out err] run by (metis prod.inject)
  have here: "has_job j (sh_host y)" using assms(1) by (simp add: ready_def)
  note facts = here s states.rd_own [OF here] record_goods(1,2) [OF assms(2)] record_goods(3)
  show "r = Inr ()" by (rule r)
  show "ready j y'" using assms(1) facts by (simp add: ready_def y' write_state_def)
  show "err = None \<Longrightarrow> conf goods j y' = insert (out, to) (conf goods j y)"
    "err = None \<Longrightarrow> conf oks j y' = insert (out, to) (conf oks j y)"
    "err \<noteq> None \<Longrightarrow> conf oks j y' = conf oks j y"
    using facts by (auto simp: conf_def y')
qed

text \<open>
  The contract of one upload, in terms of its destination's key: reached and recorded, or not
  reached, with every other record as it was.
\<close>

definition one_upload :: "job_id \<Rightarrow> string option \<times> string \<Rightarrow> 'z shell_scheme \<Rightarrow> bool \<Rightarrow> 'z shell_scheme \<Rightarrow> bool" where
  "one_upload j x y good y' \<longleftrightarrow> ready j y' \<and>
     (if good then conf goods j y' = insert x (conf goods j y) \<and> conf oks j y' = insert x (conf oks j y)
      else conf oks j y' = conf oks j y)"

lemma upload_one_effect:
  assumes ready: "ready j y" and stamps: "\<And>n. uk_stamp u n \<noteq> []"
    and still: "sh_host (snd (att d y)) = sh_host y"
    and run: "upload_one u j path rm att d y = (r, y')"
  shows "(\<exists>e. r = Inl e \<and> \<not> is_sync_error e \<and> fst (att d y) = Inl e)
     \<or> (r = Inr None \<and> one_upload j (Some path, dest_uri d) y True y')
     \<or> (\<exists>e. r = Inr (Some e) \<and> is_sync_error e \<and> fst (att d y) = Inl e \<and> one_upload j (Some path, dest_uri d) y False y')"
proof -
  obtain r1 y1 where att: "att d y = (r1, y1)" by fastforce
  have ready1: "ready j y1" and c1: "conf f j y1 = conf f j y" for f :: "jobstate \<Rightarrow> (string option \<times> string) set"
    using still ready_still [of y1 y] ready att by simp_all
  obtain r2 y2 where ok: "stamped_upload u j (dest_uri d) (Some path) None y1 = (r2, y2)" by fastforce
  note ok_eff = stamped_effect [OF ready1 stamps ok]
  show ?thesis
  proof (cases r1)
    case (Inr v)
    then show ?thesis using att run ok ok_eff c1 by (auto simp: upload_one_def one_upload_def)
  next
    case (Inl e)
    obtain r3 y3 where bad: "stamped_upload u j (dest_uri d) (Some path) (Some (said e)) y1 = (r3, y3)" by fastforce
    note bad_eff = stamped_effect [OF ready1 stamps bad]
    show ?thesis
      using att run Inl bad bad_eff c1 ready1
      by (auto simp: upload_one_def one_upload_def split: if_splits)
  qed
qed

definition keys_of :: "string \<Rightarrow> destination list \<Rightarrow> (string option \<times> string) set" where
  "keys_of path ds = (\<lambda>d. (Some path, dest_uri d)) ` set ds"

text \<open>The same for a list of destinations, with the errors collected.\<close>

definition many_uploads :: "job_id \<Rightarrow> (string option \<times> string) set \<Rightarrow> 'z shell_scheme \<Rightarrow> bool \<Rightarrow> 'z shell_scheme \<Rightarrow> bool" where
  "many_uploads j X y good y' \<longleftrightarrow> ready j y' \<and> conf oks j y' \<subseteq> conf oks j y \<union> X \<and>
     (good \<longrightarrow> conf goods j y' = conf goods j y \<union> X \<and> conf oks j y' = conf oks j y \<union> X)"

lemma many_uploads_none: "ready j y \<Longrightarrow> many_uploads j {} y True y"
  by (simp add: many_uploads_def)

lemma many_uploads_trans:
  "many_uploads j X y a y1 \<Longrightarrow> many_uploads j Z y1 b y2 \<Longrightarrow> many_uploads j (X \<union> Z) y (a \<and> b) y2"
  unfolding many_uploads_def by auto

lemma one_many: "one_upload j x y good y' \<Longrightarrow> many_uploads j {x} y good y'"
  by (cases good) (auto simp: one_upload_def many_uploads_def)

text \<open>Some key of the batch is left without a confirmation.\<close>

definition missed :: "job_id \<Rightarrow> (string option \<times> string) set \<Rightarrow> 'z shell_scheme \<Rightarrow> bool" where
  "missed j X y \<longleftrightarrow> (\<exists>x \<in> X. x \<notin> conf oks j y)"

lemma missed_stays:
  "missed j X y \<Longrightarrow> many_uploads j Z y g y' \<Longrightarrow> X \<inter> Z = {} \<Longrightarrow> missed j (X \<union> Z) y'"
  by (auto simp: missed_def many_uploads_def)

lemma missed_later: "missed j Z y \<Longrightarrow> missed j (X \<union> Z) y"
  by (auto simp: missed_def)

lemma upload_each_effect:
  assumes stamps: "\<And>n. uk_stamp u n \<noteq> []"
    and still: "\<And>d y. sh_host (snd (att d y)) = sh_host y"
    and errs: "\<forall>d y e y'. ready j y \<longrightarrow> att d y = (Inl e, y') \<longrightarrow> is_sync_error e \<and> \<not> is_too_many e"
  shows "ready j y \<Longrightarrow> upload_each (upload_one u j path rm att) ds y = (r, y') \<Longrightarrow>
    \<exists>es. r = Inr es \<and> many_uploads j (keys_of path ds) y (es = []) y'
      \<and> (\<forall>e \<in> set es. is_sync_error e \<and> \<not> is_too_many e)
      \<and> (es \<noteq> [] \<longrightarrow> distinct (map dest_uri ds) \<longrightarrow> keys_of path ds \<inter> conf oks j y = {} \<longrightarrow> missed j (keys_of path ds) y')"
proof (induction ds arbitrary: y r y')
  case Nil
  then show ?case by (auto simp: keys_of_def many_uploads_none)
next
  case (Cons d ds)
  let ?x = "(Some path, dest_uri d)" and ?Z = "keys_of path ds"
  have keys: "keys_of path (d # ds) = {?x} \<union> ?Z" by (auto simp: keys_of_def)
  obtain r1 y1 where one: "upload_one u j path rm att d y = (r1, y1)" by fastforce
  have att_err: "is_sync_error e \<and> \<not> is_too_many e" if "fst (att d y) = Inl e" for e
    using errs Cons.prems(1) that by (metis prod.collapse)
  have "\<exists>eo. r1 = Inr eo \<and> one_upload j ?x y (eo = None) y1
      \<and> (\<forall>e. eo = Some e \<longrightarrow> is_sync_error e \<and> \<not> is_too_many e)"
    using upload_one_effect [OF Cons.prems(1) stamps still one] att_err by (elim disjE exE conjE) auto
  then obtain eo where r1: "r1 = Inr eo" and eff: "one_upload j ?x y (eo = None) y1"
    and eo: "\<forall>e. eo = Some e \<longrightarrow> is_sync_error e \<and> \<not> is_too_many e"
    by (elim exE conjE)
  have ready1: "ready j y1" using eff by (simp add: one_upload_def)
  obtain r2 y2 where rest: "upload_each (upload_one u j path rm att) ds y1 = (r2, y2)" by fastforce
  obtain es where r2: "r2 = Inr es" and eff2: "many_uploads j ?Z y1 (es = []) y2"
    and es: "\<forall>e \<in> set es. is_sync_error e \<and> \<not> is_too_many e"
    and miss2: "es \<noteq> [] \<longrightarrow> distinct (map dest_uri ds) \<longrightarrow> ?Z \<inter> conf oks j y1 = {} \<longrightarrow> missed j ?Z y2"
    using Cons.IH [OF ready1 rest] by blast
  let ?all = "(case eo of None \<Rightarrow> [] | Some e \<Rightarrow> [e]) @ es"
  have run: "r = Inr ?all" "y' = y2"
    using Cons.prems(2) one r1 rest r2 by (simp_all add: seq_def)
  have good: "?all = [] \<longleftrightarrow> eo = None \<and> es = []" by (auto split: option.splits)
  have "many_uploads j ({?x} \<union> ?Z) y (?all = []) y'"
    using many_uploads_trans [OF one_many [OF eff] eff2] run good by simp
  moreover have "missed j ({?x} \<union> ?Z) y'"
    if bad: "?all \<noteq> []" and dist: "distinct (map dest_uri (d # ds))" and fresh: "({?x} \<union> ?Z) \<inter> conf oks j y = {}"
  proof -
    have apart: "{?x} \<inter> ?Z = {}" using dist by (auto simp: keys_of_def)
    show ?thesis
    proof (cases "es = []")
      case True
      then have "missed j {?x} y1" using bad good eff fresh by (simp add: one_upload_def missed_def)
      then show ?thesis using missed_stays [OF _ eff2 apart] run by simp
    next
      case False
      have "?Z \<inter> conf oks j y1 = {}" using eff fresh apart by (auto simp: one_upload_def split: if_splits)
      then show ?thesis using miss2 False dist run missed_later [of j ?Z y2 "{?x}"] by simp
    qed
  qed
  ultimately show ?case using run es eo by (auto simp: keys split: option.splits)
qed

lemma config_write [simp]: "h_config (write_state j s h) = h_config h"
  by (simp add: write_state_def)

lemma missing_too_many: "is_missing e \<Longrightarrow> \<not> is_too_many e"
  by (cases e) auto

lemma combined_kind:
  assumes "es \<noteq> []" "\<forall>e \<in> set es. is_sync_error e"
  shows "is_sync_error (combined es)" "is_too_many (combined es) \<Longrightarrow> \<forall>e \<in> set es. is_too_many e"
  using assms by (auto simp: combined_def is_sync_error_def Let_def list_all_iff split: if_splits)

lemma combined_not_too_many:
  assumes "es \<noteq> []" "\<forall>e \<in> set es. is_sync_error e \<and> \<not> is_too_many e"
  shows "is_sync_error (combined es) \<and> \<not> is_too_many (combined es)"
proof -
  have some: "hd es \<in> set es" using assms(1) by simp
  have "\<not> is_too_many (combined es)"
    using combined_kind(2) [of es] assms some by blast
  then show ?thesis using combined_kind(1) [of es] assms by blast
qed

lemma format_errors: "format_job_id p j = Inl e \<Longrightarrow> e \<in> {ValueError, IndexError, KeyError}"
proof (induction p j rule: format_job_id.induct)
  case (3 c d t j)
  have sub: "map_sum id f r = Inl e \<Longrightarrow> r = Inl e" for f and r :: "string res" by (cases r) auto
  note run = 3(5) [unfolded format_job_id.simps(3) Let_def]
  consider (brace) "c = CHR ''{''" "d = CHR ''{''" | (close) "c = CHR ''}''" | (field) "c = CHR ''{''" "d \<noteq> CHR ''{''"
    | (plain) "c \<noteq> CHR ''{''" "c \<noteq> CHR ''}''" by blast
  then show ?case
  proof cases
    case brace
    then have "map_sum id ((#) c) (format_job_id t j) = Inl e" using run by simp
    then show ?thesis using 3(1) brace sub by blast
  next
    case close
    then show ?thesis using 3(2) sub run by (cases "d = CHR ''}''") auto
  next
    case field
    then show ?thesis
      using 3(3) [OF _ _ _ refl refl] sub run by (auto split: if_splits)
  next
    case plain
    then have "map_sum id ((#) c) (format_job_id (d # t) j) = Inl e" using run by simp
    then show ?thesis using 3(4) plain sub by blast
  qed
qed (auto split: if_splits)

lemma format_raises: "format_job_id p j = Inl e \<Longrightarrow> \<not> is_sync_error e"
  using format_errors by (fastforce simp: is_sync_error_def)

text \<open>One output: \<open>destinations_of\<close> names its keys, and a raised \<open>SyncError\<close> means one was missed.\<close>

lemma sync_output_effect:
  assumes stamps: "\<And>n. uk_stamp u n \<noteq> []" and ready: "ready j y"
    and ds: "destinations_of out j = Inr ds"
    and run: "sync_output u out j min_age to env es rm y = (r, y')"
  shows "(\<exists>e. r = Inl e \<and> \<not> is_sync_error e \<and> y' = y)
    \<or> (\<exists>e. r = Inl e \<and> is_too_many e \<and> y' = y)
    \<or> (r = Inr () \<and> many_uploads j (keys_of (out_path out) ds) y True y')
    \<or> (\<exists>e. r = Inl e \<and> is_sync_error e \<and> \<not> is_too_many e \<and> many_uploads j (keys_of (out_path out) ds) y False y'
        \<and> (distinct (map dest_uri ds) \<longrightarrow> keys_of (out_path out) ds \<inter> conf oks j y = {} \<longrightarrow> missed j (keys_of (out_path out) ds) y'))"
proof (cases "output_key out j")
  case (Inl e)
  then have "\<not> is_sync_error e" using format_raises [of "out_path out" j e] by (simp add: output_key_def)
  then show ?thesis using run Inl by (auto simp: sync_output_def seq_def)
next
  case (Inr key)
  define node links local excl stale where defs:
    "node = workdir_node j key (sh_host y)" "links = (\<lambda>p. uk_links u (path_parts key @ p))"
    "local = local_path u j key"
    "excl = (if too_many es then [] else case node of Some n \<Rightarrow> unchanged n es | None \<Rightarrow> [])"
    "stale = (es \<noteq> [] \<and> \<not> has_new_content (last_part key) node es)"
  let ?names = "recently_modified links (uk_time u (length (sh_calls y))) node min_age"
  let ?att = "attempt_upload u local (behind links node \<noteq> None) stale (excl @ ?names) to env"
  have unfold: "sync_output u out j min_age to env es rm y =
     seq (in_flight u links local node min_age) (\<lambda>busy.
          seq (asks (\<lambda>_. destinations_of out j)) (\<lambda>ds.
          seq (upload_each (upload_one u j (out_path out) rm
                 (attempt_upload u local (behind links node \<noteq> None) stale (excl @ busy) to env)) ds)
            raise_combined)) y"
    unfolding sync_output_def defs Let_def
    by (subst seq_after [where a = key and t = y]) (simp_all only: Inr eff_simps)
  show ?thesis
  proof (cases "length ?names > MAX_EXCLUDES")
    case True
    then show ?thesis using run unfolding unfold by (auto simp: in_flight_def seq_def Let_def)
  next
    case False
    obtain r1 y1 where each: "upload_each (upload_one u j (out_path out) rm ?att) ds y = (r1, y1)" by fastforce
    have go: "sync_output u out j min_age to env es rm y = seq (\<lambda>_. (r1, y1)) raise_combined y"
      using False ds each unfolding unfold by (simp add: in_flight_def seq_def Let_def)
    have err: "\<forall>d z e z'. ready j z \<longrightarrow> ?att d z = (Inl e, z') \<longrightarrow> is_sync_error e \<and> \<not> is_too_many e"
      using attempt_err by blast
    obtain errs where r1: "r1 = Inr errs" and up: "many_uploads j (keys_of (out_path out) ds) y (errs = []) y1"
      and kinds: "\<forall>e \<in> set errs. is_sync_error e \<and> \<not> is_too_many e"
      and miss: "errs \<noteq> [] \<longrightarrow> distinct (map dest_uri ds) \<longrightarrow> keys_of (out_path out) ds \<inter> conf oks j y = {}
        \<longrightarrow> missed j (keys_of (out_path out) ds) y1"
      using upload_each_effect [where att = ?att, OF stamps still_attempt err ready each] by blast
    show ?thesis
    proof (cases "errs = []")
      case True
      then show ?thesis using run go r1 up by (simp add: seq_def raise_combined_def)
    next
      case False
      then have "r = Inl (combined errs)" "y' = y1" using run go r1 by (simp_all add: seq_def raise_combined_def)
      then show ?thesis using combined_not_too_many [OF False kinds] up miss False by simp
    qed
  qed
qed

text \<open>All outputs: the keys of a list of them.\<close>

definition wants :: "job_id \<Rightarrow> output_rec list \<Rightarrow> (string option \<times> string) list res" where
  "wants j outs =
     map_sum id (map (\<lambda>w. (Some (fst w), snd w)) \<circ> concat)
       (map_res (\<lambda>out. map_sum id (map (\<lambda>u. (out_path out, u))) (destination_uris out j)) outs)"

lemma uris_of: "destination_uris out j = map_sum id (map dest_uri) (destinations_of out j)"
  by (auto simp: destination_uris_def destinations_of_def mk_s3_def mk_hf_def s3_uri_def hf_uri_def bind_res_def
      map_sum_def Let_def split: sum.splits if_splits)

lemma wants_Cons:
  assumes "wants j (out # outs) = Inr ws"
  obtains ds vs where "destinations_of out j = Inr ds" "wants j outs = Inr vs"
    "ws = map (\<lambda>d. (Some (out_path out), dest_uri d)) ds @ vs"
  using assms
  by (auto simp: wants_def uris_of bind_res_def map_sum_def split: sum.splits)

lemma sync_each_effect:
  assumes stamps: "\<And>n. uk_stamp u n \<noteq> []"
  shows "ready j y \<Longrightarrow> wants j outs = Inr ws \<Longrightarrow>
    sync_each (sync_one u j min_age to env base rm) outs y = (Inr es, y') \<Longrightarrow>
    many_uploads j (set ws) y (es = []) y' \<and> (\<forall>e \<in> set es. is_sync_error e)
    \<and> ((\<exists>e \<in> set es. \<not> is_too_many e) \<longrightarrow> distinct ws \<longrightarrow> set ws \<inter> conf oks j y = {} \<longrightarrow> missed j (set ws) y')"
proof (induction outs arbitrary: y ws es y')
  case Nil
  then show ?case by (auto simp: wants_def many_uploads_none)
next
  case (Cons out outs)
  obtain ds vs where ds: "destinations_of out j = Inr ds" and vs: "wants j outs = Inr vs"
    and ws: "ws = map (\<lambda>d. (Some (out_path out), dest_uri d)) ds @ vs"
    using wants_Cons [OF Cons.prems(2)] by metis
  let ?X = "keys_of (out_path out) ds" and ?one = "sync_one u j min_age to env base rm"
  have setws: "set ws = ?X \<union> set vs" by (auto simp: ws keys_of_def)
  obtain r1 y1 where first: "?one out y = (r1, y1)" by fastforce
  have key: "\<not> isl (baseline_entries base out j)"
  proof
    assume "isl (baseline_entries base out j)"
    then obtain e where e: "output_key out j = Inl e" "baseline_entries base out j = Inl e"
      by (cases "output_key out j") (auto simp: baseline_entries_def)
    then have "\<not> is_sync_error e" using format_raises [of "out_path out" j e] by (simp add: output_key_def)
    then show False using Cons.prems(3) e by (simp add: sync_one_def seq_def)
  qed
  then obtain ent where ent: "baseline_entries base out j = Inr ent" by (cases "baseline_entries base out j") auto
  have so: "sync_output u out j min_age to env ent rm y = (r1, y1)"
    using first ent by (simp add: sync_one_def seq_def)
  consider (raised) e where "r1 = Inl e" "\<not> is_sync_error e"
    | (skip) e where "r1 = Inl e" "is_too_many e" "y1 = y"
    | (ok) "r1 = Inr ()" "many_uploads j ?X y True y1"
    | (bad) e where "r1 = Inl e" "is_sync_error e" "\<not> is_too_many e" "many_uploads j ?X y False y1"
        "distinct (map dest_uri ds) \<longrightarrow> ?X \<inter> conf oks j y = {} \<longrightarrow> missed j ?X y1"
    using sync_output_effect [OF stamps Cons.prems(1) ds so] by (elim disjE exE conjE) auto
  then show ?case
  proof cases
    case raised
    then show ?thesis using Cons.prems(3) first by simp
  next
    case ok
    then have rest: "sync_each ?one outs y1 = (Inr es, y')" and ready1: "ready j y1"
      using Cons.prems(3) first by (simp_all add: many_uploads_def)
    note IH = Cons.IH [OF ready1 vs rest]
    have "missed j (set ws) y'" if "\<exists>e \<in> set es. \<not> is_too_many e" "distinct ws" "set ws \<inter> conf oks j y = {}"
    proof -
      have "set vs \<inter> conf oks j y1 = {}"
        using that(2,3) ok(2) setws by (auto simp: many_uploads_def ws keys_of_def)
      then show ?thesis using IH that(1,2) setws missed_later [of j "set vs" y' ?X] by (simp add: ws)
    qed
    then show ?thesis using many_uploads_trans [OF ok(2)] IH setws by auto
  next
    case (skip e)
    have kind: "is_sync_error e" using skip(2) by (cases e) (auto simp: is_sync_error_def)
    obtain es' where rest: "sync_each ?one outs y = (Inr es', y')" and es: "es = e # es'"
      using Cons.prems(3) first skip(1,3) kind by (auto simp: seq_Inr)
    note IH = Cons.IH [OF Cons.prems(1) vs rest]
    have "many_uploads j (set ws) y False y'" using IH setws by (auto simp: many_uploads_def)
    moreover have "missed j (set ws) y'"
      if "\<exists>e \<in> set es. \<not> is_too_many e" "distinct ws" "set ws \<inter> conf oks j y = {}"
      using that IH es skip(2) setws missed_later [of j "set vs" y' ?X] by (auto simp: ws)
    ultimately show ?thesis using IH es kind by auto
  next
    case (bad e)
    have ready1: "ready j y1" using bad(4) by (simp add: many_uploads_def)
    obtain es' where rest: "sync_each ?one outs y1 = (Inr es', y')" and es: "es = e # es'"
      using Cons.prems(3) first bad(1,2) by (auto simp: seq_Inr)
    note IH = Cons.IH [OF ready1 vs rest]
    have many: "many_uploads j (set ws) y False y'"
      using many_uploads_trans [OF bad(4), of "set vs" "es' = []" y'] IH setws by simp
    have "missed j (set ws) y'" if "distinct ws" "set ws \<inter> conf oks j y = {}"
    proof -
      have "distinct (map dest_uri ds)" "?X \<inter> set vs = {}"
        using that(1) by (auto simp: ws keys_of_def distinct_map inj_on_def)
      then show ?thesis using bad(5) that(2) setws IH missed_stays [of j ?X y1 "set vs" "es' = []" y'] by auto
    qed
    then show ?thesis using many es IH bad(2) by auto
  qed
qed

lemma wants_wanted:
  "wanted_uploads spec = Inr ws \<Longrightarrow> wants (sp_job_id spec) (sp_outputs spec) = Inr (map (\<lambda>w. (Some (fst w), snd w)) ws)"
  by (auto simp: wanted_uploads_def wants_def map_sum_def split: sum.splits)

lemma uploaded_iff:
  "wanted_uploads spec = Inr ws \<Longrightarrow> outputs_uploaded s spec = Inr ((\<lambda>w. (Some (fst w), snd w)) ` set ws \<subseteq> goods s)"
  by (auto simp: outputs_uploaded_def list_all_iff goods_def)

lemma final_unfold:
  assumes ready: "ready (sp_job_id spec) y"
  obtains y1 where "ready (sp_job_id spec) y1" "\<And>p to. (Some p, to) \<notin> conf oks (sp_job_id spec) y1"
    "final u spec prefix env y =
       seq (sync_each (sync_one u (sp_job_id spec) 0 None env (baseline_of (sp_job_id spec) (sh_host y1)) True)
         (sp_outputs spec)) raise_combined y1"
proof -
  let ?j = "sp_job_id spec"
  obtain s where s: "read_state ?j (sh_host y) = Inr s" and here: "has_job ?j (sh_host y)"
    using ready by (cases "read_state ?j (sh_host y)") (auto simp: ready_def)
  define y1 where "y1 = y\<lparr>sh_host := write_state ?j (forget_output_uploads s) (sh_host y)\<rparr>"
  have clear: "at_host (clear_output_uploads ?j) y = (Inr (), y1)"
    using s here by (simp add: at_host_def clear_output_uploads_def with_state_def y1_def)
  show thesis
  proof (rule that [of y1])
    show "ready ?j y1" using ready here by (simp add: ready_def y1_def states.rd_own)
    show "(Some p, to) \<notin> conf oks ?j y1" for p to
      using here by (simp add: conf_def y1_def states.rd_own cleared_oks)
    show "final u spec prefix env y =
       seq (sync_each (sync_one u ?j 0 None env (baseline_of ?j (sh_host y1)) True) (sp_outputs spec)) raise_combined y1"
      using clear
      by (auto simp: final_def try_eff_def seq_def tick_def sync_outputs_def raise_combined_def split: prod.splits sum.splits)
  qed
qed

lemma final_effect:
  assumes "has_job (sp_job_id spec) (sh_host y)" "read_state (sp_job_id spec) (sh_host y) = Inr s"
    and "h_config (sh_host y) = Inr c" and stamps: "\<And>n. uk_stamp u n \<noteq> []"
    and wanted: "wanted_uploads spec = Inr ws"
    and run: "final u spec prefix env y = (r, y')"
  shows "(r = Inr () \<longrightarrow> (\<exists>s'. read_state (sp_job_id spec) (sh_host y') = Inr s' \<and> outputs_uploaded s' spec = Inr True))
    \<and> (\<forall>m. (r = Inl (SyncError m) \<or> r = Inl (MissingOutput m)) \<and> distinct ws \<longrightarrow>
         (\<exists>s'. read_state (sp_job_id spec) (sh_host y') = Inr s' \<and> outputs_uploaded s' spec = Inr False))"
proof -
  let ?j = "sp_job_id spec" and ?vs = "map (\<lambda>w. (Some (fst w), snd w)) ws"
  have ready: "ready ?j y" using assms(1-3) by (simp add: ready_def)
  obtain y1 where ready1: "ready ?j y1" and fresh: "\<And>p to. (Some p, to) \<notin> conf oks ?j y1"
    and go: "final u spec prefix env y =
       seq (sync_each (sync_one u ?j 0 None env (baseline_of ?j (sh_host y1)) True) (sp_outputs spec)) raise_combined y1"
    using final_unfold [OF ready] by metis
  let ?each = "sync_each (sync_one u ?j 0 None env (baseline_of ?j (sh_host y1)) True) (sp_outputs spec)"
  obtain q y2 where each: "?each y1 = (q, y2)" by fastforce
  have stuck: "set ?vs \<inter> conf oks ?j y1 = {}" using fresh by auto
  have dist: "distinct ?vs = distinct ws" by (auto simp: distinct_map inj_on_def)
  show ?thesis
  proof (cases q)
    case (Inl e)
    then have r: "r = Inl e" using run go each by simp
    have "\<not> is_sync_error e"
    proof -
      have "sync_each f outs z = (Inl e, z') \<Longrightarrow> \<not> is_sync_error e" for f :: "output_rec \<Rightarrow> (unit, 'a shell_scheme) eff" and outs z z'
        by (induction outs arbitrary: z) (auto simp: seq_def split: prod.splits sum.splits if_splits)
      then show ?thesis using each Inl by blast
    qed
    then show ?thesis using r by (auto simp: is_sync_error_def)
  next
    case (Inr es)
    have eff: "many_uploads ?j (set ?vs) y1 (es = []) y2" and kinds: "\<forall>e \<in> set es. is_sync_error e"
      and miss: "(\<exists>e \<in> set es. \<not> is_too_many e) \<longrightarrow> distinct ?vs \<longrightarrow> set ?vs \<inter> conf oks ?j y1 = {} \<longrightarrow> missed ?j (set ?vs) y2"
      using sync_each_effect [OF stamps ready1 wants_wanted [OF wanted]] each Inr by blast+
    obtain s' where s': "read_state ?j (sh_host y2) = Inr s'"
      using eff by (cases "read_state ?j (sh_host y2)") (auto simp: many_uploads_def ready_def)
    have end_state: "y' = y2" "r = (if es = [] then Inr () else Inl (combined es))"
      using run go each Inr by (auto simp: raise_combined_def split: if_splits)
    have safe: "outputs_uploaded s' spec = Inr True" if "es = []"
      using eff that s' uploaded_iff [OF wanted] by (auto simp: many_uploads_def conf_def)
    have lost: "outputs_uploaded s' spec = Inr False" if "es \<noteq> []" "\<not> is_too_many (combined es)" "distinct ws"
    proof -
      have "\<exists>e \<in> set es. \<not> is_too_many e"
      proof (cases "list_all is_missing es")
        case True
        then show ?thesis using hd_in_set [OF that(1)] missing_too_many by (auto simp: list_all_iff)
      next
        case False
        then show ?thesis using that(2) by (auto simp: combined_def Let_def list_all_iff split: if_splits)
      qed
      then have "missed ?j (set ?vs) y2" using miss stuck dist that(3) by blast
      then show ?thesis using s' uploaded_iff [OF wanted, of s'] goods_oks [of s'] by (auto simp: missed_def conf_def)
    qed
    show ?thesis using safe lost s' end_state by (cases "es = []") (auto split: if_splits)
  qed
qed

text \<open>
  C21. The last upload of a job decides exactly whether its outputs are recorded as safe. When
  \<open>final\<close> returns, every destination of every declared output is recorded as reached; when it
  raises a failed or a missing upload, at least one is not, provided no two outputs name the same
  path and destination. The record is what \<open>purge\<close>, the drain and the secrets rely on, and an
  earlier tick that worked never stands in for the last one.
\<close>

theorem final_sync_exact:
  assumes "has_job (sp_job_id spec) (sh_host y)" "read_state (sp_job_id spec) (sh_host y) = Inr s"
    and "h_config (sh_host y) = Inr c" and stamps: "\<And>n. uk_stamp u n \<noteq> []"
    and wanted: "wanted_uploads spec = Inr ws"
    and run: "final u spec prefix env y = (r, y')"
  shows "(r = Inr () \<longrightarrow> (\<exists>s'. read_state (sp_job_id spec) (sh_host y') = Inr s' \<and> outputs_uploaded s' spec = Inr True))
    \<and> (\<forall>m. (r = Inl (SyncError m) \<or> r = Inl (MissingOutput m)) \<and> distinct ws \<longrightarrow>
         (\<exists>s'. read_state (sp_job_id spec) (sh_host y') = Inr s' \<and> outputs_uploaded s' spec = Inr False))"
  by (rule final_effect [OF assms])

section \<open>What uploading keeps\<close>

text \<open>
  A predicate that survives a command being run survives every upload of a file; one that survives
  the record of the mirror survives the mirror; and one that survives a line in the job's log and any
  write to its state that leaves the status and the attempt alone survives everything in this file.
\<close>

locale kept_by_calls =
  fixes P :: "'z shell_scheme \<Rightarrow> bool"
  assumes calls: "P y \<Longrightarrow> P (y\<lparr>sh_calls := c\<rparr>)"
begin

lemma keeps_command [keeps_rules]: "keeps P (command t argv to env)"
  by (rule keepsI) (simp add: command_def calls split: sum.split)

lemma keeps_tools [keeps_rules]:
  "keeps P (fail_command argv c out)" "keeps P (binary t n env p)" "keeps P (run_tool t argv to env)"
  "keeps P (must_pass t argv env tail adv)"
  unfolding fail_command_def host_label_def binary_def run_tool_def must_pass_def
  by (intro keeps_rules | simp)+

lemma keeps_dests [keeps_rules]:
  "keeps P (upload_dir t d local excl to env)" "keeps P (put_file t d local name to env)"
proof -
  show "keeps P (upload_dir t d local excl to env)"
    by (cases d) (simp_all only: upload_dir.simps, (intro keeps_rules)+)
  show "keeps P (put_file t d local name to env)"
    by (cases d) (simp_all only: put_file.simps, (intro keeps_rules)+)
qed

lemma keeps_preflight [keeps_rules]: "keeps P (preflight t d probe env)"
  by (cases d) (simp_all split del: if_split, (intro keeps_rules)+)

lemma keeps_preflight_all [keeps_rules]: "keeps P (preflight_all t probe env ds)"
proof (rule keepsI)
  show "P y \<Longrightarrow> P (snd (preflight_all t probe env ds y))" for y
  proof (induction ds arbitrary: y)
    case (Cons d ds)
    have "keeps P (preflight_all t probe env ds)" by (rule keepsI) (rule Cons.IH)
    then have "keeps P (seq (preflight t d probe env) (\<lambda>_. seq (preflight_all t probe env ds) (\<lambda>us. ret (dest_uri d # us))))"
      by (intro keeps_rules)
    then show ?case using Cons.prems by (simp add: keeps_def)
  qed simp
qed

lemma keeps_preflight_run [keeps_rules]: "keeps P (preflight_run t spec c probe env)"
  unfolding preflight_run_def by (intro keeps_rules)

lemma keeps_put_if [keeps_rules]: "keeps P m \<Longrightarrow> keeps P (put_if c m)"
  by (simp add: put_if_def keeps_ret)

lemma keeps_meta [keeps_rules]: "keeps P (sync_job_meta u j prefix to env)"
  unfolding sync_job_meta_def
  by (rule keeps_option, rule keeps_ret, rule keeps_seq) (rule keeps_look, intro keeps_rules)+

lemma keeps_put_state [keeps_rules]: "keeps P (put_state u j m env)"
proof (rule keepsI)
  fix y
  assume "P y"
  obtain r y1 where put: "put_if (has_job j (sh_host y)) (put_file (uk_tools u) m (job_path u j ''state.json'') ''state.json''
      (Some META_TIMEOUT_S) env) y = (r, y1)" by fastforce
  have y1: "P y1" using keepsD [OF keeps_put_if [OF keeps_dests(2)] \<open>P y\<close> put] .
  then show "P (snd (put_state u j m env y))" using put by (cases r) (simp_all add: put_state_def)
qed

end

lemma stamped_host:
  "snd (stamped_upload u j to out err y) = y\<lparr>sh_host := snd (update_state j (record_upload_state to out
     (if err = None then Some (uk_stamp u (length (sh_calls y))) else None) err) (sh_host y))\<rparr>"
proof -
  have "snd (with_state j (\<lambda>s. (Inr () :: unit res, Some (f s))) h) = snd (update_state j f h)" for f h
    by (simp add: update_state_def with_state_def split: sum.split)
  then show ?thesis by (simp add: stamped_upload_def at_host_def record_upload_def case_prod_unfold)
qed

locale kept_by_mirror = kept_by_calls P for P :: "'z shell_scheme \<Rightarrow> bool" +
  fixes j :: job_id
  assumes mirrors: "P y \<Longrightarrow> P (y\<lparr>sh_host := snd (update_state j (record_upload_state to None ok err) (sh_host y))\<rparr>)"
begin

lemma keeps_mirror_record: "keeps P (stamped_upload u j to None err)"
  by (rule keepsI) (simp add: stamped_host mirrors)

lemma keeps_mirror_meta [keeps_rules]: "keeps P (mirror_meta u j prefix env)"
proof (rule keepsI)
  fix y
  assume "P y"
  obtain r y1 where meta: "sync_job_meta u j prefix (Some META_TIMEOUT_S) env y = (r, y1)" by fastforce
  have y1: "P y1" using keepsD [OF keeps_meta \<open>P y\<close> meta] .
  have "keeps P (seq (stamped_upload u j to None None) (\<lambda>_. ret (Some m)))"
    "keeps P (seq (stamped_upload u j to None (Some msg)) (\<lambda>_. throw e :: (destination option, 'z shell_scheme) eff))"
    for to msg e and m :: destination
    by (intro keeps_rules keeps_mirror_record)+
  then show "P (snd (mirror_meta u j prefix env y))"
    using y1 meta \<open>P y\<close> by (cases r) (simp_all add: mirror_meta_def keeps_def split: option.split)
qed

end

locale kept_by_uploads = kept_by_calls P for P :: "'z shell_scheme \<Rightarrow> bool" +
  fixes j :: job_id
  assumes writes: "P y \<Longrightarrow> (\<And>s. st_status (f s) = st_status s \<and> st_attempt (f s) = st_attempt s) \<Longrightarrow>
      P (y\<lparr>sh_host := snd (update_state j f (sh_host y))\<rparr>)"
    and lines: "P y \<Longrightarrow> P (y\<lparr>sh_host := note_log j m (sh_host y)\<rparr>)"

sublocale kept_by_uploads \<subseteq> kept_by_mirror P j
  by unfold_locales (rule writes, simp_all add: record_upload_state_def)

context kept_by_uploads
begin

lemma keeps_stamped [keeps_rules]: "keeps P (stamped_upload u j to out err)"
  by (rule keepsI) (simp add: stamped_host writes record_upload_state_def)

lemma keeps_clear [keeps_rules]: "keeps P (at_host (clear_output_uploads j))"
proof (rule keepsI)
  fix y
  assume "P y"
  have "snd (with_state j (\<lambda>s. (Inr () :: unit res, Some (forget_output_uploads s))) h)
      = snd (update_state j forget_output_uploads h)" for h
    by (simp add: update_state_def with_state_def split: sum.split)
  then show "P (snd (at_host (clear_output_uploads j) y))"
    using writes [OF \<open>P y\<close>, of forget_output_uploads]
    by (simp add: at_host_def clear_output_uploads_def case_prod_unfold forget_output_uploads_def)
qed

lemma keeps_upload_one:
  assumes "\<And>d. keeps P (att d)"
  shows "keeps P (upload_one u j path rm att d)"
proof (rule keepsI)
  fix y
  assume "P y"
  obtain r y1 where att: "att d y = (r, y1)" by fastforce
  have y1: "P y1" using keepsD [OF assms \<open>P y\<close> att] .
  have "keeps P (seq (stamped_upload u j (dest_uri d) (Some path) None) (\<lambda>_. ret (None :: pyerr option)))"
    "keeps P (seq (if rm \<or> \<not> is_missing e then stamped_upload u j (dest_uri d) (Some path) (Some (said e)) else ret ())
       (\<lambda>_. ret (Some e)))" for e
    by (intro keeps_rules)+
  then show "P (snd (upload_one u j path rm att d y))"
    using y1 att by (cases r) (simp_all add: upload_one_def keeps_def)
qed

lemma keeps_upload_each:
  assumes "\<And>d. keeps P (one d)"
  shows "keeps P (upload_each one ds)"
proof (rule keepsI)
  show "P y \<Longrightarrow> P (snd (upload_each one ds y))" for y
  proof (induction ds arbitrary: y)
    case (Cons d ds)
    have "keeps P (upload_each one ds)" by (rule keepsI) (rule Cons.IH)
    then have "keeps P (seq (one d) (\<lambda>e. seq (upload_each one ds) (\<lambda>es. ret ((case e of None \<Rightarrow> [] | Some x \<Rightarrow> [x]) @ es))))"
      using assms by (intro keeps_rules)
    then show ?case using Cons.prems by (simp add: keeps_def)
  qed simp
qed

lemma keeps_attempt: "keeps P (attempt_upload u local there stale excl to env d)"
  unfolding attempt_upload_def by (intro keeps_rules)

lemma keeps_raise [keeps_rules]: "keeps P (raise_combined es)"
  unfolding raise_combined_def by (intro keeps_rules)

lemma keeps_in_flight [keeps_rules]: "keeps P (in_flight u links local node age)"
  by (rule keepsI) (simp add: in_flight_def Let_def)

lemma keeps_sync_output [keeps_rules]: "keeps P (sync_output u out j age to env es rm)"
  unfolding sync_output_def Let_def
  by (rule keeps_seq, rule keeps_asks, rule keeps_look)
    (intro keeps_rules keeps_upload_each keeps_upload_one keeps_attempt)

lemma keeps_sync_one [keeps_rules]: "keeps P (sync_one u j age to env base rm out)"
  unfolding sync_one_def by (intro keeps_rules)

lemma keeps_sync_each:
  assumes "\<And>out. keeps P (one out)"
  shows "keeps P (sync_each one outs)"
proof (rule keepsI)
  show "P y \<Longrightarrow> P (snd (sync_each one outs y))" for y
  proof (induction outs arbitrary: y)
    case (Cons out outs)
    have rest: "keeps P (sync_each one outs)" by (rule keepsI) (rule Cons.IH)
    obtain r y1 where one: "one out y = (r, y1)" by fastforce
    have y1: "P y1" using keepsD [OF assms Cons.prems one] .
    have "keeps P (seq (sync_each one outs) (\<lambda>es. ret (e # es)))" for e by (intro keeps_rules rest)
    then show ?case using y1 one rest by (cases r) (simp_all add: keeps_def)
  qed simp
qed

lemma keeps_sync_outputs [keeps_rules]: "keeps P (sync_outputs u outs j age to env base rm)"
  unfolding sync_outputs_def by (intro keeps_rules keeps_sync_each)

lemma keeps_final_meta [keeps_rules]: "keeps P (final_meta_sync u j prefix env)"
  unfolding final_meta_sync_def by (intro keeps_rules)

lemma keeps_tick: "sp_job_id spec = j \<Longrightarrow> keeps P (tick u spec prefix env age to rm meta)"
  unfolding tick_def by (rule keeps_look) (intro keeps_rules | simp)+

lemma keeps_final: "sp_job_id spec = j \<Longrightarrow> keeps P (final u spec prefix env)"
  unfolding final_def by (intro keeps_rules keeps_tick | simp)+

end

text \<open>A host with one job whose one output goes to a bucket, and a tool that always works.\<close>

definition demo_uplink :: uplink where
  "demo_uplink =
     \<lparr>uk_tools = demo_tools, uk_home = ''/root/gpuc'', uk_workdir = (\<lambda>j. ''/root/gpuc/jobs/'' @ j @ ''/workdir''), uk_time = (\<lambda>n. 100), uk_stamp = (\<lambda>n. ''2026-01-01''),
      uk_links = (\<lambda>p. None)\<rparr>"

definition demo_shell :: "jobspec \<Rightarrow> shell" where
  "demo_shell spec =
     \<lparr>sh_host = \<lparr>h_jobs = [(''j1'', \<lparr>jd_spec = Inr spec, jd_state = Inr (blank_state\<lparr>st_status := ''running''\<rparr>),
          jd_log = [], jd_workdir = Some (NDir 8 (Some [(''ckpt'', NDir 8 (Some [(''a'', NFile (demo_file 3 5))]))])),
          jd_archive = None, jd_baseline = [], jd_outside = []\<rparr>)],
        h_incoming = [], h_secrets = [], h_draining = False, h_config = Inr blank_config, h_scratch = False\<rparr>,
      sh_calls = []\<rparr>"

definition demo_upload_spec :: jobspec where
  "demo_upload_spec =
     \<lparr>sp_job_id = ''j1'', sp_command = ''train'', sp_name = [], sp_setup = None, sp_python = DEFAULT_PYTHON, sp_gpus = 0,
      sp_use_shared = False, sp_env = [], sp_secrets = [], sp_outputs = [demo_output], sp_sync_interval_s = 60,
      sp_priority = 50, sp_max_runtime_min = None, sp_estimated_runtime_min = None, sp_progress_command = None,
      sp_progress_interval_s = Fin 60, sp_auto_preempt = False, sp_cleanup = ''on_success'', sp_requeued_from = None\<rparr>"

definition demo_final :: "unit res \<times> shell" where
  "demo_final = final demo_uplink demo_upload_spec None None (demo_shell demo_upload_spec)"

lemma demo_final_ok: "fst demo_final = Inr ()"
  by code_simp

lemma demo_site:
  "has_job (sp_job_id demo_upload_spec) (sh_host (demo_shell demo_upload_spec))"
  "read_state (sp_job_id demo_upload_spec) (sh_host (demo_shell demo_upload_spec)) = Inr (blank_state\<lparr>st_status := ''running''\<rparr>)"
  "h_config (sh_host (demo_shell demo_upload_spec)) = Inr blank_config"
  "uk_stamp demo_uplink n \<noteq> []"
  "wanted_uploads demo_upload_spec = Inr [(''ckpt'', ''s3://b/j1''), (''ckpt'', ''hf://org/model/j1'')]"
  by (simp_all add: demo_shell_def demo_upload_spec_def demo_uplink_def has_job_def read_state_def job_of_def) code_simp

theorem final_sync_exact_witness:
  "\<exists>s'. read_state ''j1'' (sh_host (snd demo_final)) = Inr s' \<and> outputs_uploaded s' demo_upload_spec = Inr True"
proof -
  have run: "final demo_uplink demo_upload_spec None None (demo_shell demo_upload_spec) = (Inr (), snd demo_final)"
    using demo_final_ok by (simp add: demo_final_def prod_eq_iff)
  have j: "sp_job_id demo_upload_spec = ''j1''" by (simp add: demo_upload_spec_def)
  show ?thesis using final_sync_exact [OF demo_site(1-3) demo_site(4) demo_site(5) run] unfolding j by blast
qed

end
