(* ===== verification/Scope.thy ===== *)
theory Scope
  imports Prelude
begin

text \<open>
  \<open>src/gpuc/host/scope.py\<close>: how a phase is put in a systemd scope of its own. The script goes
  through systemd's own word expansion on its way, so it is passed base64-encoded; the
  encoding is \<open>base64.b64encode\<close> of the script's ASCII bytes. Whether the host has scopes at all
  is asked of systemd and is the runner's parameter.
\<close>

definition CGROUP :: string where "CGROUP = ''cgroup''"
definition PGID :: string where "PGID = ''pgid''"
definition STOP_TIMEOUT_S :: nat where "STOP_TIMEOUT_S = 15"

definition unit_name :: "job_id \<Rightarrow> string \<Rightarrow> string" where
  "unit_name j phase = ''gpuc-'' @ j @ ''-'' @ phase @ ''.scope''"

section \<open>Base64\<close>

definition b64_alphabet :: string where
  "b64_alphabet = ''ABCDEFGHIJKLMNOPQRSTUVWXYZabcdefghijklmnopqrstuvwxyz0123456789+/''"

definition b64_char :: "nat \<Rightarrow> char" where
  "b64_char n = b64_alphabet ! (n mod 64)"

fun b64encode :: "nat list \<Rightarrow> string" where
  "b64encode [] = []"
| "b64encode [a] = [b64_char (a div 4), b64_char (a mod 4 * 16), CHR ''='', CHR ''='']"
| "b64encode [a, b] =
     [b64_char (a div 4), b64_char (a mod 4 * 16 + b div 16), b64_char (b mod 16 * 4), CHR ''='']"
| "b64encode (a # b # c # t) =
     [b64_char (a div 4), b64_char (a mod 4 * 16 + b div 16), b64_char (b mod 16 * 4 + c div 64), b64_char (c mod 64)]
     @ b64encode t"

text \<open>What \<open>base64 -d\<close> makes of it inside the scope.\<close>

definition b64_value :: "char \<Rightarrow> nat" where
  "b64_value c = length (takeWhile (\<lambda>x. x \<noteq> c) b64_alphabet)"

fun b64decode :: "string \<Rightarrow> nat list" where
  "b64decode (w # x # y # z # t) =
     (let p = b64_value w; q = b64_value x; r = b64_value y; s = b64_value z
      in if y = CHR ''='' then [p * 4 + q div 16]
         else if z = CHR ''='' then [p * 4 + q div 16, q mod 16 * 16 + r div 4]
         else [p * 4 + q div 16, q mod 16 * 16 + r div 4, r mod 4 * 64 + s] @ b64decode t)"
| "b64decode _ = []"

section \<open>The command of a phase\<close>

definition phase_script :: "string \<Rightarrow> string" where
  "phase_script command = ''set -eo pipefail'' @ [CHR 0x0A] @ command @ [CHR 0x0A]"

definition phase_payload :: "string \<Rightarrow> string" where
  "phase_payload command = b64encode (map of_char (phase_script command))"

definition phase_argv :: "string \<Rightarrow> string option \<Rightarrow> string list" where
  "phase_argv command u =
     (case u of
        None \<Rightarrow> [''bash'', ''-eo'', ''pipefail'', ''-c'', command]
      | Some name \<Rightarrow>
          [''systemd-run'', ''--user'', ''--scope'', ''--collect'', ''--quiet'', ''-p'',
           ''TimeoutStopSec='' @ nat_str STOP_TIMEOUT_S, ''--unit='' @ name, ''--'', ''bash'', ''-c'',
           ''base64 -d <<<'' @ [CHR 0x22] @ ''$1'' @ [CHR 0x22] @ '' | bash'', ''_'', phase_payload command])"

section \<open>Properties\<close>

lemma b64_char_in: "b64_char n \<in> set b64_alphabet"
  unfolding b64_char_def by (rule nth_mem) (simp add: b64_alphabet_def)

lemma b64_value_char: "n < 64 \<Longrightarrow> b64_value (b64_char n) = n"
proof -
  have "list_all (\<lambda>n. b64_value (b64_char n) = n) [0..<64]" by code_simp
  then show "n < 64 \<Longrightarrow> ?thesis" by (simp add: list_all_iff)
qed

lemma b64_char_pad: "b64_char n \<noteq> CHR ''=''"
proof -
  have "CHR ''='' \<notin> set b64_alphabet" by (simp add: b64_alphabet_def)
  then show ?thesis using b64_char_in by metis
qed

lemma b64_bits:
  fixes a b c :: nat
  assumes "a < 256" "b < 256" "c < 256"
  shows "a div 4 * 4 + (a mod 4 * 16 + b div 16) div 16 = a"
    "(a mod 4 * 16 + b div 16) mod 16 * 16 + (b mod 16 * 4 + c div 64) div 4 = b"
    "(b mod 16 * 4 + c div 64) mod 4 * 64 + c mod 64 = c"
    "a div 4 < 64" "a mod 4 * 16 + b div 16 < 64" "b mod 16 * 4 + c div 64 < 64"
proof -
  have small: "a div 4 < 64" "b div 16 < 16" "c div 64 < 4" "a mod 4 < 4" "b mod 16 < 16"
    using assms by (simp_all add: less_mult_imp_div_less)
  then have "(a mod 4 * 16 + b div 16) div 16 = a mod 4" "(b mod 16 * 4 + c div 64) div 4 = b mod 16"
    "(a mod 4 * 16 + b div 16) mod 16 = b div 16" "(b mod 16 * 4 + c div 64) mod 4 = c div 64"
    by simp_all
  then show "a div 4 * 4 + (a mod 4 * 16 + b div 16) div 16 = a"
    "(a mod 4 * 16 + b div 16) mod 16 * 16 + (b mod 16 * 4 + c div 64) div 4 = b"
    "(b mod 16 * 4 + c div 64) mod 4 * 64 + c mod 64 = c"
    by simp_all
  show "a div 4 < 64" "a mod 4 * 16 + b div 16 < 64" "b mod 16 * 4 + c div 64 < 64"
    using small by linarith+
qed

lemma b64_roundtrip: "\<forall>x \<in> set bs. x < 256 \<Longrightarrow> b64decode (b64encode bs) = bs"
proof (induction bs rule: b64encode.induct)
  case (2 a)
  then show ?case using b64_bits [of a 0 0] by (simp add: b64_value_char)
next
  case (3 a b)
  then have r: "a < 256" "b < 256" by auto
  then show ?case using b64_bits [of a b 0] by (simp add: b64_value_char b64_char_pad)
next
  case (4 a b c t)
  then have r: "a < 256" "b < 256" "c < 256" by auto
  then show ?case using 4 b64_bits [OF r] by (simp add: b64_value_char b64_char_pad)
qed simp

lemma b64_chars: "set (b64encode bs) \<subseteq> insert (CHR ''='') (set b64_alphabet)"
  by (induction bs rule: b64encode.induct) (auto simp: b64_char_in)

text \<open>
  Whatever the job's command is, the word systemd is given for it holds no dollar sign and no
  white space, so nothing in it is expanded or split on the way, and it decodes to the script.
\<close>

theorem payload_survives_systemd:
  "CHR ''$'' \<notin> set (phase_payload command) \<and> CHR '' '' \<notin> set (phase_payload command)
   \<and> b64decode (phase_payload command) = map of_char (phase_script command)"
proof -
  have "CHR ''$'' \<notin> insert (CHR ''='') (set b64_alphabet)" "CHR '' '' \<notin> insert (CHR ''='') (set b64_alphabet)"
    by (simp_all add: b64_alphabet_def)
  then have "CHR ''$'' \<notin> set (phase_payload command)" "CHR '' '' \<notin> set (phase_payload command)"
    using b64_chars unfolding phase_payload_def by blast+
  moreover have "b64decode (phase_payload command) = map of_char (phase_script command)"
    unfolding phase_payload_def by (rule b64_roundtrip) auto
  ultimately show ?thesis by blast
qed

end
