(* ===== verification/Runner.thy ===== *)
theory Runner
  imports Sync Scope Gpus Lifecycle
begin

text \<open>
  \<open>src/gpuc/host/runner.py\<close>: one job from its claim to the write that ends it. The state is the
  \<open>JobRunner\<close> object beside the host and the commands run (\<open>shell\<close>), with the signals sent and the
  phases started kept as lists. \<open>runner\<close> is what the process was started with and what it will
  find: at each named point, and at each turn of the loop that watches a phase, a \<open>moment\<close> says
  what time it is, whom \<open>owner.json\<close> names, what every other process did to the host since the
  last one (cancels, preemptions, edits, the sync thread's own records) and whether a signal
  arrived. A phase whose turns are over has exited; \<open>os._exit\<close> is \<open>ProcessExit\<close>, which nothing
  catches. A signal is seen at these points rather than between two instructions.
\<close>

section \<open>What a runner is given\<close>

record moment =
  mo_now :: seconds
  mo_owner :: "string option"
  mo_others :: "host \<Rightarrow> host"
  mo_signal :: "int option"
  mo_stamp :: string

record turn = moment +
  tk_progress :: "pyfloat res"
  tk_util :: "pyfloat smi_res"

record phase_run =
  ph_pid :: "int option"
  ph_start :: seconds
  ph_turns :: "turn list"
  ph_code :: int
  ph_left :: "(string \<times> string option \<times> string option) list"
  ph_term_ok :: bool
  ph_polls :: "bool list"

record runner =
  rn_job :: job_id
  rn_attempt :: int
  rn_id :: runner_id
  rn_spec :: jobspec
  rn_config :: hostconfig
  rn_instance :: string
  rn_kernel :: kernel
  rn_smi :: smi_runner
  rn_uplink :: uplink
  rn_environ :: env
  rn_secrets :: "string option"
  rn_expand :: "string \<Rightarrow> string"
  rn_agent :: string
  rn_preflight_command :: string
  rn_preflight :: bool
  rn_sync_preflight :: bool
  rn_eta :: "seconds \<Rightarrow> pyfloat \<Rightarrow> string option"
  rn_phase :: "string \<Rightarrow> phase_run"
  rn_at :: "string \<Rightarrow> moment"
  rn_loop_error :: "string option"

abbreviation rn_assigned :: "runner \<Rightarrow> uuid list" where
  "rn_assigned w \<equiv> ri_gpus (rn_id w)"

record rsys = shell +
  ry_kill_reason :: "string option"
  ry_indices :: "(uuid \<times> int) list option"
  ry_current :: "int option"
  ry_unit :: "string option"
  ry_progress_error :: "string option"
  ry_measured_eta :: bool
  ry_estimate :: "pyfloat option"
  ry_max_runtime :: "pyfloat option"
  ry_published :: "pyfloat option"
  ry_main_started :: bool
  ry_next_owner_check :: seconds
  ry_ending :: bool
  ry_signals :: "effect list"
  ry_started :: "(string \<times> string list \<times> env) list"

definition SAMPLE_INTERVAL_S :: seconds where "SAMPLE_INTERVAL_S = 30"
definition ESTIMATE_REFRESH_S :: seconds where "ESTIMATE_REFRESH_S = 30"
definition UTIL_SAMPLES_KEPT :: nat where "UTIL_SAMPLES_KEPT = 40"
definition TERMINATED_EXIT_CODE :: int where "TERMINATED_EXIT_CODE = 143"
definition CHECK_S :: seconds where "CHECK_S = 5"

section \<open>Numbers\<close>

fun float_scale :: "rat \<Rightarrow> pyfloat \<Rightarrow> pyfloat" where
  "float_scale k (Fin r) = Fin (k * r)"
| "float_scale k PosInf = (if k > 0 then PosInf else if k < 0 then NegInf else NaN)"
| "float_scale k NegInf = (if k > 0 then NegInf else if k < 0 then PosInf else NaN)"
| "float_scale k NaN = NaN"

fun float_shift :: "pyfloat \<Rightarrow> rat \<Rightarrow> pyfloat" where
  "float_shift (Fin r) x = Fin (r + x)"
| "float_shift f x = f"

definition past :: "seconds \<Rightarrow> pyfloat \<Rightarrow> bool" where
  "past t f = (case f of Fin r \<Rightarrow> t \<ge> r | NegInf \<Rightarrow> True | _ \<Rightarrow> False)"

text \<open>Python's \<open>==\<close> of two optional floats: a NaN is not itself.\<close>

definition same_float :: "pyfloat option \<Rightarrow> pyfloat option \<Rightarrow> bool" where
  "same_float a b \<longleftrightarrow> a = b \<and> a \<noteq> Some NaN"

fun round1 :: "pyfloat \<Rightarrow> pyfloat" where
  "round1 (Fin r) = (let (n, d) = quotient_of (10 * r) in Fin (of_int (round_half_even n d) / 10))"
| "round1 f = f"

fun float_add :: "pyfloat \<Rightarrow> pyfloat \<Rightarrow> pyfloat" where
  "float_add (Fin a) (Fin b) = Fin (a + b)"
| "float_add NaN _ = NaN"
| "float_add _ NaN = NaN"
| "float_add (Fin a) f = f"
| "float_add f (Fin a) = f"
| "float_add PosInf PosInf = PosInf"
| "float_add NegInf NegInf = NegInf"
| "float_add _ _ = NaN"

section \<open>The job's environment\<close>

definition data_dir :: "runner \<Rightarrow> env \<Rightarrow> string" where
  "data_dir w env =
     (if blank (map_of env ''GPUC_DATA_DIR'') then uk_home (rn_uplink w) @ ''/data''
      else rn_expand w (the (map_of env ''GPUC_DATA_DIR'')))"

definition card_vars :: "uuid list \<Rightarrow> (uuid \<times> int) list option \<Rightarrow> env" where
  "card_vars cards indices =
     (case indices of
        Some ix \<Rightarrow>
          if cards \<noteq> [] \<and> list_all (\<lambda>u. map_of ix u \<noteq> None) cards
          then [(''CUDA_VISIBLE_DEVICES'', join '','' (map (\<lambda>u. int_str (the (map_of ix u))) cards)),
                (''CUDA_DEVICE_ORDER'', ''PCI_BUS_ID'')]
          else [(''CUDA_VISIBLE_DEVICES'', join '','' cards)]
      | None \<Rightarrow> [(''CUDA_VISIBLE_DEVICES'', join '','' cards)])"

definition build_env :: "runner \<Rightarrow> (uuid \<times> int) list option \<Rightarrow> env" where
  "build_env w indices =
     (let env1 = dict_merge (dict_merge (rn_environ w) (parse_env_file (rn_secrets w))) (sp_env (rn_spec w));
          env2 = dict_merge env1 (card_vars (rn_assigned w) indices @
            [(''GPUC_JOB_ID'', sp_job_id (rn_spec w)),
             (''GPUC_JOB_DIR'', uk_home (rn_uplink w) @ ''/jobs/'' @ sp_job_id (rn_spec w)),
             (''GPUC_OUTPUTS'', uk_home (rn_uplink w) @ ''/jobs/'' @ sp_job_id (rn_spec w) @ ''/outputs''),
             (''GPUC_EXPECTED_GPUS'', nat_str (length (rn_assigned w)))]);
          env3 = dict_merge env2 [(''GPUC_DATA_DIR'', data_dir w env2)]
      in setdefault ''HF_HUB_USER_AGENT_ORIGIN'' (rn_agent w) env3)"

text \<open>\<open>_verify_assigned\<close>: every assigned card against what the driver reports now.\<close>

definition verify_assigned :: "runner \<Rightarrow> (string option, rsys) eff" where
  "verify_assigned w y =
     (if rn_assigned w = []
      then (Inr (if sp_gpus (rn_spec w) = 0 then None else Some ''no GPUs assigned to a job that asks for some''), y)
      else (case list_gpus (rn_smi w) of
          Inl (GpuError m) \<Rightarrow> (Inr (Some m), y)
        | Inl (SmiRaised e) \<Rightarrow> (Inl e, y)
        | Inr table \<Rightarrow>
            let cards = Gpus.resolve (Some (rn_assigned w)) table []
            in if rs_missing cards \<noteq> []
               then (Inr (Some (''assigned GPUs not present on this host: '' @ join '', '' (rs_missing cards)
                       @ ''; nvidia-smi reports: '' @ describe_table table)), y)
               else if rs_duplicates cards \<noteq> []
               then (Inr (Some (''assigned GPUs name one card twice: '' @ join '', '' (rs_duplicates cards)
                       @ ''; nvidia-smi reports: '' @ describe_table table)), y)
               else (Inr None, y\<lparr>ry_indices := Some (dict_of (List.map_filter
                       (\<lambda>g. map_option (Pair (gp_uuid g)) (gp_index g)) table))\<rparr>)))"

section \<open>Access to the parts\<close>

definition log_line :: "runner \<Rightarrow> string \<Rightarrow> (unit, rsys) eff" where
  "log_line w m = at_host (\<lambda>h. (Inr (), note_log (rn_job w) m h))"

definition upd :: "runner \<Rightarrow> (jobstate \<Rightarrow> jobstate) \<Rightarrow> (unit, rsys) eff" where
  "upd w f = seq (at_host (update_state (rn_job w) f)) (\<lambda>_. ret ())"

definition reads :: "(host \<Rightarrow> 'a res) \<Rightarrow> ('a, rsys) eff" where
  "reads f = asks (\<lambda>y. f (sh_host y))"

definition puts :: "(rsys \<Rightarrow> rsys) \<Rightarrow> (unit, rsys) eff" where
  "puts f y = (Inr (), f y)"

definition sends :: "effect list \<Rightarrow> (unit, rsys) eff" where
  "sends es = puts (\<lambda>y. y\<lparr>ry_signals := ry_signals y @ es\<rparr>)"

text \<open>A point of the run: what happened meanwhile, and the signal handler if one arrived.\<close>

definition arrive :: "'m moment_scheme \<Rightarrow> (unit, rsys) eff" where
  "arrive m y =
     (let y1 = y\<lparr>sh_host := mo_others m (sh_host y)\<rparr>
      in (case mo_signal m of
            None \<Rightarrow> (Inr (), y1)
          | Some n \<Rightarrow> if ry_ending y1 then (Inr (), y1) else (Inl (Terminated n), y1\<lparr>ry_ending := True\<rparr>)))"

definition other_owner :: "string option \<Rightarrow> string \<Rightarrow> string option" where
  "other_owner named me = (case named of None \<Rightarrow> None | Some o' \<Rightarrow> if o' \<noteq> me then Some o' else None)"

definition phase_processes :: "string option \<Rightarrow> int \<Rightarrow> job_processes" where
  "phase_processes u pid = \<lparr>jp_cgroup_unit = u, jp_job_pgid = Some pid, jp_runner_pid = None\<rparr>"

text \<open>\<open>_stand_down_if_replaced\<close>: leave at once, the job killed and nothing more written.\<close>

definition stand_down :: "runner \<Rightarrow> int option \<Rightarrow> bool \<Rightarrow> 'm moment_scheme \<Rightarrow> (unit, rsys) eff" where
  "stand_down w pid force m y =
     (if \<not> force \<and> mo_now m < ry_next_owner_check y then (Inr (), y)
      else
        let y1 = y\<lparr>ry_next_owner_check := mo_now m + CHECK_S\<rparr>
        in (case other_owner (mo_owner m) (rn_instance w) of
              None \<Rightarrow> (Inr (), y1)
            | Some other \<Rightarrow>
                seq (case pid of None \<Rightarrow> ret () | Some p \<Rightarrow> sends (kill_now (rn_kernel w) (phase_processes (ry_unit y) p))) (\<lambda>_.
                seq (log_line w (''STANDING DOWN: '' @ other @ '' has taken this queue over; stopping here'')) (\<lambda>_.
                  throw (ProcessExit TERMINATED_EXIT_CODE))) y1))"

definition kill_phase :: "runner \<Rightarrow> phase_run \<Rightarrow> int \<Rightarrow> string \<Rightarrow> (unit, rsys) eff" where
  "kill_phase w p pid reason y =
     sends (stop (phase_processes (ry_unit y) pid) (ph_term_ok p) (ph_polls p)) (y\<lparr>ry_kill_reason := Some reason\<rparr>)"

section \<open>Estimates, progress, utilization\<close>

definition reread_live_fields :: "runner \<Rightarrow> (unit, rsys) eff" where
  "reread_live_fields w y =
     (case read_state (rn_job w) (sh_host y) of
        Inl e \<Rightarrow> if e \<in> {RuntimeError, OSError, FileNotFoundError, ValueError} then (Inr (), y) else (Inl e, y)
      | Inr s \<Rightarrow>
          let limit = max_runtime s (Some (rn_spec w)); y1 = y\<lparr>ry_estimate := st_estimated_runtime_min s\<rparr>
          in if same_float limit (ry_max_runtime y) then (Inr (), y1)
             else seq (log_line w (''max_runtime_min is now ''
                    @ (case limit of None \<Rightarrow> ''no limit'' | Some f \<Rightarrow> float_repr f @ '' min'')))
                  (\<lambda>_. puts (\<lambda>y. y\<lparr>ry_max_runtime := limit\<rparr>)) y1)"

definition publish_estimated_eta :: "runner \<Rightarrow> seconds \<Rightarrow> seconds \<Rightarrow> (unit, rsys) eff" where
  "publish_estimated_eta w now elapsed y =
     (if ry_measured_eta y \<or> same_float (ry_estimate y) (ry_published y) then (Inr (), y)
      else (case ry_estimate y of
          None \<Rightarrow> upd w (\<lambda>s. s\<lparr>st_eta := None\<rparr>) (y\<lparr>ry_published := None\<rparr>)
        | Some est \<Rightarrow>
            (case rn_eta w now (float_shift (float_scale 60 est) (- elapsed)) of
               None \<Rightarrow> (Inr (), y)
             | Some eta \<Rightarrow> upd w (\<lambda>s. s\<lparr>st_eta := Some eta\<rparr>) (y\<lparr>ry_published := Some est\<rparr>))))"

definition record_progress :: "runner \<Rightarrow> turn \<Rightarrow> seconds \<Rightarrow> (unit, rsys) eff" where
  "record_progress w k elapsed y =
     (case tk_progress k of
        Inl (ProgressError m) \<Rightarrow>
          let message = ''progress command '' @ m
          in seq (if Some message \<noteq> ry_progress_error y then log_line w message else ret ()) (\<lambda>_.
             seq (puts (\<lambda>y. y\<lparr>ry_progress_error := Some message\<rparr>)) (\<lambda>_.
               upd w (\<lambda>s. s\<lparr>st_progress_error := Some message\<rparr>))) y
      | Inl e \<Rightarrow> (Inl e, y)
      | Inr percent \<Rightarrow>
          let y1 = y\<lparr>ry_progress_error := None\<rparr>;
              eta = (case percent of
                       Fin p \<Rightarrow> if p > 0 then rn_eta w (mo_now k) (Fin (elapsed * (100 - p) / p)) else None
                     | _ \<Rightarrow> None)
          in (case eta of
                None \<Rightarrow> upd w (\<lambda>s. s\<lparr>st_progress_pct := Some percent, st_progress_error := None\<rparr>) y1
              | Some t \<Rightarrow> upd w (\<lambda>s. s\<lparr>st_progress_pct := Some percent, st_progress_error := None, st_eta := Some t\<rparr>)
                  (y1\<lparr>ry_measured_eta := True\<rparr>)))"

definition record_util :: "runner \<Rightarrow> pyfloat option \<Rightarrow> (unit, rsys) eff" where
  "record_util w util =
     seq (reads (read_state (rn_job w))) (\<lambda>s.
       let sample = map_option round1 util; recent = last_n UTIL_SAMPLES_KEPT (st_util_recent s @ [sample])
       in (case sample of
             None \<Rightarrow> upd w (\<lambda>s. s\<lparr>st_util_recent := recent\<rparr>)
           | Some v \<Rightarrow> upd w (\<lambda>s'. s'\<lparr>st_util_recent := recent, st_util_sum := float_add (st_util_sum s) v,
               st_util_samples := st_util_samples s + 1\<rparr>)))"

definition sample_util :: "runner \<Rightarrow> turn \<Rightarrow> (unit, rsys) eff" where
  "sample_util w k =
     (case tk_util k of
        Inr v \<Rightarrow> record_util w (Some v)
      | Inl (GpuError m) \<Rightarrow> seq (log_line w (''utilization sample failed: '' @ m)) (\<lambda>_. record_util w None)
      | Inl (SmiRaised e) \<Rightarrow>
          if e = ValueError then seq (log_line w ''utilization sample failed: '') (\<lambda>_. record_util w None) else throw e)"

section \<open>Watching one phase\<close>

record timers =
  tm_sample :: seconds
  tm_estimate :: seconds
  tm_progress :: pyfloat

text \<open>One turn of \<open>_monitor\<close>: the timers it goes on with, or \<open>None\<close> once the phase was killed.\<close>

definition watch_turn ::
  "runner \<Rightarrow> string \<Rightarrow> phase_run \<Rightarrow> int \<Rightarrow> seconds \<Rightarrow> timers \<Rightarrow> turn \<Rightarrow> (timers option, rsys) eff" where
  "watch_turn w phase p pid job_start tm k =
     (let t = mo_now k;
          util_due = (phase = ''main'' \<and> rn_assigned w \<noteq> [] \<and> t \<ge> tm_sample tm);
          progress_due = (phase = ''main'' \<and> \<not> blank (sp_progress_command (rn_spec w)) \<and> past t (tm_progress tm))
      in seq (arrive k) (\<lambda>_.
         seq (stand_down w (Some pid) False k) (\<lambda>_.
         seq (reads (stop_requested (rn_job w))) (\<lambda>requested.
           case requested of
             Some reason \<Rightarrow> seq (kill_phase w p pid reason) (\<lambda>_. ret None)
           | None \<Rightarrow>
               seq (if t \<ge> tm_estimate tm
                    then seq (reread_live_fields w) (\<lambda>_. publish_estimated_eta w t (t - job_start)) else ret ()) (\<lambda>_ y.
                 if (case ry_max_runtime y of None \<Rightarrow> False | Some m \<Rightarrow> past (t - job_start) (float_scale 60 m))
                 then seq (kill_phase w p pid ''timeout'') (\<lambda>_. ret None) y
                 else
                   seq (if progress_due then record_progress w k (t - ph_start p) else ret ()) (\<lambda>_.
                   seq (if util_due then sample_util w k else ret ()) (\<lambda>_.
                     ret (Some
                       \<lparr>tm_sample = (if util_due then t + SAMPLE_INTERVAL_S else tm_sample tm),
                        tm_estimate = (if t \<ge> tm_estimate tm then t + ESTIMATE_REFRESH_S else tm_estimate tm),
                        tm_progress = (if progress_due then float_shift (sp_progress_interval_s (rn_spec w)) t
                                       else tm_progress tm)\<rparr>))) y)))))"

fun watch :: "runner \<Rightarrow> string \<Rightarrow> phase_run \<Rightarrow> int \<Rightarrow> seconds \<Rightarrow> timers \<Rightarrow> turn list \<Rightarrow> (unit, rsys) eff" where
  "watch w phase p pid job_start tm [] y = (Inr (), y)"
| "watch w phase p pid job_start tm (k # ks) y =
     seq (watch_turn w phase p pid job_start tm k) (\<lambda>next.
       case next of None \<Rightarrow> ret () | Some tm' \<Rightarrow> watch w phase p pid job_start tm' ks) y"

definition monitor :: "runner \<Rightarrow> string \<Rightarrow> phase_run \<Rightarrow> int \<Rightarrow> seconds \<Rightarrow> (int, rsys) eff" where
  "monitor w phase p pid job_start =
     seq (\<lambda>y. upd w (\<lambda>s. s\<lparr>st_phase := Some phase, st_pgid := Some pid, st_cgroup_unit := ry_unit y\<rparr>) y) (\<lambda>_.
     seq (publish_estimated_eta w (ph_start p) (ph_start p - job_start)) (\<lambda>_.
     seq (watch w phase p pid job_start
            \<lparr>tm_sample = ph_start p + SAMPLE_INTERVAL_S, tm_estimate = ph_start p + ESTIMATE_REFRESH_S,
             tm_progress = float_shift (sp_progress_interval_s (rn_spec w)) (ph_start p)\<rparr> (ph_turns p)) (\<lambda>_.
       ret (ph_code p))))"

definition stop_leftovers :: "runner \<Rightarrow> phase_run \<Rightarrow> int \<Rightarrow> (unit, rsys) eff" where
  "stop_leftovers w p pid y =
     (let jp = phase_processes (ry_unit y) pid; left = members jp (ph_left p)
      in if left = [] then (Inr (), y)
         else seq (log_line w (''stopping '' @ nat_str (length left) @ '' leftover process(es) of the phase: ''
                @ join '' '' (map int_str left)))
              (\<lambda>_. sends (stop jp (ph_term_ok p) (ph_polls p))) y)"

definition run_phase :: "runner \<Rightarrow> string \<Rightarrow> string \<Rightarrow> env \<Rightarrow> seconds \<Rightarrow> (int, rsys) eff" where
  "run_phase w phase cmd env job_start =
     (let p = rn_phase w phase;
          u = (if ri_isolation (rn_id w) = CGROUP then Some (unit_name (rn_job w) phase) else None)
      in seq (log_line w (''phase='' @ phase @ '': '' @ cmd)) (\<lambda>_.
         seq (puts (\<lambda>y. y\<lparr>ry_unit := u\<rparr>)) (\<lambda>_.
           case ph_pid p of
             None \<Rightarrow> throw OSError
           | Some pid \<Rightarrow>
               seq (puts (\<lambda>y. y\<lparr>ry_started := ry_started y @ [(phase, phase_argv cmd u, env)], ry_current := Some pid\<rparr>)) (\<lambda>_.
               seq (monitor w phase p pid job_start) (\<lambda>code.
               seq (\<lambda>y. if blank (ry_kill_reason y) then stop_leftovers w p pid y else (Inr (), y)) (\<lambda>_.
               seq (puts (\<lambda>y. y\<lparr>ry_current := None\<rparr>)) (\<lambda>_.
               seq (upd w (\<lambda>s. s\<lparr>st_pgid := None, st_cgroup_unit := None\<rparr>)) (\<lambda>_.
               seq (puts (\<lambda>y. y\<lparr>ry_unit := None\<rparr>)) (\<lambda>_.
               seq (log_line w (''phase='' @ phase @ '' exited '' @ int_str code)) (\<lambda>_.
                 ret code)))))))))) "

section \<open>Ending the attempt\<close>

definition classify :: "rsys \<Rightarrow> int \<Rightarrow> string option \<Rightarrow> outcome" where
  "classify y code failure_reason =
     (if ry_kill_reason y = Some ''cancelled''
      then \<lparr>oc_status = ''cancelled'', oc_reason = Some ''cancelled'', oc_exit_code = code, oc_ran = ry_main_started y\<rparr>
      else if \<not> blank (ry_kill_reason y)
      then \<lparr>oc_status = ''failed'', oc_reason = ry_kill_reason y, oc_exit_code = code, oc_ran = ry_main_started y\<rparr>
      else if code = 0
      then \<lparr>oc_status = ''succeeded'', oc_reason = None, oc_exit_code = 0, oc_ran = ry_main_started y\<rparr>
      else \<lparr>oc_status = ''failed'',
            oc_reason = Some (if blank failure_reason then ''exit '' @ int_str code else the failure_reason),
            oc_exit_code = code, oc_ran = ry_main_started y\<rparr>)"

text \<open>\<open>_blame\<close>: the outcome and the problem noted beside it, if any.\<close>

definition blame :: "outcome \<Rightarrow> string \<Rightarrow> outcome \<times> string list" where
  "blame oc reason =
     (if oc_status oc = ''succeeded''
      then (\<lparr>oc_status = ''failed'', oc_reason = Some reason, oc_exit_code = 1, oc_ran = True\<rparr>, [])
      else if oc_reason oc = None then (oc\<lparr>oc_reason := Some reason\<rparr>, [])
      else (oc, [reason]))"

definition final_upload :: "runner \<Rightarrow> env \<Rightarrow> outcome \<Rightarrow> (outcome \<times> string list, rsys) eff" where
  "final_upload w env oc y =
     (case final (rn_uplink w) (rn_spec w) (cf_s3_prefix (rn_config w)) (Some env) y of
        (Inr _, y1) \<Rightarrow> (Inr (oc, []), y1)
      | (Inl e, y1) \<Rightarrow>
          if is_missing e
          then seq (log_line w (''final sync found no outputs: '' @ said e)) (\<lambda>_. ret (blame oc ''no-outputs'')) y1
          else if is_sync_error e
          then seq (log_line w (''final sync FAILED: '' @ said e)) (\<lambda>_. ret (blame oc ''sync'')) y1
          else (Inl e, y1))"

definition comes_back :: "runner \<Rightarrow> outcome \<Rightarrow> (bool, rsys) eff" where
  "comes_back w oc = (if oc_reason oc = Some PREEMPTED then reads (is_preempted (rn_job w)) else ret False)"

definition size_or_0 :: "runner \<Rightarrow> (int, rsys) eff" where
  "size_or_0 w = reads (\<lambda>h. map_sum id (\<lambda>sz. case sz of None \<Rightarrow> 0 | Some n \<Rightarrow> int n) (workdir_size (rn_job w) h))"

definition cleanup_workdir :: "runner \<Rightarrow> string \<Rightarrow> string \<Rightarrow> (int, rsys) eff" where
  "cleanup_workdir w status stamp =
     seq (reads (read_state (rn_job w))) (\<lambda>s0.
       let s = s0\<lparr>st_status := status\<rparr>
       in seq (reads (may_delete (rn_job w) s WORKDIR (ASKED\<lparr>ev_policy := True\<rparr>))) (\<lambda>why.
            case why of
              Some reason \<Rightarrow>
                seq (log_line w (if status = ''queued''
                       then ''keeping workdir for the next attempt (cleanup='' @ sp_cleanup (rn_spec w) @ '')''
                       else ''keeping workdir: '' @ reason)) (\<lambda>_. size_or_0 w)
            | None \<Rightarrow>
                seq (reads (kept_outputs (rn_job w) (Some (rn_spec w)) (Some s))) (\<lambda>kept y.
                  case at_host (remove_workdir (rn_job w) None stamp) y of
                    (Inl e, y1) \<Rightarrow>
                      if e \<in> {OSError, FileNotFoundError, FileExistsError}
                      then seq (log_line w (''could not remove workdir (cleanup='' @ sp_cleanup (rn_spec w) @ '')''))
                             (\<lambda>_. size_or_0 w) y1
                      else (Inl e, y1)
                  | (Inr freed, y1) \<Rightarrow>
                      seq (log_line w (''removed ''
                             @ (if kept = [] then ''workdir'' else ''the checkout, keeping '' @ join '', '' kept)
                             @ '' (cleanup='' @ sp_cleanup (rn_spec w)
                             @ ''); spec.json, state.json and log.txt are kept'')) (\<lambda>_. ret 0) y1)))"

definition mirror_record :: "runner \<Rightarrow> env \<Rightarrow> (destination option, rsys) eff" where
  "mirror_record w env y =
     (case mirror_meta (rn_uplink w) (rn_job w) (cf_s3_prefix (rn_config w)) (Some env) y of
        (Inl e, y1) \<Rightarrow>
          if is_sync_error e
          then seq (log_line w (''final state upload failed: '' @ said e)) (\<lambda>_. ret None) y1 else (Inl e, y1)
      | r \<Rightarrow> r)"

text \<open>\<open>_end\<close>: the one write that ends the attempt.\<close>

definition end_attempt :: "runner \<Rightarrow> outcome \<Rightarrow> bool \<Rightarrow> string list \<Rightarrow> moment \<Rightarrow> (string option, rsys) eff" where
  "end_attempt w oc back problems m =
     seq (stand_down w None True m) (\<lambda>_.
     seq (if back then at_host (next_attempt (rn_job w) (oc_ran oc)) else ret None) (\<lambda>again.
       if again \<noteq> None then ret (Some ''queued'')
       else
         seq (if oc_reason oc = Some PREEMPTED then reads (stop_requested (rn_job w)) else ret None) (\<lambda>requested.
           let oc1 = (if requested = Some ''cancelled''
                      then oc\<lparr>oc_status := ''cancelled'', oc_reason := Some ''cancelled''\<rparr> else oc)
           in seq (at_host (Host.finish (rn_job w) oc1 ''running'' False (mo_stamp m) (\<lambda>s. s\<lparr>st_problems := problems\<rparr>))) (\<lambda>written.
                if written = None
                then seq (log_line w ''state was no longer `running` at the end; nothing written'') (\<lambda>_. ret None)
                else ret (Some (oc_status oc1))))))"

definition settle_runner_secrets :: "runner \<Rightarrow> string option \<Rightarrow> (unit, rsys) eff" where
  "settle_runner_secrets w ended =
     (if ended = Some ''queued''
      then log_line w ''preempted; keeping this job's secrets file for the next attempt''
      else seq (reads (read_state (rn_job w))) (\<lambda>s.
           seq (at_host (settle_secrets (rn_job w) s)) (\<lambda>kept.
             case kept of
               None \<Rightarrow> ret ()
             | Some why \<Rightarrow> log_line w (why @ ''; keeping this job's secrets file so the host's drain can retry the upload ''
                 @ ''before the pod goes away''))))"

definition finalize :: "runner \<Rightarrow> env \<Rightarrow> outcome \<Rightarrow> (int, rsys) eff" where
  "finalize w env oc =
     (let m = rn_at w ''finalize''; e = rn_at w ''end''
      in seq (arrive m) (\<lambda>_.
         seq (stand_down w None True m) (\<lambda>_.
         seq (puts (\<lambda>y. y\<lparr>ry_ending := True\<rparr>)) (\<lambda>_.
         seq (upd w (\<lambda>s. s\<lparr>st_phase := Some ''sync''\<rparr>)) (\<lambda>_.
         seq (if oc_ran oc then final_upload w env oc
              else seq (log_line w ''skipping the final output sync: the job's main phase never started'') (\<lambda>_. ret (oc, []))) (\<lambda>r.
         seq (if oc_ran oc \<and> \<not> blank (rn_loop_error w) \<and> oc_status (fst r) = ''succeeded''
              then log_line w (''periodic sync had errors: '' @ the (rn_loop_error w)) else ret ()) (\<lambda>_.
         seq (log_line w (''job '' @ rn_job w @ '' '' @ oc_status (fst r)
                @ (if blank (oc_reason (fst r)) then [] else '' ('' @ the (oc_reason (fst r)) @ '')''))) (\<lambda>_.
         seq (comes_back w (fst r)) (\<lambda>back.
         seq (cleanup_workdir w (if back then ''queued'' else oc_status (fst r)) (mo_stamp m)) (\<lambda>bytes.
         seq (upd w (\<lambda>s. s\<lparr>st_workdir_bytes := Some bytes\<rparr>)) (\<lambda>_.
         seq (mirror_record w env) (\<lambda>mirror.
         seq (arrive e) (\<lambda>_.
         seq (end_attempt w (fst r) back (snd r) e) (\<lambda>ended.
         seq (if mirror \<noteq> None \<and> ended \<noteq> None
              then seq (put_state (rn_uplink w) (rn_job w) (the mirror) (Some env)) (\<lambda>warning.
                     case warning of None \<Rightarrow> ret () | Some msg \<Rightarrow> log_line w (''WARNING: '' @ msg))
              else ret ()) (\<lambda>_.
         seq (settle_runner_secrets w ended) (\<lambda>_.
           ret (oc_exit_code (fst r))))))))))))))))))"

definition never_ran :: "string \<Rightarrow> outcome" where
  "never_ran reason = \<lparr>oc_status = ''failed'', oc_reason = Some reason, oc_exit_code = 1, oc_ran = False\<rparr>"

section \<open>The phases in order\<close>

definition stopped_before :: "runner \<Rightarrow> env \<Rightarrow> string \<Rightarrow> (int option, rsys) eff" where
  "stopped_before w env phase =
     seq (arrive (rn_at w phase)) (\<lambda>_.
     seq (reads (stop_requested (rn_job w))) (\<lambda>requested.
       case requested of
         None \<Rightarrow> ret None
       | Some reason \<Rightarrow>
           seq (puts (\<lambda>y. y\<lparr>ry_kill_reason := Some reason\<rparr>)) (\<lambda>_.
           seq (log_line w (reason @ '' before phase='' @ phase @ ''; not starting it'')) (\<lambda>_ y.
             seq (finalize w env (classify y TERMINATED_EXIT_CODE None)) (\<lambda>code. ret (Some code)) y))))"

text \<open>Run a phase unless a stop landed first, and end the attempt there unless it passed.\<close>

definition must_succeed ::
  "runner \<Rightarrow> env \<Rightarrow> string \<Rightarrow> string \<Rightarrow> string \<Rightarrow> seconds \<Rightarrow> (int, rsys) eff \<Rightarrow> (int, rsys) eff" where
  "must_succeed w env phase cmd failure job_start rest =
     seq (run_phase w phase cmd env job_start) (\<lambda>code y.
       if code \<noteq> 0 \<or> \<not> blank (ry_kill_reason y) then finalize w env (classify y code (Some failure)) y else rest y)"

definition unless_stopped :: "runner \<Rightarrow> env \<Rightarrow> string \<Rightarrow> (int, rsys) eff \<Rightarrow> (int, rsys) eff" where
  "unless_stopped w env phase rest =
     seq (stopped_before w env phase) (\<lambda>stopped. case stopped of Some code \<Rightarrow> ret code | None \<Rightarrow> rest)"

definition capture_output_baseline :: "runner \<Rightarrow> (unit, rsys) eff" where
  "capture_output_baseline w y =
     (if sp_outputs (rn_spec w) = [] then (Inr (), y)
      else if baseline_of (rn_job w) (sh_host y) \<noteq> []
      then log_line w ''outputs baseline: keeping the one taken before the first attempt'' y
      else (case capture (rn_spec w) (workdir_tree (rn_job w) (sh_host y))
                (case job_of (rn_job w) (sh_host y) of None \<Rightarrow> [] | Some d \<Rightarrow> jd_outside d) (rn_job w) of
          Inl e \<Rightarrow> (Inl e, y)
        | Inr found \<Rightarrow>
            seq (at_host (\<lambda>h. (Inr (), update_job (rn_job w) (\<lambda>d. d\<lparr>jd_baseline := found\<rparr>) h))) (\<lambda>_.
            seq (for_each (\<lambda>pe. if snd pe = [] then ret ()
                   else log_line w (''outputs baseline: '' @ fst pe @ '': '' @ nat_str (length (snd pe))
                     @ '' pre-existing file(s) will not be uploaded'')) (sort_key fst found)) (\<lambda>_.
              for_each (\<lambda>pe. if too_many (snd pe)
                then log_line w (''WARNING: '' @ fst pe @ '' already holds more than '' @ nat_str MAX_TRACKED
                  @ '' files, too many to exclude one by one, so pre-existing files there WILL be uploaded. ''
                  @ ''Point `outputs:` at a directory this job creates.'') else ret ()) (sort_key fst found))) y))"

text \<open>\<open>_sync_preflight\<close>: only a failed preflight is caught.\<close>

definition sync_preflight :: "runner \<Rightarrow> env \<Rightarrow> (string option, rsys) eff" where
  "sync_preflight w env =
     (if \<not> rn_sync_preflight w then ret None
      else
        seq (upd w (\<lambda>s. s\<lparr>st_phase := Some ''preflight''\<rparr>)) (\<lambda>_ y.
          case preflight_run (uk_tools (rn_uplink w)) (rn_spec w) (rn_config w)
                 (job_path (rn_uplink w) (rn_job w) PREFLIGHT_NAME) (Some env) y of
            (Inr checked, y1) \<Rightarrow> seq (log_line w (preflight_describe checked)) (\<lambda>_. ret None) y1
          | (Inl (PreflightFailed m), y1) \<Rightarrow>
              seq (log_line w (''sync preflight FAILED: '' @ m)) (\<lambda>_. ret (Some m)) y1
          | (Inl e, y1) \<Rightarrow> (Inl e, y1)))"

definition main_phase :: "runner \<Rightarrow> env \<Rightarrow> seconds \<Rightarrow> (int, rsys) eff" where
  "main_phase w env job_start =
     seq (puts (\<lambda>y. y\<lparr>ry_main_started := True\<rparr>)) (\<lambda>_.
     seq (upd w (\<lambda>s. s\<lparr>st_ran := True\<rparr>)) (\<lambda>_.
     seq (run_phase w ''main'' (sp_command (rn_spec w)) env job_start) (\<lambda>code y.
       finalize w env (classify y code None) y)))"

definition run_phases :: "runner \<Rightarrow> env \<Rightarrow> seconds \<Rightarrow> string option \<Rightarrow> (int, rsys) eff" where
  "run_phases w env job_start gpu_error =
     (if \<not> blank gpu_error
      then seq (log_line w (''GPU assertion failed: '' @ the gpu_error)) (\<lambda>_. finalize w env (never_ran ''gpu-assert''))
      else
        (let from_main = unless_stopped w env ''main'' (main_phase w env job_start);
             from_sync = seq (sync_preflight w env) (\<lambda>failed.
               if failed \<noteq> None then finalize w env (never_ran ''sync-preflight'') else from_main);
             from_preflight =
               (if rn_preflight w \<and> rn_assigned w \<noteq> []
                then unless_stopped w env ''preflight''
                       (must_succeed w env ''preflight'' (rn_preflight_command w) ''gpu-preflight'' job_start from_sync)
                else from_sync);
             from_setup =
               (if blank (sp_setup (rn_spec w)) then from_preflight
                else must_succeed w env ''setup'' (the (sp_setup (rn_spec w))) ''setup'' job_start from_preflight)
         in seq (log_line w (''job '' @ rn_job w @ '' on '' @ cf_host (rn_config w) @ '' CUDA_VISIBLE_DEVICES=''
                   @ (case map_of env ''CUDA_VISIBLE_DEVICES'' of Some v \<Rightarrow> or_else v ''(none)'' | None \<Rightarrow> []))) (\<lambda>_.
            seq (capture_output_baseline w) (\<lambda>_. unless_stopped w env ''setup'' from_setup))))"

definition finalize_terminated :: "runner \<Rightarrow> env \<Rightarrow> int \<Rightarrow> (int, rsys) eff" where
  "finalize_terminated w env signum =
     seq (log_line w (''runner received ''
            @ (if signum = 15 then ''SIGTERM'' else if signum = 2 then ''SIGINT'' else int_str signum)
            @ ''; stopping the job'')) (\<lambda>_.
     seq (\<lambda>y. case ry_current y of
            None \<Rightarrow> (Inr (), y)
          | Some pid \<Rightarrow> kill_phase w (rn_phase w ''terminated'') pid ''terminated'' y) (\<lambda>_.
     seq (reads (stop_requested (rn_job w))) (\<lambda>requested y.
       finalize w env
         (if requested = Some ''cancelled''
          then \<lparr>oc_status = ''cancelled'', oc_reason = Some ''cancelled'', oc_exit_code = TERMINATED_EXIT_CODE, oc_ran = ry_main_started y\<rparr>
          else if requested = Some PREEMPTED
          then \<lparr>oc_status = ''failed'', oc_reason = Some PREEMPTED, oc_exit_code = TERMINATED_EXIT_CODE, oc_ran = ry_main_started y\<rparr>
          else \<lparr>oc_status = ''failed'', oc_reason = Some ''terminated'', oc_exit_code = TERMINATED_EXIT_CODE, oc_ran = ry_main_started y\<rparr>) y)))"

section \<open>The run\<close>

definition ensure_job_layout :: "job_id \<Rightarrow> host \<Rightarrow> host" where
  "ensure_job_layout j h =
     update_job j (\<lambda>d. if jd_workdir d = None then d\<lparr>jd_workdir := Some (NDir 0 (Some []))\<rparr> else d) h"

definition run_body :: "runner \<Rightarrow> env \<Rightarrow> seconds \<Rightarrow> string option \<Rightarrow> (int, rsys) eff" where
  "run_body w env job_start gpu_error =
     seq (arrive (rn_at w ''restore'')) (\<lambda>_ y.
       case restore (rn_job w) (sh_host y) of
         (Some lost, h) \<Rightarrow>
           seq (log_line w (''checkout lost: '' @ lost)) (\<lambda>_. finalize w env (never_ran ''checkout-lost'')) (y\<lparr>sh_host := h\<rparr>)
       | (None, h) \<Rightarrow> run_phases w env job_start gpu_error (y\<lparr>sh_host := ensure_job_layout (rn_job w) h\<rparr>))"

definition run_claimed :: "runner \<Rightarrow> (int, rsys) eff" where
  "run_claimed w =
     seq (verify_assigned w) (\<lambda>gpu_error y.
       let env = build_env w (ry_indices y)
       in (case run_body w env (mo_now (rn_at w ''claim'')) gpu_error y of
             (Inl (Terminated n), y1) \<Rightarrow> finalize_terminated w env n y1
           | r \<Rightarrow> r))"

definition run :: "runner \<Rightarrow> (int, rsys) eff" where
  "run w y =
     (let m = rn_at w ''claim''
      in if other_owner (mo_owner m) (rn_instance w) \<noteq> None then (Inr 0, y)
         else
           seq (at_host (runner_claim (rn_job w) (rn_attempt w) (rn_spec w) (rn_id w))) (\<lambda>claimed.
             if claimed then run_claimed w else ret 0) (y\<lparr>sh_host := mo_others m (sh_host y)\<rparr>))"

text \<open>\<open>JobRunner.__init__\<close> and \<open>run_job\<close>: what the process reads before it claims anything.\<close>

definition fresh_runner :: "runner \<Rightarrow> jobstate \<Rightarrow> host \<Rightarrow> rsys" where
  "fresh_runner w s h =
     \<lparr>sh_host = h, sh_calls = [], ry_kill_reason = None, ry_indices = None, ry_current = None, ry_unit = None,
      ry_progress_error = None, ry_measured_eta = False, ry_estimate = st_estimated_runtime_min s,
      ry_max_runtime = max_runtime s (Some (rn_spec w)), ry_published = None, ry_main_started = False,
      ry_next_owner_check = 0, ry_ending = False, ry_signals = [], ry_started = []\<rparr>"

definition run_job :: "runner \<Rightarrow> host \<Rightarrow> int res \<times> rsys" where
  "run_job w h =
     (case bind_res (read_spec (rn_job w) h) (\<lambda>spec. bind_res (read_state (rn_job w) h) (\<lambda>s.
             map_sum id (\<lambda>c. (spec, s, c)) (h_config h))) of
        Inl e \<Rightarrow> (Inl e, fresh_runner w blank_state h)
      | Inr (spec, s, c) \<Rightarrow>
          (let w1 = w\<lparr>rn_spec := spec, rn_config := c\<rparr> in run w1 (fresh_runner w1 s h)))"

end
