(* ===== verification/Progress.thy ===== *)
theory Progress
  imports Runner
begin

text \<open>
  \<open>src/gpuc/host/progress.py\<close>: what a job's own progress command is read as, and one poll of it.
  What the process did (could not be started, was still running at the timeout, exited with a code
  and the tail of its output) is an argument; the reaping of a command that took too long is
  signals only. A reading is a percentage whose unit was written down, or a \<open>ProgressError\<close>.
\<close>

definition TIMEOUT_S :: seconds where "TIMEOUT_S = 10"
definition MAX_OUTPUT_BYTES :: int where "MAX_OUTPUT_BYTES = 64 * 1024"

definition number :: "string \<Rightarrow> string \<Rightarrow> pyfloat res" where
  "number t whole =
     (case float_of_str (strip t) of
        Some f \<Rightarrow> Inr f
      | None \<Rightarrow> Inl (ProgressError (''printed '' @ str_repr whole
          @ '', which is not a progress reading; print a fraction of 1 like `0.42` or a percentage like `42%`'')))"

definition between :: "rat \<Rightarrow> rat \<Rightarrow> pyfloat \<Rightarrow> bool" where
  "between a b f = (case f of Fin r \<Rightarrow> a \<le> r \<and> r \<le> b | _ \<Rightarrow> False)"

definition in_range :: "pyfloat \<Rightarrow> string \<Rightarrow> pyfloat res" where
  "in_range percent line =
     (if between 0 100 percent then Inr percent
      else Inl (ProgressError (''printed '' @ str_repr line @ '', which is not between 0% and 100%'')))"

definition nonblank_lines :: "string \<Rightarrow> string list" where
  "nonblank_lines out = filter (\<lambda>l. l \<noteq> []) (map strip (splitlines out))"

definition parse :: "string \<Rightarrow> pyfloat res" where
  "parse out =
     (let lines = nonblank_lines out
      in if lines = [] then Inl (ProgressError ''printed nothing on stdout'')
         else
           let line = last lines
           in if last line = CHR ''%''
              then bind_res (number (butlast line) line) (\<lambda>f. in_range (round1 f) line)
              else bind_res (number line line) (\<lambda>fraction.
                if CHR ''.'' \<notin> set line
                then Inl (ProgressError (''printed '' @ str_repr line
                       @ '': a bare number could be a percentage or a fraction, so gpuc refuses to guess''
                       @ (if between 0 100 fraction then '' -- write `'' @ line @ ''%` for a percentage'' else [])
                       @ ''; a fraction of 1 needs a decimal point, like `0.42`''))
                else if \<not> between 0 1 fraction
                then Inl (ProgressError (''printed '' @ str_repr line
                       @ '': a number with a decimal point is a fraction of 1 (`0.42` is 42%), so it must be ''
                       @ ''between 0.0 and 1.0 -- write `'' @ line @ ''%` for a percentage''))
                else Inr (round1 (float_scale 100 fraction))))"

definition describe_output :: "string \<Rightarrow> string" where
  "describe_output t = or_else (join '' / '' (last_n 3 (splitlines (strip t)))) ''(no output)''"

text \<open>\<open>_tail\<close>: what of the output is looked at.\<close>

definition tail_of :: "string \<Rightarrow> string" where
  "tail_of t = drop (nat (max 0 (int (length t) - MAX_OUTPUT_BYTES))) t"

datatype poll_end = CouldNotRun string | TookTooLong | Exited int string string

definition poll :: "string \<Rightarrow> poll_end \<Rightarrow> pyfloat res" where
  "poll cmd ended =
     (case ended of
        CouldNotRun why \<Rightarrow> Inl (ProgressError (''could not run `'' @ cmd @ ''`: '' @ why))
      | TookTooLong \<Rightarrow> Inl (ProgressError (''`'' @ cmd @ ''` took longer than 10s and was killed''))
      | Exited code out err \<Rightarrow>
          if code \<noteq> 0
          then Inl (ProgressError (''`'' @ cmd @ ''` exited '' @ int_str code @ '': ''
                 @ describe_output (or_else (tail_of err) (tail_of out))))
          else parse (tail_of out))"

section \<open>A reading is a percentage\<close>

text \<open>Rounding to one place stays between two whole numbers it started between.\<close>

lemma round_half_even_bounds:
  assumes "d > 0" "a * d \<le> n" "n \<le> b * d"
  shows "a \<le> round_half_even n d \<and> round_half_even n d \<le> b"
proof -
  have n: "n = (n div d) * d + n mod d" "0 \<le> n mod d" "n mod d < d" using assms(1) by simp_all
  have "a \<le> n div d" using assms(1,2) zdiv_mono1 [of "a * d" n d] by simp
  moreover have "n div d \<le> b" using assms(1,3) zdiv_mono1 [of n "b * d" d] by simp
  moreover have "n mod d = 0" if "n div d = b" using n(1,2) assms(3) unfolding that by linarith
  ultimately show ?thesis using assms(1) by (cases "n div d = b") (auto simp: round_half_even_def Let_def)
qed

definition tenths :: "rat \<Rightarrow> int" where
  "tenths r = round_half_even (fst (quotient_of (10 * r))) (snd (quotient_of (10 * r)))"

lemma round1_Fin: "round1 (Fin r) = Fin (of_int (tenths r) / 10)"
  by (simp add: tenths_def case_prod_unfold Let_def)

declare round1.simps(1) [simp del]

lemma tenths_bounds:
  assumes "0 \<le> r" "r \<le> 100"
  shows "0 \<le> tenths r \<and> tenths r \<le> 1000"
proof -
  obtain n d where q: "quotient_of (10 * r) = (n, d)" by fastforce
  have d: "d > 0" and r: "10 * r = of_int n / of_int d"
    using q quotient_of_denom_pos quotient_of_div by blast+
  have n: "(of_int n :: rat) = 10 * r * of_int d" using r d by (simp add: field_simps)
  have dr: "(0 :: rat) < of_int d" using d by simp
  have "(of_int (0 * d) :: rat) \<le> of_int n" using n assms(1) dr by simp
  moreover have "(of_int n :: rat) \<le> of_int (1000 * d)" using n assms(2) dr by simp
  ultimately have "0 * d \<le> n" "n \<le> 1000 * d" by (simp_all only: of_int_le_iff)
  from round_half_even_bounds [OF d this] show ?thesis using q by (simp add: tenths_def)
qed

definition percentage :: "pyfloat \<Rightarrow> bool" where
  "percentage p \<longleftrightarrow> (\<exists>k. p = Fin (of_int k / 10) \<and> 0 \<le> k \<and> k \<le> 1000)"

lemma round1_percentage: "between 0 100 (round1 f) \<Longrightarrow> percentage (round1 f)"
  by (cases f) (auto simp: percentage_def between_def round1_Fin)

lemma fraction_percentage: "between 0 1 f \<Longrightarrow> percentage (round1 (float_scale 100 f))"
proof (cases f)
  case (Fin r)
  assume "between 0 1 f"
  then have "0 \<le> 100 * r" "100 * r \<le> 100" using Fin by (simp_all add: between_def)
  then show ?thesis using tenths_bounds [of "100 * r"] Fin by (auto simp: percentage_def round1_Fin)
qed (simp_all add: between_def)

lemma bound_res: "bind_res m f = Inr x \<Longrightarrow> \<exists>y. m = Inr y \<and> f y = Inr x"
  by (cases m) auto

lemma parse_reading:
  assumes "parse out = Inr p"
  shows "percentage p \<and> (\<exists>line \<in> set (nonblank_lines out). last line = CHR ''%'' \<or> CHR ''.'' \<in> set line)"
proof -
  let ?line = "last (nonblank_lines out)"
  have some: "nonblank_lines out \<noteq> []" using assms by (auto simp: parse_def Let_def)
  then have in_out: "?line \<in> set (nonblank_lines out)" by simp
  show ?thesis
  proof (cases "last ?line = CHR ''%''")
    case True
    then have "bind_res (number (butlast ?line) ?line) (\<lambda>f. in_range (round1 f) ?line) = Inr p"
      using assms some by (simp add: parse_def Let_def)
    from bound_res [OF this] obtain f where f: "in_range (round1 f) ?line = Inr p" by blast
    then have "between 0 100 (round1 f)" "p = round1 f" by (auto simp: in_range_def split: if_splits)
    then show ?thesis using in_out True round1_percentage by blast
  next
    case False
    then obtain f where f: "number ?line ?line = Inr f"
      using assms some by (cases "number ?line ?line") (simp_all add: parse_def Let_def)
    then have "CHR ''.'' \<in> set ?line" "between 0 1 f" "p = round1 (float_scale 100 f)"
      using assms some False by (simp_all add: parse_def Let_def split: if_splits)
    then show ?thesis using in_out fraction_percentage by blast
  qed
qed

lemma parse_error: "parse out = Inl e \<Longrightarrow> \<exists>m. e = ProgressError m"
proof -
  have num: "number t l = Inl e \<Longrightarrow> \<exists>m. e = ProgressError m" for t l
    by (auto simp: number_def split: option.splits)
  show "parse out = Inl e \<Longrightarrow> ?thesis"
    using num [of "butlast (last (nonblank_lines out))" "last (nonblank_lines out)"]
      num [of "last (nonblank_lines out)" "last (nonblank_lines out)"]
    by (auto simp: parse_def Let_def bind_res_def in_range_def split: if_splits sum.splits)
qed



end
