(* ===== verification/Owner.thy ===== *)
theory Owner
  imports Prelude
begin

text \<open>
  \<open>src/gpuc/host/owner.py\<close>: which machine serves a queue. The record is \<open>owner.json\<close>: the instance
  it names and the modification time it was last renewed at, \<open>None\<close> when there is no readable one.
  \<open>claim\<close> watches another machine's record by its own clock before it takes the queue over; what it
  sees in each turn of that watch, and the readings of its clock around it, are a list of \<open>look\<close>s,
  one per turn. A watch that has used up the list has not decided yet.
\<close>

type_synonym instance_id = string
type_synonym owner_record = "(instance_id \<times> seconds) option"

definition STALE_S :: seconds where "STALE_S = 30"
definition LONG_GONE_S :: seconds where "LONG_GONE_S = 10 * STALE_S"
definition CLAIM_WAIT_S :: seconds where "CLAIM_WAIT_S = STALE_S + 5"

definition instance_name :: "string option \<Rightarrow> string option \<Rightarrow> string \<Rightarrow> instance_id" where
  "instance_name boot init hostname =
     (let b = (case boot of Some x \<Rightarrow> if x = [] then ''unknown-boot'' else x | None \<Rightarrow> ''unknown-boot'')
      in case init of
           Some i \<Rightarrow> if i = [] then b @ ''@'' @ hostname else b @ ''/'' @ i
         | None \<Rightarrow> b @ ''@'' @ hostname)"

text \<open>One turn: the clock at each of the two tests, the record after the sleep, the clock then.\<close>

record look =
  lk_now :: seconds
  lk_again :: seconds
  lk_seen :: owner_record
  lk_after :: seconds

datatype verdict = Undecided | Busy instance_id | Quiet owner_record

fun watch_owner :: "instance_id \<Rightarrow> seconds \<Rightarrow> instance_id \<times> seconds \<Rightarrow> seconds \<Rightarrow> look list \<Rightarrow> verdict" where
  "watch_owner me deadline rec quiet_since [] = Undecided"
| "watch_owner me deadline rec quiet_since (k # ks) =
     (if lk_now k - quiet_since \<ge> STALE_S then Quiet (Some rec)
      else if lk_again k \<ge> deadline then Busy (fst rec)
      else case lk_seen k of
             None \<Rightarrow> Quiet None
           | Some seen \<Rightarrow>
               if fst seen = me then Quiet (Some seen)
               else if seen \<noteq> rec then watch_owner me deadline seen (lk_after k) ks
               else watch_owner me deadline rec quiet_since ks)"

text \<open>
  \<open>claim\<close>: the record it leaves, and the instance it took over from. \<open>wall\<close> is the reader's own
  \<open>time.time()\<close>, \<open>start\<close> and \<open>since\<close> the two readings of its monotonic clock before the watch,
  \<open>written\<close> the time the new record carries.
\<close>

datatype claimed = StillWatching | IsBusy instance_id | Claimed owner_record "instance_id option"

definition settle :: "instance_id \<Rightarrow> seconds \<Rightarrow> owner_record \<Rightarrow> claimed" where
  "settle me stamp rec =
     Claimed (Some (me, stamp)) (case rec of Some (o', _) \<Rightarrow> if o' \<noteq> me then Some o' else None | None \<Rightarrow> None)"

definition claim_queue ::
  "instance_id \<Rightarrow> seconds \<Rightarrow> seconds \<Rightarrow> seconds \<Rightarrow> seconds \<Rightarrow> owner_record \<Rightarrow> look list \<Rightarrow> claimed" where
  "claim_queue me wait wall start stamp rec ks =
     (case rec of
        Some (o', renewed) \<Rightarrow>
          if o' \<noteq> me \<and> wall - renewed < LONG_GONE_S
          then (case watch_owner me (start + wait) (o', renewed) start ks of
                  Undecided \<Rightarrow> StillWatching
                | Busy b \<Rightarrow> IsBusy b
                | Quiet seen \<Rightarrow> settle me stamp seen)
          else settle me stamp rec
      | None \<Rightarrow> settle me stamp rec)"

definition renew :: "instance_id \<Rightarrow> seconds \<Rightarrow> owner_record \<Rightarrow> owner_record" where
  "renew me t rec = (case rec of Some (o', _) \<Rightarrow> if o' = me then Some (me, t) else rec | None \<Rightarrow> None)"

definition serving_elsewhere :: "instance_id \<Rightarrow> seconds \<Rightarrow> owner_record \<Rightarrow> string option \<Rightarrow> string option" where
  "serving_elsewhere me wall rec host =
     (case rec of
        None \<Rightarrow> None
      | Some (o', renewed) \<Rightarrow>
          if o' = me \<or> wall - renewed > STALE_S then None
          else Some (case host of Some h \<Rightarrow> if h = [] then o' else h | None \<Rightarrow> o'))"

definition replaced_by :: "instance_id \<Rightarrow> owner_record \<Rightarrow> instance_id option" where
  "replaced_by me rec = (case rec of Some (o', _) \<Rightarrow> if o' \<noteq> me then Some o' else None | None \<Rightarrow> None)"

section \<open>A takeover follows a silence\<close>

text \<open>
  The turns of a watch that ended in silence: over a last stretch of them the record never moved,
  and the clock went on by at least \<open>STALE_S\<close>.
\<close>

definition silent :: "instance_id \<times> seconds \<Rightarrow> seconds \<Rightarrow> look list \<Rightarrow> look \<Rightarrow> bool" where
  "silent r since quiet k \<longleftrightarrow> (\<forall>q \<in> set quiet. lk_seen q = Some r) \<and> lk_now k - since \<ge> STALE_S"

lemma watch_silence:
  assumes "watch_owner me deadline rec since ks = Quiet (Some seen)" "fst rec \<noteq> me" "fst seen \<noteq> me"
  shows "\<exists>earlier quiet k later t. ks = earlier @ quiet @ k # later \<and> silent seen t quiet k \<and>
    (earlier = [] \<and> rec = seen \<and> t = since \<or>
     (\<exists>turn before. earlier = before @ [turn] \<and> lk_seen turn = Some seen \<and> t = lk_after turn))"
  using assms
proof (induction me deadline rec since ks rule: watch_owner.induct)
  case (2 me deadline rec since k ks)
  show ?case
  proof (cases "lk_now k - since \<ge> STALE_S")
    case True
    then have "silent rec since [] k" "rec = seen" using 2(3) by (simp_all add: silent_def)
    then have "k # ks = [] @ [] @ k # ks \<and> silent seen since [] k \<and> ([] = ([] :: look list) \<and> rec = seen \<and> since = since)" by simp
    then show ?thesis by blast
  next
    case wait: False
    then have "\<not> lk_again k \<ge> deadline" using 2(3) by (auto split: if_splits)
    then obtain s where s: "lk_seen k = Some s" "fst s \<noteq> me"
      using 2(3,5) wait by (auto split: option.splits if_splits)
    show ?thesis
    proof (cases "s = rec")
      case True
      then have "watch_owner me deadline rec since ks = Quiet (Some seen)"
        using 2(3) wait s \<open>\<not> lk_again k \<ge> deadline\<close> by simp
      from 2(2) [OF wait \<open>\<not> lk_again k \<ge> deadline\<close> s _ this 2(4,5)] True
      obtain earlier quiet k' later t where w: "ks = earlier @ quiet @ k' # later" "silent seen t quiet k'"
        "earlier = [] \<and> rec = seen \<and> t = since \<or>
         (\<exists>turn before. earlier = before @ [turn] \<and> lk_seen turn = Some seen \<and> t = lk_after turn)" by blast
      show ?thesis
      proof (cases "earlier = []")
        case True
        then have "k # ks = [] @ (k # quiet) @ k' # later \<and> silent seen t (k # quiet) k' \<and> rec = seen \<and> t = since"
          using w s \<open>s = rec\<close> by (auto simp: silent_def)
        then show ?thesis by blast
      next
        case False
        then show ?thesis using w by (metis append_Cons)
      qed
    next
      case False
      then have "watch_owner me deadline s (lk_after k) ks = Quiet (Some seen)"
        using 2(3) wait s \<open>\<not> lk_again k \<ge> deadline\<close> by simp
      from 2(1) [OF wait \<open>\<not> lk_again k \<ge> deadline\<close> s False this s(2) 2(5)]
      obtain earlier quiet k' later t where w: "ks = earlier @ quiet @ k' # later" "silent seen t quiet k'"
        "earlier = [] \<and> s = seen \<and> t = lk_after k \<or>
         (\<exists>turn before. earlier = before @ [turn] \<and> lk_seen turn = Some seen \<and> t = lk_after turn)" by blast
      then have "k # ks = (k # earlier) @ quiet @ k' # later \<and> silent seen t quiet k' \<and>
        (\<exists>turn before. k # earlier = before @ [turn] \<and> lk_seen turn = Some seen \<and> t = lk_after turn)"
        using s(1) by (cases "earlier = []") (auto intro: append_Cons)
      then show ?thesis by blast
    qed
  qed
qed simp

lemma watch_decides:
  "k \<in> set ks \<Longrightarrow> lk_again k \<ge> deadline \<Longrightarrow> watch_owner me deadline rec since ks \<noteq> Undecided"
  by (induction ks arbitrary: rec since) (auto split: option.split)


definition demo_look :: "seconds \<Rightarrow> seconds \<Rightarrow> look" where
  "demo_look t renewed = \<lparr>lk_now = t, lk_again = t, lk_seen = Some (''old'', renewed), lk_after = t\<rparr>"

text \<open>The old machine renews once more, two seconds into the watch, and is then silent.\<close>

definition demo_looks :: "look list" where
  "demo_looks = [demo_look 10 990, demo_look 12 992, demo_look 30 992, demo_look 42 992]"


end
