(* ===== verification/Attempt.thy ===== *)
theory Attempt
  imports Runner
begin

text \<open>
  What a runner's run comes to (\<open>Runner.thy\<close>): the invariant of an attempt under way, that every
  path through the phases ends in the one write that ends it, and what a job recorded as succeeded
  has been through. The other processes of the host are held to one thing: while this runner is at
  work they leave the job running at its attempt (\<open>rely\<close>).
\<close>

section \<open>An attempt under way\<close>

text \<open>
  \<open>sane\<close>: the host's configuration can be read, and the exception of the runner's own signal
  handler is never what reading a file raised. \<open>mine\<close>: the job is running at this attempt, and the
  uploads in a given set are on record as done.
\<close>

definition sane :: "host \<Rightarrow> bool" where
  "sane h \<longleftrightarrow> \<not> isl (h_config h) \<and> (\<forall>j k. read_spec j h \<noteq> Inl (Terminated k))"

definition confirmed :: "(string \<times> string) set \<Rightarrow> jobstate \<Rightarrow> bool" where
  "confirmed G s \<longleftrightarrow> (\<forall>x \<in> G. (Some (fst x), snd x) \<in> goods s)"

definition mine :: "job_id \<Rightarrow> int \<Rightarrow> (string \<times> string) set \<Rightarrow> host \<Rightarrow> bool" where
  "mine j n G h \<longleftrightarrow> sane h \<and>
     (\<exists>s. read_state j h = Inr s \<and> st_status s = ''running'' \<and> st_attempt s = n \<and> confirmed G s)"

definition rely :: "runner \<Rightarrow> int \<Rightarrow> bool" where
  "rely w n \<longleftrightarrow>
     (\<forall>h p G. mine (rn_job w) n G h \<longrightarrow> mine (rn_job w) n G (mo_others (rn_at w p) h)) \<and>
     (\<forall>h p. \<forall>k \<in> set (ph_turns (rn_phase w p)). mine (rn_job w) n {} h \<longrightarrow> mine (rn_job w) n {} (mo_others k h))"

definition frame :: "runner \<Rightarrow> int \<Rightarrow> (string \<times> string) set \<Rightarrow> bool \<Rightarrow> rsys \<Rightarrow> bool" where
  "frame w n G ms y \<longleftrightarrow> mine (rn_job w) n G (sh_host y) \<and> ry_main_started y = ms"

lemma confirmed_empty [simp]: "confirmed {} s"
  by (simp add: confirmed_def)

lemma confirmed_cong: "st_uploads s' = st_uploads s \<Longrightarrow> confirmed G s' = confirmed G s"
  by (simp add: confirmed_def goods_def done_uploads_def)

lemma note_mirror:
  "list_ex (\<lambda>v. up_output v = Some p \<and> up_to v = x \<and> \<not> blank (up_ok_at v) \<and> blank (up_error v)) (note_upload to None ok err us)
   \<longleftrightarrow> list_ex (\<lambda>v. up_output v = Some p \<and> up_to v = x \<and> \<not> blank (up_ok_at v) \<and> blank (up_error v)) us"
  by (induction us) (auto simp: noted_def)

lemma confirmed_mirror [simp]: "confirmed G (record_upload_state to None ok err s) = confirmed G s"
  by (simp add: confirmed_def goods_ex record_upload_state_def note_mirror)

lemma mine_less: "mine j n G h \<Longrightarrow> mine j n {} h"
  by (auto simp: mine_def)

lemma sane_update:
  assumes "\<And>d. jd_spec (f d) = jd_spec d"
  shows "sane (update_job j f h) = sane h"
proof -
  have "read_spec k (update_job j f h) = read_spec k h" for k
    using assms by (auto simp: read_spec_def job_of_update split: option.splits)
  then show ?thesis by (simp add: sane_def)
qed

lemma sane_with_state: "sane (snd (with_state j body h)) = sane h"
  by (cases "with_state j body h", auto elim!: with_state_cases simp: sane_def)

lemma sane_write [simp]: "sane (write_state j s h) = sane h"
  unfolding write_state_def by (rule sane_update) simp

lemma mine_update:
  assumes "mine j n G h" "\<And>s. st_status (f s) = st_status s \<and> st_attempt (f s) = st_attempt s"
    "\<And>s. confirmed G s \<Longrightarrow> confirmed G (f s)"
  shows "mine j n G (snd (update_state j f h))"
proof -
  obtain s where s: "read_state j h = Inr s" "st_status s = ''running''" "st_attempt s = n" "sane h" "confirmed G s"
    using assms(1) by (auto simp: mine_def)
  have "has_job j h" using s(1) by (rule readable_has_job)
  then have "read_state j (snd (update_state j f h)) = Inr (f s)"
    using s(1) by (simp add: update_state_def with_state_def states.rd_own)
  then show ?thesis using s assms(2,3) sane_with_state [of j _ h] by (simp add: mine_def update_state_def)
qed

lemma mine_update_job:
  assumes "\<And>d. jd_state (f d) = jd_state d" "\<And>d. jd_spec (f d) = jd_spec d"
  shows "mine j n G (update_job k f h) = mine j n G h"
proof -
  have "read_state j (update_job k f h) = read_state j h"
    using assms(1) by (auto simp: read_state_def job_of_update split: option.splits)
  then show ?thesis using sane_update [OF assms(2)] by (simp add: mine_def)
qed

lemma mine_note [simp]: "mine j n G (note_log k m h) = mine j n G h"
  unfolding note_log_def by (rule mine_update_job) simp_all

lemma mine_secrets [simp]: "mine j n G (snd (settle_secrets k s h)) = mine j n G h"
proof -
  have "read_spec i (snd (settle_secrets k s h)) = read_spec i h" "h_config (snd (settle_secrets k s h)) = h_config h" for i
    by (auto simp: settle_secrets_def remove_secrets_def read_spec_def job_of_def split: sum.splits bool.splits option.splits)
  then show ?thesis using settle_secrets_states(1) [of j k s h] by (simp add: mine_def sane_def)
qed

interpretation inv: kept_by_uploads "frame w n {} ms" "rn_job w" for w n ms
  by unfold_locales (auto simp: frame_def mine_update)

interpretation mir: kept_by_mirror "frame w n G ms" "rn_job w" for w n G ms
  by unfold_locales (auto simp: frame_def mine_update record_upload_state_def confirmed_mirror [unfolded record_upload_state_def])

section \<open>Steps that leave the attempt under way\<close>

lemma keeps_log [keeps_rules]: "keeps (frame w n G ms) (log_line w m)"
  by (rule keepsI) (simp add: log_line_def at_host_def frame_def)

lemma keeps_upd:
  assumes "\<And>s. st_status (f s) = st_status s \<and> st_attempt (f s) = st_attempt s \<and> st_uploads (f s) = st_uploads s"
  shows "keeps (frame w n G ms) (upd w f)"
proof -
  have "keeps (frame w n G ms) (at_host (update_state (rn_job w) f))"
    by (rule keepsI) (simp add: at_host_def frame_def case_prod_unfold mine_update assms confirmed_cong [of "f _"])
  then show ?thesis unfolding upd_def by (intro keeps_rules)
qed

lemma keeps_reads [keeps_rules]: "keeps P (reads f)"
  unfolding reads_def by (rule keeps_asks)

lemma keeps_puts: "(\<And>y. P y \<Longrightarrow> P (f y)) \<Longrightarrow> keeps P (puts f)"
  by (rule keepsI) (simp add: puts_def)

lemma keeps_sends [keeps_rules]: "keeps (frame w n G ms) (sends es)"
  unfolding sends_def by (rule keeps_puts) (simp add: frame_def)

lemma keeps_arrive:
  assumes "\<And>h. mine (rn_job w) n G h \<Longrightarrow> mine (rn_job w) n G (mo_others m h)"
  shows "keeps (frame w n G ms) (arrive m)"
  by (rule keepsI) (use assms in \<open>simp add: arrive_def frame_def Let_def split: option.split\<close>)

lemma keeps_stand_down [keeps_rules]: "keeps (frame w n G ms) (stand_down w pid force m)"
proof (rule keepsI)
  fix y
  assume y: "frame w n G ms y"
  have go: "keeps (frame w n G ms) (seq (case pid of None \<Rightarrow> ret () | Some p \<Rightarrow> sends (es p)) (\<lambda>_.
      seq (log_line w msg) (\<lambda>_. throw e :: (unit, rsys) eff)))" for es msg e
    by (intro keeps_rules)
  have "frame w n G ms (y\<lparr>ry_next_owner_check := t\<rparr>)" for t using y by (simp add: frame_def)
  then show "frame w n G ms (snd (stand_down w pid force m y))"
    using y go by (simp add: stand_down_def Let_def keeps_def split: option.split)
qed

lemma keeps_remove_workdir [keeps_rules]: "keeps (frame w n G ms) (at_host (remove_workdir (rn_job w) None stamp))"
proof (rule keepsI)
  fix y
  assume y: "frame w n G ms y"
  let ?j = "rn_job w"
  have "mine ?j n G (snd (remove_workdir ?j None stamp h))" if "mine ?j n G h" for h
  proof -
    have 1: "mine ?j n G (update_job ?j (\<lambda>d. d\<lparr>jd_archive := None\<rparr>) h)" using that by (simp add: mine_update_job)
    then have 2: "mine ?j n G (update_job ?j (\<lambda>d. d\<lparr>jd_workdir := x\<rparr>) (update_job ?j (\<lambda>d. d\<lparr>jd_archive := None\<rparr>) h))" for x
      by (simp add: mine_update_job)
    have 3: "mine ?j n G (snd (update_state ?j (\<lambda>s. s\<lparr>st_checkout_removed_at := a, st_workdir_bytes := b, st_kept_bytes := c\<rparr>)
        (update_job ?j (\<lambda>d. d\<lparr>jd_workdir := x\<rparr>) (update_job ?j (\<lambda>d. d\<lparr>jd_archive := None\<rparr>) h))))" for a b c x
      by (rule mine_update [OF 2]) (simp_all add: confirmed_def goods_def done_uploads_def)
    show ?thesis
      using that 1 2 3
      by (auto simp: remove_workdir_def Let_def case_prod_unfold split: sum.split bool.split)
  qed
  then show "frame w n G ms (snd (at_host (remove_workdir ?j None stamp) y))"
    using y by (simp add: at_host_def frame_def case_prod_unfold)
qed

lemma keeps_size [keeps_rules]: "keeps P (size_or_0 w)"
  unfolding size_or_0_def by (rule keeps_reads)

lemma keeps_cleanup [keeps_rules]: "keeps (frame w n G ms) (cleanup_workdir w status stamp)"
proof -
  have take: "keeps (frame w n G ms) (\<lambda>y. case at_host (remove_workdir (rn_job w) None stamp) y of
          (Inl e, y1) \<Rightarrow> if e \<in> errs then seq (log_line w m1) (\<lambda>_. size_or_0 w) y1 else (Inl e, y1)
        | (Inr freed, y1) \<Rightarrow> seq (log_line w m2) (\<lambda>_. ret 0) y1)" (is "keeps _ ?m") for errs m1 m2
  proof (rule keepsI)
    fix y
    assume y: "frame w n G ms y"
    obtain r y1 where r: "at_host (remove_workdir (rn_job w) None stamp) y = (r, y1)" by fastforce
    have y1: "frame w n G ms y1" using keepsD [OF keeps_remove_workdir y r] .
    have "keeps (frame w n G ms) (seq (log_line w m1) (\<lambda>_. size_or_0 w))"
      "keeps (frame w n G ms) (seq (log_line w m2) (\<lambda>_. ret (0 :: int)))" by (intro keeps_rules)+
    then show "frame w n G ms (snd (?m y))" using r y1 by (cases r) (simp_all add: keeps_def)
  qed
  show ?thesis
    unfolding cleanup_workdir_def Let_def
    by (rule keeps_seq, rule keeps_reads, rule keeps_seq, rule keeps_reads, rule keeps_option, rule keeps_seq,
        rule keeps_reads, rule take) (intro keeps_rules)
qed

lemma keeps_mirror [keeps_rules]: "keeps (frame w n G ms) (mirror_record w env)"
proof (rule keepsI)
  fix y
  assume y: "frame w n G ms y"
  obtain r y1 where r: "mirror_meta (rn_uplink w) (rn_job w) (cf_s3_prefix (rn_config w)) (Some env) y = (r, y1)" by fastforce
  have y1: "frame w n G ms y1" using keepsD [OF mir.keeps_mirror_meta y r] .
  have "keeps (frame w n G ms) (seq (log_line w m) (\<lambda>_. ret (None :: destination option)))" for m
    by (intro keeps_rules)
  then show "frame w n G ms (snd (mirror_record w env y))"
    using r y1 by (cases r) (simp_all add: mirror_record_def keeps_def)
qed

lemma keeps_comes_back [keeps_rules]: "keeps P (comes_back w oc)"
  unfolding comes_back_def by (intro keeps_rules)

section \<open>The write that ends it\<close>

text \<open>
  Over: queued again at the next attempt, or finished, and then as succeeded only if \<open>C\<close> holds of
  the state.
\<close>

definition over :: "runner \<Rightarrow> int \<Rightarrow> (jobstate \<Rightarrow> bool) \<Rightarrow> rsys \<Rightarrow> bool" where
  "over w n C y \<longleftrightarrow> sane (sh_host y) \<and> (\<exists>s. read_state (rn_job w) (sh_host y) = Inr s \<and>
     (st_status s = ''queued'' \<and> st_attempt s = n + 1 \<or>
      finished s \<and> st_attempt s = n \<and> (st_status s = ''succeeded'' \<longrightarrow> C s)))"

definition stopped :: "pyerr \<Rightarrow> bool" where
  "stopped e \<longleftrightarrow> (\<exists>k. e = Terminated k)"

text \<open>However it ends: still under way, or over and then not by a signal.\<close>

definition ends :: "runner \<Rightarrow> int \<Rightarrow> (jobstate \<Rightarrow> bool) \<Rightarrow> pyerr \<Rightarrow> rsys \<Rightarrow> bool" where
  "ends w n C e y \<longleftrightarrow> mine (rn_job w) n {} (sh_host y) \<or> over w n C y \<and> \<not> stopped e"

lemma next_attempt_mine:
  assumes m: "mine j n G h" and run: "next_attempt j did h = (r, h')"
  shows "\<not> isl r \<and> (r = Inr None \<longrightarrow> h' = h) \<and>
    (r \<noteq> Inr None \<longrightarrow> sane h' \<and> (\<exists>s. read_state j h' = Inr s \<and> st_status s = ''queued'' \<and> st_attempt s = n + 1))"
proof -
  obtain s where s: "read_state j h = Inr s" "st_status s = ''running''" "st_attempt s = n" "sane h" "confirmed G s"
    using m by (auto simp: mine_def)
  have here: "has_job j h" using s(1) by (rule readable_has_job)
  let ?s' = "queued_again s (st_ran s \<or> did) None"
  have q: "st_status ?s' = ''queued''" "st_attempt ?s' = n + 1" using s(3) by (simp_all add: queued_again_def)
  have sane': "sane (note_log j m (write_state j ?s' h))" for m
    using s(4) by (simp add: note_log_def write_state_def sane_update)
  show ?thesis
  proof (cases "st_intent s = Some PREEMPT")
    case True
    then show ?thesis
      using run s(1,2) here q sane' by (auto simp: next_attempt_def with_state_def states.rd_own)
  next
    case False
    then show ?thesis using run s(1,2) here by (auto simp: next_attempt_def with_state_def)
  qed
qed

lemma finish_mine:
  assumes m: "mine j n G h" and run: "Host.finish j oc ''running'' False now (\<lambda>s. s\<lparr>st_problems := ps\<rparr>) h = (r, h')"
    and oc: "oc_status oc \<in> set FINISHED_STATUSES"
  shows "sane h' \<and> (\<exists>s. r = Inr (Some s) \<and> read_state j h' = Inr s \<and> finished s \<and> st_attempt s = n \<and> st_status s = oc_status oc \<and> confirmed G s)"
proof -
  obtain s where s: "read_state j h = Inr s" "st_status s = ''running''" "st_attempt s = n" "sane h" "confirmed G s"
    using m by (auto simp: mine_def)
  have here: "has_job j h" using s(1) by (rule readable_has_job)
  let ?s' = "finished_state oc False now (\<lambda>s. s\<lparr>st_problems := ps\<rparr>) s"
  have f: "st_status ?s' = oc_status oc" "st_attempt ?s' = n"
    using finished_state_fields(1,3) [of "\<lambda>s. s\<lparr>st_problems := ps\<rparr>" ps oc False now s] s(3) by simp_all
  have g: "confirmed G ?s'"
    using s(5) confirmed_cong [of ?s' s G] by (simp add: finished_state_def)
  have "r = Inr (Some ?s')" "h' = write_state j ?s' h"
    using run s(1,2) here by (simp_all add: Host.finish_def with_state_def Let_def)
  then show ?thesis
    using f g oc s(4) here by (simp add: finished_def states.rd_own)
qed

lemma triple_stand_down: "triple (frame w n G ms) (stand_down w pid force m) (\<lambda>_. frame w n G ms) (ends w n C)"
  by (rule triple_keeps [OF keeps_stand_down]) (auto simp: ends_def frame_def dest: mine_less)

lemma stop_requested_mine: "mine j n G h \<Longrightarrow> \<not> isl (stop_requested j h)"
  by (auto simp: mine_def stop_requested_def)

lemma over_log: "over w n C z \<Longrightarrow> over w n C (z\<lparr>sh_host := note_log (rn_job w) m (sh_host z)\<rparr>)"
proof -
  have "sane (note_log (rn_job w) m (sh_host z)) = sane (sh_host z)"
    unfolding note_log_def by (rule sane_update) simp
  then show "over w n C z \<Longrightarrow> ?thesis" by (simp add: over_def)
qed

lemma end_attempt_over:
  assumes oc: "oc_status oc \<in> set FINISHED_STATUSES"
  shows "triple (frame w n G ms) (end_attempt w oc back ps m) (\<lambda>_. over w n (\<lambda>s. oc_status oc = ''succeeded'' \<and> confirmed G s)) (ends w n (\<lambda>s. oc_status oc = ''succeeded'' \<and> confirmed G s))"
  unfolding end_attempt_def
proof (rule triple_seq [OF triple_stand_down])
  let ?C = "\<lambda>s. oc_status oc = ''succeeded'' \<and> confirmed G s" and ?j = "rn_job w"
  fix u
  let ?putEnd = "\<lambda>oc1. seq (at_host (Host.finish ?j oc1 ''running'' False (mo_stamp m) (\<lambda>s. s\<lparr>st_problems := ps\<rparr>))) (\<lambda>written.
      if written = None then seq (log_line w ''state was no longer `running` at the end; nothing written'') (\<lambda>_. ret None)
      else ret (Some (oc_status oc1)))"
  have wr: "\<exists>x t. ?putEnd oc1 y = (Inr x, t) \<and> over w n ?C t"
    if y: "frame w n G ms y" and oc1: "oc_status oc1 \<in> set FINISHED_STATUSES" "oc_status oc1 = ''succeeded'' \<longrightarrow> oc_status oc = ''succeeded''" for oc1 y
  proof -
    obtain r h' where fin: "Host.finish ?j oc1 ''running'' False (mo_stamp m) (\<lambda>s. s\<lparr>st_problems := ps\<rparr>) (sh_host y) = (r, h')"
      by fastforce
    have m: "mine ?j n G (sh_host y)" using y by (simp add: frame_def)
    obtain s where s: "sane h'" "r = Inr (Some s)" "read_state ?j h' = Inr s" "finished s" "st_attempt s = n" "st_status s = oc_status oc1" "confirmed G s"
      using finish_mine [OF m fin oc1(1)] by blast
    then have "?putEnd oc1 y = (Inr (Some (oc_status oc1)), y\<lparr>sh_host := h'\<rparr>)"
      using fin by (simp add: seq_def at_host_def)
    moreover have "over w n ?C (y\<lparr>sh_host := h'\<rparr>)" using s oc1(2) by (simp add: over_def)
    ultimately show ?thesis by blast
  qed
  let ?rest = "seq (if oc_reason oc = Some PREEMPTED then reads (stop_requested ?j) else ret None) (\<lambda>requested.
      ?putEnd (if requested = Some ''cancelled'' then oc\<lparr>oc_status := ''cancelled'', oc_reason := Some ''cancelled''\<rparr> else oc))"
  have rest: "\<exists>x t. ?rest y = (Inr x, t) \<and> over w n ?C t" if y: "frame w n G ms y" for y
  proof -
    obtain q where q: "(if oc_reason oc = Some PREEMPTED then reads (stop_requested ?j) else ret None) y = (Inr q, y)"
      using stop_requested_mine [of ?j n G "sh_host y"] y
      by (cases "stop_requested ?j (sh_host y)"; cases "oc_reason oc = Some PREEMPTED") (simp_all add: frame_def reads_def)
    have "?rest y = ?putEnd (if q = Some ''cancelled'' then oc\<lparr>oc_status := ''cancelled'', oc_reason := Some ''cancelled''\<rparr> else oc) y"
      using q by (simp only: seq_def prod.case sum.case)
    then show ?thesis
      using wr [OF y, of "if q = Some ''cancelled'' then oc\<lparr>oc_status := ''cancelled'', oc_reason := Some ''cancelled''\<rparr> else oc"] oc
      by auto
  qed
  show "triple (frame w n G ms) (seq (if back then at_host (next_attempt ?j (oc_ran oc)) else ret None) (\<lambda>again.
      if again \<noteq> None then ret (Some ''queued'')
      else seq (if oc_reason oc = Some PREEMPTED then reads (stop_requested ?j) else ret None) (\<lambda>requested.
        let oc1 = if requested = Some ''cancelled'' then oc\<lparr>oc_status := ''cancelled'', oc_reason := Some ''cancelled''\<rparr> else oc
        in ?putEnd oc1))) (\<lambda>_. over w n ?C) (ends w n ?C)"
    unfolding Let_def triple_def
  proof (intro allI impI)
    fix y
    assume y: "frame w n G ms y"
    obtain r y1 where a: "(if back then at_host (next_attempt ?j (oc_ran oc)) else ret None) y = (r, y1)" by fastforce
    have "\<exists>again. r = Inr again \<and> (again = None \<longrightarrow> y1 = y) \<and> (again \<noteq> None \<longrightarrow> over w n ?C y1)"
    proof (cases "back")
      case True
      obtain q h' where q: "next_attempt ?j (oc_ran oc) (sh_host y) = (q, h')" by fastforce
      have "mine ?j n G (sh_host y)" using y by (simp add: frame_def)
      from next_attempt_mine [OF this q] show ?thesis
        using True a q by (cases q) (auto simp: at_host_def over_def)
    next
      case False
      then have "r = Inr None" "y1 = y" using a by simp_all
      then show ?thesis by (intro exI [of _ None]) simp
    qed
    then obtain again where again: "r = Inr again" "again = None \<longrightarrow> y1 = y" "again \<noteq> None \<longrightarrow> over w n ?C y1"
      by (elim exE conjE)
    obtain x t where rt: "?rest y = (Inr x, t)" "over w n ?C t" using rest [OF y] by blast
    have "\<exists>x t. (if again \<noteq> None then ret (Some ''queued'') else ?rest) y1 = (Inr x, t) \<and> over w n ?C t"
    proof (cases "again = None")
      case True
      then have y1: "y1 = y" using again(2) by blast
      show ?thesis
        by (rule exI [of _ x], rule exI [of _ t]) (use rt in \<open>simp only: True y1 not_True_eq_False if_False simp_thms\<close>)
    next
      case False
      then show ?thesis using again(3) by simp
    qed
    then obtain x t where "(if again \<noteq> None then ret (Some ''queued'') else ?rest) y1 = (Inr x, t)" "over w n ?C t"
      by (elim exE conjE)
    then show "case seq (if back then at_host (next_attempt ?j (oc_ran oc)) else ret None) (\<lambda>again.
        if again \<noteq> None then ret (Some ''queued'') else ?rest) y of
        (Inr x, t) \<Rightarrow> over w n ?C t | (Inl e, t) \<Rightarrow> ends w n ?C e t"
      using a again(1) by (simp only: seq_def prod.case sum.case)
  qed
qed

section \<open>After the write\<close>

lemma map_res_raises: "map_res f xs = Inl e \<Longrightarrow> \<exists>x \<in> set xs. f x = Inl e"
  by (induction xs) (auto simp: bind_res_def split: sum.splits)

lemma uris_errors: "destination_uris out j = Inl e \<Longrightarrow> e \<in> {ValueError, IndexError, KeyError}"
  unfolding uris_of destinations_of_def
  by (auto simp: map_sum_def bind_res_def split: sum.splits if_splits dest!: format_errors)

lemma uploaded_errors:
  assumes "outputs_uploaded s spec = Inl e"
  shows "\<not> stopped e"
proof -
  have sub: "map_sum id f r = Inl e \<Longrightarrow> r = Inl e" for f and r :: "'b res" by (cases r) auto
  have "\<exists>out. destination_uris out (sp_job_id spec) = Inl e"
    using assms unfolding outputs_uploaded_def wanted_uploads_def
    by (auto dest!: sub map_res_raises)
  then show ?thesis using uris_errors by (fastforce simp: stopped_def)
qed

interpretation ov: kept_by_calls "over w n C" for w n C
  by unfold_locales (simp add: over_def)

lemma keeps_over_log [keeps_rules]: "keeps (over w n C) (log_line w m)"
  by (rule keepsI) (simp add: log_line_def at_host_def over_log)

lemma over_settled:
  assumes "over w n C y"
  shows "over w n C (y\<lparr>sh_host := snd (settle_secrets k s (sh_host y))\<rparr>)"
proof -
  have "read_spec i (snd (settle_secrets k s h)) = read_spec i h" "h_config (snd (settle_secrets k s h)) = h_config h" for i h
    by (auto simp: settle_secrets_def remove_secrets_def read_spec_def job_of_def split: sum.splits bool.splits option.splits)
  then show ?thesis using assms settle_secrets_states(1) [of "rn_job w" k s "sh_host y"] by (simp add: over_def sane_def)
qed

lemma settle_errors: "sane h \<Longrightarrow> settle_secrets j s h = (Inl e, h') \<Longrightarrow> \<not> stopped e"
  using uploaded_errors
  by (auto simp: settle_secrets_def ephemeral_host_def outputs_pending_def catching_def bind_res_def sane_def stopped_def isl_def map_sum_def
      split: sum.splits bool.splits option.splits if_splits)

lemma over_ready: "over w n C y \<Longrightarrow> ready (rn_job w) y"
  by (auto simp: over_def ready_def sane_def dest: readable_has_job)

lemma put_state_returns:
  assumes "ready j y"
  shows "\<not> isl (fst (put_state u j m env y))"
proof -
  have "is_sync_error e" if "put_file (uk_tools u) m p name to env y = (Inl e, y1)" for e y1 p name to
    using that tool_err [OF assms] by (cases m) (fastforce simp: is_sync_error_def)+
  then show ?thesis by (auto simp: put_state_def put_if_def split: sum.split prod.split)
qed

lemma triple_tail:
  "triple (over w n C) (seq (if mir \<noteq> None \<and> ended \<noteq> None
       then seq (put_state (rn_uplink w) (rn_job w) (the mir) (Some env)) (\<lambda>warning.
              case warning of None \<Rightarrow> ret () | Some msg \<Rightarrow> log_line w (''WARNING: '' @ msg))
       else ret ()) (\<lambda>_. seq (settle_runner_secrets w ended) (\<lambda>_. ret c)))
     (\<lambda>_. over w n C) (\<lambda>e y. over w n C y \<and> \<not> stopped e)"
proof (rule triple_seq [where R = "\<lambda>_. over w n C"])
  have put: "triple (over w n C) (put_state (rn_uplink w) (rn_job w) (the mir) (Some env)) (\<lambda>_. over w n C) (\<lambda>e y. over w n C y \<and> \<not> stopped e)"
  proof (rule tripleI)
    show "over w n C t" if "over w n C y" "put_state (rn_uplink w) (rn_job w) (the mir) (Some env) y = (Inr x, t)" for y x t
      using keepsD [OF ov.keeps_put_state that] .
    show "over w n C t \<and> \<not> stopped e" if "over w n C y" "put_state (rn_uplink w) (rn_job w) (the mir) (Some env) y = (Inl e, t)" for y e t
      using put_state_returns [OF over_ready [OF that(1)], of "rn_uplink w" "the mir" "Some env"] that(2) by simp
  qed
  have quiet: "triple (over w n C) (log_line w m) (\<lambda>_. over w n C) (\<lambda>e y. over w n C y \<and> \<not> stopped e)" for m
    by (rule tripleI) (auto simp: log_line_def at_host_def over_log)
  have still: "triple (over w n C) (ret x) (\<lambda>_. over w n C) (\<lambda>e y. over w n C y \<and> \<not> stopped e)" for x :: 'x
    by (rule tripleI) auto
  show "triple (over w n C) (if mir \<noteq> None \<and> ended \<noteq> None
       then seq (put_state (rn_uplink w) (rn_job w) (the mir) (Some env)) (\<lambda>warning.
              case warning of None \<Rightarrow> ret () | Some msg \<Rightarrow> log_line w (''WARNING: '' @ msg))
       else ret ()) (\<lambda>_. over w n C) (\<lambda>e y. over w n C y \<and> \<not> stopped e)"
    by (rule triple_if, rule triple_seq [OF put]) (auto simp only: option.case quiet still split: option.split)
  have reads: "triple (over w n C) (reads (read_state (rn_job w))) (\<lambda>_. over w n C) (\<lambda>e y. over w n C y \<and> \<not> stopped e)"
    by (rule tripleI) (auto simp: reads_def over_def)
  have settle: "triple (over w n C) (at_host (settle_secrets (rn_job w) s)) (\<lambda>_. over w n C) (\<lambda>e y. over w n C y \<and> \<not> stopped e)" for s
  proof (rule tripleI)
    fix y r t
    assume y: "over w n C y"
    have k: "over w n C t" if "at_host (settle_secrets (rn_job w) s) y = (q, t)" for q
      using that over_settled [OF y, of "rn_job w" s] by (auto simp: at_host_def split: prod.splits)
    show "over w n C t" if "at_host (settle_secrets (rn_job w) s) y = (Inr r, t)" using k [OF that] .
    fix e
    assume run: "at_host (settle_secrets (rn_job w) s) y = (Inl e, t)"
    have "sane (sh_host y)" using y by (simp add: over_def)
    then show "over w n C t \<and> \<not> stopped e"
      using k [OF run] run settle_errors by (auto simp: at_host_def split: prod.splits)
  qed
  show "triple (over w n C) (seq (settle_runner_secrets w ended) (\<lambda>_. ret c)) (\<lambda>_. over w n C) (\<lambda>e y. over w n C y \<and> \<not> stopped e)" for u
    unfolding settle_runner_secrets_def
    by (rule triple_seq, rule triple_if, rule quiet, rule triple_seq [OF reads], rule triple_seq [OF settle])
      (auto simp only: option.case quiet still split: option.split)
qed

section \<open>The whole ending\<close>

text \<open>
  What a run is given: a spec of its own job whose destinations can be named, clock readings that
  are not empty, and other processes that leave the attempt alone.
\<close>

definition fits :: "runner \<Rightarrow> int \<Rightarrow> (string \<times> string) list \<Rightarrow> bool" where
  "fits w n ws \<longleftrightarrow> sp_job_id (rn_spec w) = rn_job w \<and> wanted_uploads (rn_spec w) = Inr ws \<and>
     (\<forall>k. uk_stamp (rn_uplink w) k \<noteq> []) \<and> rely w n"

lemma frame_ends [simp]: "frame w n G ms y \<Longrightarrow> ends w n C e y"
  by (auto simp: frame_def ends_def dest: mine_less)

lemma frame_less: "frame w n G ms y \<Longrightarrow> frame w n {} ms y"
  by (auto simp: frame_def dest: mine_less)

lemma triple_step:
  assumes "keeps (frame w n G ms) m" "\<And>x. triple (frame w n G ms) (f x) Q (ends w n C)"
  shows "triple (frame w n G ms) (seq m f) Q (ends w n C)"
  by (rule triple_seq [OF triple_keeps]) (use assms in simp_all)

lemma final_upload_frame:
  assumes fits: "fits w n ws" and oc: "oc_status oc \<in> set FINISHED_STATUSES"
    and y: "frame w n {} ms y" and run: "final_upload w env oc y = (r, y')"
  shows "frame w n {} ms y' \<and> (\<forall>oc' ps. r = Inr (oc', ps) \<longrightarrow> oc_status oc' \<in> set FINISHED_STATUSES \<and>
    (oc_status oc' = ''succeeded'' \<longrightarrow> oc_status oc = ''succeeded'' \<and> frame w n (set ws) ms y'))"
proof -
  have j: "sp_job_id (rn_spec w) = rn_job w" and ws: "wanted_uploads (rn_spec w) = Inr ws"
    and st: "\<And>k. uk_stamp (rn_uplink w) k \<noteq> []" using fits by (simp_all add: fits_def)
  obtain q y1 where q: "final (rn_uplink w) (rn_spec w) (cf_s3_prefix (rn_config w)) (Some env) y = (q, y1)" by fastforce
  have y1: "frame w n {} ms y1" using keepsD [OF inv.keeps_final [OF j] y q] .
  have logged: "frame w n {} ms (snd (log_line w m y1))" for m
    using keeps_log y1 by (simp add: keeps_def)
  have blamed: "oc_status (fst (blame oc why)) \<in> set FINISHED_STATUSES \<and> oc_status (fst (blame oc why)) \<noteq> ''succeeded''" for why
    using oc by (auto simp: blame_def FINISHED_STATUSES_def)
  show ?thesis
  proof (cases q)
    case (Inr u)
    obtain s where s: "read_state (rn_job w) (sh_host y) = Inr s" "sane (sh_host y)"
      using y by (auto simp: frame_def mine_def)
    obtain c where c: "h_config (sh_host y) = Inr c" using s(2) by (cases "h_config (sh_host y)") (auto simp: sane_def)
    obtain s' where s': "read_state (rn_job w) (sh_host y1) = Inr s'" "outputs_uploaded s' (rn_spec w) = Inr True"
      using final_effect [OF _ _ c st ws q] readable_has_job [OF s(1)] s(1) j Inr by auto
    then have "confirmed (set ws) s'" using uploaded_iff [OF ws, of s'] by (auto simp: confirmed_def)
    then have "frame w n (set ws) ms y1" using y1 s'(1) by (auto simp: frame_def mine_def)
    moreover have "r = Inr (oc, [])" "y' = y1" using run q Inr by (auto simp: final_upload_def)
    ultimately show ?thesis using y1 oc by simp
  next
    case (Inl e)
    show ?thesis
    proof (cases "is_sync_error e")
      case True
      then obtain m why where "r = Inr (blame oc why)" "y' = snd (log_line w m y1)"
        using run q Inl by (auto simp: final_upload_def seq_def log_line_def at_host_def split: if_splits)
      then show ?thesis using logged blamed by (metis Inr_inject fst_conv)
    next
      case False
      moreover have "\<not> is_missing e" using False by (cases e) (simp_all add: is_sync_error_def)
      ultimately show ?thesis using run q Inl y1 by (auto simp: final_upload_def)
    qed
  qed
qed

lemma finalize_over:
  assumes fits: "fits w n ws" and oc: "oc_status oc \<in> set FINISHED_STATUSES"
  shows "triple (frame w n {} ms) (finalize w env oc)
    (\<lambda>_. over w n (\<lambda>s. oc_status oc = ''succeeded'' \<and> (oc_ran oc \<longrightarrow> confirmed (set ws) s)))
    (ends w n (\<lambda>s. oc_status oc = ''succeeded'' \<and> (oc_ran oc \<longrightarrow> confirmed (set ws) s)))"
    (is "triple _ _ (\<lambda>_. over w n ?C) _")
proof -
  let ?G = "\<lambda>r :: outcome \<times> string list. if oc_ran oc \<and> oc_status (fst r) = ''succeeded'' then set ws else {}"
  let ?fine = "\<lambda>r :: outcome \<times> string list. oc_status (fst r) \<in> set FINISHED_STATUSES \<and>
    (oc_status (fst r) = ''succeeded'' \<longrightarrow> oc_status oc = ''succeeded'')"
  have moves: "keeps (frame w n G ms) (arrive (rn_at w p))" for G p
    using fits by (intro keeps_arrive) (auto simp: fits_def rely_def)
  have uploads: "triple (frame w n {} ms) (if oc_ran oc then final_upload w env oc
      else seq (log_line w m) (\<lambda>_. ret (oc, []))) (\<lambda>r y. frame w n (?G r) ms y \<and> ?fine r) (ends w n ?C)" for m
  proof (rule triple_if)
    assume "oc_ran oc"
    then show "triple (frame w n {} ms) (final_upload w env oc) (\<lambda>r y. frame w n (?G r) ms y \<and> ?fine r) (ends w n ?C)"
    proof (intro tripleI)
      fix y x t
      assume r: "oc_ran oc" and y: "frame w n {} ms y"
      show "frame w n (?G x) ms t \<and> ?fine x" if run: "final_upload w env oc y = (Inr x, t)"
        using final_upload_frame [OF fits oc y run] by (cases x) simp
      show "ends w n ?C e t" if run: "final_upload w env oc y = (Inl e, t)" for e
        using final_upload_frame [OF fits oc y run] by (meson frame_ends)
    qed
  next
    assume "\<not> oc_ran oc"
    then show "triple (frame w n {} ms) (seq (log_line w m) (\<lambda>_. ret (oc, []))) (\<lambda>r y. frame w n (?G r) ms y \<and> ?fine r) (ends w n ?C)"
      by (intro triple_step keeps_log tripleI) (use oc in auto)
  qed
  have ending: "triple (frame w n (?G r) ms) (end_attempt w (fst r) back ps e) (\<lambda>_. over w n ?C) (ends w n ?C)"
    if "?fine r" for r "back" ps e
    by (rule triple_weaken [OF end_attempt_over]) (use that in \<open>auto simp: over_def ends_def\<close>)
  have tail: "triple (over w n ?C) (seq (if mir \<noteq> None \<and> ended \<noteq> None
       then seq (put_state (rn_uplink w) (rn_job w) (the mir) (Some env)) (\<lambda>warning.
              case warning of None \<Rightarrow> ret () | Some msg \<Rightarrow> log_line w (''WARNING: '' @ msg))
       else ret ()) (\<lambda>_. seq (settle_runner_secrets w ended) (\<lambda>_. ret c))) (\<lambda>_. over w n ?C) (ends w n ?C)" for mir ended c
    by (rule triple_weaken [OF triple_tail], assumption, assumption) (unfold ends_def, rule disjI2)
  show ?thesis
    unfolding finalize_def Let_def
    apply (rule triple_step, rule moves)
    apply (rule triple_step, rule keeps_stand_down)
    apply (rule triple_step, rule keeps_puts, simp add: frame_def)
    apply (rule triple_step, rule keeps_upd, simp)
    apply (rule triple_seq [OF uploads])
    apply (rule triple_pure)
    apply (rule triple_step, rule keeps_if, rule keeps_log, rule keeps_ret)
    apply (rule triple_step, rule keeps_log)
    apply (rule triple_step, rule keeps_comes_back)
    apply (rule triple_step, rule keeps_cleanup)
    apply (rule triple_step, rule keeps_upd, simp)
    apply (rule triple_step, rule keeps_mirror)
    apply (rule triple_step, rule moves)
    apply (rule triple_seq [OF ending], assumption)
    apply (rule tail)
    done
qed

section \<open>The phases\<close>

lemma keeps_kill [keeps_rules]: "keeps (frame w n G ms) (kill_phase w p pid why)"
proof (rule keepsI)
  fix y
  assume y: "frame w n G ms y"
  then show "frame w n G ms (snd (kill_phase w p pid why y))"
    by (simp add: kill_phase_def sends_def puts_def frame_def)
qed

lemma keeps_eta [keeps_rules]: "keeps (frame w n G ms) (publish_estimated_eta w now elapsed)"
proof -
  have up: "keeps (frame w n G ms) (upd w (\<lambda>s. s\<lparr>st_eta := t\<rparr>))" for t by (rule keeps_upd) simp
  show ?thesis
  proof (rule keepsI)
    fix y
    assume y: "frame w n G ms y"
    have "frame w n G ms (y\<lparr>ry_published := v\<rparr>)" for v using y by (simp add: frame_def)
    then show "frame w n G ms (snd (publish_estimated_eta w now elapsed y))"
      using y up by (simp add: publish_estimated_eta_def keeps_def split: option.split)
  qed
qed

lemma keeps_reread [keeps_rules]: "keeps (frame w n G ms) (reread_live_fields w)"
proof (rule keepsI)
  fix y
  assume y: "frame w n G ms y"
  have go: "keeps (frame w n G ms) (seq (log_line w m) (\<lambda>_. puts (\<lambda>y. y\<lparr>ry_max_runtime := v\<rparr>)))" for m v
    by (intro keeps_rules keeps_puts) (simp add: frame_def)
  have "frame w n G ms (y\<lparr>ry_estimate := v\<rparr>)" for v using y by (simp add: frame_def)
  then show "frame w n G ms (snd (reread_live_fields w y))"
    using y go by (simp add: reread_live_fields_def keeps_def Let_def split: sum.split)
qed

lemma keeps_progress [keeps_rules]: "keeps (frame w n G ms) (record_progress w k elapsed)"
proof (rule keepsI)
  fix y
  assume y: "frame w n G ms y"
  have up: "keeps (frame w n G ms) (upd w (\<lambda>s. s\<lparr>st_progress_pct := a, st_progress_error := b\<rparr>))"
    "keeps (frame w n G ms) (upd w (\<lambda>s. s\<lparr>st_progress_pct := a, st_progress_error := b, st_eta := t\<rparr>))"
    "keeps (frame w n G ms) (upd w (\<lambda>s. s\<lparr>st_progress_error := b\<rparr>))" for a b t
    by (rule keeps_upd, simp)+
  have fail: "keeps (frame w n G ms) (seq (if c then log_line w m else ret ()) (\<lambda>_.
      seq (puts (\<lambda>y. y\<lparr>ry_progress_error := v\<rparr>)) (\<lambda>_. upd w (\<lambda>s. s\<lparr>st_progress_error := b\<rparr>))))" for c m v b
    by (intro keeps_rules keeps_puts up) (simp add: frame_def)
  have "frame w n G ms (y\<lparr>ry_progress_error := v\<rparr>)" "frame w n G ms (y\<lparr>ry_progress_error := v, ry_measured_eta := b\<rparr>)" for v b
    using y by (simp_all add: frame_def)
  then show "frame w n G ms (snd (record_progress w k elapsed y))"
    using y up fail by (simp add: record_progress_def keeps_def Let_def split: sum.split pyerr.split option.split)
qed

lemma keeps_util [keeps_rules]: "keeps (frame w n G ms) (record_util w v)" "keeps (frame w n G ms) (sample_util w k)"
proof -
  show util: "keeps (frame w n G ms) (record_util w v)" for v
    unfolding record_util_def Let_def
    by (rule keeps_seq, rule keeps_reads, rule keeps_option) (rule keeps_upd, simp)+
  show "keeps (frame w n G ms) (sample_util w k)"
    unfolding sample_util_def
    by (cases "tk_util k") (auto simp: util keeps_throw split: smi_error.split intro!: keeps_seq keeps_log)
qed

lemma keeps_leftovers [keeps_rules]: "keeps (frame w n G ms) (stop_leftovers w p pid)"
proof (rule keepsI)
  fix y
  assume y: "frame w n G ms y"
  have "keeps (frame w n G ms) (seq (log_line w m) (\<lambda>_. sends es))" for m es by (intro keeps_rules)
  then show "frame w n G ms (snd (stop_leftovers w p pid y))"
    using y by (simp add: stop_leftovers_def Let_def keeps_def)
qed

lemma keeps_watch_turn:
  assumes "rely w n" "k \<in> set (ph_turns (rn_phase w phase'))"
  shows "keeps (frame w n {} ms) (watch_turn w phase p pid start tm k)"
proof -
  have come: "keeps (frame w n {} ms) (arrive k)"
    using assms by (intro keeps_arrive) (auto simp: rely_def)
  show ?thesis
    unfolding watch_turn_def Let_def
    by (rule keeps_seq, rule come, rule keeps_seq, rule keeps_stand_down, rule keeps_seq, rule keeps_reads, rule keeps_option,
        rule keeps_seq, intro keeps_rules, rule keeps_cond) (intro keeps_rules)+
qed

lemma keeps_watch:
  assumes "rely w n" "set ks \<subseteq> set (ph_turns (rn_phase w phase'))"
  shows "keeps (frame w n {} ms) (watch w phase p pid start tm ks)"
  using assms(2)
proof (induction ks arbitrary: tm)
  case Nil
  then show ?case by (simp add: keeps_def)
next
  case (Cons k ks)
  have "keeps (frame w n {} ms) (seq (watch_turn w phase p pid start tm k) (\<lambda>next.
      case next of None \<Rightarrow> ret () | Some tm' \<Rightarrow> watch w phase p pid start tm' ks))"
    by (rule keeps_seq, rule keeps_watch_turn [OF assms(1), of k phase'], use Cons.prems in simp,
        rule keeps_option, rule keeps_ret, rule Cons.IH) (use Cons.prems in simp)
  then show ?case by (simp add: keeps_def)
qed

lemma keeps_run_phase:
  assumes "rely w n"
  shows "keeps (frame w n {} ms) (run_phase w phase cmd env start)"
proof -
  let ?p = "rn_phase w phase"
  have watch: "keeps (frame w n {} ms) (watch w phase ?p pid start tm (ph_turns ?p))" for pid tm
    by (rule keeps_watch [OF assms, of _ phase]) simp
  have up: "keeps (frame w n {} ms) (upd w (\<lambda>s. s\<lparr>st_phase := a, st_pgid := b, st_cgroup_unit := c\<rparr>))"
    "keeps (frame w n {} ms) (upd w (\<lambda>s. s\<lparr>st_pgid := b, st_cgroup_unit := c\<rparr>))" for a b c
    by (rule keeps_upd, simp)+
  have mon: "keeps (frame w n {} ms) (monitor w phase ?p pid start)" for pid
    unfolding monitor_def
    by (rule keeps_seq, rule keeps_look, rule up, rule keeps_seq, rule keeps_eta, rule keeps_seq, rule watch, rule keeps_ret)
  have put: "keeps (frame w n {} ms) (puts (\<lambda>y. y\<lparr>ry_unit := u\<rparr>))"
    "keeps (frame w n {} ms) (puts (\<lambda>y. y\<lparr>ry_started := f y, ry_current := c\<rparr>))"
    "keeps (frame w n {} ms) (puts (\<lambda>y. y\<lparr>ry_current := c\<rparr>))" for u c f
    by (rule keeps_puts, simp add: frame_def)+
  have left: "keeps (frame w n {} ms) (\<lambda>y. if c y then stop_leftovers w ?p pid y else (Inr (), y))" for c pid
    using keeps_leftovers [of w n "{}" ms ?p pid] by (simp add: keeps_def)
  show ?thesis
    unfolding run_phase_def Let_def
    by (rule keeps_seq, rule keeps_log, rule keeps_seq, rule put, rule keeps_option, rule keeps_throw)
      (intro keeps_seq put mon left up keeps_log keeps_ret)
qed

section \<open>From the claim to the end\<close>

lemma classify_status:
  "oc_status (classify y code why) \<in> set FINISHED_STATUSES"
  "oc_status (classify y code why) = ''succeeded'' \<longleftrightarrow> blank (ry_kill_reason y) \<and> code = 0"
  "oc_ran (classify y code why) = ry_main_started y"
  by (auto simp: classify_def FINISHED_STATUSES_def blank_def)

text \<open>What a job recorded as succeeded has been through.\<close>

definition earned :: "runner \<Rightarrow> (string \<times> string) list \<Rightarrow> jobstate \<Rightarrow> bool" where
  "earned w ws s \<longleftrightarrow> ph_code (rn_phase w ''main'') = 0 \<and> confirmed (set ws) s"

definition ends_attempt :: "runner \<Rightarrow> int \<Rightarrow> (string \<times> string) list \<Rightarrow> bool \<Rightarrow> (int, rsys) eff \<Rightarrow> bool" where
  "ends_attempt w n ws ms m \<longleftrightarrow> triple (frame w n {} ms) m (\<lambda>_. over w n (earned w ws)) (ends w n (earned w ws))"

lemma over_mono: "over w n C y \<Longrightarrow> (\<And>s. C s \<Longrightarrow> C' s) \<Longrightarrow> over w n C' y"
  unfolding over_def by blast

lemma ends_mono: "ends w n C e y \<Longrightarrow> (\<And>s. C s \<Longrightarrow> C' s) \<Longrightarrow> ends w n C' e y"
  unfolding ends_def using over_mono by blast

lemma ends_finalize:
  assumes "fits w n ws" "oc_status oc \<in> set FINISHED_STATUSES"
    and "oc_status oc = ''succeeded'' \<Longrightarrow> oc_ran oc \<and> ph_code (rn_phase w ''main'') = 0"
  shows "ends_attempt w n ws ms (finalize w env oc)"
  unfolding ends_attempt_def
  by (rule triple_weaken [OF finalize_over [OF assms(1,2)]])
    (use assms(3) in \<open>auto simp: earned_def elim!: over_mono ends_mono\<close>)

lemma ends_seq:
  "keeps (frame w n {} ms) m \<Longrightarrow> (\<And>x. ends_attempt w n ws ms (f x)) \<Longrightarrow> ends_attempt w n ws ms (seq m f)"
  unfolding ends_attempt_def by (rule triple_step)

lemma ends_if:
  "(c \<Longrightarrow> ends_attempt w n ws ms m) \<Longrightarrow> (\<not> c \<Longrightarrow> ends_attempt w n ws ms m') \<Longrightarrow> ends_attempt w n ws ms (if c then m else m')"
  by simp

lemma ends_look:
  assumes "\<And>y. frame w n {} ms y \<Longrightarrow> ends_attempt w n ws ms (g y)"
  shows "ends_attempt w n ws ms (\<lambda>y. g y y)"
  unfolding ends_attempt_def
  by (rule triple_look, rule triple_weaken [OF assms [unfolded ends_attempt_def]]) simp_all

lemma ends_must_succeed:
  assumes fits: "fits w n ws" and rest: "ends_attempt w n ws ms rest"
  shows "ends_attempt w n ws ms (must_succeed w env phase cmd failure start rest)"
proof -
  have "rely w n" using fits by (simp add: fits_def)
  have "ends_attempt w n ws ms (\<lambda>y. (if code \<noteq> 0 \<or> \<not> blank (ry_kill_reason y)
      then finalize w env (classify y code (Some failure)) else rest) y)" for code
    by (rule ends_look, rule ends_if, rule ends_finalize [OF fits classify_status(1)])
      (use rest classify_status(2) in auto)
  then have last: "ends_attempt w n ws ms (\<lambda>y. if code \<noteq> 0 \<or> \<not> blank (ry_kill_reason y)
      then finalize w env (classify y code (Some failure)) y else rest y)" for code
    by (simp add: if_distribR)
  show ?thesis
    unfolding must_succeed_def by (rule ends_seq [OF keeps_run_phase [OF \<open>rely w n\<close>] last])
qed

lemma ends_unless_stopped:
  assumes fits: "fits w n ws" and rest: "ends_attempt w n ws ms rest"
  shows "ends_attempt w n ws ms (unless_stopped w env phase rest)"
proof -
  let ?C = "earned w ws"
  have come: "keeps (frame w n {} ms) (arrive (rn_at w phase))"
    using fits by (intro keeps_arrive) (auto simp: fits_def rely_def)
  have stop: "triple (frame w n {} ms)
      (case requested of None \<Rightarrow> ret None
       | Some reason \<Rightarrow>
           seq (puts (\<lambda>y. y\<lparr>ry_kill_reason := Some reason\<rparr>)) (\<lambda>_.
           seq (log_line w (msg reason)) (\<lambda>_ y.
             seq (finalize w env (classify y TERMINATED_EXIT_CODE None)) (\<lambda>code. ret (Some code)) y)))
      (\<lambda>r y. case r of None \<Rightarrow> frame w n {} ms y | Some c \<Rightarrow> over w n ?C y) (ends w n ?C)" for requested msg
  proof (cases requested)
    case None
    then show ?thesis by (auto intro: tripleI)
  next
    case (Some reason)
    have put: "keeps (frame w n {} ms) (puts (\<lambda>y. y\<lparr>ry_kill_reason := Some reason\<rparr>))"
      by (rule keeps_puts) (simp add: frame_def)
    have fin: "triple (frame w n {} ms) (finalize w env (classify y TERMINATED_EXIT_CODE None)) (\<lambda>_. over w n ?C) (ends w n ?C)" for y
      using ends_finalize [OF fits classify_status(1), of y TERMINATED_EXIT_CODE None ms env] classify_status(2)
      by (simp add: ends_attempt_def TERMINATED_EXIT_CODE_def)
    have "triple (frame w n {} ms) (\<lambda>y. seq (finalize w env (classify y TERMINATED_EXIT_CODE None)) (\<lambda>code. ret (Some code)) y)
        (\<lambda>r y. case r of None \<Rightarrow> frame w n {} ms y | Some c \<Rightarrow> over w n ?C y) (ends w n ?C)"
      by (rule triple_look, rule triple_weaken [where P = "frame w n {} ms"], rule triple_seq [OF fin]) (auto intro: tripleI)
    then show ?thesis
      unfolding Some option.case by (intro triple_step [OF put] triple_step [OF keeps_log])
  qed
  show ?thesis
    unfolding ends_attempt_def unless_stopped_def stopped_before_def
    by (rule triple_seq, rule triple_step [OF come], rule triple_step [OF keeps_reads], rule stop)
      (use rest in \<open>auto simp: ends_attempt_def intro: tripleI split: option.split\<close>)
qed

lemma mine_baseline: "mine j n G (update_job k (\<lambda>d. d\<lparr>jd_baseline := b\<rparr>) h) = mine j n G h"
  by (rule mine_update_job) simp_all

lemma keeps_baseline [keeps_rules]: "keeps (frame w n G ms) (capture_output_baseline w)"
proof (rule keepsI)
  fix y
  assume y: "frame w n G ms y"
  have put: "keeps (frame w n G ms) (at_host (\<lambda>h. (Inr (), update_job (rn_job w) (\<lambda>d. d\<lparr>jd_baseline := b\<rparr>) h)))" for b
    by (rule keepsI) (simp add: at_host_def frame_def mine_baseline)
  have "keeps (frame w n G ms) (seq (at_host (\<lambda>h. (Inr (), update_job (rn_job w) (\<lambda>d. d\<lparr>jd_baseline := b\<rparr>) h))) (\<lambda>_.
      seq (for_each (\<lambda>x. if c x then ret () else log_line w (m x)) xs) (\<lambda>_.
        for_each (\<lambda>x. if c' x then log_line w (m' x) else ret ()) xs')))" for b c m c' m' and xs xs' :: "(string \<times> entries) list"
    by (intro keeps_rules put)
  then show "frame w n G ms (snd (capture_output_baseline w y))"
    using y keeps_log [of w n G ms] by (simp add: capture_output_baseline_def keeps_def split: sum.split)
qed

lemma keeps_sync_preflight [keeps_rules]: "keeps (frame w n {} ms) (sync_preflight w env)"
proof -
  have "keeps (frame w n {} ms) (\<lambda>y. case preflight_run t spec c probe env' y of
            (Inr checked, y1) \<Rightarrow> seq (log_line w (m checked)) (\<lambda>_. ret None) y1
          | (Inl (PreflightFailed m), y1) \<Rightarrow> seq (log_line w (f m)) (\<lambda>_. ret (Some m)) y1
          | (Inl e, y1) \<Rightarrow> (Inl e, y1))" (is "keeps _ ?m") for t spec c probe env' m f
  proof (rule keepsI)
    fix y
    assume y: "frame w n {} ms y"
    obtain r y1 where r: "preflight_run t spec c probe env' y = (r, y1)" by fastforce
    have y1: "frame w n {} ms y1" using keepsD [OF inv.keeps_preflight_run y r] .
    have "keeps (frame w n {} ms) (seq (log_line w x) (\<lambda>_. ret v))" for x and v :: "string option"
      by (intro keeps_rules)
    then show "frame w n {} ms (snd (?m y))"
      using r y1 by (cases r) (simp_all add: keeps_def split: pyerr.split)
  qed
  then show ?thesis
    unfolding sync_preflight_def by (intro keeps_if keeps_ret keeps_seq keeps_upd) simp_all
qed

lemma ends_main:
  assumes fits: "fits w n ws"
  shows "ends_attempt w n ws ms (main_phase w env start)"
proof -
  have "rely w n" using fits by (simp add: fits_def)
  have code: "run_phase w ''main'' cmd env start y = (Inr c, t) \<Longrightarrow> c = ph_code (rn_phase w ''main'')" for cmd y c t
    unfolding run_phase_def Let_def monitor_def by (auto simp: seq_Inr split: option.splits)
  have ran: "triple (frame w n {} True) (run_phase w ''main'' cmd env start)
      (\<lambda>c y. frame w n {} True y \<and> c = ph_code (rn_phase w ''main'')) (ends w n (earned w ws))" for cmd
    by (rule tripleI) (use keepsD [OF keeps_run_phase [OF \<open>rely w n\<close>]] code in \<open>blast intro: frame_ends\<close>)+
  have fin: "triple (\<lambda>y. frame w n {} True y \<and> c = ph_code (rn_phase w ''main''))
      (\<lambda>y. finalize w env (classify y c None) y) (\<lambda>_. over w n (earned w ws)) (ends w n (earned w ws))" for c
  proof (rule triple_look [where g = "\<lambda>y. finalize w env (classify y c None)"])
    fix y
    assume y: "frame w n {} True y \<and> c = ph_code (rn_phase w ''main'')"
    have "ends_attempt w n ws True (finalize w env (classify y c None))"
      by (rule ends_finalize [OF fits classify_status(1)])
        (use y in \<open>simp add: classify_status(2,3) frame_def\<close>)
    then show "triple (\<lambda>s. s = y) (finalize w env (classify y c None)) (\<lambda>_. over w n (earned w ws)) (ends w n (earned w ws))"
      unfolding ends_attempt_def using y by (auto elim!: triple_weaken)
  qed
  have begun: "triple (frame w n {} ms) (puts (\<lambda>y. y\<lparr>ry_main_started := True\<rparr>)) (\<lambda>_. frame w n {} True) (ends w n (earned w ws))"
    by (rule tripleI) (auto simp: puts_def frame_def)
  show ?thesis
    unfolding ends_attempt_def main_phase_def
    by (rule triple_seq [OF begun], rule triple_step, rule keeps_upd, simp, rule triple_seq [OF ran fin])
qed

lemma ends_phases:
  assumes fits: "fits w n ws"
  shows "ends_attempt w n ws ms (run_phases w env start gpu_error)"
proof -
  have never: "ends_attempt w n ws ms (finalize w env (never_ran why))" for why
    by (rule ends_finalize [OF fits]) (simp_all add: never_ran_def FINISHED_STATUSES_def)
  show ?thesis
    unfolding run_phases_def Let_def
    by (intro ends_if ends_seq keeps_log keeps_baseline keeps_sync_preflight ends_unless_stopped [OF fits]
        ends_must_succeed [OF fits] ends_main [OF fits] never)
qed

lemma ends_terminated:
  assumes fits: "fits w n ws"
  shows "ends_attempt w n ws ms (finalize_terminated w env signum)"
proof -
  have kill: "keeps (frame w n {} ms) (\<lambda>y. case ry_current y of None \<Rightarrow> (Inr (), y) | Some pid \<Rightarrow> kill_phase w p pid why y)" for p why
    using keeps_kill [of w n "{}" ms p _ why] by (simp add: keeps_def split: option.split)
  have fin: "ends_attempt w n ws ms (\<lambda>y. finalize w env
       (if c then \<lparr>oc_status = ''cancelled'', oc_reason = a, oc_exit_code = b, oc_ran = ry_main_started y\<rparr>
        else if d then \<lparr>oc_status = ''failed'', oc_reason = a', oc_exit_code = b, oc_ran = ry_main_started y\<rparr>
        else \<lparr>oc_status = ''failed'', oc_reason = a'', oc_exit_code = b, oc_ran = ry_main_started y\<rparr>) y)" for c d a a' a'' b
    by (rule ends_look, rule ends_finalize [OF fits]) (auto simp: FINISHED_STATUSES_def split: if_splits)
  show ?thesis
    unfolding finalize_terminated_def
    by (rule ends_seq [OF keeps_log], rule ends_seq [OF kill], rule ends_seq [OF keeps_reads], rule fin)
qed

lemma mine_restored:
  assumes "mine j n G h"
  shows "mine j n G (snd (restore k h))" "mine j n G (ensure_job_layout k (snd (restore k h)))"
proof -
  have 1: "mine j n G (update_job k (\<lambda>d. d\<lparr>jd_workdir := x\<rparr>) h')" if "mine j n G h'" for x h'
    using that by (simp add: mine_update_job)
  show r: "mine j n G (snd (restore k h))"
    using assms 1 by (simp add: restore_def split: option.split)
  show "mine j n G (ensure_job_layout k (snd (restore k h)))"
    unfolding ensure_job_layout_def using r by (subst mine_update_job) auto
qed

lemma ends_body:
  assumes fits: "fits w n ws"
  shows "ends_attempt w n ws ms (run_body w env start gpu_error)"
proof -
  have come: "keeps (frame w n {} ms) (arrive (rn_at w ''restore''))"
    using fits by (intro keeps_arrive) (auto simp: fits_def rely_def)
  have lost: "ends_attempt w n ws ms (seq (log_line w m) (\<lambda>_. finalize w env (never_ran ''checkout-lost'')))" for m
    by (rule ends_seq [OF keeps_log], rule ends_finalize [OF fits]) (simp_all add: never_ran_def FINISHED_STATUSES_def)
  let ?next = "\<lambda>y. case restore (rn_job w) (sh_host y) of
      (Some lost, h) \<Rightarrow> seq (log_line w (''checkout lost: '' @ lost)) (\<lambda>_. finalize w env (never_ran ''checkout-lost'')) (y\<lparr>sh_host := h\<rparr>)
    | (None, h) \<Rightarrow> run_phases w env start gpu_error (y\<lparr>sh_host := ensure_job_layout (rn_job w) h\<rparr>)"
  have "ends_attempt w n ws ms ?next"
    unfolding ends_attempt_def triple_def
  proof (intro allI impI)
    fix y
    assume y: "frame w n {} ms y"
    obtain l h where r: "restore (rn_job w) (sh_host y) = (l, h)" by fastforce
    have "frame w n {} ms (y\<lparr>sh_host := h\<rparr>)" "frame w n {} ms (y\<lparr>sh_host := ensure_job_layout (rn_job w) h\<rparr>)"
      using y r mine_restored [of "rn_job w" n "{}" "sh_host y" "rn_job w"] by (simp_all add: frame_def)
    then show "case ?next y of (Inr x, t) \<Rightarrow> over w n (earned w ws) t | (Inl e, t) \<Rightarrow> ends w n (earned w ws) e t"
      using lost ends_phases [OF fits] r by (cases l) (simp_all add: ends_attempt_def triple_def)
  qed
  then show ?thesis unfolding run_body_def by (rule ends_seq [OF come])
qed

lemma keeps_verify: "keeps (frame w n G ms) (verify_assigned w)"
  by (rule keepsI) (auto simp: verify_assigned_def frame_def Let_def split: sum.split smi_error.split)

lemma ends_claimed:
  assumes fits: "fits w n ws"
  shows "ends_attempt w n ws ms (run_claimed w)"
proof -
  have handled: "ends_attempt w n ws ms (\<lambda>y. case run_body w env start gpu_error y of
      (Inl (Terminated k), y1) \<Rightarrow> finalize_terminated w env k y1 | r \<Rightarrow> r)" (is "ends_attempt _ _ _ _ ?m") for env start gpu_error
    unfolding ends_attempt_def triple_def
  proof (intro allI impI)
    fix y
    assume y: "frame w n {} ms y"
    obtain r y1 where r: "run_body w env start gpu_error y = (r, y1)" by fastforce
    have after: "case r of Inr x \<Rightarrow> over w n (earned w ws) y1 | Inl e \<Rightarrow> ends w n (earned w ws) e y1"
      using triple_Inr [OF ends_body [OF fits, unfolded ends_attempt_def] y, of env start gpu_error]
        triple_Inl [OF ends_body [OF fits, unfolded ends_attempt_def] y, of env start gpu_error] r by (cases r) simp_all
    show "case ?m y of (Inr x, t) \<Rightarrow> over w n (earned w ws) t | (Inl e, t) \<Rightarrow> ends w n (earned w ws) e t"
    proof (cases "\<exists>k. r = Inl (Terminated k)")
      case True
      then obtain k where k: "r = Inl (Terminated k)" by blast
      then have "frame w n {} (ry_main_started y1) y1"
        using after by (simp add: ends_def stopped_def frame_def)
      then show ?thesis
        using ends_terminated [OF fits] r k by (simp add: ends_attempt_def triple_def)
    next
      case False
      then have "?m y = (r, y1)" using r by (simp split: sum.split pyerr.split)
      then show ?thesis using after by (simp split: sum.splits)
    qed
  qed
  have "ends_attempt w n ws ms (\<lambda>y. case run_body w (build_env w (ry_indices y)) start gpu_error y of
      (Inl (Terminated k), y1) \<Rightarrow> finalize_terminated w (build_env w (ry_indices y)) k y1 | r \<Rightarrow> r)" for start gpu_error
    by (rule ends_look [where g = "\<lambda>y z. case run_body w (build_env w (ry_indices y)) start gpu_error z of
      (Inl (Terminated k), y1) \<Rightarrow> finalize_terminated w (build_env w (ry_indices y)) k y1 | r \<Rightarrow> r"]) (rule handled)
  then show ?thesis
    unfolding run_claimed_def Let_def by (rule ends_seq [OF keeps_verify])
qed

lemma claimed_mine:
  assumes "sane h" "runner_claim j a spec r h = (Inr True, h')"
  shows "mine j a {} h'"
proof -
  from assms(2) [unfolded runner_claim_def] show ?thesis
  proof (cases rule: claim_cases)
    case (won s)
    then show ?thesis
      using assms(1) claimed_running [of "Some spec" r s]
      by (auto simp: mine_def states.rd_own claimed_state_def claim_fields_def Let_def)
  qed simp
qed

text \<open>
  C20. A runner that has claimed its attempt and returns has ended it: the job is queued again at
  the next attempt, or finished, and it is recorded as succeeded only if its command exited 0 and
  the last upload of every declared output reached every destination. This covers every way through
  the phases, a stop before or during any of them, a signal to the runner itself at any of its
  points, a timeout and a failed upload. If the runner raises instead (another machine took the
  queue over, a phase could not be started, a file could not be read), the job is still running at
  its attempt, for the dispatcher to settle, or was already over. The other processes of the host
  may do anything meanwhile that leaves the attempt running and drops no confirmed upload
  (\<open>fits\<close>).
\<close>

theorem runner_ends_attempt:
  assumes job: "read_spec (rn_job w) h = Inr spec" "read_state (rn_job w) h = Inr s0" "h_config h = Inr c"
    and fits: "fits (w\<lparr>rn_spec := spec, rn_config := c\<rparr>) (rn_attempt w) ws"
    and free: "other_owner (mo_owner (rn_at w ''claim'')) (rn_instance w) = None"
    and sane: "sane (mo_others (rn_at w ''claim'') h)"
    and claimed: "fst (runner_claim (rn_job w) (rn_attempt w) spec (rn_id w) (mo_others (rn_at w ''claim'') h)) = Inr True"
    and run: "run_job w h = (r, y)"
  shows "\<exists>s. read_state (rn_job w) (sh_host y) = Inr s \<and>
    (st_status s = ''queued'' \<and> st_attempt s = rn_attempt w + 1
     \<or> finished s \<and> st_attempt s = rn_attempt w \<and>
       (st_status s = ''succeeded'' \<longrightarrow> ph_code (rn_phase w ''main'') = 0 \<and> outputs_uploaded s spec = Inr True)
     \<or> isl r \<and> st_status s = ''running'' \<and> st_attempt s = rn_attempt w)"
proof -
  let ?w = "w\<lparr>rn_spec := spec, rn_config := c\<rparr>" and ?n = "rn_attempt w"
  let ?y = "(fresh_runner ?w s0 h)\<lparr>sh_host := mo_others (rn_at w ''claim'') h\<rparr>"
  obtain h1 where h1: "runner_claim (rn_job w) ?n spec (rn_id w) (mo_others (rn_at w ''claim'') h) = (Inr True, h1)"
    using claimed by (metis prod.collapse)
  have start: "frame ?w ?n {} False (?y\<lparr>sh_host := h1\<rparr>)"
    using claimed_mine [OF sane h1] by (simp add: frame_def fresh_runner_def)
  have go: "run_claimed ?w (?y\<lparr>sh_host := h1\<rparr>) = (r, y)"
    using run job free h1
    by (simp add: run_job_def bind_res_def Let_def run_def fresh_runner_def at_host_def seq_def)
  have "case run_claimed ?w (?y\<lparr>sh_host := h1\<rparr>) of (Inr x, t) \<Rightarrow> over ?w ?n (earned ?w ws) t
      | (Inl e, t) \<Rightarrow> ends ?w ?n (earned ?w ws) e t"
    by (rule ends_claimed [OF fits, unfolded ends_attempt_def triple_def, rule_format, OF start])
  then have "case r of Inr x \<Rightarrow> over ?w ?n (earned ?w ws) y | Inl e \<Rightarrow> ends ?w ?n (earned ?w ws) e y"
    unfolding go by simp
  then have "over ?w ?n (earned ?w ws) y \<or> isl r \<and> mine (rn_job w) ?n {} (sh_host y)"
    by (cases r) (auto simp: ends_def)
  moreover have "wanted_uploads spec = Inr ws" using fits by (simp add: fits_def)
  then have "confirmed (set ws) s \<longleftrightarrow> outputs_uploaded s spec = Inr True" for s
    using uploaded_iff [of spec ws s] by (auto simp: confirmed_def)
  ultimately show ?thesis by (auto simp: over_def mine_def earned_def)
qed

text \<open>A host with one queued job whose one output has two destinations, and a runner of it.\<close>

definition demo_moment :: moment where
  "demo_moment = \<lparr>mo_now = 100, mo_owner = Some ''me'', mo_others = id, mo_signal = None, mo_stamp = ''2026-01-01''\<rparr>"

definition demo_job_host :: "jobspec \<Rightarrow> host" where
  "demo_job_host spec =
     \<lparr>h_jobs = [(''j1'', \<lparr>jd_spec = Inr spec, jd_state = Inr (blank_state\<lparr>st_status := ''queued'', st_attempt := 2\<rparr>),
          jd_log = [], jd_workdir = Some (NDir 8 (Some [(''ckpt'', NDir 8 (Some [(''a'', NFile (demo_file 3 5))]))])),
          jd_archive = None, jd_baseline = [(''ckpt'', [])], jd_outside = []\<rparr>)],
        h_incoming = [], h_secrets = [], h_draining = False, h_config = Inr blank_config, h_scratch = False\<rparr>"

definition demo_work :: "tools \<Rightarrow> runner" where
  "demo_work t =
     \<lparr>rn_job = ''j1'', rn_attempt = 2,
      rn_id = \<lparr>ri_gpus = [], ri_started_at = ''t'', ri_isolation = PGID, ri_pid = 7, ri_boot_id = None,
        ri_init_start = None, ri_starttime = None\<rparr>,
      rn_spec = plain_spec ''j1'' 0, rn_config = blank_config, rn_instance = ''me'',
      rn_kernel = \<lparr>k_boot_id = None, k_init_start = None, k_pid_exists = (\<lambda>p. False), k_starttime = (\<lambda>p. None),
        k_group_exists = (\<lambda>p. False), k_own_group = 1\<rparr>,
      rn_smi = (\<lambda>q. Inr []), rn_uplink = demo_uplink\<lparr>uk_tools := t\<rparr>, rn_environ = [], rn_secrets = None, rn_expand = id,
      rn_agent = [], rn_preflight_command = [], rn_preflight = False, rn_sync_preflight = True,
      rn_eta = (\<lambda>t r. None),
      rn_phase = (\<lambda>p. \<lparr>ph_pid = Some 8, ph_start = 100, ph_turns = [], ph_code = 0, ph_left = [], ph_term_ok = True, ph_polls = []\<rparr>),
      rn_at = (\<lambda>p. demo_moment), rn_loop_error = None\<rparr>"

definition demo_spec :: jobspec where
  "demo_spec = demo_upload_spec\<lparr>sp_outputs := [demo_output\<lparr>out_hf := None\<rparr>]\<rparr>"

definition demo_run :: "int res \<times> rsys" where
  "demo_run = run_job (demo_work demo_tools) (demo_job_host demo_spec)"

lemma demo_run_result:
  "map_sum id st_status (read_state ''j1'' (sh_host (snd demo_run))) = Inr ''succeeded''"
  by code_simp

lemma demo_work_fits:
  "fits ((demo_work t)\<lparr>rn_spec := demo_spec, rn_config := blank_config\<rparr>) 2 [(''ckpt'', ''s3://b/j1'')]"
proof -
  have "wanted_uploads demo_spec = Inr [(''ckpt'', ''s3://b/j1'')]" by code_simp
  then show ?thesis
    by (simp add: fits_def rely_def demo_work_def demo_moment_def demo_uplink_def demo_spec_def demo_upload_spec_def)
qed

lemma demo_job_host_reads:
  "read_spec ''j1'' (demo_job_host spec) = Inr spec"
  "read_state ''j1'' (demo_job_host spec) = Inr (blank_state\<lparr>st_status := ''queued'', st_attempt := 2\<rparr>)"
  "h_config (demo_job_host spec) = Inr blank_config" "sane (demo_job_host spec)"
  by (auto simp: demo_job_host_def read_spec_def read_state_def job_of_def sane_def split: if_splits)

theorem runner_ends_attempt_witness:
  "\<exists>s. read_state ''j1'' (sh_host (snd demo_run)) = Inr s \<and> st_status s = ''succeeded'' \<and>
     outputs_uploaded s demo_spec = Inr True"
proof -
  let ?w = "demo_work demo_tools" and ?h = "demo_job_host demo_spec"
  have w: "rn_job ?w = ''j1''" "rn_attempt ?w = 2" "other_owner (mo_owner (rn_at ?w ''claim'')) (rn_instance ?w) = None"
    "mo_others (rn_at ?w ''claim'') = id"
    by (simp_all add: demo_work_def demo_moment_def other_owner_def)
  have claimed: "fst (runner_claim ''j1'' 2 demo_spec (rn_id ?w) (id ?h)) = Inr True"
    using readable_has_job [OF demo_job_host_reads(2) [of demo_spec]]
    by (simp add: runner_claim_def claim_def with_state_def demo_job_host_reads)
  have run: "run_job ?w ?h = (fst demo_run, snd demo_run)" by (simp add: demo_run_def)
  show ?thesis
    using runner_ends_attempt [of ?w ?h demo_spec _ blank_config "[(''ckpt'', ''s3://b/j1'')]" "fst demo_run" "snd demo_run"]
      demo_run_result demo_job_host_reads [of demo_spec] demo_work_fits [of demo_tools] claimed run
    unfolding w by (auto simp: map_sum_Inr)
qed

definition wedged_tools :: tools where
  "wedged_tools = demo_tools\<lparr>tl_run := (\<lambda>cs c. Inl ''timed out'')\<rparr>"

definition wedged_run :: "int res \<times> rsys" where
  "wedged_run = run_job (demo_work wedged_tools) (demo_job_host demo_spec)"


end
