(* ===== verification/Settable.thy ===== *)
theory Settable
  imports Lifecycle
begin

text \<open>
  \<open>src/gpuc/host/settable.py\<close>: the settings of a job that may be changed after submit, the checks
  on a value and on the job it is meant for, and the one write. A refusal is a value of \<open>set_error\<close>,
  one per message of the code. The clock, and whether a date that many seconds away exists
  (\<open>utc_in\<close>), are arguments. A value is kept as the next reader of the state reads it back.
\<close>

datatype kind = IntKind | FloatKind

record settable =
  sb_field :: string
  sb_option :: string
  sb_kind :: kind
  sb_statuses :: "string list"
  sb_clearable :: bool
  sb_checked :: bool

definition FIELDS :: "settable list" where
  "FIELDS =
     [\<lparr>sb_field = ''priority'', sb_option = ''priority'', sb_kind = IntKind, sb_statuses = [''queued''],
       sb_clearable = False, sb_checked = False\<rparr>,
      \<lparr>sb_field = ''estimated_runtime_min'', sb_option = ''estimate'', sb_kind = FloatKind,
       sb_statuses = [''queued'', ''running''], sb_clearable = True, sb_checked = False\<rparr>,
      \<lparr>sb_field = ''max_runtime_min'', sb_option = ''max-runtime'', sb_kind = FloatKind,
       sb_statuses = [''queued'', ''running''], sb_clearable = True, sb_checked = True\<rparr>]"

definition BY_FIELD :: "string \<Rightarrow> settable option" where
  "BY_FIELD name = map_of (map (\<lambda>b. (sb_field b, b)) FIELDS) name"

datatype set_error =
    NothingToSet | NotSettable string | CannotClear string | NotANumber string json
  | NotAPriority string json | NotPositive string json | TooFarAway string json
  | StartedByOldBuild | WouldEndAtOnce seconds | WrongStatus string string
  | UnknownJob | CouldNotChange pyerr

type_synonym patch = "(string \<times> json) list"

text \<open>A number of minutes as a float; \<open>value * 60.0\<close> raises for an integer no double holds.\<close>

definition minutes_of :: "json \<Rightarrow> pyfloat option res" where
  "minutes_of v =
     (case v of
        JInt i \<Rightarrow> map_sum id Some (float_of_int i)
      | JFloat f \<Rightarrow> Inr (Some f)
      | _ \<Rightarrow> Inr None)"

fun is_number :: "json \<Rightarrow> bool" where
  "is_number (JInt i) = True"
| "is_number (JFloat f) = True"
| "is_number v = False"

definition is_positive :: "json \<Rightarrow> bool" where
  "is_positive v =
     (case v of JInt i \<Rightarrow> i > 0 | JFloat (Fin r) \<Rightarrow> r > 0 | _ \<Rightarrow> False)"

definition is_priority :: "json \<Rightarrow> bool" where
  "is_priority v =
     (case v of JInt i \<Rightarrow> 0 \<le> i \<and> i \<le> 99 | JFloat (Fin r) \<Rightarrow> 0 \<le> r \<and> r \<le> 99 \<and> of_int (trunc r) = r | _ \<Rightarrow> False)"

definition value_error :: "(pyfloat \<Rightarrow> bool) \<Rightarrow> settable \<Rightarrow> json \<Rightarrow> set_error option res" where
  "value_error date_exists b v =
     (case v of
        JNull \<Rightarrow> Inr (if sb_clearable b then None else Some (CannotClear (sb_field b)))
      | _ \<Rightarrow>
          if \<not> is_number v then Inr (Some (NotANumber (sb_field b) v))
          else if sb_kind b = IntKind
          then Inr (if is_priority v then None else Some (NotAPriority (sb_field b) v))
          else if \<not> is_positive v then Inr (Some (NotPositive (sb_field b) v))
          else bind_res (minutes_of v) (\<lambda>m. case m of
                 Some (Fin r) \<Rightarrow> Inr (if date_exists (Fin (60 * r)) then None else Some (TooFarAway (sb_field b) v))
               | _ \<Rightarrow> Inr (Some (NotPositive (sb_field b) v))))"

fun patch_errors :: "(pyfloat \<Rightarrow> bool) \<Rightarrow> patch \<Rightarrow> set_error option res" where
  "patch_errors date_exists [] = Inr None"
| "patch_errors date_exists ((name, v) # rest) =
     (case BY_FIELD name of
        None \<Rightarrow> Inr (Some (NotSettable name))
      | Some b \<Rightarrow> bind_res (value_error date_exists b v) (\<lambda>e.
          if e \<noteq> None then Inr e else patch_errors date_exists rest))"

definition patch_error :: "(pyfloat \<Rightarrow> bool) \<Rightarrow> patch \<Rightarrow> set_error option res" where
  "patch_error date_exists p = (if p = [] then Inr (Some NothingToSet) else patch_errors date_exists p)"

definition max_runtime_check :: "(string \<Rightarrow> seconds option) \<Rightarrow> seconds \<Rightarrow> json \<Rightarrow> jobstate \<Rightarrow> set_error option res" where
  "max_runtime_check fromiso now v s =
     (if st_status s \<noteq> ''running'' then Inr None
      else if \<not> st_live_max_runtime s then Inr (Some StartedByOldBuild)
      else bind_res (minutes_of v) (\<lambda>m.
        case (m, parse_time fromiso (st_started_at s)) of
          (Some (Fin r), Some started) \<Rightarrow>
            Inr (if 60 * r \<le> now - started then Some (WouldEndAtOnce (now - started)) else None)
        | _ \<Rightarrow> Inr None))"

text \<open>The checks of \<open>apply\<close> against the job, in the order of the patch.\<close>

fun state_errors :: "(string \<Rightarrow> seconds option) \<Rightarrow> seconds \<Rightarrow> patch \<Rightarrow> jobstate \<Rightarrow> set_error option res" where
  "state_errors fromiso now [] s = Inr None"
| "state_errors fromiso now ((name, v) # rest) s =
     (case BY_FIELD name of
        None \<Rightarrow> Inl KeyError
      | Some b \<Rightarrow>
          if st_status s \<notin> set (sb_statuses b) then Inr (Some (WrongStatus (sb_field b) (st_status s)))
          else bind_res (if sb_checked b then max_runtime_check fromiso now v s else Inr None) (\<lambda>e.
                 if e \<noteq> None then Inr e else state_errors fromiso now rest s))"

definition as_minutes :: "json \<Rightarrow> pyfloat option" where
  "as_minutes v = (case minutes_of v of Inr m \<Rightarrow> m | Inl e \<Rightarrow> None)"

definition as_priority :: "json \<Rightarrow> int" where
  "as_priority v = (case v of JInt i \<Rightarrow> i | JFloat (Fin r) \<Rightarrow> trunc r | _ \<Rightarrow> 0)"

definition set_field :: "string \<Rightarrow> json \<Rightarrow> jobstate \<Rightarrow> jobstate" where
  "set_field name v s =
     (if name = ''priority'' then s\<lparr>st_priority := as_priority v\<rparr>
      else if name = ''estimated_runtime_min'' then s\<lparr>st_estimated_runtime_min := as_minutes v\<rparr>
      else if name = ''max_runtime_min'' then s\<lparr>st_max_runtime_min := as_minutes v, st_live_max_runtime := True\<rparr>
      else s)"

definition patched :: "patch \<Rightarrow> jobstate \<Rightarrow> jobstate" where
  "patched p s = foldl (\<lambda>s nv. set_field (fst nv) (snd nv) s) s p"

definition outlives_its_limit :: "pyfloat option \<Rightarrow> pyfloat option \<Rightarrow> bool" where
  "outlives_its_limit estimate limit =
     (case (estimate, limit) of
        (Some (Fin e), Some (Fin l)) \<Rightarrow> \<not> e \<le> l
      | (Some PosInf, Some (Fin l)) \<Rightarrow> True
      | (Some e, Some NegInf) \<Rightarrow> e \<noteq> NegInf
      | (Some NaN, Some l) \<Rightarrow> True
      | (Some e, Some NaN) \<Rightarrow> True
      | _ \<Rightarrow> False)"

datatype set_answer = NotSet set_error | Changed jobstate bool

text \<open>The write \<open>apply_patch\<close> makes under the job's lock, and how its answer tells whether it was made.\<close>

definition set_body ::
  "(string \<Rightarrow> seconds option) \<Rightarrow> seconds \<Rightarrow> patch \<Rightarrow> jobspec option \<Rightarrow> jobstate \<Rightarrow> set_answer res \<times> jobstate option" where
  "set_body fromiso now p spec s =
     (case state_errors fromiso now p s of
        Inl e \<Rightarrow> (Inl e, None)
      | Inr (Some e) \<Rightarrow> (Inr (NotSet e), None)
      | Inr None \<Rightarrow>
          let s' = patched p s
          in (Inr (Changed s' (outlives_its_limit (st_estimated_runtime_min s') (max_runtime s' spec))), Some s'))"

definition apply_patch ::
  "(string \<Rightarrow> seconds option) \<Rightarrow> seconds \<Rightarrow> job_id \<Rightarrow> patch \<Rightarrow> host \<Rightarrow> set_answer res \<times> host" where
  "apply_patch fromiso now j p h =
     (if \<not> has_job j h then (Inr (NotSet UnknownJob), h)
      else (case catching [RuntimeError, ValueError, OSError, FileNotFoundError] None (map_sum id Some (read_spec j h)) of
          Inl e \<Rightarrow> (Inl e, h)
        | Inr spec \<Rightarrow>
            (case with_state j (set_body fromiso now p spec) h of
               (Inl e, h') \<Rightarrow>
                 if e \<in> {RuntimeError, OSError, FileNotFoundError} then (Inr (NotSet (CouldNotChange e)), h') else (Inl e, h')
             | r \<Rightarrow> r)))"

section \<open>All of it or nothing\<close>

lemma set_field_frame:
  "set_field n v s = s\<lparr>st_priority := st_priority (set_field n v s), st_estimated_runtime_min := st_estimated_runtime_min (set_field n v s),
     st_max_runtime_min := st_max_runtime_min (set_field n v s), st_live_max_runtime := st_live_max_runtime (set_field n v s)\<rparr>"
  by (simp add: set_field_def)

lemma patched_frame:
  "\<exists>a b c d. patched p s = s\<lparr>st_priority := a, st_estimated_runtime_min := b, st_max_runtime_min := c, st_live_max_runtime := d\<rparr>"
proof (induction p arbitrary: s)
  case Nil
  have "patched [] s = s\<lparr>st_priority := st_priority s, st_estimated_runtime_min := st_estimated_runtime_min s,
      st_max_runtime_min := st_max_runtime_min s, st_live_max_runtime := st_live_max_runtime s\<rparr>" by (simp add: patched_def)
  then show ?case by blast
next
  case (Cons nv p)
  have "patched (nv # p) s = patched p (set_field (fst nv) (snd nv) s)" by (simp add: patched_def)
  moreover obtain a b c d where "set_field (fst nv) (snd nv) s = s\<lparr>st_priority := a, st_estimated_runtime_min := b,
      st_max_runtime_min := c, st_live_max_runtime := d\<rparr>" using set_field_frame by blast
  moreover obtain a' b' c' d' where "patched p (set_field (fst nv) (snd nv) s) = (set_field (fst nv) (snd nv) s)
      \<lparr>st_priority := a', st_estimated_runtime_min := b', st_max_runtime_min := c', st_live_max_runtime := d'\<rparr>"
    using Cons.IH by blast
  ultimately have "patched (nv # p) s = s\<lparr>st_priority := a', st_estimated_runtime_min := b', st_max_runtime_min := c', st_live_max_runtime := d'\<rparr>"
    by simp
  then show ?case by blast
qed

lemma state_errors_ok:
  assumes "state_errors fromiso now p s = Inr None" "(n, v) \<in> set p"
  shows "\<exists>b. BY_FIELD n = Some b \<and> st_status s \<in> set (sb_statuses b) \<and>
    (sb_checked b \<longrightarrow> max_runtime_check fromiso now v s = Inr None)"
  using assms
  by (induction p) (auto simp: bind_res_def split: option.splits if_splits sum.splits)

lemma by_field_status: "BY_FIELD n = Some b \<Longrightarrow> st \<in> set (sb_statuses b) \<Longrightarrow> st = ''queued'' \<or> st = ''running'' \<and> n \<noteq> ''priority''"
  by (auto simp: BY_FIELD_def FIELDS_def split: if_splits)

lemma apply_patch_runs:
  assumes run: "apply_patch fromiso now j p h = (r, h')"
  obtains (early) "\<forall>s' warn. r \<noteq> Inr (Changed s' warn)" "h' = h"
  | (locked) spec q where "with_state j (set_body fromiso now p spec) h = (q, h')"
      "\<forall>s' warn. r = Inr (Changed s' warn) \<longrightarrow> q = r" "(\<exists>s' warn. q = Inr (Changed s' warn)) \<longrightarrow> r = q"
proof (cases "has_job j h")
  case True
  show thesis
  proof (cases "catching [RuntimeError, ValueError, OSError, FileNotFoundError] None (map_sum id Some (read_spec j h))")
    case (Inl e)
    then have "r = Inl e" "h' = h" using run True by (simp_all add: apply_patch_def)
    then show thesis using early by simp
  next
    case (Inr spec)
    obtain q h1 where q: "with_state j (set_body fromiso now p spec) h = (q, h1)" by fastforce
    have run': "(r, h') = (case (q, h1) of
        (Inl e, h') \<Rightarrow> if e \<in> {RuntimeError, OSError, FileNotFoundError} then (Inr (NotSet (CouldNotChange e)), h') else (Inl e, h')
      | r \<Rightarrow> r)"
      using run True unfolding apply_patch_def Inr
      by (simp only: q not_True_eq_False if_False sum.case)
    have "h1 = h'" "\<forall>s' warn. r = Inr (Changed s' warn) \<longrightarrow> q = r" "(\<exists>s' warn. q = Inr (Changed s' warn)) \<longrightarrow> r = q"
      using run' by (cases q; simp split: if_splits)+
    then show thesis using locked q by blast
  qed
next
  case False
  then have "r = Inr (NotSet UnknownJob)" "h' = h" using run by (simp_all add: apply_patch_def)
  then show thesis using early by simp
qed

text \<open>What the checks let through.\<close>

lemma patched_allowed:
  assumes ok: "state_errors fromiso now p s = Inr None" and "p \<noteq> []"
  shows "\<not> finished s" "''priority'' \<in> fst ` set p \<longrightarrow> st_status s = ''queued''"
    "\<forall>v. (''max_runtime_min'', v) \<in> set p \<longrightarrow> max_runtime_check fromiso now v s = Inr None"
proof -
  obtain n v where nv: "(n, v) \<in> set p" using \<open>p \<noteq> []\<close> by (cases p) auto
  show "\<not> finished s"
    using state_errors_ok [OF ok nv] by_field_status [of n _ "st_status s"] by (auto simp: finished_def FINISHED_STATUSES_def)
  show "''priority'' \<in> fst ` set p \<longrightarrow> st_status s = ''queued''"
    using state_errors_ok [OF ok] by_field_status by fastforce
  have "max_runtime_check fromiso now v s = Inr None" if "(''max_runtime_min'', v) \<in> set p" for v
    using state_errors_ok [OF ok that] by (auto simp: BY_FIELD_def FIELDS_def)
  then show "\<forall>v. (''max_runtime_min'', v) \<in> set p \<longrightarrow> max_runtime_check fromiso now v s = Inr None" by blast
qed


definition demo_patch :: patch where
  "demo_patch = [(''priority'', JInt 7), (''max_runtime_min'', JFloat (Fin 90))]"


end
