(* ===== verification/Submit.thy ===== *)
theory Submit
  imports Attempt Settable Plan
begin

text \<open>
  \<open>src/gpuc/control/submit.py\<close>: what a submit checks before any host is touched, what it judges
  against the host, and the order in which it builds a job there. A \<open>SubmitError\<close> is a value of
  \<open>submit_error\<close>, one per message of the code. A session is what the host answered when it was
  opened; each thing done on the host is an \<open>act\<close>, which the transport may fail at. What git answers
  is an argument. The typing of a job file by pydantic is not modelled: \<open>model_ok\<close> is the part of it
  the class itself writes down.
\<close>

section \<open>A job file\<close>

definition float_ge :: "pyfloat \<Rightarrow> rat \<Rightarrow> bool" where
  "float_ge f b = (case f of Fin r \<Rightarrow> r \<ge> b | PosInf \<Rightarrow> True | _ \<Rightarrow> False)"

definition float_gt :: "pyfloat \<Rightarrow> rat \<Rightarrow> bool" where
  "float_gt f b = (case f of Fin r \<Rightarrow> r > b | PosInf \<Rightarrow> True | _ \<Rightarrow> False)"

text \<open>The constraints of \<open>JobSpecModel\<close> on the values of its fields.\<close>

definition model_ok :: "jobspec \<Rightarrow> bool" where
  "model_ok m \<longleftrightarrow> strip (sp_command m) \<noteq> [] \<and> sp_gpus m \<ge> 0 \<and> sp_sync_interval_s m \<ge> 10 \<and>
     0 \<le> sp_priority m \<and> sp_priority m \<le> 99 \<and>
     (case sp_estimated_runtime_min m of None \<Rightarrow> True | Some e \<Rightarrow> float_gt e 0) \<and>
     float_ge (sp_progress_interval_s m) 5 \<and> sp_cleanup m \<in> {''on_success'', ''always'', ''never''}"

definition MODEL_KEYS :: "string list" where
  "MODEL_KEYS =
     [''command'', ''name'', ''setup'', ''python'', ''gpus'', ''use_shared'', ''env'', ''secrets'', ''outputs'',
      ''sync_interval_s'', ''priority'', ''max_runtime_min'', ''estimated_runtime_min'', ''progress_command'',
      ''progress_interval_s'', ''auto_preempt'', ''cleanup'']"

definition OUTPUT_KEYS :: "string list" where
  "OUTPUT_KEYS = [''path'', ''s3'', ''hf'', ''hf_path'', ''hf_create'']"

definition only_keys :: "string list \<Rightarrow> (string \<times> json) list \<Rightarrow> (string \<times> json) list" where
  "only_keys ks d = filter (\<lambda>kv. fst kv \<in> set ks) d"

text \<open>\<open>_known_keys\<close>: what a tolerant reading drops.\<close>

definition known_keys :: "(string \<times> json) list \<Rightarrow> (string \<times> json) list" where
  "known_keys d =
     map (\<lambda>(k, v). (k,
       if k = ''outputs''
       then (case v of
               JList os \<Rightarrow> JList (map (\<lambda>o'. case o' of JDict fs \<Rightarrow> JDict (only_keys OUTPUT_KEYS fs) | _ \<Rightarrow> o') os)
             | _ \<Rightarrow> v)
       else v)) (only_keys MODEL_KEYS d)"

definition with_overrides :: "(string \<times> json) list \<Rightarrow> (string \<times> json) list \<Rightarrow> (string \<times> json) list" where
  "with_overrides d overrides = dict_merge d (filter (\<lambda>kv. snd kv \<noteq> JNull) overrides)"

section \<open>Checks before any host\<close>

datatype submit_error =
    KeptOutsideWorkdir string
  | UnknownPlaceholder string string string
  | NoJobId string string string
  | KeptWouldBeLost string "string list"
  | SecretsNotSet "string list"
  | SecretWithNewline string
  | NotARepo
  | ConfigUnreadable string
  | NoConfig
  | DoesNotFit string
  | TransportFailed string
  | BadAnswer

type_synonym 'a checked = "submit_error + 'a"

fun contains :: "string \<Rightarrow> string \<Rightarrow> bool" where
  "contains sub [] = (sub = [])"
| "contains sub (c # t) = (take (length sub) (c # t) = sub \<or> contains sub t)"

definition check_kept_path :: "string \<Rightarrow> unit checked" where
  "check_kept_path path =
     (if path_parts path = [] \<or> leaves_workdir path then Inl (KeptOutsideWorkdir path) else Inr ())"

definition expand_template :: "string \<Rightarrow> string \<Rightarrow> string option \<Rightarrow> job_id \<Rightarrow> string option checked" where
  "expand_template path key t j =
     (if blank t then Inr t
      else (case format_job_id (the t) j of
              Inl e \<Rightarrow> Inl (UnknownPlaceholder path key (the t))
            | Inr x \<Rightarrow> Inr (Some x)))"

definition bind_checked :: "'a checked \<Rightarrow> ('a \<Rightarrow> 'b checked) \<Rightarrow> 'b checked" where
  "bind_checked m f = (case m of Inl e \<Rightarrow> Inl e | Inr x \<Rightarrow> f x)"

definition expand_output :: "job_id \<Rightarrow> output_rec \<Rightarrow> output_rec checked" where
  "expand_output j out =
     bind_checked (if kept out then check_kept_path (out_path out) else Inr ()) (\<lambda>_.
     bind_checked (expand_template (out_path out) ''s3'' (out_s3 out) j) (\<lambda>s3.
     bind_checked (expand_template (out_path out) ''hf'' (out_hf out) j) (\<lambda>hf.
     bind_checked (expand_template (out_path out) ''hf_path'' (out_hf_path out) j) (\<lambda>hf_path.
       if \<not> blank s3 \<and> \<not> contains j (the s3) then Inl (NoJobId (out_path out) ''s3'' (the s3))
       else if \<not> blank hf_path \<and> \<not> contains j (the hf_path) \<and> \<not> contains j (if hf = None then [] else the hf)
       then Inl (NoJobId (out_path out) ''hf_path'' (the hf_path))
       else Inr (out\<lparr>out_s3 := s3, out_hf := hf, out_hf_path := hf_path\<rparr>)))))"

fun expand_outputs :: "job_id \<Rightarrow> output_rec list \<Rightarrow> output_rec list checked" where
  "expand_outputs j [] = Inr []"
| "expand_outputs j (out # outs) =
     bind_checked (expand_output j out) (\<lambda>o'. bind_checked (expand_outputs j outs) (\<lambda>os. Inr (o' # os)))"

definition expand_job_id :: "jobspec \<Rightarrow> jobspec checked" where
  "expand_job_id spec =
     bind_checked (expand_outputs (sp_job_id spec) (sp_outputs spec)) (\<lambda>outs. Inr (spec\<lparr>sp_outputs := outs\<rparr>))"

definition check_kept_allowed :: "jobspec \<Rightarrow> bool \<Rightarrow> bool \<Rightarrow> unit checked" where
  "check_kept_allowed spec rental scratch =
     (let ks = map out_path (filter kept (sp_outputs spec))
      in if ks = [] \<or> \<not> (rental \<or> scratch) then Inr ()
         else Inl (KeptWouldBeLost (if rental then ''rental'' else ''scratch'') ks))"

fun secret_lines :: "env \<Rightarrow> string list \<Rightarrow> string list checked" where
  "secret_lines environ [] = Inr []"
| "secret_lines environ (name # names) =
     (let v = the (map_of environ name)
      in if CHR 0x0A \<in> set v then Inl (SecretWithNewline name)
         else bind_checked (secret_lines environ names) (\<lambda>ls. Inr ((name @ ''='' @ v) # ls)))"

definition gather_secrets :: "string list \<Rightarrow> env \<Rightarrow> string checked" where
  "gather_secrets names environ =
     (let absent = filter (\<lambda>n. blank (map_of environ n)) names
      in if absent \<noteq> [] then Inl (SecretsNotSet absent)
         else bind_checked (secret_lines environ names) (\<lambda>ls. Inr (concat (map (\<lambda>l. l @ nl) ls))))"

definition timeout_warned :: "jobspec \<Rightarrow> bool" where
  "timeout_warned spec = outlives_its_limit (sp_estimated_runtime_min spec) (sp_max_runtime_min spec)"

record prepared =
  pr_model :: jobspec
  pr_spec :: jobspec
  pr_secrets :: string
  pr_requeued_from :: "string option"

definition prepare :: "jobspec \<Rightarrow> job_id \<Rightarrow> string option \<Rightarrow> env \<Rightarrow> bool \<Rightarrow> bool \<Rightarrow> prepared checked" where
  "prepare m j requeued environ use_git is_repo =
     bind_checked (expand_job_id (m\<lparr>sp_job_id := j\<rparr>)) (\<lambda>spec.
     bind_checked (gather_secrets (sp_secrets spec) environ) (\<lambda>body.
       if use_git \<and> \<not> is_repo then Inl NotARepo
       else Inr \<lparr>pr_model = m, pr_spec = spec, pr_secrets = body, pr_requeued_from = requeued\<rparr>))"

text \<open>\<open>mirrored\<close>: the spec as the mirror holds it, its destinations not expanded.\<close>

definition mirrored_spec :: "prepared \<Rightarrow> jobspec" where
  "mirrored_spec p = (pr_model p)\<lparr>sp_job_id := sp_job_id (pr_spec p), sp_requeued_from := pr_requeued_from p\<rparr>"

section \<open>On the host\<close>

record session =
  se_name :: string
  se_home :: string
  se_unreadable :: "string option"
  se_missing :: bool
  se_config :: hostconfig
  se_cards :: "gpu list option"

datatype act =
    MakeDir string
  | Rsync string
  | PutFile string nat
  | ArchiveCheckout job_id
  | Enqueue string

definition staging_dir :: "session \<Rightarrow> job_id \<Rightarrow> string" where
  "staging_dir se j = se_home se @ ''/incoming/'' @ j"

definition wont_fit :: "jobspec \<Rightarrow> hostconfig \<Rightarrow> gpu list option \<Rightarrow> string \<Rightarrow> string option" where
  "wont_fit spec c table host =
     (let borrows = may_borrow c spec;
          counts = (case table of
              Some t \<Rightarrow>
                let cards = Gpus.resolve (cf_gpus c) t (cf_shared_gpus c)
                in Some (length (rs_owned cards), length (rs_shared cards),
                         rs_missing cards @ (if borrows then rs_shared_missing cards else []))
            | None \<Rightarrow>
                (case cf_gpus c of
                   Some listed \<Rightarrow> Some (length listed, length (filter (\<lambda>g. g \<notin> set listed) (cf_shared_gpus c)), [])
                 | None \<Rightarrow> None))
      in (case counts of
            None \<Rightarrow> None
          | Some (owned, shared_n, absent) \<Rightarrow>
              (case capacity_failure (nat (sp_gpus spec)) owned shared_n borrows absent of
                 None \<Rightarrow> None
               | Some failure \<Rightarrow>
                   let fix =
                     (if contains ''listed but missing'' failure
                      then ''Bring the missing card back, correct the list with `gpuc host set '' @ host
                        @ '' --gpus <list>`, or lower `gpus:`.''
                      else if cf_shared_gpus c \<noteq> [] \<and> \<not> borrows
                      then ''Add `use_shared: true` to the spec to let it wait for the shared cards, or lower `gpus:`.''
                      else ''Submit to a bigger host, or lower `gpus:` in the spec.'')
                   in Some (''host '' @ host @ '' cannot run this job: it '' @ failure @ ''.'' @ nl @ fix))))"

text \<open>What git says of the checkout: the files it would sync, and a patch of what is not committed.\<close>

record checkout =
  ck_use_git :: bool
  ck_files :: "string list"
  ck_patch :: bool

definition push_acts :: "session \<Rightarrow> job_id \<Rightarrow> checkout \<Rightarrow> act list" where
  "push_acts se j ck =
     (let stage = staging_dir se j
      in [MakeDir (stage @ ''/workdir'')]
         @ (if ck_use_git ck
            then (if ck_files ck = [] then [] else [Rsync (stage @ ''/workdir'')])
                 @ (if ck_patch ck then [PutFile (stage @ ''/uncommitted.patch'') 420] else [])
            else [Rsync (stage @ ''/workdir'')])
         @ [PutFile (stage @ ''/source.json'') 420])"

definition on_scratch :: "session \<Rightarrow> bool" where
  "on_scratch se \<longleftrightarrow> \<not> blank (map_of (cf_env (se_config se)) ''GPUC_SCRATCH_DIR'')"

definition host_acts :: "session \<Rightarrow> prepared \<Rightarrow> checkout \<Rightarrow> act list" where
  "host_acts se p ck =
     (let j = sp_job_id (pr_spec p)
      in push_acts se j ck
         @ (if on_scratch se then [ArchiveCheckout j] else [])
         @ (if pr_secrets p \<noteq> [] then [PutFile (se_home se @ ''/secrets/'' @ j @ ''.env'') 384] else [])
         @ [PutFile (staging_dir se j @ ''/spec.json'') 420, Enqueue (staging_dir se j @ ''/spec.json'')])"

text \<open>Each act in turn, up to the first that fails: the transport's error, or an answer that is none.\<close>

fun perform :: "(act \<Rightarrow> submit_error option) \<Rightarrow> act list \<Rightarrow> unit checked \<times> act list" where
  "perform fails [] = (Inr (), [])"
| "perform fails (a # as) =
     (case fails a of
        Some e \<Rightarrow> (Inl e, [])
      | None \<Rightarrow> let (r, acted) = perform fails as in (r, a # acted))"

definition judge :: "session \<Rightarrow> jobspec \<Rightarrow> unit checked" where
  "judge se spec =
     (if \<not> blank (se_unreadable se) then Inl (ConfigUnreadable (the (se_unreadable se)))
      else if se_missing se then Inl NoConfig
      else (case wont_fit spec (se_config se) (if sp_gpus spec = 0 then None else se_cards se) (se_name se) of
              Some why \<Rightarrow> Inl (DoesNotFit why)
            | None \<Rightarrow> check_kept_allowed spec (ephemeral (se_config se)) (on_scratch se)))"

text \<open>
  \<open>submit_spec\<close>: what it comes to, what was done on the host, and whether the job is in the local
  index, which is written once the host has accepted it.
\<close>

definition submit_spec ::
  "session \<Rightarrow> prepared \<Rightarrow> checkout \<Rightarrow> (act \<Rightarrow> submit_error option) \<Rightarrow> unit checked \<times> act list \<times> bool" where
  "submit_spec se p ck fails =
     (case judge se (pr_spec p) of
        Inl e \<Rightarrow> (Inl e, [], False)
      | Inr _ \<Rightarrow> (case perform fails (host_acts se p ck) of
          (Inl e, acted) \<Rightarrow> (Inl e, acted, False)
        | (Inr _, acted) \<Rightarrow> (Inr (), acted, True)))"

section \<open>Destinations that carry the job's id\<close>

lemma bound_checked: "bind_checked m f = Inr y \<Longrightarrow> \<exists>x. m = Inr x \<and> f x = Inr y"
  by (cases m) (auto simp: bind_checked_def)

definition carries :: "job_id \<Rightarrow> output_rec \<Rightarrow> bool" where
  "carries j out \<longleftrightarrow> (\<not> blank (out_s3 out) \<longrightarrow> contains j (the (out_s3 out))) \<and>
     (\<not> blank (out_hf out) \<longrightarrow>
        contains j (the (out_hf out)) \<or> contains j (if blank (out_hf_path out) then j else the (out_hf_path out)))"

lemma contains_self: "contains j j"
  by (cases j) simp_all

lemma expand_output_carries:
  assumes "expand_output j out = Inr out'"
  shows "carries j out' \<and> out_path out' = out_path out \<and> (kept out \<longrightarrow> \<not> leaves_workdir (out_path out) \<and> path_parts (out_path out) \<noteq> [])"
proof -
  from assms obtain s3 hf hp where parts:
    "(if kept out then check_kept_path (out_path out) else Inr ()) = Inr ()"
    "\<not> (\<not> blank s3 \<and> \<not> contains j (the s3))"
    "\<not> (\<not> blank hp \<and> \<not> contains j (the hp) \<and> \<not> contains j (if hf = None then [] else the hf))"
    "out' = out\<lparr>out_s3 := s3, out_hf := hf, out_hf_path := hp\<rparr>"
    unfolding expand_output_def by (auto dest!: bound_checked split: if_splits)
  have "contains j (the hf)" if "\<not> blank hf" "\<not> contains j (if blank hp then j else the hp)"
    using that parts(3) contains_self [of j] by (auto simp: blank_def split: if_splits option.splits)
  then show ?thesis
    using parts by (auto simp: carries_def check_kept_path_def split: if_splits)
qed

lemma expand_outputs_all:
  "expand_outputs j outs = Inr outs' \<Longrightarrow>
   list_all2 (\<lambda>out out'. expand_output j out = Inr out') outs outs'"
  by (induction outs arbitrary: outs') (auto dest!: bound_checked)


lemma contains_iff: "contains sub t \<longleftrightarrow> (\<exists>a b. t = a @ sub @ b)"
proof (induction t)
  case (Cons c t)
  have "take (length sub) (c # t) = sub \<longleftrightarrow> (\<exists>b. c # t = sub @ b)"
    by (metis append_eq_conv_conj append_take_drop_id)
  moreover have "(\<exists>a b. c # t = a @ sub @ b) \<longleftrightarrow> (\<exists>b. c # t = sub @ b) \<or> (\<exists>a b. t = a @ sub @ b)"
    (is "?L \<longleftrightarrow> ?R")
  proof
    assume ?L
    then obtain a b where ab: "c # t = a @ sub @ b" by blast
    then show ?R by (cases a) auto
  next
    show "?R \<Longrightarrow> ?L" by (metis append_Cons append_Nil)
  qed
  ultimately show ?case using Cons.IH by (simp only: contains.simps)
qed simp

lemma contains_append:
  assumes "contains sub t"
  shows "contains sub (a @ t)" "contains sub (t @ b)"
proof -
  obtain u v where "t = u @ sub @ v" using assms contains_iff by blast
  then have "a @ t = (a @ u) @ sub @ v" "t @ b = u @ sub @ (v @ b)" by simp_all
  then show "contains sub (a @ t)" "contains sub (t @ b)" unfolding contains_iff by blast+
qed

lemma contains_Cons: "contains sub t \<Longrightarrow> contains sub (c # t)"
  by simp

text \<open>Formatting a string that is already formatted keeps an id that is in it.\<close>

definition plain_id :: "job_id \<Rightarrow> bool" where
  "plain_id j \<longleftrightarrow> j \<noteq> [] \<and> list_all (\<lambda>c. c \<noteq> CHR ''{'' \<and> c \<noteq> CHR ''}'' \<and> c \<noteq> CHR ''/'') j"

lemma format_plain_Cons:
  "c \<noteq> CHR ''{'' \<Longrightarrow> c \<noteq> CHR ''}'' \<Longrightarrow> format_job_id (c # t) j = map_sum id ((#) c) (format_job_id t j)"
  by (cases t) simp_all

lemma format_keeps_prefix:
  "list_all (\<lambda>c. c \<noteq> CHR ''{'' \<and> c \<noteq> CHR ''}'') s \<Longrightarrow> format_job_id (s @ t) j = Inr y \<Longrightarrow> \<exists>b. y = s @ b"
proof (induction s arbitrary: y)
  case (Cons c s)
  then obtain z where "format_job_id (s @ t) j = Inr z" "y = c # z"
    by (auto simp: format_plain_Cons map_sum_Inr simp del: format_job_id.simps)
  then show ?case using Cons by auto
qed simp

lemma contains_skip: "plain_id j \<Longrightarrow> contains j (c # t) \<Longrightarrow> c = CHR ''{'' \<or> c = CHR ''}'' \<Longrightarrow> contains j t"
  by (cases j) (auto simp: plain_id_def)

lemma format_keeps_id:
  assumes "plain_id j"
  shows "contains j t \<Longrightarrow> format_job_id t j = Inr y \<Longrightarrow> contains j y"
  using assms
proof (induction t j arbitrary: y rule: format_job_id.induct)
  case (3 c d t j)
  consider "c = CHR ''{''" "d = CHR ''{''" | "c = CHR ''}''" "d = CHR ''}''" | "c = CHR ''{''" "d \<noteq> CHR ''{''"
    | "c = CHR ''}''" "d \<noteq> CHR ''}''" | "c \<noteq> CHR ''{''" "c \<noteq> CHR ''}''" by blast
  then show ?case
  proof cases
    case 1
    then obtain z where z: "format_job_id t j = Inr z" "y = c # z" using "3.prems"(2) by (auto simp: map_sum_Inr)
    have "contains j t" using 1 "3.prems"(1,3) contains_skip by blast
    then show ?thesis using "3.IH"(1) 1 z "3.prems"(3) by simp
  next
    case 2
    then obtain z where z: "format_job_id t j = Inr z" "y = c # z" using "3.prems"(2) by (auto simp: map_sum_Inr)
    have "contains j t" using 2 "3.prems"(1,3) contains_skip by blast
    then show ?thesis using "3.IH"(2) 2 z "3.prems"(3) by simp
  next
    case 3
    then obtain z where "y = j @ z" using "3.prems"(2) by (auto simp: map_sum_Inr Let_def split: if_splits)
    then show ?thesis using contains_append(2) [OF contains_self] by simp
  next
    case 4
    then show ?thesis using "3.prems"(2) by simp
  next
    case 5
    then obtain z where z: "format_job_id (d # t) j = Inr z" "y = c # z"
      using "3.prems"(2) by (auto simp: format_plain_Cons map_sum_Inr simp del: format_job_id.simps)
    show ?thesis
    proof (cases "contains j (d # t)")
      case True
      then show ?thesis using "3.IH"(4) 5 z "3.prems"(3) by simp
    next
      case False
      then obtain b where "c # d # t = j @ b"
        using "3.prems"(1) by (metis append_eq_conv_conj append_take_drop_id contains.simps(2))
      then show ?thesis
        using format_keeps_prefix [of j b j y] "3.prems"(2,3)
        by (auto simp: plain_id_def list_all_iff contains_iff simp del: format_job_id.simps)
    qed
  qed
qed (auto simp: plain_id_def split: if_splits)

lemma rstrip_keeps_id: "plain_id j \<Longrightarrow> contains j t \<Longrightarrow> contains j (rstrip_slash t)"
proof -
  assume "plain_id j" "contains j t"
  then obtain a b i c where t: "t = a @ j @ b" and j: "j = i @ [c]" "c \<noteq> CHR ''/''"
    by (cases j rule: rev_cases) (auto simp: contains_iff plain_id_def)
  show ?thesis
  proof (cases "\<exists>x\<in>set b. x \<noteq> CHR ''/''")
    case True
    then have "rstrip_slash t = a @ j @ rev (dropWhile (\<lambda>c. c = CHR ''/'') (rev b))"
      by (auto simp: t rstrip_slash_def dropWhile_append1)
    then show ?thesis unfolding contains_iff by blast
  next
    case False
    then have "dropWhile (\<lambda>c. c = CHR ''/'') (rev b @ rev (a @ j)) = dropWhile (\<lambda>c. c = CHR ''/'') (rev (a @ j))"
      by (intro dropWhile_append2) auto
    then have "rstrip_slash t = a @ j @ []" using j by (simp add: t rstrip_slash_def)
    then show ?thesis unfolding contains_iff by blast
  qed
qed

lemma strip_keeps_id: "plain_id j \<Longrightarrow> contains j t \<Longrightarrow> contains j (strip_slash t)"
proof -
  assume j: "plain_id j" and "contains j t"
  then have "contains j (dropWhile (\<lambda>c. c = CHR ''/'') t)"
  proof (induction t)
    case (Cons c t)
    then show ?case by (cases j) (auto simp: plain_id_def)
  qed simp
  then show ?thesis using j by (simp add: strip_slash_def rstrip_keeps_id)
qed

text \<open>A Hugging Face location carries the id in the repo or in the path under it.\<close>

lemma destinations_carry:
  assumes "plain_id j" "carries j out" "destinations_of out j = Inr ds" "d \<in> set ds"
  shows "contains j (dest_uri d)"
proof -
  let ?path = "if blank (out_hf_path out) then j else the (out_hf_path out)"
  from assms(3,4) consider
    (s3) u where "\<not> blank (out_s3 out)" "format_job_id (the (out_s3 out)) j = Inr u" "d = mk_s3 u"
  | (hf) r p where "\<not> blank (out_hf out)" "format_job_id (the (out_hf out)) j = Inr r" "format_job_id ?path j = Inr p"
      "d = mk_hf r p (out_hf_create out)"
    unfolding destinations_of_def by (auto simp: map_sum_Inr elim!: bind_res_Inr split: if_splits)
  then show ?thesis
  proof cases
    case s3
    then have "contains j (the (out_s3 out))" using assms(2) by (simp add: carries_def)
    then show ?thesis using format_keeps_id [OF assms(1) _ s3(2)] assms(1) s3(3) by (simp add: mk_s3_def rstrip_keeps_id)
  next
    case hf
    then have "contains j (the (out_hf out)) \<or> contains j ?path" using assms(2) unfolding carries_def by blast
    then have "contains j r \<or> contains j (strip_slash p)"
      using format_keeps_id [OF assms(1) _ hf(2)] format_keeps_id [OF assms(1) _ hf(3)] strip_keeps_id [OF assms(1)] by blast
    moreover have "\<not> contains j []" using assms(1) by (cases j) (auto simp: plain_id_def)
    moreover have "contains j (r @ ''/'' @ strip_slash p)" if "contains j r \<or> contains j (strip_slash p)"
      using that contains_append(2) contains_append(1) [OF contains_append(1)] by blast
    ultimately have "contains j (if strip_slash p = [] then r else r @ ''/'' @ strip_slash p)"
      by (metis (full_types))
    then have "contains j (''hf://'' @ (if strip_slash p = [] then r else r @ ''/'' @ strip_slash p))"
      by (rule contains_append(1))
    then show ?thesis unfolding hf(4) mk_hf_def dest_uri.simps by (simp only: if_distrib)
  qed
qed

lemma expanded_outputs:
  assumes "expand_job_id spec = Inr spec'"
  shows "sp_job_id spec' = sp_job_id spec"
    "list_all2 (\<lambda>out out'. expand_output (sp_job_id spec) out = Inr out') (sp_outputs spec) (sp_outputs spec')"
  using assms unfolding expand_job_id_def by (auto dest!: bound_checked expand_outputs_all)

text \<open>
  C25. Runs never write over each other's outputs. Once \<open>expand_job_id\<close> has accepted a spec, every
  destination the host derives from it, on S3 or on the Hub, has the job's id in its address, even
  though the host formats the already expanded templates a second time; and an output with no
  destination names something strictly inside the workdir. Ids are made of digits, letters and dashes.
\<close>

theorem outputs_carry_the_id:
  assumes "expand_job_id spec = Inr spec'" "plain_id (sp_job_id spec)"
  shows "(\<forall>out \<in> set (sp_outputs spec'). \<forall>ds. destinations_of out (sp_job_id spec') = Inr ds \<longrightarrow>
      (\<forall>d \<in> set ds. contains (sp_job_id spec) (dest_uri d))) \<and>
    (\<forall>out \<in> set (sp_outputs spec). kept out \<longrightarrow> path_parts (out_path out) \<noteq> [] \<and> \<not> leaves_workdir (out_path out))"
proof (rule conjI)
  note all = expanded_outputs [OF assms(1)]
  show "\<forall>out \<in> set (sp_outputs spec'). \<forall>ds. destinations_of out (sp_job_id spec') = Inr ds \<longrightarrow>
      (\<forall>d \<in> set ds. contains (sp_job_id spec) (dest_uri d))"
  proof (intro ballI allI impI)
    fix out ds d
    assume "out \<in> set (sp_outputs spec')" "destinations_of out (sp_job_id spec') = Inr ds" "d \<in> set ds"
    moreover from this(1) all(2) obtain out0 where "expand_output (sp_job_id spec) out0 = Inr out"
      by (auto simp: in_set_conv_nth list_all2_conv_all_nth)
    ultimately show "contains (sp_job_id spec) (dest_uri d)"
      using destinations_carry [OF assms(2)] expand_output_carries all(1) by metis
  qed
  show "\<forall>out \<in> set (sp_outputs spec). kept out \<longrightarrow> path_parts (out_path out) \<noteq> [] \<and> \<not> leaves_workdir (out_path out)"
    using all(2) expand_output_carries by (auto simp: in_set_conv_nth list_all2_conv_all_nth) metis+
qed

definition demo_submitted :: jobspec where
  "demo_submitted = demo_upload_spec\<lparr>sp_outputs := [demo_output\<lparr>out_s3 := Some ''s3://b/{job_id}/{{job_id}}''\<rparr>]\<rparr>"

lemma demo_submitted_accepted:
  "map_sum id (map out_s3 \<circ> sp_outputs) (expand_job_id demo_submitted) = Inr [Some ''s3://b/j1/{job_id}'']"
  by code_simp

lemma demo_destinations:
  "map_sum id (map (\<lambda>out. map_sum id length (destinations_of out ''j1'')) \<circ> sp_outputs) (expand_job_id demo_submitted) = Inr [Inr 2]"
  by code_simp

theorem outputs_carry_the_id_witness:
  "\<exists>out ds. out \<in> set (sp_outputs (projr (expand_job_id demo_submitted))) \<and> destinations_of out ''j1'' = Inr ds
     \<and> length ds = 2 \<and> contains ''j1'' (dest_uri (hd ds)) \<and> contains ''j1'' (dest_uri (last ds))"
proof -
  have j: "sp_job_id demo_submitted = ''j1''" "plain_id (sp_job_id demo_submitted)" by code_simp+
  obtain spec' where spec': "expand_job_id demo_submitted = Inr spec'"
    using demo_submitted_accepted by (auto simp: map_sum_Inr)
  obtain out where "sp_outputs spec' = [out]" "map_sum id length (destinations_of out ''j1'') = Inr 2"
    using demo_destinations by (auto simp: spec' comp_def)
  then obtain ds where ds: "out \<in> set (sp_outputs spec')" "destinations_of out ''j1'' = Inr ds" "length ds = 2"
    by (auto simp: map_sum_Inr)
  then have "hd ds \<in> set ds" "last ds \<in> set ds" by (auto intro!: hd_in_set last_in_set)
  then have "contains ''j1'' (dest_uri (hd ds))" "contains ''j1'' (dest_uri (last ds))"
    using outputs_carry_the_id [OF spec' j(2)] expanded_outputs(1) [OF spec'] ds unfolding j(1) by simp_all
  then show ?thesis using ds spec' by (intro exI [of _ out] exI [of _ ds]) simp
qed

text \<open>Two specs a submit accepts: an output's path with a placeholder, and a destination with a literal brace.\<close>

definition odd_path_spec :: jobspec where
  "odd_path_spec = demo_spec\<lparr>sp_outputs := [demo_output\<lparr>out_path := ''out/{run}'', out_hf := None\<rparr>]\<rparr>"

definition brace_spec :: jobspec where
  "brace_spec = demo_spec\<lparr>sp_outputs := [demo_output\<lparr>out_s3 := Some ''s3://b/{job_id}/{{x}}'', out_hf := None\<rparr>]\<rparr>"

definition submitted_run :: "jobspec \<Rightarrow> (int res \<times> string res) checked" where
  "submitted_run spec =
     map_sum id (\<lambda>spec'. let (r, y) = run_job (demo_work demo_tools) (demo_job_host spec')
       in (r, map_sum id st_status (read_state ''j1'' (sh_host y)))) (expand_job_id spec)"

text \<open>
  A spec that submit accepts can take its runner down. \<open>expand_job_id\<close> checks the placeholders of an
  output's destinations and not those of its \<open>path\<close>, which the runner formats when it records the
  baseline; and it expands \<open>{{\<close> into a single brace in the text it sends, which the host formats
  again. Either way \<open>KeyError\<close> leaves the runner with the job still recorded as running, and the job
  ends as \<open>runner-died\<close>.
\<close>

theorem accepted_placeholder_kills_runner:
  "submitted_run odd_path_spec = Inr (Inl KeyError, Inr ''running'') \<and>
   submitted_run brace_spec = Inr (Inl KeyError, Inr ''running'')"
  by code_simp

section \<open>Secrets\<close>

text \<open>A name that the env file can hold: what a shell would call a variable, and more.\<close>

definition plain_name :: "string \<Rightarrow> bool" where
  "plain_name n \<longleftrightarrow> n \<noteq> [] \<and> hd n \<noteq> CHR ''#'' \<and>
     list_all (\<lambda>c. c \<noteq> CHR ''='' \<and> \<not> is_space c \<and> \<not> is_linebreak c) n"

definition one_line :: "string \<Rightarrow> bool" where
  "one_line v \<longleftrightarrow> list_all (\<lambda>c. \<not> is_linebreak c) v"

definition rstrip_space :: "string \<Rightarrow> string" where
  "rstrip_space v = rev (dropWhile is_space (rev v))"

lemma splitlines_line:
  "one_line l \<Longrightarrow> splitlines_from acc (l @ nl @ t) = (rev acc @ l) # splitlines_from [] t"
proof (induction l arbitrary: acc)
  case Nil
  then show ?case by (cases t) (simp_all add: nl_def is_linebreak_def)
qed (simp add: one_line_def)

lemma splitlines_lines:
  "list_all one_line ls \<Longrightarrow> splitlines (concat (map (\<lambda>l. l @ nl) ls)) = ls"
  unfolding splitlines_def by (induction ls) (simp_all add: splitlines_line)

lemma dropWhile_prefix: "s \<noteq> [] \<Longrightarrow> \<not> P (hd s) \<Longrightarrow> dropWhile P (s @ t) = s @ t"
  by (cases s) simp_all

lemma strip_rstrip: "strip (rstrip_space v) = strip v"
proof (cases "\<exists>c\<in>set v. \<not> is_space c")
  case False
  then have "dropWhile is_space (rev v) = []" "dropWhile is_space v = []" by (simp_all add: dropWhile_eq_Nil_conv)
  then show ?thesis by (simp only: strip_def rstrip_space_def rev.simps dropWhile.simps)
next
  case True
  then obtain a c b where v: "v = a @ c # b" "\<not> is_space c" "\<forall>x\<in>set a. is_space x"
    using split_list_first_prop [of v "\<lambda>c. \<not> is_space c"] by blast
  have d: "dropWhile is_space (a @ u) = dropWhile is_space u" for u using v(3) by (intro dropWhile_append2) auto
  show ?thesis using v(2) by (simp add: strip_def rstrip_space_def v(1) d dropWhile_append3)
qed

lemma env_line_secret:
  assumes "plain_name n"
  shows "env_line (n @ ''='' @ v) = Some (n, unquote (strip v))"
proof -
  have n: "n \<noteq> []" "hd n \<noteq> CHR ''#''" "\<forall>c\<in>set n. c \<noteq> CHR ''='' \<and> \<not> is_space c"
    using assms by (auto simp: plain_name_def list_all_iff)
  have eq: "\<not> is_space (CHR ''='')" by (simp add: is_space_def)
  have line: "strip (n @ ''='' @ v) = n @ ''='' @ rstrip_space v"
  proof -
    have "dropWhile is_space (n @ ''='' @ v) = n @ ''='' @ v" using n by (intro dropWhile_prefix) auto
    moreover have "dropWhile is_space (rev v @ ''='' @ rev n) = dropWhile is_space (rev v) @ ''='' @ rev n"
      using eq by (simp add: dropWhile_append3)
    ultimately show ?thesis by (simp add: strip_def rstrip_space_def)
  qed
  have stripped: "strip n = n"
  proof -
    have "dropWhile is_space n = n" "dropWhile is_space (rev n) = rev n"
      using n dropWhile_prefix [of n is_space "[]"] dropWhile_prefix [of "rev n" is_space "[]"] by (auto simp: hd_rev)
    then show ?thesis by (simp add: strip_def)
  qed
  have key: "takeWhile (\<lambda>c. c \<noteq> CHR ''='') (n @ ''='' @ u) = n" for u using n(3) by (simp add: takeWhile_append2)
  have not_export: "\<not> starts_with (n @ ''='' @ u) ''export ''" for u
  proof
    assume "starts_with (n @ ''='' @ u) ''export ''"
    then obtain t where "n @ ''='' @ u = ''export '' @ t"
      unfolding starts_with_def by (metis append_take_drop_id)
    then have "n = takeWhile (\<lambda>c. c \<noteq> CHR ''='') (''export '' @ t)" using key by metis
    then have "CHR '' '' \<in> set n" by simp
    then show False using n(3) by (auto simp: is_space_def)
  qed
  have not_comment: "\<not> starts_with (n @ u) ''#''" for u using n(1,2) by (cases n) (simp_all add: starts_with_def)
  have "drop (Suc (length n)) (n @ ''='' @ u) = u" for u by simp
  then show ?thesis
    using not_export not_comment key stripped n(1)
    by (simp add: env_line_def line Let_def strip_rstrip del: append_Cons)
qed

lemma secret_lines_Inr:
  "secret_lines environ names = Inr ls \<Longrightarrow> ls = map (\<lambda>n. n @ ''='' @ the (map_of environ n)) names"
  by (induction names arbitrary: ls) (auto simp: Let_def dest!: bound_checked split: if_splits)

lemma map_of_same: "map_of (map (\<lambda>n. (n, f n)) ns) n = (if n \<in> set ns then Some (f n) else None)"
  by (induction ns) auto

lemma map_filter_map_Some: "(\<And>x. x \<in> set xs \<Longrightarrow> f (g x) = Some (h x)) \<Longrightarrow> List.map_filter f (map g xs) = map h xs"
  by (induction xs) (simp_all add: List.map_filter_simps)

text \<open>
  What a secret is by the time the job has it. The file \<open>gather_secrets\<close> writes is read back by
  \<open>parse_env_file\<close>: exactly the names asked for, each with its value without the spaces around it and
  without one pair of matching quotes. So a value arrives as it was exactly when it has neither, and one
  that is itself quoted does not: nothing at submit refuses it or escapes it.
\<close>

theorem secrets_arrive_unquoted:
  assumes "gather_secrets names environ = Inr body"
    and "\<forall>n \<in> set names. plain_name n \<and> one_line (the (map_of environ n))"
  shows "map_of (parse_env body) n =
    (if n \<in> set names then Some (unquote (strip (the (map_of environ n)))) else None)"
proof -
  let ?v = "\<lambda>n. the (map_of environ n)"
  have body: "body = concat (map (\<lambda>l. l @ nl) (map (\<lambda>n. n @ ''='' @ ?v n) names))"
    using assms(1) unfolding gather_secrets_def by (auto simp: Let_def dest!: bound_checked secret_lines_Inr split: if_splits)
  have "one_line (n @ ''='' @ ?v n)" if "n \<in> set names" for n
    using assms(2) that by (auto simp: one_line_def plain_name_def list_all_iff is_linebreak_def)
  then have "splitlines body = map (\<lambda>n. n @ ''='' @ ?v n) names"
    unfolding body by (intro splitlines_lines) (auto simp: list_all_iff)
  then have "parse_env body = dict_of (map (\<lambda>n. (n, unquote (strip (?v n)))) names)"
    using assms(2) by (simp add: parse_env_def map_filter_map_Some env_line_secret del: append_Cons)
  then show ?thesis
    by (simp add: map_of_dict_of rev_map map_of_same)
qed

definition demo_environ :: env where
  "demo_environ = [(''TOKEN'', ''abc''), (''PASS'', ''\"x y\"'')]"

theorem secrets_arrive_unquoted_witness:
  "map_of (parse_env (projr (gather_secrets [''TOKEN'', ''PASS''] demo_environ))) ''PASS'' = Some ''x y''
   \<and> map_of (parse_env (projr (gather_secrets [''TOKEN'', ''PASS''] demo_environ))) ''TOKEN'' = map_of demo_environ ''TOKEN''"
proof -
  have body: "gather_secrets [''TOKEN'', ''PASS''] demo_environ = Inr (projr (gather_secrets [''TOKEN'', ''PASS''] demo_environ))"
    by code_simp
  have ok: "\<forall>n \<in> set [''TOKEN'', ''PASS'']. plain_name n \<and> one_line (the (map_of demo_environ n))" by code_simp
  have "unquote (strip (the (map_of demo_environ ''PASS''))) = ''x y''"
    "Some (unquote (strip (the (map_of demo_environ ''TOKEN'')))) = map_of demo_environ ''TOKEN''" by code_simp+
  then show ?thesis
    using secrets_arrive_unquoted [OF body ok, of "''PASS''"] secrets_arrive_unquoted [OF body ok, of "''TOKEN''"] by simp
qed

section \<open>The order of a submit\<close>

lemma perform_prefix:
  "perform fails as = (r, acted) \<Longrightarrow>
   (\<exists>rest. as = acted @ rest \<and> (r = Inr () \<longleftrightarrow> rest = []) \<and> (isl r \<longrightarrow> (\<exists>a rest'. rest = a # rest' \<and> fails a \<noteq> None)))
   \<and> (\<forall>a \<in> set acted. fails a = None)"
proof (induction as arbitrary: r acted)
  case (Cons a as)
  show ?case
  proof (cases "fails a")
    case None
    then obtain acted' where "perform fails as = (r, acted')" "acted = a # acted'"
      using Cons.prems by (auto split: prod.splits)
    then show ?thesis using Cons.IH [of r acted'] None by auto
  qed (use Cons.prems in auto)
qed auto

lemma enqueue_last: "\<exists>before. host_acts se p ck = before @ [Enqueue (staging_dir se (sp_job_id (pr_spec p)) @ ''/spec.json'')]
   \<and> (\<forall>path. Enqueue path \<notin> set before)"
  by (auto simp: host_acts_def push_acts_def Let_def)


definition demo_session :: session where
  "demo_session = \<lparr>se_name = ''box'', se_home = ''/g'', se_unreadable = None, se_missing = False, se_config = blank_config, se_cards = None\<rparr>"

definition demo_prepared :: prepared where
  "demo_prepared = \<lparr>pr_model = demo_spec, pr_spec = demo_spec\<lparr>sp_gpus := 0\<rparr>, pr_secrets = ''A=b'', pr_requeued_from = None\<rparr>"

definition demo_checkout :: checkout where
  "demo_checkout = \<lparr>ck_use_git = True, ck_files = [''a.py''], ck_patch = False\<rparr>"


end
