(* ===== verification/Wait.thy ===== *)
theory Wait
  imports Jobs
begin

text \<open>
  \<open>src/gpuc/control/wait.py\<close>: the loop behind \<open>gpuc wait\<close>, \<open>gpuc logs -f\<close> and \<open>gpuc status <id>\<close>.
  What a host and the mirror answer in a round, and what the clock says, is the round's \<open>round_input\<close>;
  the clock is read once per host and round. A view holds what the wait reads of a \<open>JobView\<close>. An error
  text is a value of \<open>wait_error\<close>, without the duration the code writes into it; the notes printed on
  the way and the cached sessions are left out.
\<close>

section \<open>One job\<close>

record job_view =
  jv_job_id :: job_id
  jv_status :: string

datatype wait_error =
    NoHostHas string
  | HostLacks string
  | HostGone string string
  | NotAsked string

record watched =
  wa_job_id :: job_id
  wa_host :: string
  wa_view :: "job_view option"
  wa_error :: "wait_error option"
  wa_seen :: bool
  wa_missing :: bool
  wa_mirror_prefix :: "string option"
  wa_source :: string
  wa_host_state :: string

definition new_watched :: "job_id \<Rightarrow> string \<Rightarrow> string option \<Rightarrow> watched" where
  "new_watched j host prefix =
     \<lparr>wa_job_id = j, wa_host = host, wa_view = None, wa_error = None, wa_seen = False, wa_missing = False,
      wa_mirror_prefix = prefix, wa_source = ''host'', wa_host_state = ''answered''\<rparr>"

definition watched_status :: "watched \<Rightarrow> string" where
  "watched_status w = (case wa_view w of Some v \<Rightarrow> jv_status v | None \<Rightarrow> ''unknown'')"

definition watched_finished :: "watched \<Rightarrow> bool" where
  "watched_finished w \<longleftrightarrow> watched_status w \<in> set FINISHED_STATUSES"

definition watched_settled :: "watched \<Rightarrow> bool" where
  "watched_settled w \<longleftrightarrow> watched_finished w \<or> wa_error w \<noteq> None"

definition watched_succeeded :: "watched \<Rightarrow> bool" where
  "watched_succeeded w \<longleftrightarrow> watched_status w = ''succeeded''"

section \<open>The mirror\<close>

record mirrored =
  mi_view :: "job_view option"
  mi_lost :: string

text \<open>
  \<open>read_mirror\<close>: \<open>document\<close> is the mirrored state as a view, if there is one. Only a terminal state
  is an answer.
\<close>

definition read_mirror :: "bool \<Rightarrow> job_id \<Rightarrow> string option \<Rightarrow> job_view option \<Rightarrow> mirrored" where
  "read_mirror has_s3 j prefix document =
     (if \<not> has_s3 then \<lparr>mi_view = None, mi_lost = ''s3_bucket is unset''\<rparr>
      else if blank prefix then \<lparr>mi_view = None, mi_lost = ''no mirror location is known''\<rparr>
      else (case document of
              Some v \<Rightarrow> if jv_status v \<in> set FINISHED_STATUSES
                then \<lparr>mi_view = Some (v\<lparr>jv_job_id := j\<rparr>), mi_lost = []\<rparr>
                else \<lparr>mi_view = None, mi_lost = ''the mirror has no final state''\<rparr>
            | None \<Rightarrow> \<lparr>mi_view = None, mi_lost = ''the mirror has no final state''\<rparr>))"

section \<open>The watch\<close>

text \<open>What asking a host comes to. An answer is the jobs it listed and whether its dispatcher lives.\<close>

datatype asked = Answers "job_view list" bool | Unaskable string | Gone string

record round_input =
  ro_asked :: "string \<Rightarrow> asked"
  ro_has_s3 :: bool
  ro_mirror :: "job_id \<Rightarrow> job_view option"
  ro_now :: "string \<Rightarrow> seconds"

record watch =
  wt_patient :: bool
  wt_gone :: "(string \<times> string) list"
  wt_jobs :: "(job_id \<times> watched) list"
  wt_by_host :: "(string \<times> job_id list) list"
  wt_trouble :: "(string \<times> seconds \<times> string) list"
  wt_warned :: "string list"
  wt_announced :: "job_id list"
  wt_polled :: bool

definition TROUBLE_GRACE_S :: seconds where "TROUBLE_GRACE_S = 300"
definition FIRST_INTERVAL_S :: seconds where "FIRST_INTERVAL_S = 2"
definition MAX_INTERVAL_S :: seconds where "MAX_INTERVAL_S = 30"
definition BACKOFF :: rat where "BACKOFF = 3 / 2"
definition NO_HOST :: string where "NO_HOST = ''no host''"

definition job_in :: "watch \<Rightarrow> job_id \<Rightarrow> watched" where
  "job_in wt j = the (map_of (wt_jobs wt) j)"

definition put_job :: "watched \<Rightarrow> watch \<Rightarrow> watch" where
  "put_job w wt = wt\<lparr>wt_jobs := AList.update (wa_job_id w) w (wt_jobs wt)\<rparr>"

definition pending :: "watch \<Rightarrow> watched list" where
  "pending wt = filter (\<lambda>w. \<not> watched_settled w) (map snd (wt_jobs wt))"

text \<open>\<open>_from_mirror\<close>: what the mirror has for the job, taken over if it is an end.\<close>

definition mirror_of :: "round_input \<Rightarrow> watched \<Rightarrow> mirrored" where
  "mirror_of ro w = read_mirror (ro_has_s3 ro) (wa_job_id w) (wa_mirror_prefix w) (ro_mirror ro (wa_job_id w))"

definition from_mirror :: "round_input \<Rightarrow> watched \<Rightarrow> watched" where
  "from_mirror ro w =
     (case mi_view (mirror_of ro w) of
        Some v \<Rightarrow> w\<lparr>wa_view := Some v, wa_source := ''mirror''\<rparr>
      | None \<Rightarrow> w)"

text \<open>The turn of \<open>_trouble_with\<close>'s loop: what becomes of one job once the waiting is over.\<close>

definition give_up :: "round_input \<Rightarrow> bool \<Rightarrow> string \<Rightarrow> bool \<Rightarrow> string \<Rightarrow> watched \<Rightarrow> watched" where
  "give_up ro patient why gone state w0 =
     (let w = w0\<lparr>wa_host_state := if gone then ''gone'' else state\<rparr>;
          mi = mirror_of ro w
      in if gone
         then (if mi_view mi = None then w\<lparr>wa_error := Some (HostGone why (mi_lost mi))\<rparr> else from_mirror ro w)
         else if patient \<and> mi_view mi \<noteq> None then from_mirror ro w
         else w\<lparr>wa_error := Some (NotAsked why)\<rparr>)"

definition trouble_with ::
  "round_input \<Rightarrow> string \<Rightarrow> job_id list \<Rightarrow> string \<Rightarrow> bool \<Rightarrow> string \<Rightarrow> watch \<Rightarrow> watch" where
  "trouble_with ro name js why gone state wt =
     (let now = ro_now ro name;
          since = (case map_of (wt_trouble wt) name of Some (t, _) \<Rightarrow> t | None \<Rightarrow> now);
          waiting = (\<not> gone \<and> wt_patient wt \<and> now - since < TROUBLE_GRACE_S);
          wt' = wt\<lparr>wt_trouble := AList.update name (since, why) (wt_trouble wt)\<rparr>
      in if waiting then wt'
         else foldl (\<lambda>t j. put_job (give_up ro (wt_patient wt) why gone state (job_in t j)) t) wt' js)"

definition clear_trouble :: "string \<Rightarrow> watch \<Rightarrow> watch" where
  "clear_trouble name wt = wt\<lparr>wt_trouble := AList.delete name (wt_trouble wt)\<rparr>"

definition vanished :: "round_input \<Rightarrow> string \<Rightarrow> job_id \<Rightarrow> watch \<Rightarrow> watch" where
  "vanished ro name j wt =
     (let w = job_in wt j
      in if \<not> wa_seen w then put_job (w\<lparr>wa_missing := True, wa_error := Some (HostLacks name)\<rparr>) wt
         else trouble_with ro name [j] (''no longer knows job '' @ j) False ''answered'' wt)"

definition check_dispatcher :: "string \<Rightarrow> bool \<Rightarrow> bool \<Rightarrow> watch \<Rightarrow> watch" where
  "check_dispatcher name alive queued wt =
     (if \<not> queued \<or> alive \<or> name \<in> set (wt_warned wt) then wt else wt\<lparr>wt_warned := name # wt_warned wt\<rparr>)"

text \<open>The last turn of \<open>_poll_host\<close>: one pending job against what the host listed.\<close>

definition view_of :: "job_view list \<Rightarrow> job_id \<Rightarrow> job_view option" where
  "view_of vs j = map_of (rev (map (\<lambda>v. (jv_job_id v, v)) vs)) j"

definition take_view :: "round_input \<Rightarrow> string \<Rightarrow> job_view list \<Rightarrow> watch \<Rightarrow> job_id \<Rightarrow> watch" where
  "take_view ro name vs wt j =
     (case view_of vs j of
        None \<Rightarrow> vanished ro name j wt
      | Some v \<Rightarrow> put_job ((job_in wt j)\<lparr>wa_view := Some v, wa_seen := True\<rparr>) wt)"

definition pending_on :: "string \<Rightarrow> watch \<Rightarrow> job_id list" where
  "pending_on name wt =
     filter (\<lambda>j. \<not> watched_settled (job_in wt j)) (case map_of (wt_by_host wt) name of Some js \<Rightarrow> js | None \<Rightarrow> [])"

definition poll_host :: "round_input \<Rightarrow> watch \<Rightarrow> string \<Rightarrow> watch" where
  "poll_host ro wt name =
     (let js = pending_on name wt
      in if js = [] then wt
         else (case map_of (wt_gone wt) name of
             Some why \<Rightarrow> trouble_with ro name js why True ''unaskable'' wt
           | None \<Rightarrow>
               (case ro_asked ro name of
                  Unaskable why \<Rightarrow> trouble_with ro name js why False ''unaskable'' wt
                | Gone why \<Rightarrow> trouble_with ro name js why True ''unaskable'' wt
                | Answers vs alive \<Rightarrow>
                    let wt1 = clear_trouble name wt;
                        queued = (\<exists>j \<in> set js. case view_of vs j of Some v \<Rightarrow> jv_status v = ''queued'' | None \<Rightarrow> False);
                        wt2 = check_dispatcher name alive queued wt1
                    in foldl (take_view ro name vs) wt2 js)))"

text \<open>\<open>poll\<close>: the jobs that settled in this round, and the watch after it.\<close>

definition poll_round :: "round_input \<Rightarrow> watch \<Rightarrow> watched list \<times> watch" where
  "poll_round ro wt =
     (let wt1 = (foldl (poll_host ro) wt (map fst (wt_by_host wt)))\<lparr>wt_polled := True\<rparr>;
          settled = filter (\<lambda>w. watched_settled w \<and> wa_job_id w \<notin> set (wt_announced wt1)) (map snd (wt_jobs wt1))
      in (settled, wt1\<lparr>wt_announced := wt_announced wt1 @ map wa_job_id settled\<rparr>))"

text \<open>\<open>check_known\<close>: the ids to refuse after the first poll.\<close>

definition check_known :: "watch \<Rightarrow> job_id list" where
  "check_known wt = map wa_job_id (filter wa_missing (map snd (wt_jobs wt)))"

section \<open>Starting a watch\<close>

datatype location = Unlocated bool string | Located string bool "asked option"

definition mirror_is_the_answer :: "asked \<Rightarrow> bool" where
  "mirror_is_the_answer a = (case a of Gone _ \<Rightarrow> True | _ \<Rightarrow> False)"

definition new_watch ::
  "bool \<Rightarrow> (job_id \<times> string \<times> string option) list \<Rightarrow> (string \<times> string) list \<Rightarrow>
   (job_id \<times> string) list \<Rightarrow> (job_id \<times> string \<times> string) list \<Rightarrow> watch" where
  "new_watch patient targets gone unknown unaskable =
     \<lparr>wt_patient = patient, wt_gone = gone,
      wt_jobs = dict_of (map (\<lambda>(j, host, prefix). (j, new_watched j host prefix)) targets
        @ map (\<lambda>(j, why). (j, (new_watched j NO_HOST None)\<lparr>wa_error := Some (NoHostHas why), wa_missing := True\<rparr>)) unknown
        @ map (\<lambda>(j, host, why). (j, (new_watched j host None)\<lparr>wa_error := Some (NotAsked why), wa_host_state := ''unaskable''\<rparr>)) unaskable),
      wt_by_host = foldl (\<lambda>d (j, host, _). AList.update host ((case map_of d host of Some js \<Rightarrow> js | None \<Rightarrow> []) @ [j]) d) [] targets,
      wt_trouble = [], wt_warned = [], wt_announced = [], wt_polled = False\<rparr>"

text \<open>\<open>start\<close>, from where \<open>locate_many\<close> placed each id.\<close>

definition start_watch :: "bool \<Rightarrow> (job_id \<Rightarrow> string option) \<Rightarrow> (job_id \<times> location) list \<Rightarrow> watch" where
  "start_watch patient prefix placed =
     (let is_unaskable = (\<lambda>t. case t of Some (Unaskable _) \<Rightarrow> True | _ \<Rightarrow> False);
          targets = List.map_filter (\<lambda>(j, l). case l of
              Located host entry trouble \<Rightarrow> if \<not> entry \<and> is_unaskable trouble then None else Some (j, host, prefix j)
            | Unlocated _ _ \<Rightarrow> None) placed;
          gone = dict_of (List.map_filter (\<lambda>(j, l). case l of
              Located host entry (Some (Gone why)) \<Rightarrow> Some (host, why) | _ \<Rightarrow> None) placed);
          unknown = List.map_filter (\<lambda>(j, l). case l of Unlocated True why \<Rightarrow> Some (j, why) | _ \<Rightarrow> None) placed;
          unaskable = List.map_filter (\<lambda>(j, l). case l of
              Unlocated False why \<Rightarrow> Some (j, NO_HOST, why)
            | Located host False (Some (Unaskable why)) \<Rightarrow> Some (j, host, why)
            | _ \<Rightarrow> None) placed
      in new_watch patient targets gone unknown unaskable)"

section \<open>The loop\<close>

definition next_delay :: "seconds option \<Rightarrow> seconds \<Rightarrow> seconds" where
  "next_delay interval delay = (if interval = None then min (delay * BACKOFF) MAX_INTERVAL_S else delay)"

text \<open>
  \<open>block\<close>, over the rounds that come: the watch it returns with, \<open>None\<close> while jobs are still pending
  when the rounds run out; how long it slept each time; and the jobs in the order they were announced.
\<close>

fun block_from :: "seconds option \<Rightarrow> seconds \<Rightarrow> round_input list \<Rightarrow> watch \<Rightarrow> watch option \<times> seconds list \<times> job_id list" where
  "block_from interval delay [] wt = (None, [], [])"
| "block_from interval delay (ro # ros) wt =
     (let slept = (if wt_polled wt then [delay] else []);
          delay' = (if wt_polled wt then next_delay interval delay else delay);
          (settled, wt') = poll_round ro wt;
          told = map wa_job_id settled
      in if pending wt' = [] then (Some wt', slept, told)
         else (case block_from interval delay' ros wt' of
             (r, ds, js) \<Rightarrow> (r, slept @ ds, told @ js)))"

definition block :: "seconds option \<Rightarrow> round_input list \<Rightarrow> watch \<Rightarrow> watch option \<times> seconds list \<times> job_id list" where
  "block interval ros wt = block_from interval (case interval of None \<Rightarrow> FIRST_INTERVAL_S | Some d \<Rightarrow> d) ros wt"

definition EXIT_OK :: int where "EXIT_OK = 0"
definition EXIT_ERROR :: int where "EXIT_ERROR = 1"
definition EXIT_NOT_FOUND :: int where "EXIT_NOT_FOUND = 4"

definition wait_exit :: "watched list \<Rightarrow> int" where
  "wait_exit ws =
     (if \<exists>w \<in> set ws. wa_missing w then EXIT_NOT_FOUND
      else if \<forall>w \<in> set ws. watched_succeeded w then EXIT_OK else EXIT_ERROR)"

text \<open>\<open>look\<close>: one round that settles what it can and reports the rest.\<close>

definition look_exit :: "watched list \<Rightarrow> int" where
  "look_exit ws =
     (if \<exists>w \<in> set ws. wa_missing w then EXIT_NOT_FOUND
      else if \<exists>w \<in> set ws. wa_error w \<noteq> None then EXIT_ERROR else EXIT_OK)"

definition look_jobs :: "(job_id \<Rightarrow> string option) \<Rightarrow> (job_id \<times> location) list \<Rightarrow> round_input \<Rightarrow> job_id list \<Rightarrow> int \<times> watched list" where
  "look_jobs prefix placed ro ids =
     (let wt = snd (poll_round ro (start_watch False prefix placed));
          ws = map (job_in wt) (map fst (dict_of (map (\<lambda>j. (j, ())) ids)))
      in (look_exit ws, ws))"

section \<open>What a round does to one job\<close>

text \<open>
  The specification of a round: what becomes of a pending job depends on that job, on what its own host
  answered, and on how long that host has been in trouble, and on nothing else in the watch.
\<close>

definition out_of_patience :: "round_input \<Rightarrow> watch \<Rightarrow> string \<Rightarrow> bool" where
  "out_of_patience ro wt name \<longleftrightarrow> \<not> wt_patient wt \<or>
     (case map_of (wt_trouble wt) name of Some (t, _) \<Rightarrow> ro_now ro name - t \<ge> TROUBLE_GRACE_S | None \<Rightarrow> False)"

definition view_job :: "round_input \<Rightarrow> bool \<Rightarrow> string \<Rightarrow> job_view list \<Rightarrow> watched \<Rightarrow> watched" where
  "view_job ro patient name vs w =
     (case view_of vs (wa_job_id w) of
        Some v \<Rightarrow> w\<lparr>wa_view := Some v, wa_seen := True\<rparr>
      | None \<Rightarrow>
          if \<not> wa_seen w then w\<lparr>wa_missing := True, wa_error := Some (HostLacks name)\<rparr>
          else if patient then w
          else give_up ro patient (''no longer knows job '' @ wa_job_id w) False ''answered'' w)"

definition poll_job :: "round_input \<Rightarrow> watch \<Rightarrow> watched \<Rightarrow> watched" where
  "poll_job ro wt w =
     (let name = wa_host w
      in case map_of (wt_gone wt) name of
           Some why \<Rightarrow> give_up ro (wt_patient wt) why True ''unaskable'' w
         | None \<Rightarrow>
             (case ro_asked ro name of
                Gone why \<Rightarrow> give_up ro (wt_patient wt) why True ''unaskable'' w
              | Unaskable why \<Rightarrow>
                  if out_of_patience ro wt name then give_up ro (wt_patient wt) why False ''unaskable'' w else w
              | Answers vs _ \<Rightarrow> view_job ro (wt_patient wt) name vs w))"

text \<open>The watch is about the jobs it was given, each on the one host it was placed on.\<close>

definition watching :: "watch \<Rightarrow> bool" where
  "watching wt \<longleftrightarrow> distinct (map fst (wt_jobs wt)) \<and> distinct (map fst (wt_by_host wt)) \<and>
     (\<forall>j w. map_of (wt_jobs wt) j = Some w \<longrightarrow> wa_job_id w = j) \<and>
     (\<forall>name js. map_of (wt_by_host wt) name = Some js \<longrightarrow> distinct js \<and>
        (\<forall>j \<in> set js. \<exists>w. map_of (wt_jobs wt) j = Some w \<and> wa_host w = name)) \<and>
     (\<forall>j w. map_of (wt_jobs wt) j = Some w \<longrightarrow> \<not> watched_settled w \<longrightarrow>
        (\<exists>js. map_of (wt_by_host wt) (wa_host w) = Some js \<and> j \<in> set js))"

lemma watching_ids: "watching wt \<Longrightarrow> map_of (wt_jobs wt) j = Some w \<Longrightarrow> wa_job_id w = j"
  unfolding watching_def by blast

lemma watching_cong: "wt_jobs t = wt_jobs u \<Longrightarrow> wt_by_host t = wt_by_host u \<Longrightarrow> watching t \<longleftrightarrow> watching u"
  by (simp only: watching_def)

lemma watching_on:
  "watching wt \<Longrightarrow> map_of (wt_by_host wt) name = Some js \<Longrightarrow>
   distinct js \<and> (\<forall>j \<in> set js. \<exists>w. map_of (wt_jobs wt) j = Some w \<and> wa_host w = name)"
  unfolding watching_def by blast

lemma watching_hosts:
  assumes "watching wt"
  shows "distinct (case map_of (wt_by_host wt) name of Some js \<Rightarrow> js | None \<Rightarrow> [])"
    "j \<in> set (case map_of (wt_by_host wt) name of Some js \<Rightarrow> js | None \<Rightarrow> []) \<Longrightarrow>
       \<exists>w. map_of (wt_jobs wt) j = Some w \<and> wa_host w = name"
proof -
  have "distinct (case map_of (wt_by_host wt) name of Some js \<Rightarrow> js | None \<Rightarrow> []) \<and>
    (\<forall>j \<in> set (case map_of (wt_by_host wt) name of Some js \<Rightarrow> js | None \<Rightarrow> []).
       \<exists>w. map_of (wt_jobs wt) j = Some w \<and> wa_host w = name)"
  proof (cases "map_of (wt_by_host wt) name")
    case (Some js)
    show ?thesis using watching_on [OF assms Some] unfolding Some option.case .
  qed simp
  then show "distinct (case map_of (wt_by_host wt) name of Some js \<Rightarrow> js | None \<Rightarrow> [])"
    "j \<in> set (case map_of (wt_by_host wt) name of Some js \<Rightarrow> js | None \<Rightarrow> []) \<Longrightarrow>
       \<exists>w. map_of (wt_jobs wt) j = Some w \<and> wa_host w = name" by blast+
qed

lemma watching_placed:
  "watching wt \<Longrightarrow> map_of (wt_jobs wt) j = Some w \<Longrightarrow> \<not> watched_settled w \<Longrightarrow>
   \<exists>js. map_of (wt_by_host wt) (wa_host w) = Some js \<and> j \<in> set js"
  unfolding watching_def by blast

lemma give_up_same [simp]:
  "wa_job_id (give_up ro p why g s w) = wa_job_id w" "wa_host (give_up ro p why g s w) = wa_host w"
  "wa_seen (give_up ro p why g s w) = wa_seen w"
  by (simp_all add: give_up_def from_mirror_def Let_def split: option.splits)

lemma mirror_of_final: "mi_view (mirror_of ro w) = Some v \<Longrightarrow> jv_status v \<in> set FINISHED_STATUSES"
  by (auto simp: mirror_of_def read_mirror_def split: if_splits option.splits)

lemma give_up_settles: "watched_settled (give_up ro p why g s w)"
proof (cases "mi_view (mirror_of ro (w\<lparr>wa_host_state := if g then ''gone'' else s\<rparr>))")
  case (Some v)
  then show ?thesis using mirror_of_final [OF Some]
    by (auto simp: give_up_def from_mirror_def Let_def watched_settled_def watched_finished_def watched_status_def)
qed (auto simp: give_up_def Let_def watched_settled_def)

lemma view_job_same [simp]:
  "wa_job_id (view_job ro p name vs w) = wa_job_id w" "wa_host (view_job ro p name vs w) = wa_host w"
  by (simp_all add: view_job_def split: option.splits)

lemma poll_job_same [simp]: "wa_job_id (poll_job ro wt w) = wa_job_id w" "wa_host (poll_job ro wt w) = wa_host w"
  by (simp_all add: poll_job_def Let_def split: option.splits asked.splits)

lemma job_in_Some: "map_of (wt_jobs wt) j = Some w \<Longrightarrow> job_in wt j = w"
  by (simp add: job_in_def)

lemma put_job_simps [simp]:
  "wt_patient (put_job w wt) = wt_patient wt" "wt_gone (put_job w wt) = wt_gone wt"
  "wt_by_host (put_job w wt) = wt_by_host wt" "wt_trouble (put_job w wt) = wt_trouble wt"
  "wt_announced (put_job w wt) = wt_announced wt" "wt_polled (put_job w wt) = wt_polled wt"
  "map_of (wt_jobs (put_job w wt)) = (map_of (wt_jobs wt))(wa_job_id w \<mapsto> w)"
  by (simp_all add: put_job_def update_conv')

text \<open>What every step of a round leaves as it was.\<close>

definition same_watch :: "watch \<Rightarrow> watch \<Rightarrow> bool" where
  "same_watch wt t \<longleftrightarrow> wt_patient t = wt_patient wt \<and> wt_gone t = wt_gone wt \<and> wt_by_host t = wt_by_host wt \<and>
     wt_announced t = wt_announced wt \<and> wt_polled t = wt_polled wt \<and> map fst (wt_jobs t) = map fst (wt_jobs wt)"

lemma same_watch_refl [simp]: "same_watch wt wt"
  by (simp add: same_watch_def)

lemma same_watch_trans: "same_watch a b \<Longrightarrow> same_watch b c \<Longrightarrow> same_watch a c"
  by (simp add: same_watch_def)

lemma keys_update_same: "j \<in> fst ` set d \<Longrightarrow> map fst (AList.update j x d) = map fst d"
  by (induction d) auto

lemma same_put: "map_of (wt_jobs wt) (wa_job_id w) = Some w0 \<Longrightarrow> same_watch wt (put_job w wt)"
  by (auto simp: same_watch_def put_job_def intro!: keys_update_same) (metis domI dom_map_of_conv_image_fst)

lemma fold_jobs:
  assumes step: "\<And>t j w. P t \<Longrightarrow> map_of (wt_jobs t) j = Some w \<Longrightarrow> wa_job_id w = j \<Longrightarrow>
      P (f t j) \<and> same_watch t (f t j) \<and> map_of (wt_jobs (f t j)) = (map_of (wt_jobs t))(j \<mapsto> g w)"
  shows "P wt \<Longrightarrow> distinct js \<Longrightarrow> \<forall>j \<in> set js. \<exists>w. map_of (wt_jobs wt) j = Some w \<and> wa_job_id w = j \<Longrightarrow>
    P (foldl f wt js) \<and> same_watch wt (foldl f wt js) \<and>
    map_of (wt_jobs (foldl f wt js)) =
      (\<lambda>j. if j \<in> set js then map_option g (map_of (wt_jobs wt) j) else map_of (wt_jobs wt) j)"
proof (induction js arbitrary: wt)
  case (Cons j js)
  obtain w where w: "map_of (wt_jobs wt) j = Some w" "wa_job_id w = j" using Cons.prems(3) by auto
  note one = step [OF Cons.prems(1) w]
  have "\<forall>i \<in> set js. \<exists>w. map_of (wt_jobs (f wt j)) i = Some w \<and> wa_job_id w = i"
    using Cons.prems(2,3) one by auto
  note rest = Cons.IH [of "f wt j", OF conjunct1 [OF one] _ this]
  show ?case
    using rest one w Cons.prems(2) by (auto simp: fun_eq_iff intro: same_watch_trans)
qed (auto simp: fun_eq_iff)

lemma trouble_with_jobs:
  fixes ro :: round_input and name :: string and why state :: string and gone :: bool
  assumes "distinct js" "\<forall>j \<in> set js. \<exists>w. map_of (wt_jobs wt) j = Some w \<and> wa_job_id w = j"
  defines "since \<equiv> (case map_of (wt_trouble wt) name of Some (t, _) \<Rightarrow> t | None \<Rightarrow> ro_now ro name)"
    and "t \<equiv> trouble_with ro name js why gone state wt"
  shows "same_watch wt t \<and> wt_trouble t = AList.update name (since, why) (wt_trouble wt) \<and>
    map_of (wt_jobs t) = (\<lambda>j. if j \<in> set js \<and> (gone \<or> out_of_patience ro wt name)
       then map_option (give_up ro (wt_patient wt) why gone state) (map_of (wt_jobs wt) j) else map_of (wt_jobs wt) j)"
proof -
  let ?wt = "wt\<lparr>wt_trouble := AList.update name (since, why) (wt_trouble wt)\<rparr>"
  let ?f = "\<lambda>t j. put_job (give_up ro (wt_patient wt) why gone state (job_in t j)) t"
  have waiting: "(\<not> gone \<and> wt_patient wt \<and> ro_now ro name - since < TROUBLE_GRACE_S) \<longleftrightarrow> \<not> (gone \<or> out_of_patience ro wt name)"
    by (auto simp: out_of_patience_def since_def TROUBLE_GRACE_S_def split: option.splits)
  have t: "t = (if gone \<or> out_of_patience ro wt name then foldl ?f ?wt js else ?wt)"
    unfolding t_def trouble_with_def Let_def since_def [symmetric] using waiting by simp
  have "wt_trouble (foldl ?f ?wt js) = wt_trouble ?wt \<and> same_watch ?wt (foldl ?f ?wt js) \<and>
    map_of (wt_jobs (foldl ?f ?wt js)) = (\<lambda>j. if j \<in> set js
       then map_option (give_up ro (wt_patient wt) why gone state) (map_of (wt_jobs ?wt) j) else map_of (wt_jobs ?wt) j)"
    by (rule fold_jobs [where P = "\<lambda>t. wt_trouble t = wt_trouble ?wt"])
       (use assms(1,2) in \<open>auto simp: job_in_Some intro: same_put\<close>)
  then show ?thesis unfolding t by (auto simp: same_watch_def fun_eq_iff)
qed

lemma take_view_step:
  fixes ro :: round_input and name :: string and vs :: "job_view list"
  assumes j: "map_of (wt_jobs t) j = Some w" "wa_job_id w = j"
    and fresh: "\<forall>s why. map_of (wt_trouble t) name = Some (s, why) \<longrightarrow> s = ro_now ro name"
  defines "t' \<equiv> take_view ro name vs t j"
  shows "same_watch t t' \<and> map_of (wt_jobs t') = (map_of (wt_jobs t))(j \<mapsto> view_job ro (wt_patient t) name vs w) \<and>
    (\<forall>s why. map_of (wt_trouble t') name = Some (s, why) \<longrightarrow> s = ro_now ro name) \<and>
    (\<forall>n. n \<noteq> name \<longrightarrow> map_of (wt_trouble t') n = map_of (wt_trouble t) n)"
proof -
  consider (view) v where "view_of vs j = Some v" | (missing) "view_of vs j = None" "\<not> wa_seen w"
    | (lost) "view_of vs j = None" "wa_seen w" by fastforce
  then show ?thesis
  proof cases
    case lost
    let ?why = "''no longer knows job '' @ j"
    have t': "t' = trouble_with ro name [j] ?why False ''answered'' t"
      using lost j by (simp add: t'_def take_view_def vanished_def job_in_Some Let_def)
    have out: "out_of_patience ro t name \<longleftrightarrow> \<not> wt_patient t"
      using fresh by (auto simp: out_of_patience_def TROUBLE_GRACE_S_def split: option.splits)
    note jobs = trouble_with_jobs [where js = "[j]" and wt = t and name = name and ro = ro and why = ?why and gone = False
      and state = "''answered''", folded t']
    have since: "(case map_of (wt_trouble t) name of Some (s, _) \<Rightarrow> s | None \<Rightarrow> ro_now ro name) = ro_now ro name"
      using fresh by (auto split: option.splits)
    show ?thesis
      using jobs j lost since out by (auto simp: fun_eq_iff view_job_def update_conv')
  next
    case missing
    let ?w = "w\<lparr>wa_missing := True, wa_error := Some (HostLacks name)\<rparr>"
    have "t' = put_job ?w t" using missing j by (simp add: t'_def take_view_def vanished_def job_in_Some Let_def)
    then show ?thesis using missing j fresh same_put [of t ?w w] by (simp add: view_job_def)
  next
    case view
    let ?w = "w\<lparr>wa_view := Some v, wa_seen := True\<rparr>"
    have "t' = put_job ?w t" using view j by (simp add: t'_def take_view_def job_in_Some)
    then show ?thesis using view j fresh same_put [of t ?w w] by (simp add: view_job_def)
  qed
qed

lemma pending_known:
  assumes wf: "watching wt"
  shows "distinct (pending_on name wt) \<and>
    (\<forall>j \<in> set (pending_on name wt). \<exists>w. map_of (wt_jobs wt) j = Some w \<and> wa_job_id w = j)"
proof (intro conjI ballI)
  show "distinct (pending_on name wt)" using watching_hosts(1) [OF wf] by (simp add: pending_on_def)
  show "\<exists>w. map_of (wt_jobs wt) j = Some w \<and> wa_job_id w = j" if "j \<in> set (pending_on name wt)" for j
    using watching_hosts(2) [OF wf, of j name] watching_ids [OF wf] that by (simp add: pending_on_def) blast
qed

lemma poll_host_jobs:
  fixes ro :: round_input and name :: string
  assumes wf: "watching wt"
  defines "t \<equiv> poll_host ro wt name"
  shows "same_watch wt t \<and>
    map_of (wt_jobs t) = (\<lambda>j. case map_of (wt_jobs wt) j of None \<Rightarrow> None
      | Some w \<Rightarrow> Some (if \<not> watched_settled w \<and> wa_host w = name then poll_job ro wt w else w)) \<and>
    (\<forall>n. n \<noteq> name \<longrightarrow> map_of (wt_trouble t) n = map_of (wt_trouble wt) n)"
proof -
  let ?js = "pending_on name wt"
  let ?on = "case map_of (wt_by_host wt) name of Some js \<Rightarrow> js | None \<Rightarrow> []"
  have host: "\<And>j. j \<in> set ?on \<Longrightarrow> \<exists>w. map_of (wt_jobs wt) j = Some w \<and> wa_host w = name"
    using watching_hosts [OF wf] by blast
  have placed: "j \<in> set ?on" if "map_of (wt_jobs wt) j = Some w" "\<not> watched_settled w" "wa_host w = name" for j w
    using watching_placed [OF wf that(1,2)] that(3) by auto
  have dist: "distinct ?js" and known: "\<forall>j \<in> set ?js. \<exists>w. map_of (wt_jobs wt) j = Some w \<and> wa_job_id w = j"
    using pending_known [OF wf] by blast+
  have on: "j \<in> set ?js \<longleftrightarrow> \<not> watched_settled w \<and> wa_host w = name" if "map_of (wt_jobs wt) j = Some w" for j w
    using host [of j] placed [OF that] that job_in_Some [OF that] unfolding pending_on_def by auto
  have to_spec: "(\<lambda>j. if j \<in> set ?js then map_option g (map_of (wt_jobs wt) j) else map_of (wt_jobs wt) j) =
     (\<lambda>j. case map_of (wt_jobs wt) j of None \<Rightarrow> None
      | Some w \<Rightarrow> Some (if \<not> watched_settled w \<and> wa_host w = name then g w else w))" for g
  proof
    fix j
    show "(if j \<in> set ?js then map_option g (map_of (wt_jobs wt) j) else map_of (wt_jobs wt) j) =
      (case map_of (wt_jobs wt) j of None \<Rightarrow> None
       | Some w \<Rightarrow> Some (if \<not> watched_settled w \<and> wa_host w = name then g w else w))"
    proof (cases "map_of (wt_jobs wt) j")
      case None
      then show ?thesis using known by auto
    next
      case (Some w)
      show ?thesis unfolding on [OF Some] unfolding Some by simp
    qed
  qed
  show ?thesis
  proof (cases "?js = []")
    case True
    then have "t = wt" by (simp add: t_def poll_host_def)
    then show ?thesis unfolding to_spec [symmetric] True by simp
  next
    case False
    have trouble: ?thesis
      if t: "t = trouble_with ro name ?js why gone ''unaskable'' wt"
        and spec: "\<And>w. wa_host w = name \<Longrightarrow> poll_job ro wt w =
           (if gone \<or> out_of_patience ro wt name then give_up ro (wt_patient wt) why gone ''unaskable'' w else w)" for why gone
    proof -
      note jobs = trouble_with_jobs [OF dist known, where name = name and ro = ro and why = why and gone = gone
        and state = "''unaskable''", folded t]
      have all: "map_of (wt_jobs t) = (\<lambda>j. if j \<in> set ?js
         then map_option (\<lambda>w. if gone \<or> out_of_patience ro wt name then give_up ro (wt_patient wt) why gone ''unaskable'' w else w)
           (map_of (wt_jobs wt) j) else map_of (wt_jobs wt) j)"
        using jobs by (auto simp: fun_eq_iff option.map_ident)
      have "map_of (wt_jobs t) = (\<lambda>j. case map_of (wt_jobs wt) j of None \<Rightarrow> None
          | Some w \<Rightarrow> Some (if \<not> watched_settled w \<and> wa_host w = name then poll_job ro wt w else w))"
        unfolding all to_spec using spec by (auto simp: fun_eq_iff split: option.splits)
      then show ?thesis using jobs by (simp add: update_conv')
    qed
    show ?thesis
    proof (cases "map_of (wt_gone wt) name")
      case (Some why)
      show ?thesis
        by (rule trouble [of why True]) (use Some False in \<open>simp_all add: t_def poll_host_def poll_job_def\<close>)
    next
      case None
      show ?thesis
      proof (cases "ro_asked ro name")
        case (Unaskable why)
        show ?thesis
          by (rule trouble [of why False]) (use None Unaskable False in \<open>simp_all add: t_def poll_host_def poll_job_def\<close>)
      next
        case (Gone why)
        show ?thesis
          by (rule trouble [of why True]) (use None Gone False in \<open>simp_all add: t_def poll_host_def poll_job_def\<close>)
      next
        case (Answers vs alive)
        define wt2 where "wt2 = check_dispatcher name alive
          (\<exists>j \<in> set ?js. case view_of vs j of Some v \<Rightarrow> jv_status v = ''queued'' | None \<Rightarrow> False) (clear_trouble name wt)"
        have t: "t = foldl (take_view ro name vs) wt2 ?js"
          using None Answers False unfolding t_def poll_host_def wt2_def by (simp add: Let_def)
        have wt2: "same_watch wt wt2" "wt_jobs wt2 = wt_jobs wt" "wt_patient wt2 = wt_patient wt"
          "map_of (wt_trouble wt2) name = None" "\<And>n. n \<noteq> name \<Longrightarrow> map_of (wt_trouble wt2) n = map_of (wt_trouble wt) n"
          by (simp_all add: wt2_def check_dispatcher_def clear_trouble_def same_watch_def delete_conv')
        let ?P = "\<lambda>u. wt_patient u = wt_patient wt \<and> (\<forall>s why. map_of (wt_trouble u) name = Some (s, why) \<longrightarrow> s = ro_now ro name)
          \<and> (\<forall>n. n \<noteq> name \<longrightarrow> map_of (wt_trouble u) n = map_of (wt_trouble wt) n)"
        have step: "?P (take_view ro name vs u j) \<and> same_watch u (take_view ro name vs u j) \<and>
            map_of (wt_jobs (take_view ro name vs u j)) = (map_of (wt_jobs u))(j \<mapsto> view_job ro (wt_patient wt) name vs w)"
          if "?P u" "map_of (wt_jobs u) j = Some w" "wa_job_id w = j" for u j w
          using take_view_step [OF that(2,3), of name ro vs] that(1) by (simp add: same_watch_def)
        have fold: "?P t \<and> same_watch wt2 t \<and> map_of (wt_jobs t) = (\<lambda>j. if j \<in> set ?js
            then map_option (view_job ro (wt_patient wt) name vs) (map_of (wt_jobs wt2) j) else map_of (wt_jobs wt2) j)"
          unfolding t by (rule fold_jobs [where P = ?P, OF step]) (use wt2 dist known in simp_all)
        moreover have "poll_job ro wt w = view_job ro (wt_patient wt) name vs w" if "wa_host w = name" for w
          using that None Answers by (simp add: poll_job_def)
        ultimately have "map_of (wt_jobs t) = (\<lambda>j. case map_of (wt_jobs wt) j of None \<Rightarrow> None
            | Some w \<Rightarrow> Some (if \<not> watched_settled w \<and> wa_host w = name then poll_job ro wt w else w))"
          unfolding wt2(2) to_spec by (auto simp: fun_eq_iff split: option.splits)
        then show ?thesis using fold same_watch_trans [OF wt2(1)] by simp
      qed
    qed
  qed
qed

text \<open>A round over some of the hosts: their pending jobs have moved, the rest are as they were.\<close>

definition moved :: "round_input \<Rightarrow> watch \<Rightarrow> string set \<Rightarrow> watched \<Rightarrow> watched" where
  "moved ro wt names w = (if \<not> watched_settled w \<and> wa_host w \<in> names then poll_job ro wt w else w)"

lemma moved_same [simp]: "wa_job_id (moved ro wt ns w) = wa_job_id w" "wa_host (moved ro wt ns w) = wa_host w"
  by (simp_all add: moved_def)

lemma watching_moved:
  assumes wf: "watching wt" and same: "same_watch wt t"
    and jobs: "map_of (wt_jobs t) = (\<lambda>j. map_option (moved ro u ns) (map_of (wt_jobs wt) j))"
  shows "watching t"
proof -
  have keys: "map fst (wt_jobs t) = map fst (wt_jobs wt)" and by_host: "wt_by_host t = wt_by_host wt"
    using same by (simp_all add: same_watch_def)
  have earlier: "\<exists>w0. map_of (wt_jobs wt) j = Some w0 \<and> w = moved ro u ns w0" if "map_of (wt_jobs t) j = Some w" for j w
    using that jobs by auto
  have "\<not> watched_settled w0" if "\<not> watched_settled (moved ro u ns w0)" for w0
    using that by (auto simp: moved_def split: if_splits)
  then have placed: "\<exists>js. map_of (wt_by_host wt) (wa_host w) = Some js \<and> j \<in> set js"
    if "map_of (wt_jobs t) j = Some w" "\<not> watched_settled w" for j w
    using earlier [OF that(1)] that(2) watching_placed [OF wf] by auto
  have on: "\<exists>w. map_of (wt_jobs t) j = Some w \<and> wa_host w = name" if "map_of (wt_by_host wt) name = Some js" "j \<in> set js" for name js j
    using watching_on [OF wf that(1)] that(2) jobs by force
  have ids: "wa_job_id w = j" if "map_of (wt_jobs t) j = Some w" for j w
    using earlier [OF that] watching_ids [OF wf] by auto
  have "distinct (map fst (wt_jobs wt))" "distinct (map fst (wt_by_host wt))" using wf by (simp_all add: watching_def)
  moreover have "distinct js" if "map_of (wt_by_host wt) name = Some js" for name js using watching_on [OF wf that] by blast
  ultimately show ?thesis unfolding watching_def keys by_host using placed on ids by blast
qed

lemma poll_hosts_jobs:
  fixes ro :: round_input
  assumes "watching wt" "distinct ns"
  defines "t \<equiv> foldl (poll_host ro) wt ns"
  shows "watching t \<and> same_watch wt t \<and> map_of (wt_jobs t) = (\<lambda>j. map_option (moved ro wt (set ns)) (map_of (wt_jobs wt) j)) \<and>
    (\<forall>n. n \<notin> set ns \<longrightarrow> map_of (wt_trouble t) n = map_of (wt_trouble wt) n)"
  using assms(2) unfolding t_def
proof (induction ns rule: rev_induct)
  case Nil
  have "moved ro wt {} = id" by (auto simp: moved_def)
  then show ?case using assms(1) by (simp add: option.map_id0 option.map_ident)
next
  case (snoc n ns)
  let ?u = "foldl (poll_host ro) wt ns"
  have IH: "watching ?u" "same_watch wt ?u" "map_of (wt_jobs ?u) = (\<lambda>j. map_option (moved ro wt (set ns)) (map_of (wt_jobs wt) j))"
    "\<And>m. m \<notin> set ns \<Longrightarrow> map_of (wt_trouble ?u) m = map_of (wt_trouble wt) m"
    using snoc by simp_all
  note one = poll_host_jobs [OF IH(1), where ro = ro and name = n]
  have "poll_job ro ?u w = poll_job ro wt w" if "wa_host w = n" for w
  proof -
    have "out_of_patience ro ?u n = out_of_patience ro wt n" "wt_patient ?u = wt_patient wt" "wt_gone ?u = wt_gone wt"
      using IH(2) IH(4) [of n] snoc.prems by (simp_all add: out_of_patience_def same_watch_def)
    then show ?thesis using that by (simp add: poll_job_def Let_def split: option.split asked.split)
  qed
  then have step: "moved ro ?u {n} (moved ro wt (set ns) w) = moved ro wt (set (ns @ [n])) w" for w
    using snoc.prems by (auto simp: moved_def)
  have u: "map_of (wt_jobs (poll_host ro ?u n)) = (\<lambda>j. map_option (moved ro ?u {n}) (map_of (wt_jobs ?u) j))"
    using one by (auto simp: fun_eq_iff moved_def split: option.splits)
  have jobs: "map_of (wt_jobs (poll_host ro ?u n)) = (\<lambda>j. map_option (moved ro wt (set (ns @ [n]))) (map_of (wt_jobs wt) j))"
    unfolding u IH(3) by (rule ext) (simp add: option.map_comp comp_def step del: set_append)
  have same: "same_watch wt (poll_host ro ?u n)" using one IH(2) same_watch_trans by blast
  have "watching (poll_host ro ?u n)" using watching_moved [OF IH(1) conjunct1 [OF one] u] .
  then show ?case using jobs same one IH(4) by simp
qed

definition after_round :: "round_input \<Rightarrow> watch \<Rightarrow> watched \<Rightarrow> watched" where
  "after_round ro wt w = (if watched_settled w then w else poll_job ro wt w)"

lemma after_round_host [simp]: "wa_host (after_round ro wt w) = wa_host w"
  by (simp add: after_round_def)

lemma poll_round_jobs:
  assumes wf: "watching wt" and run: "poll_round ro wt = (settled, t)"
  shows "watching t" "wt_patient t = wt_patient wt" "wt_gone t = wt_gone wt" "wt_by_host t = wt_by_host wt" "wt_polled t"
    "map_of (wt_jobs t) = (\<lambda>j. map_option (after_round ro wt) (map_of (wt_jobs wt) j))" "map fst (wt_jobs t) = map fst (wt_jobs wt)"
    "settled = filter (\<lambda>w. watched_settled w \<and> wa_job_id w \<notin> set (wt_announced wt)) (map snd (wt_jobs t))"
    "wt_announced t = wt_announced wt @ map wa_job_id settled"
proof -
  let ?ns = "map fst (wt_by_host wt)" and ?u = "foldl (poll_host ro) wt (map fst (wt_by_host wt))"
  have "distinct ?ns" using wf by (simp add: watching_def)
  note all = poll_hosts_jobs [OF wf this, where ro = ro]
  have t: "settled = filter (\<lambda>w. watched_settled w \<and> wa_job_id w \<notin> set (wt_announced wt)) (map snd (wt_jobs ?u))"
    "t = ?u\<lparr>wt_polled := True, wt_announced := wt_announced wt @ map wa_job_id settled\<rparr>"
    using run all by (auto simp: poll_round_def Let_def same_watch_def)
  have "moved ro wt (set ?ns) w = after_round ro wt w" if "map_of (wt_jobs wt) j = Some w" for j w
  proof (cases "watched_settled w")
    case False
    then have "wa_host w \<in> set ?ns" using watching_placed [OF wf that] by (force dest: map_of_SomeD)
    then show ?thesis using False by (simp add: moved_def after_round_def)
  qed (simp add: moved_def after_round_def)
  then have "map_of (wt_jobs ?u) = (\<lambda>j. map_option (after_round ro wt) (map_of (wt_jobs wt) j))"
  proof -
    assume same: "\<And>j w. map_of (wt_jobs wt) j = Some w \<Longrightarrow> moved ro wt (set ?ns) w = after_round ro wt w"
    show ?thesis
    proof
      fix j
      show "map_of (wt_jobs ?u) j = map_option (after_round ro wt) (map_of (wt_jobs wt) j)"
        using all same [of j] by (cases "map_of (wt_jobs wt) j") simp_all
    qed
  qed
  then show "map_of (wt_jobs t) = (\<lambda>j. map_option (after_round ro wt) (map_of (wt_jobs wt) j))" by (simp add: t(2))
  show "watching t" using all watching_cong [of ?u t] by (simp add: t(2))
  show "wt_patient t = wt_patient wt" "wt_gone t = wt_gone wt" "wt_by_host t = wt_by_host wt" "wt_polled t"
    "map fst (wt_jobs t) = map fst (wt_jobs wt)"
    "settled = filter (\<lambda>w. watched_settled w \<and> wa_job_id w \<notin> set (wt_announced wt)) (map snd (wt_jobs t))"
    "wt_announced t = wt_announced wt @ map wa_job_id settled"
    using all t by (simp_all add: same_watch_def)
qed

section \<open>A new watch\<close>

lemma grouped:
  fixes targets :: "(job_id \<times> string \<times> string option) list"
  defines "d \<equiv> foldl (\<lambda>d (j, host, _). AList.update host ((case map_of d host of Some js \<Rightarrow> js | None \<Rightarrow> []) @ [j]) d) [] targets"
  shows "distinct (map fst d) \<and>
    map_of d host = (let js = map fst (filter (\<lambda>x. fst (snd x) = host) targets) in if js = [] then None else Some js)"
  unfolding d_def
proof (induction targets arbitrary: host rule: rev_induct)
  case (snoc x xs)
  obtain j h p where x: "x = (j, h, p)" by (metis prod_cases3)
  show ?case using snoc by (auto simp: x distinct_update update_conv' Let_def)
qed simp

lemma watching_new:
  assumes dist: "distinct (map fst targets @ map fst unknown @ map fst unaskable)"
  shows "watching (new_watch patient targets gone unknown unaskable)" (is "watching ?wt")
proof -
  let ?t = "map (\<lambda>(j, host, prefix). (j, new_watched j host prefix)) targets"
  let ?u = "map (\<lambda>(j, why). (j, (new_watched j NO_HOST None)\<lparr>wa_error := Some (NoHostHas why), wa_missing := True\<rparr>)) unknown"
  let ?a = "map (\<lambda>(j, host, why). (j, (new_watched j host None)\<lparr>wa_error := Some (NotAsked why), wa_host_state := ''unaskable''\<rparr>)) unaskable"
  have fsts: "map fst ?t = map fst targets" "map fst ?u = map fst unknown" "map fst ?a = map fst unaskable"
    by (simp_all add: comp_def case_prod_beta)
  have jobs: "wt_jobs ?wt = ?t @ ?u @ ?a"
    unfolding new_watch_def using dist by (simp add: dict_of_distinct fsts del: map_map)
  have distj: "distinct (map fst (wt_jobs ?wt))" unfolding jobs using dist by (simp add: fsts del: map_map)
  note is_job = map_of_eq_Some_iff [OF distj]
  have by_host: "distinct (map fst (wt_by_host ?wt))"
    "\<And>host. map_of (wt_by_host ?wt) host = (let js = map fst (filter (\<lambda>x. fst (snd x) = host) targets) in if js = [] then None else Some js)"
    using grouped [of targets] by (simp_all add: new_watch_def)
  have ids: "wa_job_id w = j" if "map_of (wt_jobs ?wt) j = Some w" for j w
    using that unfolding is_job unfolding jobs by (auto simp: new_watched_def)
  have on: "distinct js \<and> (\<forall>j \<in> set js. \<exists>w. map_of (wt_jobs ?wt) j = Some w \<and> wa_host w = host)"
    if "map_of (wt_by_host ?wt) host = Some js" for host js
  proof -
    have js: "js = map fst (filter (\<lambda>x. fst (snd x) = host) targets)"
      using that unfolding by_host(2) by (auto simp: Let_def split: if_splits)
    have "(j, new_watched j host p) \<in> set (wt_jobs ?wt)" if "(j, host, p) \<in> set targets" for j p
      using that unfolding jobs by force
    then have "\<exists>w. map_of (wt_jobs ?wt) j = Some w \<and> wa_host w = host" if "(j, host, p) \<in> set targets" for j p
      unfolding is_job using that by (force simp: new_watched_def)
    then show ?thesis unfolding js using dist by (auto simp: distinct_map_filter)
  qed
  have placed: "\<exists>js. map_of (wt_by_host ?wt) (wa_host w) = Some js \<and> j \<in> set js"
    if job: "map_of (wt_jobs ?wt) j = Some w" "\<not> watched_settled w" for j w
  proof -
    obtain p where "(j, wa_host w, p) \<in> set targets"
      using job unfolding is_job unfolding jobs by (auto simp: new_watched_def watched_settled_def)
    then show ?thesis unfolding by_host(2) by (force simp: Let_def filter_empty_conv)
  qed
  show ?thesis unfolding watching_def using distj by_host(1) ids on placed by blast
qed

lemma distinct_map_filter_keys:
  "distinct (map fst xs) \<Longrightarrow> (\<And>x y. f x = Some y \<Longrightarrow> fst y = fst x) \<Longrightarrow>
   distinct (map fst (List.map_filter f xs)) \<and> fst ` set (List.map_filter f xs) = fst ` {x \<in> set xs. f x \<noteq> None}"
  by (induction xs) (auto simp: List.map_filter_simps image_iff split: option.splits)

lemma start_parts:
  assumes "distinct (map fst placed)"
  shows "\<exists>targets gone unknown unaskable. start_watch patient prefix placed = new_watch patient targets gone unknown unaskable \<and>
    distinct (map fst targets @ map fst unknown @ map fst unaskable) \<and>
    fst ` set targets \<union> fst ` set unknown \<union> fst ` set unaskable = fst ` set placed"
proof -
  let ?un = "\<lambda>t. case t of Some (Unaskable _) \<Rightarrow> True | _ \<Rightarrow> False"
  let ?t = "\<lambda>(j, l). case l of
        Located host entry trouble \<Rightarrow> if \<not> entry \<and> ?un trouble then None else Some (j, host, prefix j)
      | Unlocated _ _ \<Rightarrow> None"
  let ?u = "\<lambda>(j, l). case l of Unlocated True why \<Rightarrow> Some (j, why) | _ \<Rightarrow> None"
  let ?a = "\<lambda>(j, l). case l of
        Unlocated False why \<Rightarrow> Some (j, NO_HOST, why)
      | Located host False (Some (Unaskable why)) \<Rightarrow> Some (j, host, why)
      | _ \<Rightarrow> None"
  note keys = distinct_map_filter_keys [OF assms]
  have t: "distinct (map fst (List.map_filter ?t placed)) \<and> fst ` set (List.map_filter ?t placed) = fst ` {x \<in> set placed. ?t x \<noteq> None}"
    by (rule keys) (auto split: location.splits if_splits)
  have u: "distinct (map fst (List.map_filter ?u placed)) \<and> fst ` set (List.map_filter ?u placed) = fst ` {x \<in> set placed. ?u x \<noteq> None}"
    by (rule keys) (auto split: location.splits bool.splits)
  have a: "distinct (map fst (List.map_filter ?a placed)) \<and> fst ` set (List.map_filter ?a placed) = fst ` {x \<in> set placed. ?a x \<noteq> None}"
    by (rule keys) (auto split: location.splits bool.splits option.splits asked.splits)
  have apart: "fst ` {x \<in> set placed. P x} \<inter> fst ` {x \<in> set placed. Q x} = {}" if none: "\<And>x. \<not> (P x \<and> Q x)" for P Q
  proof -
    have "x = y" if "x \<in> set placed" "y \<in> set placed" "fst x = fst y" for x y
      using assms that by (simp add: distinct_map inj_on_def)
    then show ?thesis using none by fastforce
  qed
  have "\<not> (?t x \<noteq> None \<and> ?u x \<noteq> None)" "\<not> (?t x \<noteq> None \<and> ?a x \<noteq> None)" "\<not> (?u x \<noteq> None \<and> ?a x \<noteq> None)" for x
    by (auto split: prod.splits location.splits bool.splits option.splits asked.splits if_splits)
  note three = this [THEN apart]
  have "distinct (map fst (List.map_filter ?t placed) @ map fst (List.map_filter ?u placed) @ map fst (List.map_filter ?a placed))"
    using t u a by (simp only: distinct_append set_append set_map Int_Un_distrib three Un_empty_left simp_thms)
  moreover have "?t x \<noteq> None \<or> ?u x \<noteq> None \<or> ?a x \<noteq> None" for x
    by (auto split: prod.splits location.splits bool.splits option.splits asked.splits if_splits)
  then have "fst ` {x \<in> set placed. ?t x \<noteq> None} \<union> fst ` {x \<in> set placed. ?u x \<noteq> None} \<union> fst ` {x \<in> set placed. ?a x \<noteq> None} = fst ` set placed"
    unfolding image_Un [symmetric] by (intro arg_cong [where f = "image fst"]) blast
  then have "fst ` set (List.map_filter ?t placed) \<union> fst ` set (List.map_filter ?u placed) \<union> fst ` set (List.map_filter ?a placed) = fst ` set placed"
    using t u a by (simp only:)
  ultimately show ?thesis unfolding start_watch_def Let_def by blast
qed

lemma watching_start: "distinct (map fst placed) \<Longrightarrow> watching (start_watch patient prefix placed)"
  using start_parts [of placed patient prefix] watching_new by metis

lemma start_ids: "distinct (map fst placed) \<Longrightarrow> fst ` set (wt_jobs (start_watch patient prefix placed)) = fst ` set placed"
proof -
  have "fst ` set (wt_jobs (new_watch patient targets gone unknown unaskable)) = fst ` set targets \<union> fst ` set unknown \<union> fst ` set unaskable"
    for targets gone unknown unaskable
    by (simp add: new_watch_def image_Un image_image case_prod_beta Un_assoc)
  then show "distinct (map fst placed) \<Longrightarrow> ?thesis" using start_parts [of placed patient prefix] by metis
qed


section \<open>What a wait promises\<close>

lemma pending_Nil: "distinct (map fst (wt_jobs wt)) \<Longrightarrow>
  pending wt = [] \<longleftrightarrow> (\<forall>j w. map_of (wt_jobs wt) j = Some w \<longrightarrow> watched_settled w)"
  by (auto simp: pending_def filter_empty_conv)

text \<open>Between rounds: the jobs already announced are jobs that have settled.\<close>

definition announced_ok :: "watch \<Rightarrow> bool" where
  "announced_ok wt \<longleftrightarrow> distinct (wt_announced wt) \<and>
     (\<forall>j \<in> set (wt_announced wt). \<exists>w. map_of (wt_jobs wt) j = Some w \<and> watched_settled w)"

lemma round_announces:
  assumes wf: "watching wt" and ok: "announced_ok wt" and run: "poll_round ro wt = (settled, t)"
  shows "announced_ok t" "\<And>j w. map_of (wt_jobs t) j = Some w \<Longrightarrow> watched_settled w \<longleftrightarrow> j \<in> set (wt_announced t)"
proof -
  note r = poll_round_jobs [OF wf run]
  have dist: "distinct (map fst (wt_jobs t))" using r(1) by (simp add: watching_def)
  note is_job = map_of_eq_Some_iff [OF dist]
  have kept: "\<exists>w. map_of (wt_jobs t) j = Some w \<and> watched_settled w" if old: "j \<in> set (wt_announced wt)" for j
  proof -
    obtain w where "map_of (wt_jobs wt) j = Some w" "watched_settled w" using ok old unfolding announced_ok_def by blast
    then show ?thesis by (auto simp: r(6) after_round_def)
  qed
  have told: "set (map wa_job_id settled) = {j. \<exists>w. map_of (wt_jobs t) j = Some w \<and> watched_settled w \<and> j \<notin> set (wt_announced wt)}"
    unfolding r(8) using watching_ids [OF r(1)] is_job by (force simp: image_iff)
  have "map wa_job_id (map snd (wt_jobs t)) = map fst (wt_jobs t)"
    using watching_ids [OF r(1)] is_job by (auto simp: map_eq_conv)
  then have "distinct (map wa_job_id settled)"
    unfolding r(8) using dist by (metis distinct_map_filter)
  then show "announced_ok t" unfolding announced_ok_def r(9)
    using ok told kept by (auto simp: announced_ok_def)
  show "watched_settled w \<longleftrightarrow> j \<in> set (wt_announced t)" if "map_of (wt_jobs t) j = Some w" for j w
    unfolding r(9) set_append told using that kept [of j] by auto
qed

definition paced :: "seconds option \<Rightarrow> seconds \<Rightarrow> bool" where
  "paced interval d \<longleftrightarrow> (case interval of Some i \<Rightarrow> d = i | None \<Rightarrow> FIRST_INTERVAL_S \<le> d \<and> d \<le> MAX_INTERVAL_S)"

lemma paced_next: "paced interval d \<Longrightarrow> paced interval (next_delay interval d)"
  by (auto simp: paced_def next_delay_def BACKOFF_def FIRST_INTERVAL_S_def MAX_INTERVAL_S_def split: option.splits)

lemma block_from_spec:
  "block_from interval delay ros wt = (Some t, ds, told) \<Longrightarrow> watching wt \<Longrightarrow> announced_ok wt \<Longrightarrow> paced interval delay \<Longrightarrow>
   distinct (wt_announced wt @ told) \<and> set (wt_announced wt @ told) = fst ` set (wt_jobs wt) \<and>
   map fst (wt_jobs t) = map fst (wt_jobs wt) \<and> pending t = [] \<and> (\<forall>d \<in> set ds. paced interval d)"
proof (induction ros arbitrary: delay wt ds told)
  case (Cons ro ros)
  obtain settled u where run: "poll_round ro wt = (settled, u)" by fastforce
  note r = poll_round_jobs [OF Cons.prems(2) run] and a = round_announces [OF Cons.prems(2,3) run]
  let ?slept = "if wt_polled wt then [delay] else []"
  have paced': "paced interval (if wt_polled wt then next_delay interval delay else delay)" "\<forall>d \<in> set ?slept. paced interval d"
    using Cons.prems(4) paced_next by simp_all
  show ?case
  proof (cases "pending u = []")
    case True
    then have eq: "t = u" "ds = ?slept" "told = map wa_job_id settled" using Cons.prems(1) run by (simp_all add: Let_def)
    have dist: "distinct (map fst (wt_jobs u))" using r(1) by (simp add: watching_def)
    have "set (wt_announced u) = fst ` set (wt_jobs u)"
    proof
      show "set (wt_announced u) \<subseteq> fst ` set (wt_jobs u)"
        using a(1) by (force simp: announced_ok_def dest: map_of_SomeD)
      show "fst ` set (wt_jobs u) \<subseteq> set (wt_announced u)"
        using a(2) True [unfolded pending_Nil [OF dist]] map_of_eq_Some_iff [OF dist] by fastforce
    qed
    moreover have "fst ` set (wt_jobs u) = fst ` set (wt_jobs wt)" using r(7) by (metis set_map)
    ultimately show ?thesis
      using a(1) True paced'(2) r(7) unfolding eq announced_ok_def r(9) by simp
  next
    case False
    then obtain ds' told' where rest: "block_from interval (if wt_polled wt then next_delay interval delay else delay) ros u = (Some t, ds', told')"
      "ds = ?slept @ ds'" "told = map wa_job_id settled @ told'"
      using Cons.prems(1) run by (auto simp: Let_def split: prod.splits)
    note IH = Cons.IH [OF rest(1) r(1) a(1) paced'(1)]
    have "fst ` set (wt_jobs u) = fst ` set (wt_jobs wt)" using r(7) by (metis set_map)
    then show ?thesis using IH paced'(2) r(7,9) unfolding rest(2,3) by auto
  qed
qed simp

text \<open>
  C28. A wait that returns has an outcome for every job it was given: each one, found or not, has
  settled and has been announced exactly once. Without a fixed interval it asks no more often than
  every two seconds and sleeps no longer than thirty between rounds.
\<close>

theorem wait_settles_and_tells_once:
  assumes "distinct (map fst placed)"
    and "block interval ros (start_watch patient prefix placed) = (Some t, ds, told)"
  shows "distinct told \<and> set told = fst ` set placed \<and> fst ` set (wt_jobs t) = fst ` set placed \<and>
    (\<forall>w \<in> snd ` set (wt_jobs t). watched_settled w) \<and>
    (interval = None \<longrightarrow> (\<forall>d \<in> set ds. 2 \<le> d \<and> d \<le> 30))"
proof -
  let ?wt = "start_watch patient prefix placed"
  have new: "wt_announced ?wt = []" by (simp add: start_watch_def new_watch_def Let_def)
  then have "announced_ok ?wt" by (simp add: announced_ok_def)
  moreover have "paced interval (case interval of None \<Rightarrow> FIRST_INTERVAL_S | Some d \<Rightarrow> d)"
    by (simp add: paced_def FIRST_INTERVAL_S_def MAX_INTERVAL_S_def split: option.splits)
  ultimately have spec: "distinct ([] @ told) \<and> set ([] @ told) = fst ` set (wt_jobs ?wt) \<and>
    map fst (wt_jobs t) = map fst (wt_jobs ?wt) \<and> pending t = [] \<and> (\<forall>d \<in> set ds. paced interval d)"
    using block_from_spec [OF assms(2) [unfolded block_def] watching_start [OF assms(1)]] unfolding new by blast
  have "\<forall>w \<in> snd ` set (wt_jobs t). watched_settled w" using spec by (auto simp: pending_def filter_empty_conv)
  moreover have "interval = None \<longrightarrow> (\<forall>d \<in> set ds. 2 \<le> d \<and> d \<le> 30)"
    using spec by (auto simp: paced_def FIRST_INTERVAL_S_def MAX_INTERVAL_S_def)
  ultimately show ?thesis using spec start_ids [OF assms(1), of patient prefix] by (metis append_Nil set_map)
qed

text \<open>One host that answers with a job running and then succeeded, and one id no host has.\<close>

definition demo_placed :: "(job_id \<times> location) list" where
  "demo_placed = [(''j1'', Located ''box'' True None), (''j2'', Unlocated True ''no host has job j2'')]"

definition demo_round :: "string \<Rightarrow> round_input" where
  "demo_round status =
     \<lparr>ro_asked = (\<lambda>h. Answers [\<lparr>jv_job_id = ''j1'', jv_status = status\<rparr>] True), ro_has_s3 = True, ro_mirror = (\<lambda>j. None), ro_now = (\<lambda>h. 10)\<rparr>"

theorem wait_settles_and_tells_once_witness:
  "set (snd (snd (block None [demo_round ''running'', demo_round ''succeeded''] (start_watch True (\<lambda>j. None) demo_placed)))) = {''j1'', ''j2''}"
proof -
  let ?b = "block None [demo_round ''running'', demo_round ''succeeded''] (start_watch True (\<lambda>j. None) demo_placed)"
  obtain r ds told where b: "?b = (r, ds, told)" by (metis prod_cases3)
  have "fst ?b \<noteq> None" by code_simp
  then obtain t where "r = Some t" using b by auto
  moreover have "distinct (map fst demo_placed)" "fst ` set demo_placed = {''j1'', ''j2''}" by (simp_all add: demo_placed_def)
  ultimately show ?thesis using wait_settles_and_tells_once [of demo_placed None _ True "\<lambda>j. None" t ds told] b by simp
qed

text \<open>When the mirror may be believed: the host is gone, or a patient wait has been in trouble for the grace.\<close>

definition mirror_is_due :: "round_input \<Rightarrow> watch \<Rightarrow> watched \<Rightarrow> bool" where
  "mirror_is_due ro wt w \<longleftrightarrow>
     map_of (wt_gone wt) (wa_host w) \<noteq> None \<or> (\<exists>why. ro_asked ro (wa_host w) = Gone why) \<or>
     (wt_patient wt \<and> (\<exists>s why. map_of (wt_trouble wt) (wa_host w) = Some (s, why) \<and> ro_now ro (wa_host w) - s \<ge> TROUBLE_GRACE_S))"

lemma give_up_finished:
  assumes "watched_finished (give_up ro p why g s w)" "\<not> watched_settled w"
  shows "\<exists>v. mi_view (mirror_of ro w) = Some v \<and> wa_view (give_up ro p why g s w) = Some v"
    "wa_source (give_up ro p why g s w) = ''mirror''" "g \<or> p"
  using assms
  by (auto simp: give_up_def Let_def from_mirror_def mirror_of_def watched_finished_def watched_settled_def
      watched_status_def split: if_splits option.splits)

lemma give_up_believes:
  assumes "watched_finished (give_up ro (wt_patient wt) why g s w)" "\<not> watched_settled w"
    and "g \<Longrightarrow> map_of (wt_gone wt) (wa_host w) \<noteq> None \<or> (\<exists>why. ro_asked ro (wa_host w) = Gone why)"
    and "\<not> g \<Longrightarrow> wt_patient wt \<Longrightarrow> out_of_patience ro wt (wa_host w)"
  shows "\<exists>v. mi_view (mirror_of ro w) = Some v \<and> wa_view (give_up ro (wt_patient wt) why g s w) = Some v \<and>
    wa_source (give_up ro (wt_patient wt) why g s w) = ''mirror'' \<and> mirror_is_due ro wt w"
proof -
  note up = give_up_finished [OF assms(1,2)]
  have "mirror_is_due ro wt w"
    using assms(3,4) up(3) unfolding mirror_is_due_def
    by (cases g; cases "map_of (wt_trouble wt) (wa_host w)") (auto simp: out_of_patience_def)
  then show ?thesis using up by blast
qed

lemma poll_job_believes:
  assumes open': "\<not> watched_settled w" and fin: "watched_finished (poll_job ro wt w)"
  shows "(\<exists>vs alive v. ro_asked ro (wa_host w) = Answers vs alive \<and> view_of vs (wa_job_id w) = Some v \<and>
      wa_view (poll_job ro wt w) = Some v) \<or>
    (\<exists>v. mi_view (mirror_of ro w) = Some v \<and> wa_view (poll_job ro wt w) = Some v \<and>
      wa_source (poll_job ro wt w) = ''mirror'' \<and> mirror_is_due ro wt w)"
proof (cases "map_of (wt_gone wt) (wa_host w)")
  case (Some why)
  then have "poll_job ro wt w = give_up ro (wt_patient wt) why True ''unaskable'' w" by (simp add: poll_job_def)
  then show ?thesis using give_up_believes [of ro wt why True "''unaskable''" w] fin open' Some by simp
next
  case None
  have not_yet: "\<not> watched_finished w" using open' by (simp add: watched_settled_def)
  show ?thesis
  proof (cases "ro_asked ro (wa_host w)")
    case (Gone why)
    then have "poll_job ro wt w = give_up ro (wt_patient wt) why True ''unaskable'' w" using None by (simp add: poll_job_def)
    then show ?thesis using give_up_believes [of ro wt why True "''unaskable''" w] fin open' Gone by simp
  next
    case (Unaskable why)
    then have "poll_job ro wt w = give_up ro (wt_patient wt) why False ''unaskable'' w \<and> out_of_patience ro wt (wa_host w)"
      using None fin not_yet by (auto simp: poll_job_def Let_def split: if_splits)
    then show ?thesis using give_up_believes [of ro wt why False "''unaskable''" w] fin open' by simp
  next
    case (Answers vs alive)
    then have view: "poll_job ro wt w = view_job ro (wt_patient wt) (wa_host w) vs w" using None by (simp add: poll_job_def)
    show ?thesis
    proof (cases "view_of vs (wa_job_id w)")
      case (Some v)
      then show ?thesis using view Answers by (simp add: view_job_def)
    next
      case None
      then have "poll_job ro wt w = give_up ro (wt_patient wt) (''no longer knows job '' @ wa_job_id w) False ''answered'' w \<and> \<not> wt_patient wt"
        using view not_yet fin by (auto simp: view_job_def watched_finished_def watched_status_def split: if_splits)
      then show ?thesis
        using give_up_believes [of ro wt "''no longer knows job '' @ wa_job_id w" False "''answered''" w] fin open' by simp
    qed
  qed
qed


definition gone_round :: round_input where
  "gone_round = (demo_round [])\<lparr>ro_asked := (\<lambda>h. Gone ''pod terminated''),
     ro_mirror := (\<lambda>j. Some \<lparr>jv_job_id = j, jv_status = ''succeeded''\<rparr>)\<rparr>"

definition demo_watch :: watch where
  "demo_watch = start_watch True (\<lambda>j. Some ''s3://b'') [(''j1'', Located ''box'' True None)]"

lemma demo_watch_job:
  "map_of (wt_jobs demo_watch) ''j1'' = Some (new_watched ''j1'' ''box'' (Some ''s3://b''))" "watching demo_watch"
  by (code_simp, simp add: demo_watch_def watching_start)


section \<open>A host that does not answer\<close>

lemma unaskable_trouble:
  assumes wf: "watching wt" and j: "map_of (wt_jobs wt) j = Some w" "\<not> watched_settled w"
    and host: "map_of (wt_gone wt) (wa_host w) = None" "ro_asked ro (wa_host w) = Unaskable why"
    and run: "poll_round ro wt = (settled, t)"
  shows "map_of (wt_trouble t) (wa_host w) =
    Some (case map_of (wt_trouble wt) (wa_host w) of Some (s, _) \<Rightarrow> s | None \<Rightarrow> ro_now ro (wa_host w), why)"
proof -
  let ?n = "wa_host w"
  obtain js where js: "map_of (wt_by_host wt) ?n = Some js" "j \<in> set js" using watching_placed [OF wf j] by blast
  then obtain a b where ns: "map fst (wt_by_host wt) = a @ ?n # b"
    by (metis fst_conv image_eqI list.set_map map_of_SomeD split_list)
  have dist: "distinct (a @ ?n # b)" using wf ns by (simp add: watching_def)
  let ?u = "foldl (poll_host ro) wt a" and ?v = "poll_host ro (foldl (poll_host ro) wt a) ?n"
  have u: "watching ?u" "same_watch wt ?u" "map_of (wt_jobs ?u) j = Some w" "map_of (wt_trouble ?u) ?n = map_of (wt_trouble wt) ?n"
    using poll_hosts_jobs [OF wf, of a, where ro = ro] dist j(1) by (simp_all add: moved_def)
  have "wt_by_host ?u = wt_by_host wt" using u(2) by (simp add: same_watch_def)
  then have "j \<in> set (pending_on ?n ?u)" using js j(2) job_in_Some [OF u(3)] by (simp add: pending_on_def)
  then have pend: "pending_on ?n ?u \<noteq> []" by auto
  have v: "?v = trouble_with ro ?n (pending_on ?n ?u) why False ''unaskable'' ?u"
    using pend host u(2) by (simp add: poll_host_def same_watch_def)
  have known: "distinct (pending_on ?n ?u)" "\<forall>i \<in> set (pending_on ?n ?u). \<exists>w. map_of (wt_jobs ?u) i = Some w \<and> wa_job_id w = i"
    using pending_known [OF u(1)] by blast+
  have tr: "map_of (wt_trouble ?v) ?n = Some (case map_of (wt_trouble wt) ?n of Some (s, _) \<Rightarrow> s | None \<Rightarrow> ro_now ro ?n, why)"
    using trouble_with_jobs [OF known, where name = ?n and ro = ro and why = why and gone = False and state = "''unaskable''"]
    unfolding v [symmetric] u(4) by (simp add: update_conv')
  have vw: "watching ?v"
    using poll_hosts_jobs [OF wf, of "a @ [?n]", where ro = ro] dist by simp
  have "map_of (wt_trouble (foldl (poll_host ro) ?v b)) ?n = map_of (wt_trouble ?v) ?n"
    using poll_hosts_jobs [OF vw, of b, where ro = ro] dist by simp
  moreover have "wt_trouble t = wt_trouble (foldl (poll_host ro) ?v b)"
    using run by (auto simp: poll_round_def Let_def ns)
  ultimately show ?thesis using tr by simp
qed

definition rounds :: "round_input list \<Rightarrow> watch \<Rightarrow> watch" where
  "rounds ros wt = foldl (\<lambda>t ro. snd (poll_round ro t)) wt ros"

lemma settled_stays:
  "watching wt \<Longrightarrow> map_of (wt_jobs wt) j = Some w \<Longrightarrow> watched_settled w \<Longrightarrow> map_of (wt_jobs (rounds ros wt)) j = Some w"
proof (induction ros arbitrary: wt)
  case (Cons ro ros)
  obtain s t where run: "poll_round ro wt = (s, t)" by fastforce
  note r = poll_round_jobs [OF Cons.prems(1) run]
  have "map_of (wt_jobs t) j = Some w" using r(6) Cons.prems(2,3) by (simp add: after_round_def)
  then show ?case using Cons.IH [OF r(1)] Cons.prems(3) run by (simp add: rounds_def)
qed (simp add: rounds_def)

text \<open>
  A host that stops answering does not hang a wait. If a host cannot be asked in any round from
  some round on, then once a round comes five minutes after the first of them every job on it has
  settled: from the mirror if that has its end, and with an error otherwise.
\<close>

theorem silent_host_is_given_up:
  assumes "watching wt" "map_of (wt_jobs wt) j = Some w" "map_of (wt_gone wt) (wa_host w) = None"
    and "map_of (wt_trouble wt) (wa_host w) = None"
    and "\<forall>r \<in> set (ro # ros @ [ro']). \<exists>why. ro_asked r (wa_host w) = Unaskable why"
    and "ro_now ro' (wa_host w) - ro_now ro (wa_host w) \<ge> TROUBLE_GRACE_S"
  shows "\<exists>w'. map_of (wt_jobs (rounds (ro # ros @ [ro']) wt)) j = Some w' \<and> watched_settled w'"
proof -
  let ?n = "wa_host w" and ?t0 = "ro_now ro (wa_host w)"
  have wait: "\<exists>w'. map_of (wt_jobs (rounds (rs @ [ro']) u)) j = Some w' \<and> watched_settled w'"
    if "watching u" "map_of (wt_jobs u) j = Some v" "wa_host v = ?n" "map_of (wt_gone u) ?n = None"
      "\<not> watched_settled v \<longrightarrow> (\<exists>y. map_of (wt_trouble u) ?n = Some (?t0, y))" "set rs \<subseteq> set ros" for u v rs
    using that
  proof (induction rs arbitrary: u v)
    case Nil
    obtain s t where run: "poll_round ro' u = (s, t)" by fastforce
    note r = poll_round_jobs [OF Nil.prems(1) run]
    obtain why where why: "ro_asked ro' ?n = Unaskable why" using assms(5) by auto
    have "watched_settled (after_round ro' u v)"
    proof (cases "watched_settled v")
      case False
      then have "out_of_patience ro' u ?n" using Nil.prems(5) assms(6) by (auto simp: out_of_patience_def)
      then show ?thesis using False Nil.prems(3,4) why by (simp add: after_round_def poll_job_def give_up_settles)
    qed (simp add: after_round_def)
    then show ?case using r(6) Nil.prems(2) run by (simp add: rounds_def)
  next
    case (Cons q rs)
    obtain s t where run: "poll_round q u = (s, t)" by fastforce
    note r = poll_round_jobs [OF Cons.prems(1) run]
    obtain why where why: "ro_asked q ?n = Unaskable why" using assms(5) Cons.prems(6) by auto
    let ?v = "after_round q u v"
    have "\<exists>y. map_of (wt_trouble t) ?n = Some (?t0, y)" if "\<not> watched_settled v"
      using unaskable_trouble [OF Cons.prems(1,2) that _ _ run] Cons.prems(3-5) why that by auto
    moreover have "\<not> watched_settled ?v \<Longrightarrow> \<not> watched_settled v" by (auto simp: after_round_def split: if_splits)
    ultimately have "\<exists>w'. map_of (wt_jobs (rounds (rs @ [ro']) t)) j = Some w' \<and> watched_settled w'"
      using Cons.IH [OF r(1), of ?v] r(3,6) Cons.prems(2-4,6) by auto
    then show ?case using run by (simp add: rounds_def)
  qed
  obtain s t where run: "poll_round ro wt = (s, t)" by fastforce
  note r = poll_round_jobs [OF assms(1) run]
  obtain why where why: "ro_asked ro ?n = Unaskable why" using assms(5) by auto
  let ?v = "after_round ro wt w"
  have "\<exists>y. map_of (wt_trouble t) ?n = Some (?t0, y)" if "\<not> watched_settled w"
    using unaskable_trouble [OF assms(1,2) that assms(3) why run] assms(4) by simp
  moreover have "\<not> watched_settled ?v \<Longrightarrow> \<not> watched_settled w" by (auto simp: after_round_def split: if_splits)
  ultimately have "\<exists>w'. map_of (wt_jobs (rounds (ros @ [ro']) t)) j = Some w' \<and> watched_settled w'"
    using wait [OF r(1), of ?v ros] r(3,6) assms(2,3) by auto
  then show ?thesis using run by (simp add: rounds_def)
qed

definition silent_round :: "seconds \<Rightarrow> round_input" where
  "silent_round now = (demo_round [])\<lparr>ro_asked := (\<lambda>h. Unaskable ''ssh timed out''), ro_now := (\<lambda>h. now)\<rparr>"

theorem silent_host_is_given_up_witness:
  "\<exists>w'. map_of (wt_jobs (rounds [silent_round 0, silent_round 100, silent_round 300] demo_watch)) ''j1'' = Some w' \<and> watched_settled w'"
proof -
  have "map_of (wt_gone demo_watch) ''box'' = None" "map_of (wt_trouble demo_watch) ''box'' = None" by code_simp+
  then show ?thesis
    using silent_host_is_given_up [OF demo_watch_job(2,1), of "silent_round 0" "[silent_round 100]" "silent_round 300"]
    by (simp add: new_watched_def silent_round_def TROUBLE_GRACE_S_def)
qed

section \<open>A job its host no longer has\<close>

definition forgets :: "round_input \<Rightarrow> string \<Rightarrow> job_id \<Rightarrow> bool" where
  "forgets ro host j \<longleftrightarrow> (case ro_asked ro host of Answers vs _ \<Rightarrow> view_of vs j = None | _ \<Rightarrow> False)"

lemma forgotten_stays:
  assumes "watching wt" "wt_patient wt" "map_of (wt_jobs wt) j = Some w" "wa_seen w" "\<not> watched_settled w"
    "map_of (wt_gone wt) (wa_host w) = None" "forgets ro (wa_host w) j" "poll_round ro wt = (settled, t)"
  shows "map_of (wt_jobs t) j = Some w"
proof -
  have "poll_job ro wt w = w"
    using assms(2,4,6,7) watching_ids [OF assms(1,3)]
    by (simp add: poll_job_def view_job_def forgets_def Let_def split: asked.splits)
  then show ?thesis using poll_round_jobs(6) [OF assms(1,8)] assms(3,5) by (simp add: after_round_def)
qed

text \<open>
  C30. A wait on a job that its host no longer has does not end. \<open>_vanished\<close> treats a job that was seen
  and is gone as trouble, to be given up on after the grace period, but every answer of the host first
  clears the host's trouble, so the clock starts again in each round: however many rounds go by, and
  whatever the mirror holds, \<open>block\<close> has not returned.
\<close>

theorem forgotten_job_is_waited_for_ever:
  assumes "watching wt" "wt_patient wt" "map_of (wt_jobs wt) j = Some w" "wa_seen w" "\<not> watched_settled w"
    and "map_of (wt_gone wt) (wa_host w) = None" "\<forall>ro \<in> set ros. forgets ro (wa_host w) j"
  shows "fst (block interval ros wt) = None"
proof -
  have "fst (block_from interval delay ros wt) = None" for delay
    using assms
  proof (induction ros arbitrary: delay wt)
    case (Cons ro ros)
    obtain settled t where run: "poll_round ro wt = (settled, t)" by fastforce
    note r = poll_round_jobs [OF Cons.prems(1) run]
    have j: "map_of (wt_jobs t) j = Some w" using forgotten_stays [OF Cons.prems(1-6) _ run] Cons.prems(7) by simp
    have "pending t \<noteq> []"
      using r(1) j Cons.prems(5) by (auto simp: pending_Nil watching_def)
    moreover have "fst (block_from interval d ros t) = None" for d
      using Cons.IH [OF r(1) _ j Cons.prems(4,5)] Cons.prems(2,6,7) r(2,3) by simp
    ultimately show ?case using run by (simp add: Let_def split: prod.splits) (metis fst_conv)
  qed simp
  then show ?thesis by (simp add: block_def)
qed

definition purged_round :: round_input where
  "purged_round = (demo_round [])\<lparr>ro_asked := (\<lambda>h. Answers [] True)\<rparr>"

definition seen_watch :: watch where
  "seen_watch = snd (poll_round (demo_round ''running'') demo_watch)"

theorem forgotten_job_is_waited_for_ever_witness:
  "\<forall>n. fst (block None (replicate n purged_round) seen_watch) = None"
proof
  fix n
  obtain settled where run: "poll_round (demo_round ''running'') demo_watch = (settled, seen_watch)"
    unfolding seen_watch_def by (metis prod.collapse)
  note r = poll_round_jobs [OF demo_watch_job(2) run]
  have "map_option (\<lambda>w. (wa_seen w, watched_settled w, wa_host w)) (map_of (wt_jobs seen_watch) ''j1'') = Some (True, False, ''box'')"
    "wt_patient seen_watch" "map_of (wt_gone seen_watch) ''box'' = None" "forgets purged_round ''box'' ''j1''"
    by code_simp+
  then show "fst (block None (replicate n purged_round) seen_watch) = None"
    using forgotten_job_is_waited_for_ever [OF r(1), of "''j1''" _ "replicate n purged_round" None] by auto
qed

end
