(* ===== verification/Rental.thy ===== *)
theory Rental
  imports Jobs
begin

text \<open>
  \<open>src/gpuc/control/provision.py\<close> and the base class of \<open>providers/base.py\<close>: buying a pod, waiting for it
  and bringing it up, or giving the money back. The provider, the clock, ssh and the two steps that set a
  pod up (\<open>connect_host\<close>, \<open>bootstrap_host\<close>) are a record of operations on a state of the world that stays
  abstract (\<open>cloud\<close>). A provider call that fails is \<open>ProviderError\<close>; any other failure is a value of
  \<open>failure\<close>, with the classes the code tells apart. The loops that wait for a pod take fuel, and a run
  that has used it up has no result. A Ctrl-C may come while a pod is created or set up, and not while one is
  being terminated or looked for. Random names are given with the offers. The registry is its names and pods.
\<close>

section \<open>The provider\<close>

type_synonym pod_id = string

record pod =
  pd_id :: pod_id
  pd_name :: string
  pd_status :: string
  pd_direct :: bool

datatype failure =
    ProvisionError string
  | Unprovisionable string
  | ProviderError string
  | CreateRefused string
  | BootstrapError string
  | RemoteError string
  | TransportError bool string
  | LocalToolMissing string
  | SshUnusable string
  | OtherError string
  | Interrupted

record 's cloud =
  cl_prefix :: string
  cl_now :: "'s \<Rightarrow> seconds"
  cl_sleep :: "seconds \<Rightarrow> 's \<Rightarrow> 's"
  cl_terminate :: "pod_id \<Rightarrow> 's \<Rightarrow> string option \<times> 's"
  cl_get :: "pod_id \<Rightarrow> 's \<Rightarrow> (string + pod option) \<times> 's"
  cl_list :: "'s \<Rightarrow> (string + pod list) \<times> 's"
  cl_create :: "string \<Rightarrow> string \<Rightarrow> 's \<Rightarrow> (failure + pod) \<times> 's"
  cl_broken :: "pod_id \<Rightarrow> 's \<Rightarrow> bool \<times> 's"
  cl_ssh :: "pod \<Rightarrow> 's \<Rightarrow> failure option \<times> 's"
  cl_connect :: "pod \<Rightarrow> 's \<Rightarrow> failure option \<times> 's"
  cl_bootstrap :: "pod \<Rightarrow> 's \<Rightarrow> failure option \<times> 's"

definition dead_statuses :: "string list" where "dead_statuses = [''EXITED'', ''ERROR'', ''TERMINATED'']"
definition gone_statuses :: "string list" where "gone_statuses = [''TERMINATED'']"
definition running_statuses :: "string list" where "running_statuses = [''RUNNING'']"
definition terminate_attempts :: nat where "terminate_attempts = 3"
definition terminate_retry_s :: seconds where "terminate_retry_s = 5"
definition confirm_polls :: nat where "confirm_polls = 60"
definition confirm_poll_s :: seconds where "confirm_poll_s = 5"

definition is_dead :: "pod option \<Rightarrow> bool" where
  "is_dead p = (case p of None \<Rightarrow> True | Some x \<Rightarrow> pd_status x \<in> set dead_statuses)"

definition is_gone :: "pod option \<Rightarrow> bool" where
  "is_gone p = (case p of None \<Rightarrow> True | Some x \<Rightarrow> pd_status x \<in> set gone_statuses)"

definition is_up :: "pod option \<Rightarrow> bool" where
  "is_up p = (case p of None \<Rightarrow> False | Some x \<Rightarrow> pd_status x \<in> set running_statuses)"

definition owned_pods :: "pod list \<Rightarrow> string \<Rightarrow> pod list" where
  "owned_pods ps prefix = filter (\<lambda>p. starts_with (pd_name p) prefix) ps"

definition list_ours :: "'s cloud \<Rightarrow> 's \<Rightarrow> (string + pod list) \<times> 's" where
  "list_ours c s = (case cl_list c s of (r, s') \<Rightarrow> (map_sum id (\<lambda>ps. owned_pods ps (cl_prefix c)) r, s'))"

text \<open>\<open>terminate_confirmed\<close>: the call, tried again when it fails, and then the question whether the pod is gone.\<close>

fun try_terminate :: "'s cloud \<Rightarrow> pod_id \<Rightarrow> nat \<Rightarrow> 's \<Rightarrow> bool \<times> 's" where
  "try_terminate c i 0 s = (False, s)"
| "try_terminate c i (Suc n) s =
     (case cl_terminate c i s of
        (None, s') \<Rightarrow> (True, s')
      | (Some e, s') \<Rightarrow> if n = 0 then (False, s') else try_terminate c i n (cl_sleep c terminate_retry_s s'))"

fun confirm_gone :: "'s cloud \<Rightarrow> pod_id \<Rightarrow> nat \<Rightarrow> 's \<Rightarrow> bool \<times> 's" where
  "confirm_gone c i 0 s = (False, s)"
| "confirm_gone c i (Suc n) s =
     (case cl_get c i s of
        (Inl e, s') \<Rightarrow> confirm_gone c i n (cl_sleep c confirm_poll_s s')
      | (Inr p, s') \<Rightarrow> if is_gone p then (True, s') else confirm_gone c i n (cl_sleep c confirm_poll_s s'))"

definition terminate_confirmed :: "'s cloud \<Rightarrow> pod_id \<Rightarrow> 's \<Rightarrow> bool \<times> 's" where
  "terminate_confirmed c i s =
     (case try_terminate c i terminate_attempts s of
        (False, s') \<Rightarrow> (False, s')
      | (True, s') \<Rightarrow> confirm_gone c i confirm_polls s')"

section \<open>What a failure means\<close>

datatype verdict = KeepWaiting | NextOffer | Abort

fun recoverable :: "failure \<Rightarrow> bool" where
  "recoverable (OtherError m) = False"
| "recoverable Interrupted = False"
| "recoverable _ = True"

fun verdict_of :: "failure \<Rightarrow> bool \<Rightarrow> verdict" where
  "verdict_of (SshUnusable m) polling = Abort"
| "verdict_of (LocalToolMissing m) polling = Abort"
| "verdict_of (Unprovisionable m) polling = Abort"
| "verdict_of (TransportError misconfigured m) polling =
     (if misconfigured then Abort else if polling then KeepWaiting else NextOffer)"
| "verdict_of (ProviderError m) polling = (if polling then KeepWaiting else NextOffer)"
| "verdict_of (CreateRefused m) polling = (if polling then KeepWaiting else NextOffer)"
| "verdict_of e polling = (if recoverable e then NextOffer else Abort)"

section \<open>One offer\<close>

text \<open>The world, the registry and the pods that could not be ended: the list \<open>billing\<close> of the code.\<close>

record 's rental =
  rt_world :: 's
  rt_registry :: "(string \<times> pod_id) list"
  rt_billing :: "string list"

definition CEILING_MINUTES :: rat where "CEILING_MINUTES = 15"
definition POLL_INTERVAL_S :: seconds where "POLL_INTERVAL_S = 5"
definition CREATE_SWEEP_POLLS :: nat where "CREATE_SWEEP_POLLS = 6"
definition SSH_MAX_INTERVAL_S :: seconds where "SSH_MAX_INTERVAL_S = 15"
definition LOG_CHECK_INTERVAL_S :: seconds where "LOG_CHECK_INTERVAL_S = 30"

definition forget_host :: "string \<Rightarrow> pod_id \<Rightarrow> (string \<times> pod_id) list \<Rightarrow> (string \<times> pod_id) list" where
  "forget_host name i reg = (if map_of reg name = Some i then AList.delete name reg else reg)"

definition abandon :: "'s cloud \<Rightarrow> string \<Rightarrow> pod_id \<Rightarrow> 's rental \<Rightarrow> bool \<times> 's rental" where
  "abandon c name i r =
     (case terminate_confirmed c i (rt_world r) of
        (False, s) \<Rightarrow> (False, r\<lparr>rt_world := s\<rparr>)
      | (True, s) \<Rightarrow> (True, r\<lparr>rt_world := s, rt_registry := forget_host name i (rt_registry r)\<rparr>))"

definition id_unknown :: "string \<Rightarrow> string" where
  "id_unknown name = name @ '' (id unknown)''"

definition abandon_or_bill :: "'s cloud \<Rightarrow> string \<Rightarrow> 's rental \<Rightarrow> pod_id \<Rightarrow> 's rental" where
  "abandon_or_bill c name r i =
     (case abandon c name i r of (True, r') \<Rightarrow> r' | (False, r') \<Rightarrow> r'\<lparr>rt_billing := rt_billing r' @ [i]\<rparr>)"

text \<open>\<open>_sweep_failed_create\<close>: \<open>again\<close> is false in the first turn, \<open>listed\<close> once a listing has been read.\<close>

fun sweep :: "'s cloud \<Rightarrow> string \<Rightarrow> bool \<Rightarrow> bool \<Rightarrow> nat \<Rightarrow> 's rental \<Rightarrow> bool \<times> 's rental" where
  "sweep c name again listed 0 r =
     (if listed then (True, r) else (False, r\<lparr>rt_billing := rt_billing r @ [id_unknown name]\<rparr>))"
| "sweep c name again listed (Suc n) r =
     (let s = (if again then cl_sleep c POLL_INTERVAL_S (rt_world r) else rt_world r)
      in case list_ours c s of
           (Inl e, s') \<Rightarrow> sweep c name True listed n (r\<lparr>rt_world := s'\<rparr>)
         | (Inr ps, s') \<Rightarrow>
             let found = map pd_id (filter (\<lambda>p. pd_name p = name \<and> \<not> is_gone (Some p)) ps);
                 r' = foldl (abandon_or_bill c name) (r\<lparr>rt_world := s'\<rparr>) found
             in if found = [] then sweep c name True True n (r\<lparr>rt_world := s'\<rparr>)
                else (\<forall>i \<in> set found. i \<notin> set (rt_billing r'), r'))"

definition sweep_failed_create :: "'s cloud \<Rightarrow> string \<Rightarrow> 's rental \<Rightarrow> bool \<times> 's rental" where
  "sweep_failed_create c name r = sweep c name False False CREATE_SWEEP_POLLS r"

text \<open>\<open>_wait_for_ssh_direct\<close> and \<open>_wait_for_ssh\<close>; \<open>_ceiling\<close> is the test against the deadline.\<close>

fun wait_for_ssh_direct ::
  "'s cloud \<Rightarrow> pod_id \<Rightarrow> seconds \<Rightarrow> seconds \<Rightarrow> nat \<Rightarrow> 's \<Rightarrow> (failure + pod) option \<times> 's" where
  "wait_for_ssh_direct c i deadline next_log 0 s = (None, s)"
| "wait_for_ssh_direct c i deadline next_log (Suc n) s =
     (case cl_get c i s of
        (Inl e, s1) \<Rightarrow>
          if cl_now c s1 \<ge> deadline then (Some (Inl (Unprovisionable ''the ceiling passed'')), s1)
          else wait_for_ssh_direct c i deadline next_log n (cl_sleep c POLL_INTERVAL_S s1)
      | (Inr None, s1) \<Rightarrow> (Some (Inl (ProvisionError ''the pod vanished'')), s1)
      | (Inr (Some p), s1) \<Rightarrow>
          if is_dead (Some p) then (Some (Inl (ProvisionError ''the pod is dead'')), s1)
          else if pd_direct p then (Some (Inr p), s1)
          else
            let look = cl_now c s1 \<ge> next_log;
                (broken, s2) = (if look then cl_broken c i s1 else (False, s1));
                next_log' = (if look then cl_now c s1 + LOG_CHECK_INTERVAL_S else next_log)
            in if broken then (Some (Inl (ProvisionError ''the pod is on a broken host'')), s2)
               else if cl_now c s2 \<ge> deadline then (Some (Inl (Unprovisionable ''the ceiling passed'')), s2)
               else wait_for_ssh_direct c i deadline next_log' n (cl_sleep c POLL_INTERVAL_S s2))"

fun is_transport :: "failure \<Rightarrow> bool" where
  "is_transport (TransportError m t) = True"
| "is_transport (LocalToolMissing t) = True"
| "is_transport (SshUnusable t) = True"
| "is_transport _ = False"

fun wait_for_ssh :: "'s cloud \<Rightarrow> pod \<Rightarrow> seconds \<Rightarrow> seconds \<Rightarrow> nat \<Rightarrow> 's \<Rightarrow> failure option option \<times> 's" where
  "wait_for_ssh c p deadline interval 0 s = (None, s)"
| "wait_for_ssh c p deadline interval (Suc n) s =
     (case cl_ssh c p s of
        (None, s1) \<Rightarrow> (Some None, s1)
      | (Some e, s1) \<Rightarrow>
          if \<not> is_transport e then (Some (Some e), s1)
          else if verdict_of e True = Abort then (Some (Some (Unprovisionable ''ssh cannot work as configured'')), s1)
          else if cl_now c s1 \<ge> deadline then (Some (Some (Unprovisionable ''the ceiling passed'')), s1)
          else wait_for_ssh c p deadline (min (interval * (3 / 2)) SSH_MAX_INTERVAL_S) n (cl_sleep c interval s1))"

text \<open>
  From the pod to the host: the endpoint, ssh, the config and the registry, the bootstrap. The result is
  the pod as last read and what went wrong.
\<close>

definition set_up :: "'s cloud \<Rightarrow> string \<Rightarrow> pod \<Rightarrow> 's rental \<Rightarrow> failure option \<times> 's rental" where
  "set_up c name p r =
     (case cl_connect c p (rt_world r) of
        (Some e, s) \<Rightarrow> (Some e, r\<lparr>rt_world := s\<rparr>)
      | (None, s) \<Rightarrow>
          let r' = r\<lparr>rt_registry := AList.update name (pd_id p) (rt_registry r)\<rparr>
          in (case cl_bootstrap c p s of (e, s') \<Rightarrow> (e, r'\<lparr>rt_world := s'\<rparr>)))"

definition bring_up ::
  "'s cloud \<Rightarrow> string \<Rightarrow> pod \<Rightarrow> seconds \<Rightarrow> nat \<Rightarrow> 's rental \<Rightarrow> (pod \<times> failure option) option \<times> 's rental" where
  "bring_up c name p0 deadline fuel r =
     (case wait_for_ssh_direct c (pd_id p0) deadline (cl_now c (rt_world r) + LOG_CHECK_INTERVAL_S) fuel (rt_world r) of
        (None, s) \<Rightarrow> (None, r\<lparr>rt_world := s\<rparr>)
      | (Some (Inl e), s) \<Rightarrow> (Some (p0, Some e), r\<lparr>rt_world := s\<rparr>)
      | (Some (Inr p), s) \<Rightarrow>
          (case wait_for_ssh c p deadline 2 fuel s of
             (None, s') \<Rightarrow> (None, r\<lparr>rt_world := s'\<rparr>)
           | (Some (Some e), s') \<Rightarrow> (Some (p, Some e), r\<lparr>rt_world := s'\<rparr>)
           | (Some None, s') \<Rightarrow> (case set_up c name p (r\<lparr>rt_world := s'\<rparr>) of (e, r') \<Rightarrow> (Some (p, e), r'))))"

definition try_offer ::
  "'s cloud \<Rightarrow> string \<Rightarrow> string \<Rightarrow> seconds \<Rightarrow> nat \<Rightarrow> 's rental \<Rightarrow> (failure + pod) option \<times> 's rental" where
  "try_offer c offer name deadline fuel r =
     (case cl_create c offer name (rt_world r) of
        (Inl e, s) \<Rightarrow>
          (case e of
             CreateRefused m \<Rightarrow> (Some (Inl e), r\<lparr>rt_world := s\<rparr>)
           | _ \<Rightarrow>
               (case sweep_failed_create c name (r\<lparr>rt_world := s\<rparr>) of
                  (settled, r') \<Rightarrow>
                    (Some (Inl (if \<not> settled \<and> e \<noteq> Interrupted then Unprovisionable (name @ '' may still be billing'') else e)), r')))
      | (Inr p, s) \<Rightarrow>
          (case bring_up c name p deadline fuel (r\<lparr>rt_world := s\<rparr>) of
             (None, r') \<Rightarrow> (None, r')
           | (Some (q, None), r') \<Rightarrow> (Some (Inr q), r')
           | (Some (q, Some e), r') \<Rightarrow> (Some (Inl e), abandon_or_bill c name r' (pd_id q))))"

section \<open>Every offer\<close>

fun try_offers ::
  "'s cloud \<Rightarrow> seconds \<Rightarrow> nat \<Rightarrow> (string \<times> string) list \<Rightarrow> 's rental \<Rightarrow> (failure + pod) option \<times> 's rental" where
  "try_offers c deadline fuel [] r = (Some (Inl (ProvisionError ''every offer failed'')), r)"
| "try_offers c deadline fuel ((offer, name) # os) r =
     (if cl_now c (rt_world r) \<ge> deadline then try_offers c deadline fuel os r
      else (case try_offer c offer name deadline fuel r of
          (None, r') \<Rightarrow> (None, r')
        | (Some (Inr p), r') \<Rightarrow> (Some (Inr p), r')
        | (Some (Inl e), r') \<Rightarrow>
            if \<not> recoverable e then (Some (Inl e), r')
            else if verdict_of e False = Abort then (Some (Inl (ProvisionError ''provisioning stopped'')), r')
            else try_offers c deadline fuel os r'))"

definition provision ::
  "'s cloud \<Rightarrow> (string \<times> string) list \<Rightarrow> nat \<Rightarrow> 's rental \<Rightarrow> (failure + pod) option \<times> 's rental" where
  "provision c offers fuel r =
     (if offers = [] then (Some (Inl (ProvisionError ''no offers match'')), r)
      else try_offers c (cl_now c (rt_world r) + CEILING_MINUTES * 60) fuel offers r)"

section \<open>A provider that does what it says\<close>

text \<open>
  \<open>bills s\<close> are the pods that cost money in a state of the world. What the code relies on: no call but a create
  starts a bill; a pod the provider reports gone has stopped; a refused create made nothing; a create that
  failed otherwise made at most pods of the name it was given; and a listing that was read has every pod
  that bills.
\<close>

definition bill_nothing :: "'s cloud \<Rightarrow> ('s \<Rightarrow> pod_id set) \<Rightarrow> bool" where
  "bill_nothing c bills \<longleftrightarrow>
     (\<forall>i p s d. bills (cl_sleep c d s) \<subseteq> bills s \<and> bills (snd (cl_terminate c i s)) \<subseteq> bills s \<and>
        bills (snd (cl_broken c i s)) \<subseteq> bills s \<and> bills (snd (cl_ssh c p s)) \<subseteq> bills s \<and>
        bills (snd (cl_connect c p s)) \<subseteq> bills s \<and> bills (snd (cl_bootstrap c p s)) \<subseteq> bills s)"

definition gone_is_paid :: "'s cloud \<Rightarrow> ('s \<Rightarrow> pod_id set) \<Rightarrow> bool" where
  "gone_is_paid c bills \<longleftrightarrow>
     (\<forall>i s. case cl_get c i s of (a, s') \<Rightarrow> bills s' \<subseteq> bills s \<and>
        (case a of
           Inl e \<Rightarrow> True
         | Inr q \<Rightarrow> (is_gone q \<longrightarrow> i \<notin> bills s') \<and> (case q of None \<Rightarrow> True | Some x \<Rightarrow> pd_id x = i)))"

definition lists_all :: "'s cloud \<Rightarrow> ('s \<Rightarrow> pod_id set) \<Rightarrow> (pod_id \<Rightarrow> string) \<Rightarrow> bool" where
  "lists_all c bills named \<longleftrightarrow>
     (\<forall>s. case cl_list c s of (a, s') \<Rightarrow> bills s' \<subseteq> bills s \<and>
        (case a of
           Inl e \<Rightarrow> True
         | Inr qs \<Rightarrow> \<forall>i \<in> bills s'. \<exists>q \<in> set qs. pd_id q = i \<and> pd_name q = named i \<and> \<not> is_gone (Some q)))"

definition creates_one :: "'s cloud \<Rightarrow> ('s \<Rightarrow> pod_id set) \<Rightarrow> (pod_id \<Rightarrow> string) \<Rightarrow> bool" where
  "creates_one c bills named \<longleftrightarrow>
     (\<forall>offer name s. case cl_create c offer name s of (a, s') \<Rightarrow>
        (case a of
           Inr q \<Rightarrow> bills s' \<subseteq> insert (pd_id q) (bills s)
         | Inl e \<Rightarrow> (\<forall>i \<in> bills s' - bills s. named i = name \<and> (\<nexists>m. e = CreateRefused m))))"

definition honest :: "'s cloud \<Rightarrow> ('s \<Rightarrow> pod_id set) \<Rightarrow> (pod_id \<Rightarrow> string) \<Rightarrow> bool" where
  "honest c bills named \<longleftrightarrow>
     bill_nothing c bills \<and> gone_is_paid c bills \<and> lists_all c bills named \<and> creates_one c bills named"

text \<open>Every pod that bills now and did not before is one the report names.\<close>

definition told_of :: "(pod_id \<Rightarrow> string) \<Rightarrow> 's rental \<Rightarrow> pod_id set" where
  "told_of named r = {i. i \<in> set (rt_billing r) \<or> id_unknown (named i) \<in> set (rt_billing r)}"

lemma told_of_mono: "set (rt_billing r) \<subseteq> set (rt_billing r') \<Longrightarrow> told_of named r \<subseteq> told_of named r'"
  by (auto simp: told_of_def)

lemma honest_call:
  assumes "honest c bills named"
  shows "bills (cl_sleep c d s) \<subseteq> bills s"
    "cl_terminate c i s = (a, s') \<Longrightarrow> bills s' \<subseteq> bills s" "cl_broken c i s = (b, s') \<Longrightarrow> bills s' \<subseteq> bills s"
    "cl_ssh c p s = (e, s') \<Longrightarrow> bills s' \<subseteq> bills s" "cl_connect c p s = (e, s') \<Longrightarrow> bills s' \<subseteq> bills s"
    "cl_bootstrap c p s = (e, s') \<Longrightarrow> bills s' \<subseteq> bills s"
proof -
  have all: "bills (cl_sleep c d s) \<subseteq> bills s \<and> bills (snd (cl_terminate c i s)) \<subseteq> bills s \<and>
        bills (snd (cl_broken c i s)) \<subseteq> bills s \<and> bills (snd (cl_ssh c p s)) \<subseteq> bills s \<and>
        bills (snd (cl_connect c p s)) \<subseteq> bills s \<and> bills (snd (cl_bootstrap c p s)) \<subseteq> bills s"
    using assms unfolding honest_def bill_nothing_def by blast
  show "bills (cl_sleep c d s) \<subseteq> bills s"
    "cl_terminate c i s = (a, s') \<Longrightarrow> bills s' \<subseteq> bills s" "cl_broken c i s = (b, s') \<Longrightarrow> bills s' \<subseteq> bills s"
    "cl_ssh c p s = (e, s') \<Longrightarrow> bills s' \<subseteq> bills s" "cl_connect c p s = (e, s') \<Longrightarrow> bills s' \<subseteq> bills s"
    "cl_bootstrap c p s = (e, s') \<Longrightarrow> bills s' \<subseteq> bills s"
    using all by simp_all
qed

lemma honest_get:
  assumes "honest c bills named" "cl_get c i s = (a, s')"
  shows "bills s' \<subseteq> bills s" "a = Inr q \<Longrightarrow> is_gone q \<Longrightarrow> i \<notin> bills s'" "a = Inr (Some x) \<Longrightarrow> pd_id x = i"
proof -
  have "gone_is_paid c bills" using assms(1) by (simp add: honest_def)
  note all = this [unfolded gone_is_paid_def, THEN spec [of _ i], THEN spec [of _ s]]
  show "bills s' \<subseteq> bills s" "a = Inr q \<Longrightarrow> is_gone q \<Longrightarrow> i \<notin> bills s'" "a = Inr (Some x) \<Longrightarrow> pd_id x = i"
    using all assms(2) by simp_all
qed

lemma honest_list:
  assumes "honest c bills named" "cl_list c s = (a, s')"
  shows "bills s' \<subseteq> bills s"
    "a = Inr qs \<Longrightarrow> i \<in> bills s' \<Longrightarrow> \<exists>q \<in> set qs. pd_id q = i \<and> pd_name q = named i \<and> \<not> is_gone (Some q)"
proof -
  have "lists_all c bills named" using assms(1) by (simp add: honest_def)
  note all = this [unfolded lists_all_def, THEN spec [of _ s]]
  show "bills s' \<subseteq> bills s"
    "a = Inr qs \<Longrightarrow> i \<in> bills s' \<Longrightarrow> \<exists>q \<in> set qs. pd_id q = i \<and> pd_name q = named i \<and> \<not> is_gone (Some q)"
    using all assms(2) by simp_all
qed

lemma honest_create:
  assumes "honest c bills named" "cl_create c offer name s = (a, s')"
  shows "a = Inr q \<Longrightarrow> bills s' \<subseteq> insert (pd_id q) (bills s)"
    "a = Inl e \<Longrightarrow> i \<in> bills s' \<Longrightarrow> i \<in> bills s \<or> named i = name \<and> (\<nexists>m. e = CreateRefused m)"
proof -
  have "creates_one c bills named" using assms(1) by (simp add: honest_def)
  note all = this [unfolded creates_one_def, THEN spec [of _ offer], THEN spec [of _ name], THEN spec [of _ s]]
  show "a = Inr q \<Longrightarrow> bills s' \<subseteq> insert (pd_id q) (bills s)"
    "a = Inl e \<Longrightarrow> i \<in> bills s' \<Longrightarrow> i \<in> bills s \<or> named i = name \<and> (\<nexists>m. e = CreateRefused m)"
    using all assms(2) by auto
qed

lemma try_terminate_bills:
  assumes "honest c bills named"
  shows "try_terminate c i n s = (b, s') \<Longrightarrow> bills s' \<subseteq> bills s"
proof (induction n arbitrary: s)
  case (Suc n)
  obtain a s1 where one: "cl_terminate c i s = (a, s1)" by fastforce
  have "bills s1 \<subseteq> bills s" "bills (cl_sleep c terminate_retry_s s1) \<subseteq> bills s1"
    using honest_call(2) [OF assms one] honest_call(1) [OF assms] by blast+
  then show ?case using Suc one by (fastforce split: option.splits if_splits)
qed simp

lemma confirm_gone_bills:
  assumes "honest c bills named"
  shows "confirm_gone c i n s = (b, s') \<Longrightarrow> bills s' \<subseteq> bills s \<and> (b \<longrightarrow> i \<notin> bills s')"
proof (induction n arbitrary: s)
  case (Suc n)
  obtain a s1 where one: "cl_get c i s = (a, s1)" by fastforce
  note got = honest_get [OF assms one]
  have "bills (cl_sleep c confirm_poll_s s1) \<subseteq> bills s1" using honest_call(1) [OF assms] .
  then show ?case using Suc one got by (fastforce split: sum.splits if_splits)
qed simp

lemma terminate_confirmed_bills:
  assumes "honest c bills named" "terminate_confirmed c i s = (b, s')"
  shows "bills s' \<subseteq> bills s \<and> (b \<longrightarrow> i \<notin> bills s')"
  using assms(2) try_terminate_bills [OF assms(1)] confirm_gone_bills [OF assms(1)]
  by (fastforce simp: terminate_confirmed_def split: prod.splits bool.splits)

lemma abandon_or_bill_bills:
  fixes name :: string and i :: pod_id and r :: "'s rental" and c :: "'s cloud"
  assumes "honest c bills named"
  defines "r' \<equiv> abandon_or_bill c name r i"
  shows "bills (rt_world r') \<subseteq> bills (rt_world r) \<and> set (rt_billing r) \<subseteq> set (rt_billing r') \<and>
    (i \<in> bills (rt_world r') \<longrightarrow> i \<in> set (rt_billing r'))"
proof -
  obtain b s where t: "terminate_confirmed c i (rt_world r) = (b, s)" by fastforce
  show ?thesis
    using terminate_confirmed_bills [OF assms(1) t] t by (cases b) (auto simp: r'_def abandon_or_bill_def abandon_def)
qed

lemma abandon_all_bills:
  assumes "honest c bills named"
  shows "bills (rt_world (foldl (abandon_or_bill c name) r is)) \<subseteq> bills (rt_world r) \<and>
    set (rt_billing r) \<subseteq> set (rt_billing (foldl (abandon_or_bill c name) r is)) \<and>
    (\<forall>i \<in> set is. i \<in> bills (rt_world (foldl (abandon_or_bill c name) r is)) \<longrightarrow>
       i \<in> set (rt_billing (foldl (abandon_or_bill c name) r is)))"
proof (induction "is" arbitrary: r)
  case (Cons i "is")
  show ?case
    using Cons.IH [of "abandon_or_bill c name r i"] abandon_or_bill_bills [OF assms, where name = name and r = r and i = i] by auto
qed simp

lemma sweep_bills:
  assumes "honest c bills named" and name: "starts_with name (cl_prefix c)"
  shows "sweep c name again listed n r = (b, r') \<Longrightarrow> (listed \<longrightarrow> (\<forall>i \<in> bills (rt_world r). named i \<noteq> name)) \<Longrightarrow>
    bills (rt_world r') \<subseteq> bills (rt_world r) \<and> set (rt_billing r) \<subseteq> set (rt_billing r') \<and>
    (\<forall>i \<in> bills (rt_world r'). named i = name \<longrightarrow> i \<in> told_of named r')"
proof (induction n arbitrary: again listed r)
  case 0
  then show ?case by (cases listed) (auto simp: told_of_def)
next
  case (Suc n)
  let ?s = "if again then cl_sleep c POLL_INTERVAL_S (rt_world r) else rt_world r"
  have s: "bills ?s \<subseteq> bills (rt_world r)" using honest_call(1) [OF assms(1)] by simp
  obtain ps s' where list: "cl_list c ?s = (ps, s')" by fastforce
  note got = honest_list [OF assms(1) list]
  have less: "bills s' \<subseteq> bills (rt_world r)" using got s by blast
  show ?case
  proof (cases ps)
    case (Inl e)
    then have "sweep c name True listed n (r\<lparr>rt_world := s'\<rparr>) = (b, r')"
      using Suc.prems(1) list by (simp add: Let_def list_ours_def)
    moreover have "listed \<longrightarrow> (\<forall>i \<in> bills s'. named i \<noteq> name)" using Suc.prems(2) less by blast
    ultimately show ?thesis using Suc.IH [of True listed "r\<lparr>rt_world := s'\<rparr>"] less by fastforce
  next
    case (Inr qs)
    let ?found = "map pd_id (filter (\<lambda>p. pd_name p = name \<and> \<not> is_gone (Some p)) (owned_pods qs (cl_prefix c)))"
    have all: "i \<in> set ?found" if "i \<in> bills s'" "named i = name" for i
      using got Inr that name by (force simp: owned_pods_def)
    have run: "sweep c name again listed (Suc n) r =
       (if ?found = [] then sweep c name True True n (r\<lparr>rt_world := s'\<rparr>)
        else (\<forall>i \<in> set ?found. i \<notin> set (rt_billing (foldl (abandon_or_bill c name) (r\<lparr>rt_world := s'\<rparr>) ?found)),
              foldl (abandon_or_bill c name) (r\<lparr>rt_world := s'\<rparr>) ?found))"
      using list Inr by (simp add: Let_def list_ours_def)
    show ?thesis
    proof (cases "?found = []")
      case True
      then have none: "\<forall>i \<in> bills s'. named i \<noteq> name" using all by fastforce
      have "sweep c name True True n (r\<lparr>rt_world := s'\<rparr>) = (b, r')" using Suc.prems(1) run True by simp
      then show ?thesis using Suc.IH [of True True "r\<lparr>rt_world := s'\<rparr>"] none less by fastforce
    next
      case False
      then have r': "r' = foldl (abandon_or_bill c name) (r\<lparr>rt_world := s'\<rparr>) ?found"
        using Suc.prems(1) run by simp
      note ab = abandon_all_bills [OF assms(1), of name "r\<lparr>rt_world := s'\<rparr>" ?found, folded r']
      have "i \<in> told_of named r'" if "i \<in> bills (rt_world r')" "named i = name" for i
        using ab all [of i] that by (auto simp: told_of_def)
      moreover have "bills (rt_world r') \<subseteq> bills (rt_world r)" "set (rt_billing r) \<subseteq> set (rt_billing r')"
        using ab less by auto
      ultimately show ?thesis by blast
    qed
  qed
qed

lemma wait_direct_bills:
  assumes "honest c bills named"
  shows "wait_for_ssh_direct c i deadline lg n s = (res, s') \<Longrightarrow>
    bills s' \<subseteq> bills s \<and> (\<forall>p. res = Some (Inr p) \<longrightarrow> pd_id p = i)"
proof (induction n arbitrary: s lg)
  case (Suc n)
  obtain a s1 where one: "cl_get c i s = (a, s1)" by fastforce
  note got = honest_get [OF assms one]
  obtain b s2 where two: "(if cl_now c s1 \<ge> lg then cl_broken c i s1 else (False, s1)) = (b, s2)" by fastforce
  have s2: "bills s2 \<subseteq> bills s1" using two honest_call(3) [OF assms, of i s1] by (auto split: if_splits)
  have sl: "bills (cl_sleep c POLL_INTERVAL_S x) \<subseteq> bills x" for x using honest_call(1) [OF assms] .
  show ?case
  proof (cases a)
    case (Inl e)
    then show ?thesis using Suc one got sl [of s1] by (fastforce split: if_splits)
  next
    case (Inr q)
    show ?thesis
    proof (cases q)
      case None
      then show ?thesis using Suc.prems one got Inr by auto
    next
      case (Some p)
      let ?lg = "if cl_now c s1 \<ge> lg then cl_now c s1 + LOG_CHECK_INTERVAL_S else lg"
      have run: "wait_for_ssh_direct c i deadline lg (Suc n) s =
        (if is_dead (Some p) then (Some (Inl (ProvisionError ''the pod is dead'')), s1)
         else if pd_direct p then (Some (Inr p), s1)
         else if b then (Some (Inl (ProvisionError ''the pod is on a broken host'')), s2)
         else if cl_now c s2 \<ge> deadline then (Some (Inl (Unprovisionable ''the ceiling passed'')), s2)
         else wait_for_ssh_direct c i deadline ?lg n (cl_sleep c POLL_INTERVAL_S s2))"
        using two by (simp add: one Inr Some Let_def)
      have less: "bills s1 \<subseteq> bills s" "bills s2 \<subseteq> bills s" "bills (cl_sleep c POLL_INTERVAL_S s2) \<subseteq> bills s"
        using got(1) s2 sl [of s2] by blast+
      show ?thesis
      proof (cases "wait_for_ssh_direct c i deadline ?lg n (cl_sleep c POLL_INTERVAL_S s2) = (res, s')")
        case True
        then show ?thesis using Suc.IH [OF True] less by blast
      next
        case False
        then show ?thesis using Suc.prems run less got(3) Inr Some by (auto split: if_splits)
      qed
    qed
  qed
qed simp

lemma wait_ssh_bills:
  assumes "honest c bills named"
  shows "wait_for_ssh c p deadline iv n s = (res, s') \<Longrightarrow> bills s' \<subseteq> bills s"
proof (induction n arbitrary: s iv)
  case (Suc n)
  obtain a s1 where one: "cl_ssh c p s = (a, s1)" by fastforce
  have "bills s1 \<subseteq> bills s" "bills (cl_sleep c iv s1) \<subseteq> bills s1"
    using honest_call(4) [OF assms one] honest_call(1) [OF assms] by blast+
  then show ?case using Suc one by (fastforce split: option.splits if_splits)
qed simp

lemma set_up_bills:
  assumes h: "honest c bills named" and run: "set_up c name p r = (e, r')"
  shows "bills (rt_world r') \<subseteq> bills (rt_world r) \<and> rt_billing r' = rt_billing r"
proof -
  obtain a s1 where one: "cl_connect c p (rt_world r) = (a, s1)" by fastforce
  obtain b s2 where two: "cl_bootstrap c p s1 = (b, s2)" by fastforce
  have "bills s1 \<subseteq> bills (rt_world r)" "bills s2 \<subseteq> bills s1" using honest_call(5) [OF h one] honest_call(6) [OF h two] .
  then show ?thesis using run one two by (cases a) (auto simp: set_up_def Let_def)
qed

lemma bring_up_bills:
  assumes h: "honest c bills named" and run: "bring_up c name p0 deadline fuel r = (res, r')"
  shows "bills (rt_world r') \<subseteq> bills (rt_world r) \<and> rt_billing r' = rt_billing r \<and> (\<forall>q e. res = Some (q, e) \<longrightarrow> pd_id q = pd_id p0)"
proof -
  obtain a s1 where one: "wait_for_ssh_direct c (pd_id p0) deadline (cl_now c (rt_world r) + LOG_CHECK_INTERVAL_S) fuel (rt_world r) = (a, s1)"
    by fastforce
  note w1 = wait_direct_bills [OF h one]
  consider (early) "\<And>p. a \<noteq> Some (Inr p)" | (up) p where "a = Some (Inr p)" by blast
  then show ?thesis
  proof cases
    case early
    then show ?thesis using run one w1 by (auto simp: bring_up_def split: option.splits sum.splits)
  next
    case up
    obtain b s2 where two: "wait_for_ssh c p deadline 2 fuel s1 = (b, s2)" by fastforce
    have w2: "bills s2 \<subseteq> bills s1" by (rule wait_ssh_bills [OF h two])
    obtain e r2 where three: "set_up c name p (r\<lparr>rt_world := s2\<rparr>) = (e, r2)" by fastforce
    note w3 = set_up_bills [OF h three]
    have eq: "(res, r') = (case b of None \<Rightarrow> (None, r\<lparr>rt_world := s2\<rparr>)
       | Some (Some e) \<Rightarrow> (Some (p, Some e), r\<lparr>rt_world := s2\<rparr>) | Some None \<Rightarrow> (Some (p, e), r2))"
      using run one two three up by (simp add: bring_up_def split: option.splits)
    have "pd_id p = pd_id p0" using w1 up by blast
    moreover have "bills (rt_world r2) \<subseteq> bills (rt_world r)" "bills s2 \<subseteq> bills (rt_world r)" using w1 w2 w3 by auto
    ultimately show ?thesis using eq w3 by (auto split: option.splits)
  qed
qed

text \<open>What one offer leaves behind: pods named in the report, and the pod of the host it returned.\<close>

definition result_pod :: "(failure + pod) option \<Rightarrow> pod_id set" where
  "result_pod res = (case res of Some (Inr p) \<Rightarrow> {pd_id p} | _ \<Rightarrow> {})"

lemma try_offer_bills:
  assumes h: "honest c bills named" and name: "starts_with name (cl_prefix c)"
    and run: "try_offer c offer name deadline fuel r = (Some res, r')"
  shows "set (rt_billing r) \<subseteq> set (rt_billing r') \<and>
    bills (rt_world r') \<subseteq> bills (rt_world r) \<union> result_pod (Some res) \<union> told_of named r'"
proof -
  obtain a s where one: "cl_create c offer name (rt_world r) = (a, s)" by fastforce
  note cr = honest_create [OF h one]
  show ?thesis
  proof (cases a)
    case (Inl e)
    show ?thesis
    proof (cases "\<exists>m. e = CreateRefused m")
      case True
      then have "bills s \<subseteq> bills (rt_world r)" using cr(2) [OF Inl] by blast
      moreover have "r' = r\<lparr>rt_world := s\<rparr>" using True run one Inl by (auto simp: try_offer_def)
      ultimately show ?thesis by (simp add: le_supI1)
    next
      case False
      obtain b r1 where sw: "sweep c name False False CREATE_SWEEP_POLLS (r\<lparr>rt_world := s\<rparr>) = (b, r1)" by fastforce
      have r': "r' = r1" using run one Inl False sw
        by (auto simp: try_offer_def sweep_failed_create_def split: failure.splits prod.splits)
      note all = sweep_bills [OF h name sw]
      have "i \<in> bills (rt_world r) \<or> i \<in> told_of named r1" if "i \<in> bills (rt_world r1)" for i
        using all cr(2) [OF Inl, of i] that by auto
      then show ?thesis unfolding r' using all by auto
    qed
  next
    case (Inr p)
    obtain out r1 where two: "bring_up c name p deadline fuel (r\<lparr>rt_world := s\<rparr>) = (out, r1)" by fastforce
    note b = bring_up_bills [OF h two]
    have less: "bills (rt_world r1) \<subseteq> insert (pd_id p) (bills (rt_world r))" using b cr(1) [OF Inr] by auto
    consider (up) q where "out = Some (q, None)" | (down) q e where "out = Some (q, Some e)"
      using run one Inr two by (cases out) (auto simp: try_offer_def split: option.splits)
    then show ?thesis
    proof cases
      case up
      then have "res = Inr q" "r' = r1" using run one Inr two by (simp_all add: try_offer_def)
      moreover have "pd_id q = pd_id p" using b up by blast
      ultimately show ?thesis using less b by (simp add: result_pod_def) blast
    next
      case down
      then have eq: "r' = abandon_or_bill c name r1 (pd_id q)" using run one Inr two by (simp add: try_offer_def)
      have q: "pd_id q = pd_id p" using b down by blast
      note ab = abandon_or_bill_bills [OF h, where name = name and r = r1 and i = "pd_id q", folded eq]
      then have "i \<in> bills (rt_world r) \<or> i \<in> told_of named r'" if "i \<in> bills (rt_world r')" for i
        using less that q by (auto simp: told_of_def)
      then show ?thesis using ab b by auto
    qed
  qed
qed

lemma try_offers_bills:
  assumes h: "honest c bills named"
  shows "try_offers c deadline fuel os r = (Some res, r') \<Longrightarrow> \<forall>(offer, name) \<in> set os. starts_with name (cl_prefix c) \<Longrightarrow>
    set (rt_billing r) \<subseteq> set (rt_billing r') \<and>
    bills (rt_world r') \<subseteq> bills (rt_world r) \<union> result_pod (Some res) \<union> told_of named r'"
proof (induction os arbitrary: r)
  case (Cons x os)
  obtain offer name where x: "x = (offer, name)" by fastforce
  have name: "starts_with name (cl_prefix c)" and rest: "\<forall>(offer, name) \<in> set os. starts_with name (cl_prefix c)"
    using Cons.prems(2) x by auto
  show ?case
  proof (cases "cl_now c (rt_world r) \<ge> deadline")
    case True
    then show ?thesis using Cons.IH [of r] Cons.prems(1) rest x by simp
  next
    case False
    obtain out r1 where one: "try_offer c offer name deadline fuel r = (out, r1)" by fastforce
    obtain res1 where out: "out = Some res1" using Cons.prems(1) x False one by (cases out) auto
    note first = try_offer_bills [OF h name one [unfolded out]]
    consider (over) "(res, r') = (res1, r1) \<or> (isl res1 \<and> isl res \<and> r' = r1)" | (more) e where
      "res1 = Inl e" "try_offers c deadline fuel os r1 = (Some res, r')"
      using Cons.prems(1) x False one out by (cases res1) (auto split: if_splits)
    then show ?thesis
    proof cases
      case over
      then show ?thesis using first by (auto simp: result_pod_def split: sum.splits)
    next
      case more
      note later = Cons.IH [OF more(2) rest]
      have "told_of named r1 \<subseteq> told_of named r'" using later told_of_mono by blast
      then show ?thesis using first later more(1) by (auto simp: result_pod_def)
    qed
  qed
qed (auto simp: result_pod_def)

section \<open>It ends\<close>

text \<open>A sleep lets at least its time pass, and no call turns the clock back.\<close>

definition keeps_world :: "'s cloud \<Rightarrow> ('s \<Rightarrow> bool) \<Rightarrow> bool" where
  "keeps_world c I \<longleftrightarrow>
     (\<forall>i p s d. I s \<longrightarrow> d \<ge> 0 \<longrightarrow> I (cl_sleep c d s) \<and> I (snd (cl_terminate c i s)) \<and> I (snd (cl_get c i s)) \<and> I (snd (cl_list c s)) \<and>
        I (snd (cl_broken c i s)) \<and> I (snd (cl_ssh c p s)) \<and> I (snd (cl_connect c p s)) \<and> I (snd (cl_bootstrap c p s))) \<and>
     (\<forall>offer name s. I s \<longrightarrow> I (snd (cl_create c offer name s)))"

definition ticks :: "'s cloud \<Rightarrow> bool" where
  "ticks c \<longleftrightarrow> (\<forall>d s. cl_now c (cl_sleep c d s) \<ge> cl_now c s + d) \<and> (\<forall>t. keeps_world c (\<lambda>s. t \<le> cl_now c s))"

lemma kept_call:
  assumes "keeps_world c I" "I s"
  shows "d \<ge> 0 \<Longrightarrow> I (cl_sleep c d s)" "cl_terminate c i s = (x, s') \<Longrightarrow> I s'" "cl_get c i s = (a, s') \<Longrightarrow> I s'"
    "cl_list c s = (l, s') \<Longrightarrow> I s'" "cl_broken c i s = (b, s') \<Longrightarrow> I s'" "cl_ssh c p s = (e, s') \<Longrightarrow> I s'"
    "cl_connect c p s = (e, s') \<Longrightarrow> I s'" "cl_bootstrap c p s = (e, s') \<Longrightarrow> I s'" "cl_create c offer name s = (q, s') \<Longrightarrow> I s'"
proof -
  have all: "d \<ge> 0 \<longrightarrow> I (cl_sleep c d s)" "I (snd (cl_terminate c i s))" "I (snd (cl_get c i s))" "I (snd (cl_list c s))"
        "I (snd (cl_broken c i s))" "I (snd (cl_ssh c p s))" "I (snd (cl_connect c p s))" "I (snd (cl_bootstrap c p s))"
    "I (snd (cl_create c offer name s))"
    using assms unfolding keeps_world_def by (blast intro: order_refl)+
  show "d \<ge> 0 \<Longrightarrow> I (cl_sleep c d s)" "cl_terminate c i s = (x, s') \<Longrightarrow> I s'" "cl_get c i s = (a, s') \<Longrightarrow> I s'"
    "cl_list c s = (l, s') \<Longrightarrow> I s'" "cl_broken c i s = (b, s') \<Longrightarrow> I s'" "cl_ssh c p s = (e, s') \<Longrightarrow> I s'"
    "cl_connect c p s = (e, s') \<Longrightarrow> I s'" "cl_bootstrap c p s = (e, s') \<Longrightarrow> I s'" "cl_create c offer name s = (q, s') \<Longrightarrow> I s'"
    using all by simp_all
qed

lemma kept_terminate:
  assumes k: "keeps_world c I"
  shows "I s \<Longrightarrow> I (snd (try_terminate c i n s))" "I s \<Longrightarrow> I (snd (confirm_gone c i m s))"
    "I s \<Longrightarrow> I (snd (terminate_confirmed c i s))"
proof -
  show t: "I s \<Longrightarrow> I (snd (try_terminate c i n s))" for s n
  proof (induction n arbitrary: s)
    case (Suc n)
    obtain x s1 where one: "cl_terminate c i s = (x, s1)" by fastforce
    then have "I s1" "I (cl_sleep c terminate_retry_s s1)"
      using kept_call(1,2) [OF k] Suc.prems by (auto simp: terminate_retry_s_def)
    then show ?case using Suc.IH one by (simp split: option.splits)
  qed simp
  show g: "I s \<Longrightarrow> I (snd (confirm_gone c i n s))" for s n
  proof (induction n arbitrary: s)
    case (Suc n)
    obtain x s1 where one: "cl_get c i s = (x, s1)" by fastforce
    then have "I s1" "I (cl_sleep c confirm_poll_s s1)"
      using kept_call(1,3) [OF k] Suc.prems by (auto simp: confirm_poll_s_def)
    then show ?case using Suc.IH one by (simp split: sum.splits)
  qed simp
  show "I s \<Longrightarrow> I (snd (terminate_confirmed c i s))"
    using t [of s terminate_attempts] g by (auto simp: terminate_confirmed_def split: prod.splits bool.splits)
qed

lemma kept_abandon:
  assumes k: "keeps_world c I" and "I (rt_world r)"
  shows "I (rt_world (abandon_or_bill c name r i))"
  using kept_terminate(3) [OF k assms(2), of i]
  by (auto simp: abandon_or_bill_def abandon_def split: prod.splits bool.splits)

lemma kept_abandon_all:
  assumes k: "keeps_world c I"
  shows "I (rt_world r) \<Longrightarrow> I (rt_world (foldl (abandon_or_bill c name) r is))"
  using kept_abandon [OF k] by (induction "is" arbitrary: r) simp_all

lemma kept_sweep:
  assumes k: "keeps_world c I"
  shows "I (rt_world r) \<Longrightarrow> I (rt_world (snd (sweep c name again listed n r)))"
proof (induction n arbitrary: again listed r)
  case (Suc n)
  let ?s = "if again then cl_sleep c POLL_INTERVAL_S (rt_world r) else rt_world r"
  have s: "I ?s" using kept_call(1) [OF k Suc.prems] Suc.prems by (simp add: POLL_INTERVAL_S_def)
  obtain ps s' where list: "cl_list c ?s = (ps, s')" by fastforce
  then have "I (rt_world (r\<lparr>rt_world := s'\<rparr>))" using kept_call(4) [OF k s] by simp
  then show ?case using Suc.IH kept_abandon_all [OF k] list
    by (simp add: Let_def list_ours_def split: sum.splits)
qed simp

lemma ticks_sleep: "ticks c \<Longrightarrow> cl_now c (cl_sleep c d s) \<ge> cl_now c s + d"
  by (simp add: ticks_def)

lemma ticks_keeps: "ticks c \<Longrightarrow> keeps_world c (\<lambda>s. t \<le> cl_now c s)"
  by (simp add: ticks_def)

lemma ticks_later:
  assumes "ticks c"
  shows "cl_get c i s = (a, s') \<Longrightarrow> cl_now c s \<le> cl_now c s'" "cl_broken c i s = (b, s') \<Longrightarrow> cl_now c s \<le> cl_now c s'"
    "cl_ssh c p s = (e, s') \<Longrightarrow> cl_now c s \<le> cl_now c s'" "cl_create c offer name s = (q, s') \<Longrightarrow> cl_now c s \<le> cl_now c s'"
  using kept_call(3,5,6,9) [OF ticks_keeps [OF assms, of "cl_now c s"] order_refl] by blast+

lemma wait_direct_ends:
  assumes "ticks c"
  shows "deadline - cl_now c s < 5 * of_nat n \<Longrightarrow>
    \<exists>res s'. wait_for_ssh_direct c i deadline lg (Suc n) s = (Some res, s') \<and> cl_now c s' \<ge> cl_now c s"
proof (induction n arbitrary: s lg)
  case (Suc n)
  obtain a s1 where one: "cl_get c i s = (a, s1)" by fastforce
  have s1: "cl_now c s1 \<ge> cl_now c s" using ticks_later(1) [OF assms one] .
  obtain b s2 where two: "(if cl_now c s1 \<ge> lg then cl_broken c i s1 else (False, s1)) = (b, s2)" by fastforce
  have s2: "cl_now c s2 \<ge> cl_now c s1" using two ticks_later(2) [OF assms, of i s1] by (auto split: if_splits)
  have later: "deadline - cl_now c (cl_sleep c POLL_INTERVAL_S x) < 5 * of_nat n \<and> cl_now c (cl_sleep c POLL_INTERVAL_S x) \<ge> cl_now c s"
    if "cl_now c x \<ge> cl_now c s" for x
    using ticks_sleep [OF assms, of x POLL_INTERVAL_S] that Suc.prems by (simp add: POLL_INTERVAL_S_def)
  have next': "\<exists>res s'. wait_for_ssh_direct c i deadline lg' (Suc n) (cl_sleep c POLL_INTERVAL_S x) = (Some res, s') \<and> cl_now c s' \<ge> cl_now c s"
    if "cl_now c x \<ge> cl_now c s" for x lg'
    using Suc.IH [OF conjunct1 [OF later [OF that]], of lg'] later [OF that] by force
  show ?case
    using next' [of s1 lg] next' [of s2] s1 s2 one two
    unfolding wait_for_ssh_direct.simps(2) [of c i deadline lg "Suc n"]
    by (cases a) (auto simp: Let_def simp del: wait_for_ssh_direct.simps split: option.splits)
next
  case 0
  obtain a s1 where one: "cl_get c i s = (a, s1)" by fastforce
  have s1: "cl_now c s1 \<ge> cl_now c s" using ticks_later(1) [OF assms one] .
  obtain b s2 where two: "(if cl_now c s1 \<ge> lg then cl_broken c i s1 else (False, s1)) = (b, s2)" by fastforce
  have s2: "cl_now c s2 \<ge> cl_now c s1" using two ticks_later(2) [OF assms, of i s1] by (auto split: if_splits)
  show ?case using 0 one two s1 s2 by (cases a) (auto simp: Let_def split: option.splits)
qed

lemma wait_ssh_ends:
  assumes "ticks c"
  shows "deadline - cl_now c s < 2 * of_nat n \<Longrightarrow> 2 \<le> iv \<Longrightarrow>
    \<exists>res s'. wait_for_ssh c p deadline iv (Suc n) s = (Some res, s')"
proof (induction n arbitrary: s iv)
  case 0
  obtain a s1 where one: "cl_ssh c p s = (a, s1)" by fastforce
  then show ?case using 0 ticks_later(3) [OF assms one] by (auto split: option.splits)
next
  case (Suc n)
  obtain a s1 where one: "cl_ssh c p s = (a, s1)" by fastforce
  have "cl_now c s1 \<ge> cl_now c s" "cl_now c (cl_sleep c iv s1) \<ge> cl_now c s1 + iv"
    using ticks_later(3) [OF assms one] ticks_sleep [OF assms] .
  then have "deadline - cl_now c (cl_sleep c iv s1) < 2 * of_nat n" using Suc.prems by simp
  moreover have "2 \<le> min (iv * (3 / 2)) SSH_MAX_INTERVAL_S" using Suc.prems by (simp add: SSH_MAX_INTERVAL_S_def)
  ultimately have "\<exists>res s'. wait_for_ssh c p deadline (min (iv * (3 / 2)) SSH_MAX_INTERVAL_S) (Suc n) (cl_sleep c iv s1) = (Some res, s')"
    using Suc.IH by blast
  then show ?case
    using one unfolding wait_for_ssh.simps(2) [of c p deadline iv "Suc n"]
    by (cases a) (auto simp del: wait_for_ssh.simps)
qed

text \<open>Fuel for fifteen minutes of the shorter of the two waits' intervals.\<close>

definition enough_fuel :: nat where "enough_fuel = 452"

lemma try_offer_ends:
  assumes "ticks c" "deadline - cl_now c (rt_world r) \<le> 900"
  shows "\<exists>res r'. try_offer c offer name deadline enough_fuel r = (Some res, r')"
proof -
  obtain a s where one: "cl_create c offer name (rt_world r) = (a, s)" by fastforce
  have s: "deadline - cl_now c s \<le> 900" using ticks_later(4) [OF assms(1) one] assms(2) by simp
  have fuel: "enough_fuel = Suc 451" by (simp add: enough_fuel_def)
  show ?thesis
  proof (cases a)
    case (Inl e)
    then show ?thesis using one by (auto simp: try_offer_def split: failure.splits prod.splits)
  next
    case (Inr p)
    have lt: "deadline - cl_now c s < 5 * of_nat 451" using s by simp
    obtain b s1 where two: "wait_for_ssh_direct c (pd_id p) deadline (cl_now c s + LOG_CHECK_INTERVAL_S) enough_fuel s = (Some b, s1)"
      "cl_now c s1 \<ge> cl_now c s"
      using wait_direct_ends [OF assms(1) lt] unfolding fuel by blast
    have lt2: "deadline - cl_now c s1 < 2 * of_nat 451" using s two(2) by simp
    have "\<exists>d s2. wait_for_ssh c q deadline 2 enough_fuel s1 = (Some d, s2)" for q
      using wait_ssh_ends [OF assms(1) lt2, of 2 q] unfolding fuel by simp
    then obtain d s2 where three: "\<And>q. wait_for_ssh c q deadline 2 enough_fuel s1 = (Some (d q), s2 q)" by metis
    have "\<exists>x r1. bring_up c name p deadline enough_fuel (r\<lparr>rt_world := s\<rparr>) = (Some x, r1)"
    proof (cases b)
      case (Inl e)
      then show ?thesis using two by (simp add: bring_up_def)
    next
      case (Inr q)
      show ?thesis
        unfolding bring_up_def using two three [of q] Inr
        by (cases "d q") (auto split: prod.splits)
    qed
    then obtain q e r1 where four: "bring_up c name p deadline enough_fuel (r\<lparr>rt_world := s\<rparr>) = (Some (q, e), r1)" by force
    show ?thesis using one Inr four by (cases e) (simp_all add: try_offer_def)
  qed
qed

lemma kept_wait_direct:
  assumes k: "keeps_world c I"
  shows "I s \<Longrightarrow> I (snd (wait_for_ssh_direct c i deadline lg n s))"
proof (induction n arbitrary: s lg)
  case (Suc n)
  obtain a s1 where one: "cl_get c i s = (a, s1)" by fastforce
  have s1: "I s1" using kept_call(3) [OF k Suc.prems one] .
  obtain b s2 where two: "(if cl_now c s1 \<ge> lg then cl_broken c i s1 else (False, s1)) = (b, s2)" by fastforce
  have s2: "I s2" using two kept_call(5) [OF k s1] s1 by (auto split: if_splits)
  have "I (cl_sleep c POLL_INTERVAL_S x)" if "I x" for x using kept_call(1) [OF k that] by (simp add: POLL_INTERVAL_S_def)
  then have "I (snd (wait_for_ssh_direct c i deadline lg' n (cl_sleep c POLL_INTERVAL_S x)))" if "I x" for x lg'
    using Suc.IH that by blast
  then show ?case using one two s1 s2 by (cases a) (auto simp: Let_def split: option.splits)
qed simp

lemma kept_wait_ssh:
  assumes k: "keeps_world c I"
  shows "I s \<Longrightarrow> 0 \<le> iv \<Longrightarrow> I (snd (wait_for_ssh c p deadline iv n s))"
proof (induction n arbitrary: s iv)
  case (Suc n)
  obtain a s1 where one: "cl_ssh c p s = (a, s1)" by fastforce
  have s1: "I s1" using kept_call(6) [OF k Suc.prems(1) one] .
  have "I (cl_sleep c iv s1)" using kept_call(1) [OF k s1] Suc.prems(2) by blast
  moreover have "0 \<le> min (iv * (3 / 2)) SSH_MAX_INTERVAL_S" using Suc.prems(2) by (simp add: SSH_MAX_INTERVAL_S_def)
  ultimately have "I (snd (wait_for_ssh c p deadline (min (iv * (3 / 2)) SSH_MAX_INTERVAL_S) n (cl_sleep c iv s1)))"
    using Suc.IH by blast
  then show ?case using one s1 by (simp split: option.splits)
qed simp

lemma kept_set_up:
  assumes k: "keeps_world c I" and I: "I (rt_world r)"
  shows "I (rt_world (snd (set_up c name p r)))"
proof -
  obtain a s1 where one: "cl_connect c p (rt_world r) = (a, s1)" by fastforce
  have s1: "I s1" using kept_call(7) [OF k I one] .
  obtain b s2 where two: "cl_bootstrap c p s1 = (b, s2)" by fastforce
  show ?thesis using one two s1 kept_call(8) [OF k s1 two] by (simp add: set_up_def Let_def split: option.splits)
qed

lemma kept_bring_up:
  assumes k: "keeps_world c I" and I: "I (rt_world r)"
  shows "I (rt_world (snd (bring_up c name p0 deadline fuel r)))"
proof -
  obtain a s1 where one: "wait_for_ssh_direct c (pd_id p0) deadline (cl_now c (rt_world r) + LOG_CHECK_INTERVAL_S) fuel (rt_world r) = (a, s1)"
    by fastforce
  have s1: "I s1" using kept_wait_direct [OF k I] one by (metis snd_conv)
  have ssh: "I (snd (wait_for_ssh c p deadline 2 fuel s1))" for p using kept_wait_ssh [OF k s1] by simp
  have "I (rt_world (snd (set_up c name p (r\<lparr>rt_world := s\<rparr>))))" if "I s" for p s using kept_set_up [OF k] that by simp
  then have "I (rt_world (snd (case wait_for_ssh c p deadline 2 fuel s1 of
             (None, s') \<Rightarrow> (None, r\<lparr>rt_world := s'\<rparr>)
           | (Some (Some e), s') \<Rightarrow> (Some (p, Some e), r\<lparr>rt_world := s'\<rparr>)
           | (Some None, s') \<Rightarrow> (case set_up c name p (r\<lparr>rt_world := s'\<rparr>) of (e, r') \<Rightarrow> (Some (p, e), r')))))" for p
    using ssh [of p] by (auto split: prod.splits option.splits) (metis snd_conv)+
  then show ?thesis using s1 unfolding bring_up_def one by (auto split: option.splits sum.splits)
qed

lemma kept_try_offer:
  assumes k: "keeps_world c I" and I: "I (rt_world r)"
  shows "I (rt_world (snd (try_offer c offer name deadline fuel r)))"
proof -
  obtain a s where one: "cl_create c offer name (rt_world r) = (a, s)" by fastforce
  have s: "I (rt_world (r\<lparr>rt_world := s\<rparr>))" using kept_call(9) [OF k I one] by simp
  have sw: "I (rt_world (snd (sweep_failed_create c name (r\<lparr>rt_world := s\<rparr>))))"
    unfolding sweep_failed_create_def using kept_sweep [OF k s] .
  show ?thesis
  proof (cases a)
    case (Inl e)
    obtain b r2 where two: "sweep_failed_create c name (r\<lparr>rt_world := s\<rparr>) = (b, r2)" by fastforce
    show ?thesis using Inl one s sw two by (cases e) (simp_all add: try_offer_def)
  next
    case (Inr p)
    obtain out r1 where two: "bring_up c name p deadline fuel (r\<lparr>rt_world := s\<rparr>) = (out, r1)" by fastforce
    have r1: "I (rt_world r1)" using kept_bring_up [OF k s] two by (metis snd_conv)
    show ?thesis using Inr one two r1 kept_abandon [OF k r1]
      by (simp add: try_offer_def split: option.splits)
  qed
qed

lemma try_offers_end:
  assumes "ticks c"
  shows "t \<le> cl_now c (rt_world r) \<Longrightarrow> \<exists>res r'. try_offers c (t + 900) enough_fuel os r = (Some res, r')"
proof (induction os arbitrary: r)
  case (Cons x os)
  obtain offer name where x: "x = (offer, name)" by fastforce
  have "t + 900 - cl_now c (rt_world r) \<le> 900" using Cons.prems by simp
  then obtain res1 r1 where one: "try_offer c offer name (t + 900) enough_fuel r = (Some res1, r1)"
    using try_offer_ends [OF assms] by blast
  have "t \<le> cl_now c (rt_world r1)" using kept_try_offer [OF ticks_keeps [OF assms] Cons.prems] one by (metis snd_conv)
  then show ?case using Cons.IH [of r1] Cons.IH [of r] Cons.prems x one by (cases res1) simp_all
qed simp


section \<open>Two offers, and a first pod that fails its bootstrap\<close>

text \<open>The world is a clock and the pods that bill; a pod's id is its name. \<open>obeys\<close>: whether a terminate works.\<close>

definition demo_cloud :: "bool \<Rightarrow> (seconds \<times> string list) cloud" where
  "demo_cloud obeys =
     \<lparr>cl_prefix = ''g-'', cl_now = fst, cl_sleep = (\<lambda>d (t, live). (t + \<bar>d\<bar>, live)),
      cl_terminate = (\<lambda>i (t, live). if obeys then (None, (t, removeAll i live)) else (Some ''502'', (t, live))),
      cl_get = (\<lambda>i (t, live). (Inr (if i \<in> set live then Some \<lparr>pd_id = i, pd_name = i, pd_status = ''RUNNING'', pd_direct = True\<rparr> else None), (t, live))),
      cl_list = (\<lambda>(t, live). (Inr (map (\<lambda>i. \<lparr>pd_id = i, pd_name = i, pd_status = ''RUNNING'', pd_direct = True\<rparr>) live), (t, live))),
      cl_create = (\<lambda>offer name (t, live). (Inr \<lparr>pd_id = name, pd_name = name, pd_status = ''CREATED'', pd_direct = False\<rparr>, (t, name # live))),
      cl_broken = (\<lambda>i s. (False, s)), cl_ssh = (\<lambda>p s. (None, s)), cl_connect = (\<lambda>p s. (None, s)),
      cl_bootstrap = (\<lambda>p s. (if pd_id p = ''g-1'' then Some (BootstrapError ''disk'') else None, s))\<rparr>"

definition demo_offers :: "(string \<times> string) list" where
  "demo_offers = [(''A40'', ''g-1''), (''L40'', ''g-2'')]"

definition no_rental :: "(seconds \<times> string list) rental" where
  "no_rental = \<lparr>rt_world = (0, []), rt_registry = [], rt_billing = []\<rparr>"

lemma demo_cloud_honest: "honest (demo_cloud b) (\<lambda>s. set (snd s)) id"
  by (auto simp: honest_def bill_nothing_def gone_is_paid_def lists_all_def creates_one_def demo_cloud_def is_gone_def
      gone_statuses_def)

lemma demo_cloud_ticks: "ticks (demo_cloud b)"
  by (auto simp: ticks_def keeps_world_def demo_cloud_def)



end
