(* ===== verification/Status.thy ===== *)
theory Status
  imports Rental
begin

text \<open>
  What a client makes of a host: \<open>ask\<close> and \<open>rental_state\<close> of \<open>src/gpuc/control/remote.py\<close>, and the reading of
  a status document in \<open>src/gpuc/control/status.py\<close> (\<open>job_views\<close>, \<open>host_cards\<close>, \<open>parse_status\<close> and what a
  \<open>HostView\<close> says of its cards and its queue). The document is any JSON. Where Python raises on a value of
  the wrong type the result is a \<open>view_error\<close>; sorting end times that are not all text is one too, without
  saying which of those Python can order. A placement gives the wait as the host said it, neither
  rounded nor as a time of day. How a view is printed is left out.
\<close>

section \<open>Values read as untrusted\<close>

datatype view_error = NotIterable | NoNumber | Unordered

type_synonym 'a viewed = "view_error + 'a"

definition and_then :: "'a viewed \<Rightarrow> ('a \<Rightarrow> 'b viewed) \<Rightarrow> 'b viewed" where
  "and_then m f = (case m of Inl e \<Rightarrow> Inl e | Inr x \<Rightarrow> f x)"

lemma and_then_Inr [simp]: "and_then m f = Inr y \<longleftrightarrow> (\<exists>x. m = Inr x \<and> f x = Inr y)"
  by (simp add: and_then_def split: sum.splits)

text \<open>\<open>for x in value or []\<close>.\<close>

definition items :: "json \<Rightarrow> json list viewed" where
  "items v =
     (if \<not> py_bool v then Inr []
      else (case v of
          JList xs \<Rightarrow> Inr xs
        | JDict kvs \<Rightarrow> Inr (map (\<lambda>kv. JStr (fst kv)) kvs)
        | JStr s \<Rightarrow> Inr (map (\<lambda>c. JStr [c]) s)
        | _ \<Rightarrow> Inl NotIterable))"

definition view_float :: "json \<Rightarrow> pyfloat option viewed" where
  "view_float v =
     (case v of
        JInt i \<Rightarrow> (case float_of_int i of Inr f \<Rightarrow> Inr (Some f) | Inl e \<Rightarrow> Inl NoNumber)
      | JFloat f \<Rightarrow> Inr (Some f)
      | _ \<Rightarrow> Inr None)"

definition view_int :: "json \<Rightarrow> int option viewed" where
  "view_int v =
     and_then (view_float v) (\<lambda>f. case f of
       None \<Rightarrow> Inr None
     | Some x \<Rightarrow> (case py_int x of Some i \<Rightarrow> Inr (Some i) | None \<Rightarrow> Inl NoNumber))"

definition view_str :: "json \<Rightarrow> string option" where
  "view_str v = (case v of JStr s \<Rightarrow> Some s | _ \<Rightarrow> None)"

definition view_bool :: "json \<Rightarrow> bool option" where
  "view_bool v = (case v of JBool b \<Rightarrow> Some b | _ \<Rightarrow> None)"

definition str_dict :: "json \<Rightarrow> (string \<times> string) list" where
  "str_dict v = List.map_filter (\<lambda>(k, x). map_option (\<lambda>s. (k, s)) (view_str x)) (fields_of v)"

definition get_or :: "json \<Rightarrow> string \<Rightarrow> json \<Rightarrow> json" where
  "get_or d k dflt = (case map_of (fields_of d) k of Some v \<Rightarrow> v | None \<Rightarrow> dflt)"

definition is_dict :: "json \<Rightarrow> bool" where
  "is_dict v = (case v of JDict _ \<Rightarrow> True | _ \<Rightarrow> False)"

definition texts :: "json \<Rightarrow> string list viewed" where
  "texts v = map_sum id (List.map_filter view_str) (items v)"

text \<open>\<open>float(u)\<close> of a sample that is a number, booleans included.\<close>

fun samples :: "json list \<Rightarrow> pyfloat list viewed" where
  "samples [] = Inr []"
| "samples (x # xs) =
     and_then (case x of JBool b \<Rightarrow> Inr (Some (Fin (if b then 1 else 0))) | _ \<Rightarrow> view_float x) (\<lambda>f.
       map_sum id (\<lambda>fs. case f of Some y \<Rightarrow> y # fs | None \<Rightarrow> fs) (samples xs))"

definition upload_said :: "json \<Rightarrow> string option" where
  "upload_said u = (if is_dict u then view_str (get u ''error'') else None)"

section \<open>A job's row\<close>

record job_row =
  vr_job_id :: job_id
  vr_name :: json
  vr_status :: json
  vr_phase :: json
  vr_priority :: "int option"
  vr_gpus :: "json list"
  vr_gpus_requested :: "int option"
  vr_use_shared :: "bool option"
  vr_reason :: json
  vr_problems :: "string list"
  vr_upload_errors :: "string list"
  vr_exit_code :: json
  vr_attempt :: int
  vr_requeued_from :: "string option"
  vr_started_at :: json
  vr_ended_at :: json
  vr_util_recent :: "pyfloat list"
  vr_util_sum :: pyfloat
  vr_util_samples :: "int option"
  vr_progress_pct :: "pyfloat option"
  vr_eta :: "string option"
  vr_estimated_runtime_min :: "pyfloat option"
  vr_max_runtime_min :: "pyfloat option"
  vr_starts_in_s :: "pyfloat option"
  vr_starts_unknown :: "string option"
  vr_auto_preempt :: "bool option"
  vr_yields_to :: "string option"
  vr_progress_error :: "string option"
  vr_workdir_bytes :: "int option"
  vr_outputs_pending :: bool
  vr_outputs_lost :: bool
  vr_kept_outputs :: "string list"
  vr_kept_bytes :: "int option"
  vr_isolation :: json
  vr_outputs :: "json list"
  vr_wandb :: "(string \<times> string) list"

definition row_of :: "job_id \<Rightarrow> json \<Rightarrow> job_row viewed" where
  "row_of j e =
     and_then (view_int (get e ''priority'')) (\<lambda>priority.
     and_then (items (get e ''gpus'')) (\<lambda>gpus.
     and_then (view_int (get e ''gpus_requested'')) (\<lambda>requested.
     and_then (texts (get e ''problems'')) (\<lambda>problems.
     and_then (items (get e ''uploads'')) (\<lambda>uploads.
     and_then (view_int (get e ''attempt'')) (\<lambda>attempt.
     and_then (and_then (items (get e ''util_recent'')) samples) (\<lambda>recent.
     and_then (view_float (get e ''util_sum'')) (\<lambda>util_sum.
     and_then (view_int (get e ''util_samples'')) (\<lambda>util_samples.
     and_then (view_float (get e ''progress_pct'')) (\<lambda>pct.
     and_then (view_float (get e ''estimated_runtime_min'')) (\<lambda>estimate.
     and_then (view_float (get e ''max_runtime_min'')) (\<lambda>limit.
     and_then (view_float (get e ''starts_in_s'')) (\<lambda>starts.
     and_then (view_int (get e ''workdir_bytes'')) (\<lambda>workdir_bytes.
     and_then (texts (get e ''kept_outputs'')) (\<lambda>kept_paths.
     and_then (view_int (get e ''kept_bytes'')) (\<lambda>kept_bytes.
     and_then (items (get e ''outputs'')) (\<lambda>outs.
       Inr \<lparr>vr_job_id = j, vr_name = get_or e ''name'' (JStr []), vr_status = get_or e ''status'' (JStr ''queued''),
         vr_phase = get e ''phase'', vr_priority = priority, vr_gpus = gpus, vr_gpus_requested = requested,
         vr_use_shared = view_bool (get e ''use_shared''), vr_reason = get e ''reason'', vr_problems = problems,
         vr_upload_errors = List.map_filter upload_said uploads, vr_exit_code = get e ''exit_code'',
         vr_attempt = (case attempt of Some n \<Rightarrow> if n = 0 then 1 else n | None \<Rightarrow> 1),
         vr_requeued_from = view_str (get e ''requeued_from''), vr_started_at = get e ''started_at'',
         vr_ended_at = get e ''ended_at'', vr_util_recent = recent,
         vr_util_sum = (case util_sum of Some f \<Rightarrow> f | None \<Rightarrow> Fin 0), vr_util_samples = util_samples,
         vr_progress_pct = pct, vr_eta = view_str (get e ''eta''), vr_estimated_runtime_min = estimate,
         vr_max_runtime_min = limit, vr_starts_in_s = starts, vr_starts_unknown = view_str (get e ''starts_unknown''),
         vr_auto_preempt = view_bool (get e ''auto_preempt''), vr_yields_to = view_str (get e ''yields_to''),
         vr_progress_error = view_str (get e ''progress_error''), vr_workdir_bytes = workdir_bytes,
         vr_outputs_pending = py_bool (get e ''outputs_pending''), vr_outputs_lost = py_bool (get e ''outputs_lost''),
         vr_kept_outputs = kept_paths, vr_kept_bytes = kept_bytes, vr_isolation = get e ''isolation'',
         vr_outputs = filter is_dict outs, vr_wandb = str_dict (get e ''wandb'')\<rparr>)))))))))))))))))"

fun rows_of :: "json list \<Rightarrow> job_row list viewed" where
  "rows_of [] = Inr []"
| "rows_of (e # es) =
     (case if is_dict e then view_str (get e ''job_id'') else None of
        None \<Rightarrow> rows_of es
      | Some j \<Rightarrow> and_then (row_of j e) (\<lambda>r. map_sum id (\<lambda>rs. r # rs) (rows_of es)))"

definition end_key :: "job_row \<Rightarrow> string" where
  "end_key r = (case vr_ended_at r of JStr s \<Rightarrow> s | _ \<Rightarrow> [])"

definition by_end :: "job_row list \<Rightarrow> job_row list viewed" where
  "by_end rs =
     (if length rs \<le> 1 \<or> list_all (\<lambda>r. view_str (vr_ended_at r) \<noteq> None \<or> \<not> py_bool (vr_ended_at r)) rs
      then Inr (sorted_desc end_key rs) else Inl Unordered)"

definition is_running_row :: "job_row \<Rightarrow> bool" where "is_running_row r \<longleftrightarrow> vr_status r = JStr ''running''"
definition is_queued_row :: "job_row \<Rightarrow> bool" where "is_queued_row r \<longleftrightarrow> vr_status r = JStr ''queued''"

definition queue_row_key :: "job_row \<Rightarrow> int \<times> string" where
  "queue_row_key r = (case vr_priority r of Some p \<Rightarrow> p | None \<Rightarrow> 99, vr_job_id r)"

definition job_views :: "json \<Rightarrow> (job_row list \<times> job_row list \<times> job_row list) viewed" where
  "job_views payload =
     and_then (and_then (items (get payload ''jobs'')) rows_of) (\<lambda>rs.
       map_sum id (\<lambda>fin. (sort_key queue_row_key (filter is_queued_row rs), filter is_running_row rs, fin))
         (by_end (filter (\<lambda>r. \<not> is_running_row r \<and> \<not> is_queued_row r) rs)))"

section \<open>Cards\<close>

record card_view =
  cv_uuid :: uuid
  cv_index :: "int option"
  cv_shared :: bool
  cv_unused :: bool
  cv_memory_mib :: "pyfloat option"
  cv_utilization_pct :: "pyfloat option"

definition card_of :: "json \<Rightarrow> card_view option viewed" where
  "card_of raw =
     (case if is_dict raw then view_str (get raw ''uuid'') else None of
        None \<Rightarrow> Inr None
      | Some u \<Rightarrow>
          and_then (view_int (get raw ''index'')) (\<lambda>i.
          and_then (view_float (get raw ''memory_mib'')) (\<lambda>mem.
          and_then (view_float (get raw ''utilization_pct'')) (\<lambda>util.
            Inr (Some \<lparr>cv_uuid = u, cv_index = i, cv_shared = py_bool (get raw ''shared''),
              cv_unused = py_bool (get raw ''unused''), cv_memory_mib = mem, cv_utilization_pct = util\<rparr>)))))"

fun cards_of :: "json list \<Rightarrow> card_view list viewed" where
  "cards_of [] = Inr []"
| "cards_of (x # xs) =
     and_then (card_of x) (\<lambda>c. map_sum id (\<lambda>cs. case c of Some y \<Rightarrow> y # cs | None \<Rightarrow> cs) (cards_of xs))"

definition missing_of :: "json \<Rightarrow> (string \<times> bool) option" where
  "missing_of raw =
     (if is_dict raw then map_option (\<lambda>e. (e, py_bool (get raw ''shared''))) (view_str (get raw ''entry'')) else None)"

definition host_cards :: "json \<Rightarrow> (card_view list \<times> (string \<times> bool) list) viewed" where
  "host_cards payload =
     and_then (and_then (items (get payload ''cards'')) cards_of) (\<lambda>cs.
       map_sum id (\<lambda>ms. (cs, List.map_filter missing_of ms)) (items (get payload ''cards_missing'')))"

section \<open>Asking a host\<close>

record host_entry =
  he_name :: string
  he_rental :: "pod_id option"

datatype reply =
    Answered json "pod option" "string option"
  | CannotAsk string "pod option"
  | HasGone string "pod option"

text \<open>
  \<open>rental_state\<close>: what the provider said of a rental's pod, if there is a provider to ask; then whether the
  host is asked at all.
\<close>

definition rental_state :: "host_entry \<Rightarrow> (string + pod option) option \<Rightarrow> reply + pod option \<times> string option" where
  "rental_state e got =
     (case (he_rental e, got) of
        (Some i, Some (Inl why)) \<Rightarrow> Inr (None, Some (''could not read pod '' @ i @ '': '' @ why))
      | (Some i, Some (Inr None)) \<Rightarrow> Inl (HasGone (''pod '' @ i @ '' no longer exists; this rental has ended'') None)
      | (Some i, Some (Inr (Some p))) \<Rightarrow>
          if is_gone (Some p) then Inl (HasGone (''pod '' @ i @ '' is '' @ pd_status p @ ''; this rental has ended'') (Some p))
          else if is_dead (Some p)
          then Inl (CannotAsk (''pod '' @ i @ '' is '' @ pd_status p @ ''; `gpuc host terminate '' @ he_name e @ ''` ends it, ''
                 @ ''`gpuc host remove '' @ he_name e @ ''` forgets it'') (Some p))
          else Inr (Some p, None)
      | _ \<Rightarrow> Inr (None, None))"

definition with_pod_error :: "string \<Rightarrow> string option \<Rightarrow> string" where
  "with_pod_error why pod_error = (if blank pod_error then why else why @ ''; '' @ the pod_error)"

text \<open>\<open>ask\<close>: \<open>told\<close> is what the session and the verb gave, a reason or the JSON printed.\<close>

definition ask :: "host_entry \<Rightarrow> (string + pod option) option \<Rightarrow> string + json \<Rightarrow> reply" where
  "ask e got told =
     (case rental_state e got of
        Inl r \<Rightarrow> r
      | Inr (p, pod_error) \<Rightarrow>
          (case told of
             Inl why \<Rightarrow> CannotAsk (with_pod_error why pod_error) p
           | Inr payload \<Rightarrow>
               if is_dict payload then Answered payload p pod_error
               else CannotAsk (with_pod_error (''host '' @ he_name e @ '' answered with something that is not a JSON object'') pod_error) p))"

section \<open>The view of a host\<close>

datatype host_state = ANSWERED | UNASKABLE | GONE

record host_view =
  hv_name :: string
  hv_state :: host_state
  hv_error :: "string option"
  hv_heartbeat_age_s :: "pyfloat option"
  hv_served_by :: "string option"
  hv_draining :: bool
  hv_idle_for_s :: "pyfloat option"
  hv_cards :: "card_view list"
  hv_missing :: "(string \<times> bool) list"
  hv_pod :: "pod option"
  hv_pkg_commit :: "string option"
  hv_dispatcher_pkg_commit :: "string option"
  hv_queue :: "job_row list"
  hv_running :: "job_row list"
  hv_finished :: "job_row list"
  hv_finished_count :: "int option"

definition blank_view :: "string \<Rightarrow> pod option \<Rightarrow> host_view" where
  "blank_view name p =
     \<lparr>hv_name = name, hv_state = UNASKABLE, hv_error = None, hv_heartbeat_age_s = None, hv_served_by = None,
      hv_draining = False, hv_idle_for_s = None, hv_cards = [], hv_missing = [], hv_pod = p, hv_pkg_commit = None,
      hv_dispatcher_pkg_commit = None, hv_queue = [], hv_running = [], hv_finished = [], hv_finished_count = None\<rparr>"

definition parse_status :: "host_entry \<Rightarrow> reply \<Rightarrow> host_view viewed" where
  "parse_status e r =
     (case r of
        HasGone why p \<Rightarrow> Inr ((blank_view (he_name e) p)\<lparr>hv_state := GONE, hv_error := Some why\<rparr>)
      | CannotAsk why p \<Rightarrow> Inr ((blank_view (he_name e) p)\<lparr>hv_error := Some why\<rparr>)
      | Answered d p pod_error \<Rightarrow>
          and_then (host_cards d) (\<lambda>(cs, ms).
          and_then (view_float (get d ''dispatcher_heartbeat_age_s'')) (\<lambda>heartbeat.
          and_then (view_float (get d ''idle_for_s'')) (\<lambda>idle.
          and_then (job_views d) (\<lambda>(queue, running, fin).
          and_then (view_int (get d ''finished_count'')) (\<lambda>n.
            Inr ((blank_view (he_name e) p)
              \<lparr>hv_state := ANSWERED, hv_error := pod_error, hv_heartbeat_age_s := heartbeat,
               hv_served_by := view_str (get d ''served_by''), hv_draining := py_bool (get d ''draining''),
               hv_idle_for_s := idle, hv_cards := cs, hv_missing := ms, hv_pkg_commit := view_str (get d ''pkg_commit''),
               hv_dispatcher_pkg_commit := view_str (get d ''dispatcher_pkg_commit''), hv_queue := queue,
               hv_running := running, hv_finished := fin, hv_finished_count := n\<rparr>)))))))"

definition reachable :: "host_view \<Rightarrow> bool" where "reachable v \<longleftrightarrow> hv_state v = ANSWERED"
definition gone_view :: "host_view \<Rightarrow> bool" where "gone_view v \<longleftrightarrow> hv_state v = GONE"

definition view_failure :: "host_view \<Rightarrow> string option" where
  "view_failure v = (if gone_view v then None else hv_error v)"

definition outputs_at_risk :: "host_view \<Rightarrow> job_row list" where
  "outputs_at_risk v = filter vr_outputs_pending (hv_finished v)"

definition leftover_bytes :: "host_view \<Rightarrow> int" where
  "leftover_bytes v = sum_list (map (\<lambda>r. case vr_workdir_bytes r of Some n \<Rightarrow> n | None \<Rightarrow> 0) (hv_finished v))"

definition gpu_holder :: "host_view \<Rightarrow> uuid \<Rightarrow> job_id option" where
  "gpu_holder v u = map_option vr_job_id (find (\<lambda>r. JStr u \<in> set (vr_gpus r)) (hv_running v))"

datatype card_state = FREE | BUSY | IN_USE

definition card_state_of :: "host_view \<Rightarrow> card_view \<Rightarrow> card_state" where
  "card_state_of v c =
     (if \<not> blank (gpu_holder v (cv_uuid c)) then BUSY
      else if \<not> cv_shared c \<or> cv_unused c then FREE
      else IN_USE)"

definition free_cards :: "host_view \<Rightarrow> uuid list" where
  "free_cards v = map cv_uuid (filter (\<lambda>c. \<not> cv_shared c \<and> card_state_of v c = FREE) (hv_cards v))"

definition borrowable_cards :: "host_view \<Rightarrow> card_view list" where
  "borrowable_cards v = filter (\<lambda>c. cv_shared c \<and> card_state_of v c = FREE) (hv_cards v)"

section \<open>A job's place in the queue\<close>

record placement =
  pl_position :: "nat option"
  pl_length :: "nat option"
  pl_dispatched :: "bool option"
  pl_starts_in_s :: "pyfloat option"
  pl_starts_unknown :: "string option"

definition placement_unknown :: placement where
  "placement_unknown =
     \<lparr>pl_position = None, pl_length = None, pl_dispatched = None, pl_starts_in_s = None, pl_starts_unknown = None\<rparr>"

text \<open>\<open>list(queued).index(job_id)\<close> of a dict: where the id first occurs.\<close>

fun index_of :: "'a \<Rightarrow> 'a list \<Rightarrow> nat" where
  "index_of x [] = 0"
| "index_of x (y # ys) = (if x = y then 0 else Suc (index_of x ys))"

definition queue_placement :: "host_view \<Rightarrow> job_id \<Rightarrow> placement" where
  "queue_placement v j =
     (if \<not> reachable v then placement_unknown
      else
        let queued = dict_of (map (\<lambda>r. (vr_job_id r, r)) (hv_queue v));
            row = map_of queued j;
            starts = Option.bind row vr_starts_in_s
        in \<lparr>pl_position = (if row = None then None else Some (Suc (index_of j (map fst queued)))),
            pl_length = Some (length queued),
            pl_dispatched = Some (list_ex (\<lambda>r. vr_job_id r = j) (hv_running v)),
            pl_starts_in_s = starts,
            pl_starts_unknown = (if starts \<noteq> None then None else Option.bind row vr_starts_unknown)\<rparr>)"

end
