(* ===== verification/Commands.thy ===== *)
theory Commands
  imports Lifecycle Gpus Project Settable
begin

text \<open>
  \<open>src/gpuc/host/__main__.py\<close>: the commands a client runs on the host, each a function of the host that
  returns the JSON it prints and the host afterwards. Arguments are taken as parsed. Clocks, nvidia-smi,
  the heartbeat, the owner and the lock file are inputs (\<open>surroundings\<close>), and so are the texts of
  exceptions and refusals. The clock is read once per command. An estimate that is not a finite number
  counts as none in the projection, and the projection takes its fuel from the surroundings.
\<close>

section \<open>What a command is given\<close>

record surroundings =
  su_now :: seconds
  su_stamp :: string
  su_fromiso :: "string \<Rightarrow> seconds option"
  su_smi :: smi_runner
  su_spent :: "job_id \<Rightarrow> bool"
  su_lock_mtime :: "seconds option"
  su_holder_commit :: "string option"
  su_heartbeat :: "seconds option"
  su_served_by :: "string option"
  su_dispatcher_pid :: "int option"
  su_said :: "pyerr \<Rightarrow> string"
  su_refused :: "refusal \<Rightarrow> string"
  su_set_refused :: "set_error \<Rightarrow> string"
  su_warned :: string
  su_fuel :: nat

definition json_s :: "seconds \<Rightarrow> json" where
  "json_s x = JFloat (Fin x)"

section \<open>The cards, for a status\<close>

record card_row =
  cw_index :: "int option"
  cw_uuid :: uuid
  cw_shared :: bool
  cw_memory_mib :: "pyfloat option"
  cw_utilization_pct :: "pyfloat option"
  cw_unused :: bool

record gpu_rows =
  gr_cards :: "card_row list"
  gr_missing :: "(string \<times> bool) list"
  gr_error :: "string option"

definition card_row_of :: "gpu list \<Rightarrow> (uuid \<times> usage) list \<Rightarrow> bool \<Rightarrow> uuid \<Rightarrow> card_row" where
  "card_row_of table readings sh u =
     (let at_hand = map_of readings u
      in \<lparr>cw_index = Option.bind (map_of (dict_of (map (\<lambda>g. (gp_uuid g, gp_index g)) table)) u) id,
          cw_uuid = u, cw_shared = sh, cw_memory_mib = Option.bind at_hand us_memory_mib,
          cw_utilization_pct = Option.bind at_hand us_utilization_pct,
          cw_unused = (case at_hand of Some r \<Rightarrow> usage_unused r | None \<Rightarrow> False)\<rparr>)"

definition gpu_table :: "smi_runner \<Rightarrow> hostconfig \<Rightarrow> gpu_rows res" where
  "gpu_table smi c =
     map_sum id (\<lambda>((table, readings), err).
       let r = Gpus.resolve (cf_gpus c) table (cf_shared_gpus c)
       in \<lparr>gr_cards = map (card_row_of table readings False) (rs_owned r)
             @ map (card_row_of table readings True) (rs_shared r),
           gr_missing = map (\<lambda>e. (e, False)) (rs_missing r) @ map (\<lambda>e. (e, True)) (rs_shared_missing r),
           gr_error = err\<rparr>)
       (case snapshot smi of
          Inr tr \<Rightarrow> Inr (tr, None)
        | Inl (GpuError m) \<Rightarrow> Inr (([], []), Some m)
        | Inl (SmiRaised e) \<Rightarrow> Inl e)"

definition card_row_json :: "card_row \<Rightarrow> json" where
  "card_row_json r =
     JDict [(''index'', opt_json JInt (cw_index r)), (''uuid'', JStr (cw_uuid r)), (''shared'', JBool (cw_shared r)),
       (''memory_mib'', opt_json JFloat (cw_memory_mib r)), (''utilization_pct'', opt_json JFloat (cw_utilization_pct r)),
       (''unused'', JBool (cw_unused r))]"

definition missing_json :: "string \<times> bool \<Rightarrow> json" where
  "missing_json m = JDict [(''entry'', JStr (fst m)), (''shared'', JBool (snd m))]"

section \<open>When each queued job is expected to start\<close>

type_synonym states = "(job_id \<times> jobstate) list"

text \<open>\<open>_spec\<close>: a spec that cannot be read is none; \<open>read_spec\<close> raises nothing else here.\<close>

definition spec_or_none :: "job_id \<Rightarrow> host \<Rightarrow> jobspec option res" where
  "spec_or_none j h = catching [RuntimeError, ValueError] None (map_sum id Some (read_spec j h))"

definition running_states :: "states \<Rightarrow> states" where
  "running_states sts = filter (\<lambda>(j, s). st_status s = ''running'') sts"

definition holder_of :: "states \<Rightarrow> uuid \<Rightarrow> jobstate option" where
  "holder_of sts u = map_of (rev (concat (map (\<lambda>(j, s). map (\<lambda>c. (c, s)) (st_gpus s)) (running_states sts)))) u"

definition release_of :: "surroundings \<Rightarrow> states \<Rightarrow> uuid \<Rightarrow> seconds option" where
  "release_of su sts u =
     (case holder_of sts u of
        None \<Rightarrow> Some 0
      | Some s \<Rightarrow>
          if st_intent s \<noteq> None then Some 0
          else map_option (\<lambda>eta. max 0 (eta - su_now su)) (parse_time (su_fromiso su) (st_eta s)))"

definition ours_now :: "states \<Rightarrow> card_row \<Rightarrow> bool" where
  "ours_now sts r \<longleftrightarrow> \<not> cw_shared r \<or> holder_of sts (cw_uuid r) \<noteq> None \<or> cw_unused r"

definition projected_cards :: "surroundings \<Rightarrow> states \<Rightarrow> gpu_rows \<Rightarrow> card list" where
  "projected_cards su sts rows =
     map (\<lambda>r. \<lparr>card_uuid = cw_uuid r, card_shared = cw_shared r, card_release_s = release_of su sts (cw_uuid r)\<rparr>)
       (filter (ours_now sts) (gr_cards rows))"

definition projected_request :: "hostconfig \<Rightarrow> job_id \<Rightarrow> jobspec \<Rightarrow> jobstate \<Rightarrow> request" where
  "projected_request c j spec s =
     \<lparr>rq_job_id = j, rq_gpus = nat (sp_gpus spec), rq_borrows = may_borrow c spec,
      rq_estimate_s = (case st_estimated_runtime_min s of Some (Fin m) \<Rightarrow> Some (60 * m) | _ \<Rightarrow> None),
      rq_priority = st_priority s, rq_fills = sp_auto_preempt spec\<rparr>"

fun with_specs :: "states \<Rightarrow> host \<Rightarrow> (job_id \<times> jobstate \<times> jobspec) list res" where
  "with_specs [] h = Inr []"
| "with_specs ((j, s) # sts) h =
     bind_res (spec_or_none j h) (\<lambda>spec.
       map_sum id (\<lambda>rest. case spec of None \<Rightarrow> rest | Some sp \<Rightarrow> (j, s, sp) # rest) (with_specs sts h))"

definition queued_states :: "states \<Rightarrow> states" where
  "queued_states sts = sort_key (\<lambda>(j, s). (st_priority s, j)) (filter (\<lambda>(j, s). st_status s = ''queued'') sts)"

definition stoppable_of ::
  "surroundings \<Rightarrow> hostconfig \<Rightarrow> gpu_rows \<Rightarrow> job_id \<times> jobstate \<times> jobspec \<Rightarrow> (preemptable \<times> request) option" where
  "stoppable_of su c rows x =
     (case x of (j, s, spec) \<Rightarrow>
        if \<not> sp_auto_preempt spec \<or> st_intent s \<noteq> None then None
        else
          let since = (case parse_time (su_fromiso su) (st_started_at s) of None \<Rightarrow> 0 | Some t \<Rightarrow> su_now su - t);
              mine = map cw_uuid (filter (\<lambda>r. \<not> cw_shared r) (gr_cards rows));
              others = map cw_uuid (filter cw_shared (gr_cards rows))
          in Some (\<lparr>pe_job_id = j, pe_priority = st_priority s, pe_gpus = st_gpus s, pe_started = - since,
                 pe_owned = length (filter (\<lambda>u. u \<in> set mine) (st_gpus s)),
                 pe_borrowed = length (filter (\<lambda>u. u \<in> set others) (st_gpus s))\<rparr>, projected_request c j spec s))"

definition projected_starts ::
  "surroundings \<Rightarrow> hostconfig \<Rightarrow> gpu_rows \<Rightarrow> states \<Rightarrow> host \<Rightarrow> projection res option" where
  "projected_starts su c rows sts h =
     (case (with_specs (queued_states sts) h, with_specs (sort_key fst (running_states sts)) h) of
        (Inl e, _) \<Rightarrow> Some (Inl e)
      | (_, Inl e) \<Rightarrow> Some (Inl e)
      | (Inr qs, Inr rs) \<Rightarrow>
          let requests = map (\<lambda>(j, s, spec). projected_request c j spec s) qs;
              blind = (case gr_error rows of Some m \<Rightarrow> m \<noteq> [] | None \<Rightarrow> False);
              why = ''nvidia-smi could not be read on the host ('' @ the (gr_error rows) @ '')'';
              not_known = (if blind then map (\<lambda>r. (rq_job_id r, why)) (filter (\<lambda>r. rq_gpus r \<noteq> 0) requests) else []);
              asked_for = (if blind then filter (\<lambda>r. rq_gpus r = 0) requests else requests)
          in map_option (map_sum id (\<lambda>p. p\<lparr>unknown := dict_merge not_known (unknown p)\<rparr>))
               (project (su_fuel su) asked_for (projected_cards su sts rows)
                  (map fst (filter (\<lambda>m. \<not> snd m) (gr_missing rows))) (map fst (filter snd (gr_missing rows)))
                  (length (filter (\<lambda>r. \<not> ours_now sts r) (gr_cards rows)))
                  (List.map_filter (stoppable_of su c rows) rs) (h_draining h)))"

section \<open>Which jobs a status reports\<close>

definition ended_within :: "surroundings \<Rightarrow> string option \<Rightarrow> seconds \<Rightarrow> bool" where
  "ended_within su ended_at since_s =
     (case parse_time (su_fromiso su) ended_at of None \<Rightarrow> False | Some t \<Rightarrow> su_now su - t \<le> since_s)"

definition shown_finished :: "surroundings \<Rightarrow> states \<Rightarrow> seconds option \<Rightarrow> job_id list" where
  "shown_finished su sts since_s =
     map snd (filter (\<lambda>(ended_at, j). case since_s of None \<Rightarrow> True | Some t \<Rightarrow> ended_within su (Some ended_at) t)
       (sorted_desc id (map (\<lambda>(j, s). (case st_ended_at s of Some t \<Rightarrow> t | None \<Rightarrow> [], j))
          (filter (\<lambda>(j, s). finished s) sts))))"

definition in_window :: "surroundings \<Rightarrow> states \<Rightarrow> int option \<Rightarrow> seconds option \<Rightarrow> host \<Rightarrow> job_id list" where
  "in_window su sts recent since_s h =
     (let shown = shown_finished su sts since_s;
          kept_ids = (case recent of None \<Rightarrow> shown | Some n \<Rightarrow> take (nat n) shown)
      in map fst (filter (\<lambda>(j, s). \<not> finished s \<or> j \<in> set kept_ids \<or> has_workdir j h) sts))"

definition tenth :: "rat \<Rightarrow> rat" where
  "tenth x = (let (n, d) = quotient_of x in of_int (round_half_even (10 * n) d) / 10)"

definition idle_for_s :: "surroundings \<Rightarrow> states \<Rightarrow> seconds option" where
  "idle_for_s su sts =
     (if list_ex (\<lambda>(j, s). \<not> finished s) sts then None
      else
        let ends = map (\<lambda>(j, s). parse_time (su_fromiso su) (st_ended_at s)) sts @ [su_lock_mtime su];
            known = List.map_filter id ends
        in if known = [] then None else Some (tenth (max (su_now su - fold max (tl known) (hd known)) 0)))"

section \<open>One job's entry\<close>

definition WANDB_HINTS :: "(string \<times> string) list" where
  "WANDB_HINTS = [(''WANDB_ENTITY'', ''entity''), (''WANDB_PROJECT'', ''project''), (''WANDB_RUN_ID'', ''run_id'')]"

definition wandb_hints :: "(string \<times> string) list \<Rightarrow> (string \<times> string) list" where
  "wandb_hints env =
     List.map_filter (\<lambda>(key, name). case map_of env key of Some v \<Rightarrow> if v = [] then None else Some (name, v) | None \<Rightarrow> None)
       WANDB_HINTS"

definition reported_workdir_bytes :: "(job_id \<Rightarrow> bool) \<Rightarrow> job_id \<Rightarrow> jobstate \<Rightarrow> host \<Rightarrow> int option res \<times> host" where
  "reported_workdir_bytes spent j s h =
     (case has_checkout j h of
        Inl e \<Rightarrow> (Inl e, h)
      | Inr there \<Rightarrow>
          if \<not> there then (Inr (Some 0), h)
          else if \<not> has_workdir j h then (Inr (Some (int (archive_bytes j h))), h)
          else if st_workdir_bytes s \<noteq> None then (Inr (st_workdir_bytes s), h)
          else if spent j then (Inr None, h)
          else (case record_workdir_size j h of (r, h') \<Rightarrow> (map_sum id (\<lambda>n. Some (int n)) r, h')))"

text \<open>What an entry takes from the spec, and what it says of a spec that cannot be read.\<close>

definition spec_keys :: "jobspec option \<Rightarrow> (string \<times> json) list" where
  "spec_keys spec =
     [(''auto_preempt'', opt_json (\<lambda>sp. JBool (sp_auto_preempt sp)) spec),
      (''gpus_requested'', opt_json (\<lambda>sp. JInt (sp_gpus sp)) spec),
      (''use_shared'', opt_json (\<lambda>sp. JBool (sp_use_shared sp)) spec),
      (''outputs'', JList (case spec of Some sp \<Rightarrow> map output_to_dict (sp_outputs sp) | None \<Rightarrow> [])),
      (''wandb'', str_dict_json (case spec of Some sp \<Rightarrow> wandb_hints (sp_env sp) | None \<Rightarrow> [])),
      (''requeued_from'', opt_json JStr (Option.bind spec sp_requeued_from))]"

definition entry_pending :: "job_id \<Rightarrow> jobspec option \<Rightarrow> jobstate \<Rightarrow> host \<Rightarrow> bool res" where
  "entry_pending j spec s h =
     (case spec of
        None \<Rightarrow> Inr False
      | Some sp \<Rightarrow>
          if st_status s = ''running'' then Inr False
          else map_sum id (\<lambda>why. \<not> blank why) (outputs_pending j sp s h))"

definition entry_kept :: "job_id \<Rightarrow> jobspec option \<Rightarrow> jobstate \<Rightarrow> host \<Rightarrow> string list res" where
  "entry_kept j spec s h = (if spec \<noteq> None \<and> finished s then kept_outputs j spec (Some s) h else Inr [])"

definition put_all :: "(string \<times> json) list \<Rightarrow> (string \<times> json) list \<Rightarrow> (string \<times> json) list" where
  "put_all kvs d = foldl (\<lambda>d kv. AList.update (fst kv) (snd kv) d) d kvs"

definition entry_fields ::
  "projection \<Rightarrow> job_id \<Rightarrow> jobstate \<Rightarrow> jobspec option \<Rightarrow> int option \<Rightarrow> bool \<Rightarrow> string list \<Rightarrow> (string \<times> json) list" where
  "entry_fields p j s spec bytes pending keeps_at =
     (let base = [(''job_id'', JStr j), (''name'', JStr (case spec of Some sp \<Rightarrow> sp_name sp | None \<Rightarrow> []))]
            @ fields_of (state_to_dict s)
      in put_all
           ([(''starts_in_s'', opt_json json_s (map_of (starts_in_s p) j)),
             (''starts_unknown'', opt_json JStr (map_of (unknown p) j)),
             (''yields_to'', opt_json JStr (map_of (pj_yields_to p) j))]
            @ spec_keys spec
            @ [(''workdir_bytes'', opt_json JInt bytes), (''outputs_pending'', JBool pending),
               (''kept_outputs'', str_list_json keeps_at), (''kept_bytes'', opt_json JInt (st_kept_bytes s))])
           (AList.delete ''live_max_runtime''
             (AList.update ''max_runtime_min'' (opt_json JFloat (max_runtime s spec)) base)))"

definition job_entry ::
  "surroundings \<Rightarrow> projection \<Rightarrow> job_id \<Rightarrow> jobstate \<Rightarrow> host \<Rightarrow> json res \<times> host" where
  "job_entry su p j s h =
     (case spec_or_none j h of
        Inl e \<Rightarrow> (Inl e, h)
      | Inr spec \<Rightarrow>
          (case (if finished s then reported_workdir_bytes (su_spent su) j s h else (Inr None, h)) of
             (Inl e, h1) \<Rightarrow> (Inl e, h1)
           | (Inr bytes, h1) \<Rightarrow>
               (bind_res (entry_pending j spec s h1) (\<lambda>pending.
                map_sum id (\<lambda>keeps_at. JDict (entry_fields p j s spec bytes pending keeps_at)) (entry_kept j spec s h1)), h1)))"

fun job_entries :: "surroundings \<Rightarrow> projection \<Rightarrow> states \<Rightarrow> host \<Rightarrow> json list res \<times> host" where
  "job_entries su p [] h = (Inr [], h)"
| "job_entries su p ((j, s) # sts) h =
     (case job_entry su p j s h of
        (Inl e, h1) \<Rightarrow> (Inl e, h1)
      | (Inr x, h1) \<Rightarrow>
          (case job_entries su p sts h1 of (Inl e, h2) \<Rightarrow> (Inl e, h2) | (Inr xs, h2) \<Rightarrow> (Inr (x # xs), h2)))"

section \<open>The status\<close>

fun states_of :: "job_id list \<Rightarrow> host \<Rightarrow> states res" where
  "states_of [] h = Inr []"
| "states_of (j # js) h =
     (case read_state j h of
        Inl e \<Rightarrow> if e = RuntimeError \<or> e = FileNotFoundError then states_of js h else Inl e
      | Inr s \<Rightarrow> map_sum id (\<lambda>sts. (j, s) # sts) (states_of js h))"

definition selected_jobs ::
  "surroundings \<Rightarrow> job_id list \<Rightarrow> int option \<Rightarrow> seconds option \<Rightarrow> states \<Rightarrow> host \<Rightarrow> states" where
  "selected_jobs su ids recent since_s sts h =
     List.map_filter (\<lambda>j. map_option (\<lambda>s. (j, s)) (map_of sts j))
       (if ids \<noteq> [] then dedup ids else in_window su sts recent since_s h)"

definition status_document ::
  "surroundings \<Rightarrow> hostconfig \<Rightarrow> gpu_rows \<Rightarrow> states \<Rightarrow> json list \<Rightarrow> host \<Rightarrow> json" where
  "status_document su c rows sts entries h =
     JDict [(''host'', JStr (cf_host c)), (''pkg_commit'', opt_json JStr (cf_pkg_commit c)),
       (''dispatcher_pkg_commit'', opt_json JStr (su_holder_commit su)),
       (''cards'', JList (map card_row_json (gr_cards rows))),
       (''cards_missing'', JList (map missing_json (gr_missing rows))),
       (''gpus_error'', opt_json JStr (gr_error rows)), (''ephemeral'', JBool (ephemeral c)),
       (''draining'', JBool (h_draining h)), (''idle_for_s'', opt_json json_s (idle_for_s su sts)),
       (''dispatcher_heartbeat_age_s'', opt_json (\<lambda>x. json_s (tenth x)) (su_heartbeat su)),
       (''served_by'', opt_json JStr (su_served_by su)),
       (''queue'', JList (map (\<lambda>(j, s). JDict [(''priority'', JInt (st_priority s)), (''job_id'', JStr j)]) (queued_states sts))),
       (''finished_count'', JInt (int (length (filter (\<lambda>(j, s). finished s) sts)))),
       (''jobs'', JList entries)]"

definition cmd_status ::
  "surroundings \<Rightarrow> job_id list \<Rightarrow> int option \<Rightarrow> seconds option \<Rightarrow> host \<Rightarrow> json res option \<times> host" where
  "cmd_status su ids recent since_s h =
     (case bind_res (h_config h) (\<lambda>c. bind_res (states_of (list_job_ids h) h) (\<lambda>sts.
             map_sum id (\<lambda>rows. (c, sts, rows)) (gpu_table (su_smi su) c))) of
        Inl e \<Rightarrow> (Some (Inl e), h)
      | Inr (c, sts, rows) \<Rightarrow>
          (case projected_starts su c rows sts h of
             None \<Rightarrow> (None, h)
           | Some (Inl e) \<Rightarrow> (Some (Inl e), h)
           | Some (Inr p) \<Rightarrow>
               (case job_entries su p (selected_jobs su ids recent since_s sts h) h of
                  (Inl e, h1) \<Rightarrow> (Some (Inl e), h1)
                | (Inr entries, h1) \<Rightarrow> (Some (Inr (status_document su c rows sts entries h1)), h1))))"

section \<open>The job verbs\<close>

definition no_such_job :: "job_id \<Rightarrow> string \<Rightarrow> json" where
  "no_such_job j why = JDict [(''job_id'', JStr j), (''error'', JStr why), (''missing'', JBool True)]"

definition refusal_doc :: "job_id \<Rightarrow> string \<Rightarrow> json" where
  "refusal_doc j why = JDict [(''job_id'', JStr j), (''error'', JStr why)]"

definition answer_doc :: "json list \<Rightarrow> (string \<times> json) list \<Rightarrow> json \<times> int" where
  "answer_doc answers extra =
     (JDict ((''jobs'', JList answers) # extra),
      if list_ex (\<lambda>a. ''error'' \<in> fst ` set (fields_of a)) answers then 1 else 0)"

text \<open>One answer per id, in the order asked; a raise ends the command.\<close>

fun each_job :: "(job_id \<Rightarrow> host \<Rightarrow> json res \<times> host) \<Rightarrow> job_id list \<Rightarrow> host \<Rightarrow> json list res \<times> host" where
  "each_job f [] h = (Inr [], h)"
| "each_job f (j # js) h =
     (case f j h of
        (Inl e, h1) \<Rightarrow> (Inl e, h1)
      | (Inr a, h1) \<Rightarrow> (case each_job f js h1 of (Inl e, h2) \<Rightarrow> (Inl e, h2) | (Inr as, h2) \<Rightarrow> (Inr (a # as), h2)))"

definition job_verb ::
  "(job_id \<Rightarrow> host \<Rightarrow> json res \<times> host) \<Rightarrow> (json list \<Rightarrow> (string \<times> json) list) \<Rightarrow> job_id list \<Rightarrow> host \<Rightarrow>
   (json \<times> int) res \<times> host" where
  "job_verb f extra ids h =
     (case each_job f (dedup ids) h of (Inl e, h1) \<Rightarrow> (Inl e, h1) | (Inr as, h1) \<Rightarrow> (Inr (answer_doc as (extra as)), h1))"

definition is_os_error :: "pyerr \<Rightarrow> bool" where
  "is_os_error e \<longleftrightarrow> e \<in> {OSError, FileNotFoundError, FileExistsError}"

definition cancel_one :: "surroundings \<Rightarrow> job_id \<Rightarrow> host \<Rightarrow> json res \<times> host" where
  "cancel_one su j h =
     (case cancel j (su_stamp su) h of
        (Inr status, h1) \<Rightarrow> (Inr (JDict [(''job_id'', JStr j), (''status'', JStr status)]), h1)
      | (Inl e, h1) \<Rightarrow>
          (if e = FileNotFoundError then Inr (no_such_job j (su_said su e))
           else if is_os_error e \<or> e = RuntimeError then Inr (refusal_doc j (su_said su e))
           else Inl e, h1))"

definition cmd_cancel :: "surroundings \<Rightarrow> job_id list \<Rightarrow> host \<Rightarrow> (json \<times> int) res \<times> host" where
  "cmd_cancel su ids h = job_verb (cancel_one su) (\<lambda>_. []) ids h"

text \<open>\<open>queue.preempt\<close> raises \<open>FileNotFoundError\<close> for a job that is not here and \<open>ValueError\<close> for every other refusal.\<close>

definition preempt_one :: "surroundings \<Rightarrow> int option \<Rightarrow> job_id \<Rightarrow> host \<Rightarrow> json res \<times> host" where
  "preempt_one su priority j h =
     (case preempt j priority h of
        (Inl NoSuchJob, h1) \<Rightarrow> (Inr (no_such_job j (su_refused su NoSuchJob)), h1)
      | (Inl (Raised e), h1) \<Rightarrow>
          (if e = FileNotFoundError then Inr (no_such_job j (su_said su e))
           else if is_os_error e \<or> e = ValueError \<or> e = RuntimeError then Inr (refusal_doc j (su_said su e))
           else Inl e, h1)
      | (Inl r, h1) \<Rightarrow> (Inr (refusal_doc j (su_refused su r)), h1)
      | (Inr status, h1) \<Rightarrow>
          (map_sum id (\<lambda>s. JDict [(''job_id'', JStr j), (''status'', JStr status), (''priority'', opt_json (\<lambda>x. JInt (st_priority x)) s)])
             (catching [RuntimeError] None (map_sum id Some (read_state j h1))), h1))"

definition cmd_preempt :: "surroundings \<Rightarrow> int option \<Rightarrow> job_id list \<Rightarrow> host \<Rightarrow> (json \<times> int) res \<times> host" where
  "cmd_preempt su priority ids h =
     job_verb (preempt_one su priority)
       (\<lambda>as. [(''dispatcher_pid'',
          if list_ex (\<lambda>a. ''error'' \<notin> fst ` set (fields_of a)) as then opt_json JInt (su_dispatcher_pid su) else JNull)])
       ids h"

text \<open>\<open>_patch\<close> after \<open>json.loads\<close>: a whole number written as a float is an integer for an integer field.\<close>

definition patch_value :: "string \<Rightarrow> json \<Rightarrow> json" where
  "patch_value name v =
     (case (BY_FIELD name, v) of
        (Some b, JFloat (Fin r)) \<Rightarrow> if sb_kind b = IntKind \<and> r = of_int (trunc r) then JInt (trunc r) else v
      | _ \<Rightarrow> v)"

definition patch_of :: "(string \<times> json) list \<Rightarrow> patch" where
  "patch_of given = dict_of (map (\<lambda>(n, v). (n, patch_value n v)) given)"

definition field_json :: "jobstate \<Rightarrow> string \<Rightarrow> json" where
  "field_json s name = get (state_to_dict s) name"

definition set_one :: "surroundings \<Rightarrow> patch \<Rightarrow> job_id \<Rightarrow> host \<Rightarrow> json res \<times> host" where
  "set_one su p j h =
     (case apply_patch (su_fromiso su) (su_now su) j p h of
        (Inl e, h1) \<Rightarrow> (Inl e, h1)
      | (Inr (NotSet UnknownJob), h1) \<Rightarrow> (Inr (no_such_job j (su_set_refused su UnknownJob)), h1)
      | (Inr (NotSet e), h1) \<Rightarrow> (Inr (refusal_doc j (su_set_refused su e)), h1)
      | (Inr (Changed s warned), h1) \<Rightarrow>
          (Inr (JDict ([(''job_id'', JStr j), (''status'', JStr (st_status s))]
             @ map (\<lambda>(n, v). (n, field_json s n)) p @ [(''warning'', if warned then JStr (su_warned su) else JNull)])), h1))"

definition cmd_set ::
  "surroundings \<Rightarrow> (pyfloat \<Rightarrow> bool) \<Rightarrow> (string \<times> json) list \<Rightarrow> job_id list \<Rightarrow> host \<Rightarrow> (json \<times> int) res \<times> host" where
  "cmd_set su date_exists given ids h =
     (case patch_error date_exists (patch_of given) of
        Inl e \<Rightarrow> (Inl e, h)
      | Inr (Some e) \<Rightarrow> (Inr (answer_doc (map (\<lambda>j. refusal_doc j (su_set_refused su e)) (dedup ids)) []), h)
      | Inr None \<Rightarrow> job_verb (set_one su (patch_of given)) (\<lambda>_. []) ids h)"

definition cmd_enqueue :: "surroundings \<Rightarrow> (fnode \<Rightarrow> nat) \<Rightarrow> job_id \<Rightarrow> json \<Rightarrow> host \<Rightarrow> json res \<times> host" where
  "cmd_enqueue su gz fresh document h =
     (case spec_from_dict fresh document of
        Inl e \<Rightarrow> (Inl e, h)
      | Inr spec \<Rightarrow>
          (case enqueue gz spec h of
             (Inl e, h1) \<Rightarrow> (Inl e, h1)
           | (Inr j, h1) \<Rightarrow>
               (Inr (JDict [(''job_id'', JStr j), (''dispatcher_pid'', opt_json JInt (su_dispatcher_pid su))]), h1)))"

section \<open>Cleaning and purging on request\<close>

definition selection_of :: "string option \<Rightarrow> job_id list option" where
  "selection_of v = map_option (\<lambda>t. filter (\<lambda>j. j \<noteq> []) (map strip (split_char_from (CHR '','') [] t))) v"

definition refused_selection :: "bool \<Rightarrow> job_id list option \<Rightarrow> host \<Rightarrow> clean_result option res" where
  "refused_selection dry only h =
     (let strange = sort (dedup (filter (\<lambda>j. j \<notin> set (list_job_ids h)) (case only of Some js \<Rightarrow> js | None \<Rightarrow> [])))
      in if strange = [] then Inr None
         else map_sum id (\<lambda>prefix. Some ((empty_result dry [] [] prefix)
                \<lparr>cr_errors := map (\<lambda>j. j @ '': no job with that id on this host'') strange
                   @ [''refused the whole selection: nothing was removed'']\<rparr>)) (host_s3_prefix h))"

definition clean_exit :: "clean_result \<Rightarrow> int" where
  "clean_exit r = (if cr_errors r = [] then 0 else 1)"

definition cmd_clean ::
  "surroundings \<Rightarrow> string option \<Rightarrow> bool \<Rightarrow> pyfloat option \<Rightarrow> bool \<Rightarrow> host \<Rightarrow> (clean_result \<times> int) res \<times> host" where
  "cmd_clean su only_arg all_finished older dry h =
     (let only = selection_of only_arg
      in case refused_selection dry only h of
           Inl e \<Rightarrow> (Inl e, h)
         | Inr (Some r) \<Rightarrow> (Inr (r, clean_exit r), h)
         | Inr None \<Rightarrow>
             (case clean (su_fromiso su) (su_stamp su) (all_finished \<or> only \<noteq> None) older dry (su_now su) only ASKED h of
                (r, h1) \<Rightarrow> (map_sum id (\<lambda>x. (x, clean_exit x)) r, h1)))"

definition cmd_purge ::
  "surroundings \<Rightarrow> (job_id \<Rightarrow> nat) \<Rightarrow> string option \<Rightarrow> string option \<Rightarrow> string option \<Rightarrow> pyfloat \<Rightarrow> bool \<Rightarrow> bool \<Rightarrow>
   host \<Rightarrow> (clean_result \<times> int) res \<times> host" where
  "cmd_purge su record_bytes only_arg verified_arg verified_file older force dry h =
     (let only = selection_of only_arg
      in case refused_selection dry only h of
           Inl e \<Rightarrow> (Inl e, h)
         | Inr (Some r) \<Rightarrow> (Inr (r, clean_exit r), h)
         | Inr None \<Rightarrow>
             let verified = (case verified_file of Some t \<Rightarrow> selection_of (Some (strip t)) | None \<Rightarrow> selection_of verified_arg)
             in (case purge (su_fromiso su) record_bytes (su_stamp su) older dry (su_now su) only
                        \<lparr>ev_automatic = False, ev_policy = False, ev_force = force, ev_verified = verified\<rparr> h of
                   (r, h1) \<Rightarrow> (map_sum id (\<lambda>x. (x, clean_exit x)) r, h1)))"

section \<open>What a status says of the jobs at stake\<close>

text \<open>A status writes down sizes it had to measure, and leaves the rest of the host alone.\<close>

definition less_state :: "job_dir \<Rightarrow> job_dir" where
  "less_state d = d\<lparr>jd_state := Inr blank_state\<rparr>"

definition sized :: "host \<Rightarrow> host \<Rightarrow> bool" where
  "sized h h' \<longleftrightarrow> (\<forall>j. map_option less_state (job_of j h') = map_option less_state (job_of j h))"

lemma sized_refl [simp]: "sized h h"
  by (simp add: sized_def)

lemma sized_trans: "sized h h1 \<Longrightarrow> sized h1 h2 \<Longrightarrow> sized h h2"
  by (simp add: sized_def)

lemma less_state_state [simp]: "less_state (d\<lparr>jd_state := x\<rparr>) = less_state d"
  by (simp add: less_state_def)

lemma sized_with_state: "with_state j body h = (r, h') \<Longrightarrow> sized h h'"
  by (erule with_state_cases) (auto simp: sized_def write_state_def job_of_update option.map_comp comp_def)

lemma less_state_same:
  assumes "less_state d' = less_state d"
  shows "jd_spec d' = jd_spec d" "jd_workdir d' = jd_workdir d" "jd_baseline d' = jd_baseline d" "jd_outside d' = jd_outside d"
  using assms by (cases d; cases d'; simp add: less_state_def)+

lemma sized_same:
  assumes "sized h h'"
  shows "read_spec j h' = read_spec j h" "has_workdir j h' = has_workdir j h"
    "written_outputs j spec k h' = written_outputs j spec k h"
proof -
  have eq: "map_option less_state (job_of j h') = map_option less_state (job_of j h)" using assms by (simp add: sized_def)
  have "read_spec j h' = read_spec j h \<and> has_workdir j h' = has_workdir j h \<and>
    written_outputs j spec k h' = written_outputs j spec k h"
  proof (cases "job_of j h")
    case None
    then have "job_of j h' = None" using eq by simp
    with None show ?thesis by (simp add: read_spec_def has_workdir_def written_outputs_def)
  next
    case (Some d)
    then obtain d' where d': "job_of j h' = Some d'" and "less_state d' = less_state d" using eq by auto
    note same = less_state_same [OF this(2)]
    have "written_output d' j = written_output d j" by (rule ext) (simp add: written_output_def same split: sum.split)
    with Some d' show ?thesis by (simp add: read_spec_def has_workdir_def written_outputs_def same)
  qed
  then show "read_spec j h' = read_spec j h" "has_workdir j h' = has_workdir j h"
    "written_outputs j spec k h' = written_outputs j spec k h" by simp_all
qed

lemma sized_pending:
  assumes "sized h h'"
  shows "spec_or_none j h' = spec_or_none j h" "entry_pending j spec s h' = entry_pending j spec s h"
  by (simp_all add: spec_or_none_def entry_pending_def outputs_pending_def sized_same [OF assms] split: option.splits)

lemma record_size_sized: "record_workdir_size j h = (r, h') \<Longrightarrow> sized h h'"
  by (auto simp: record_workdir_size_def update_state_def Let_def split: sum.splits prod.splits dest: sized_with_state)

lemma reported_bytes_sized: "reported_workdir_bytes spent j s h = (r, h') \<Longrightarrow> sized h h'"
  by (auto simp: reported_workdir_bytes_def split: sum.splits if_splits prod.splits dest: record_size_sized)

text \<open>What an entry says of its job.\<close>

definition entry_fits :: "host \<Rightarrow> job_id \<times> jobstate \<Rightarrow> json \<Rightarrow> bool" where
  "entry_fits h x e \<longleftrightarrow>
     (\<exists>kvs. e = JDict kvs) \<and> get e ''job_id'' = JStr (fst x) \<and> get e ''status'' = JStr (st_status (snd x)) \<and>
     (\<exists>spec pending. spec_or_none (fst x) h = Inr spec \<and> entry_pending (fst x) spec (snd x) h = Inr pending \<and>
        get e ''outputs_pending'' = JBool pending)"

lemma entry_fields_get:
  "get (JDict (entry_fields p j s spec bytes pending keeps_at)) ''job_id'' = JStr j"
  "get (JDict (entry_fields p j s spec bytes pending keeps_at)) ''status'' = JStr (st_status s)"
  "get (JDict (entry_fields p j s spec bytes pending keeps_at)) ''outputs_pending'' = JBool pending"
  by (simp_all add: entry_fields_def Let_def get_def put_all_def map_of_foldl_update spec_keys_def state_to_dict_def)

lemma job_entry_fits:
  assumes "job_entry su p j s h = (r, h')"
  shows "sized h h'" "r = Inr e \<Longrightarrow> entry_fits h (j, s) e"
proof -
  show "sized h h'"
    using assms by (auto simp: job_entry_def split: sum.splits if_splits prod.splits dest: reported_bytes_sized)
  assume r: "r = Inr e"
  from assms r obtain spec bytes h1 where spec: "spec_or_none j h = Inr spec"
    and m: "(if finished s then reported_workdir_bytes (su_spent su) j s h else (Inr None, h)) = (Inr bytes, h1)"
    by (auto simp: job_entry_def split: sum.splits prod.splits)
  have "sized h h1" using m by (auto split: if_splits dest: reported_bytes_sized)
  note same = sized_pending [OF this]
  show "entry_fits h (j, s) e"
    using assms r by (auto simp: job_entry_def spec m entry_fits_def same map_sum_Inr entry_fields_get elim!: bind_res_Inr)
qed

lemma job_entries_fit:
  "job_entries su p sts h = (r, h') \<Longrightarrow> sized h h' \<and> (\<forall>es. r = Inr es \<longrightarrow> list_all2 (entry_fits h) sts es)"
proof (induction sts arbitrary: h r h')
  case Nil
  then show ?case by auto
next
  case (Cons x sts)
  obtain j s where x: "x = (j, s)" by fastforce
  obtain a h1 where one: "job_entry su p j s h = (a, h1)" by fastforce
  obtain b h2 where two: "job_entries su p sts h1 = (b, h2)" by fastforce
  note fits = job_entry_fits [OF one]
  have same: "entry_fits h1 = entry_fits h"
    by (simp add: entry_fits_def fun_eq_iff sized_pending [OF fits(1)])
  have rest: "sized h1 h2" "\<And>es. b = Inr es \<Longrightarrow> list_all2 (entry_fits h1) sts es" using Cons.IH [OF two] by auto
  then have "sized h h2" "\<And>es. b = Inr es \<Longrightarrow> list_all2 (entry_fits h) sts es"
    using sized_trans [OF fits(1)] by (auto simp: same)
  then show ?case using Cons.prems fits one two x by (cases a; cases b) auto
qed

lemma states_of_read:
  assumes "states_of js h = Inr sts"
  shows "(j, s) \<in> set sts \<longleftrightarrow> j \<in> set js \<and> read_state j h = Inr s"
  using assms by (induction js arbitrary: sts) (auto simp: map_sum_Inr split: sum.splits if_splits)


lemma map_of_states:
  assumes "states_of js h = Inr sts" "(j, s) \<in> set sts"
  shows "map_of sts j = Some s"
proof -
  obtain s' where s': "map_of sts j = Some s'" using assms(2) weak_map_of_SomeI by metis
  from map_of_SomeD [OF this] have "s' = s" using states_of_read [OF assms(1)] assms(2) by auto
  with s' show ?thesis by simp
qed

lemma blank_Some: "blank why = False \<longleftrightarrow> (\<exists>w. why = Some w \<and> w \<noteq> [])"
  by (cases why) (auto simp: blank_def)

lemma finished_not_running: "finished s \<Longrightarrow> st_status s \<noteq> ''running''"
  by (auto simp: finished_def FINISHED_STATUSES_def)

text \<open>Every job that is not over, or holds its workdir, has an entry that fits it.\<close>

lemma status_entry:
  assumes "cmd_status su [] recent since_s h = (Some (Inr doc), h')" "read_state j h = Inr s"
    and "\<not> finished s \<or> has_workdir j h"
  shows "sized h h'" "\<exists>es e. get doc ''jobs'' = JList es \<and> e \<in> set es \<and> entry_fits h (j, s) e"
proof -
  from assms(1) obtain c sts rows p es where sts: "states_of (list_job_ids h) h = Inr sts"
    and es: "job_entries su p (selected_jobs su [] recent since_s sts h) h = (Inr es, h')"
    and doc: "doc = status_document su c rows sts es h'"
    by (auto simp: cmd_status_def map_sum_Inr split: sum.splits option.splits prod.splits elim!: bind_res_Inr)
  show "sized h h'" using job_entries_fit [OF es] by blast
  have "(j, s) \<in> set sts"
    using states_of_read [OF sts] assms(2) readable_has_job [OF assms(2)] by (simp add: has_job_ids)
  then have "j \<in> set (in_window su sts recent since_s h)" "map_of sts j = Some s"
    using map_of_states [OF sts] assms(3) by (auto simp: in_window_def Let_def intro: rev_image_eqI)
  then have "(j, s) \<in> set (selected_jobs su [] recent since_s sts h)"
    by (force simp: selected_jobs_def map_filter_def)
  then obtain e where "e \<in> set es" "entry_fits h (j, s) e"
    using job_entries_fit [OF es] by (metis in_set_conv_nth list_all2_conv_all_nth)
  moreover have "get doc ''jobs'' = JList es" by (simp add: doc status_document_def get_def)
  ultimately show "\<exists>es e. get doc ''jobs'' = JList es \<and> e \<in> set es \<and> entry_fits h (j, s) e" by blast
qed

lemma pending_has_workdir: "outputs_pending j spec s h = Inr (Some why) \<Longrightarrow> has_workdir j h"
  by (auto simp: outputs_pending_def split: if_splits elim!: bind_res_Inr)

lemma pending_entry:
  assumes "entry_fits h (j, s) e" "st_status s \<noteq> ''running''"
    and "read_spec j h = Inr spec" "outputs_pending j spec s h = Inr (Some why)" "why \<noteq> []"
  shows "get e ''outputs_pending'' = JBool True"
  using assms by (auto simp: entry_fits_def spec_or_none_def entry_pending_def blank_Some blank_def)


section \<open>What the job verbs share\<close>

text \<open>
  The contract of one job's part of a verb: its answer names the job, it leaves every other job's state
  alone, and an answer that gives the job's status, which a refusal does not, means that the job's state is
  as the verb promises. The verb over a list of ids then keeps each promise up to its end.
\<close>

definition carried_out :: "json \<Rightarrow> bool" where
  "carried_out a \<longleftrightarrow> get a ''status'' \<noteq> JNull"

locale verb =
  fixes one :: "job_id \<Rightarrow> host \<Rightarrow> json res \<times> host" and promise :: "jobstate res \<Rightarrow> json \<Rightarrow> bool"
  assumes names_job: "one j h = (Inr a, h') \<Longrightarrow> get a ''job_id'' = JStr j"
    and leaves_others: "one j h = (r, h') \<Longrightarrow> k \<noteq> j \<Longrightarrow> read_state k h' = read_state k h"
    and keeps_promise: "one j h = (Inr a, h') \<Longrightarrow> carried_out a \<Longrightarrow> promise (read_state j h') a"
begin

lemma each_leaves_others: "each_job one js h = (r, h') \<Longrightarrow> k \<notin> set js \<Longrightarrow> read_state k h' = read_state k h"
proof (induction js arbitrary: h r h')
  case (Cons j js)
  obtain a h1 where a: "one j h = (a, h1)" by fastforce
  show ?case
  proof (cases a)
    case (Inl e)
    then show ?thesis using Cons.prems a leaves_others [OF a] by simp
  next
    case (Inr x)
    obtain b h2 where b: "each_job one js h1 = (b, h2)" by fastforce
    then have "h2 = h'" using Cons.prems(1) a Inr by (cases b) auto
    then show ?thesis using Cons.IH [OF b] Cons.prems(2) leaves_others [OF a] by simp
  qed
qed simp

lemma each_keeps_promises:
  "each_job one js h = (Inr as, h') \<Longrightarrow> distinct js \<Longrightarrow>
   list_all2 (\<lambda>j a. get a ''job_id'' = JStr j \<and> (carried_out a \<longrightarrow> promise (read_state j h') a)) js as"
proof (induction js arbitrary: h as)
  case (Cons j js)
  obtain r h1 where one: "one j h = (r, h1)" by fastforce
  with Cons.prems obtain a where a: "r = Inr a" by (cases r) auto
  obtain q h2 where rest: "each_job one js h1 = (q, h2)" by fastforce
  with Cons.prems one a obtain bs where bs: "q = Inr bs" "as = a # bs" "h2 = h'" by (cases q) auto
  note rest = rest [unfolded bs]
  have "read_state j h' = read_state j h1" using each_leaves_others [OF rest] Cons.prems(2) by simp
  then show ?case
    using Cons.IH [OF rest] Cons.prems(2) names_job [OF one [unfolded a]] keeps_promise [OF one [unfolded a]] bs(2) by simp
qed simp

lemma verb_keeps_promises:
  assumes "job_verb one extra ids h = (Inr (doc, code), h')"
  shows "\<exists>as. get doc ''jobs'' = JList as \<and> list_all2 (\<lambda>j a. get a ''job_id'' = JStr j \<and>
    (carried_out a \<longrightarrow> promise (read_state j h') a)) (dedup ids) as"
proof -
  obtain r h1 where r: "each_job one (dedup ids) h = (r, h1)" by fastforce
  with assms obtain as where "r = Inr as" "h1 = h'" and doc: "answer_doc as (extra as) = (doc, code)"
    by (cases r) (auto simp: job_verb_def)
  with r have as: "each_job one (dedup ids) h = (Inr as, h')" by simp
  from doc have "get doc ''jobs'' = JList as" by (auto simp: answer_doc_def get_def)
  then show ?thesis using each_keeps_promises [OF as distinct_dedup] by blast
qed

end

lemma cancel_states:
  assumes "cancel j now h = (r, h')"
  shows "k \<noteq> j \<Longrightarrow> read_state k h' = read_state k h"
    "r = Inr status \<Longrightarrow> \<exists>s. read_state j h' = Inr s \<and> (finished s \<or> st_intent s = Some CANCEL)"
proof -
  let ?body = "\<lambda>s. if finished s then (Inr (Inl (st_status s)) :: (string + jobstate) res, None)
             else (Inr (Inr (cancelled_state now s)), Some (cancelled_state now s))"
  obtain x h1 where x: "with_state j ?body h = (x, h1)" by fastforce
  have "snd (cancel j now h) = h1 \<or> (\<exists>s. snd (cancel j now h) = snd (settle_secrets j s h1))"
    using x by (auto simp: cancel_def snd_relabel split: sum.split)
  then have states: "read_state k h' = read_state k h1" for k using assms settle_secrets_states(1) by auto
  show "read_state k h' = read_state k h" if "k \<noteq> j"
    using with_state_other [OF that, of ?body h] x states [of k] by simp
  assume r: "r = Inr status"
  show "\<exists>s. read_state j h' = Inr s \<and> (finished s \<or> st_intent s = Some CANCEL)"
    using x
  proof (cases rule: with_state_cases)
    case missing
    then show ?thesis using assms r x by (simp add: cancel_def)
  next
    case (unreadable e)
    then show ?thesis using assms r x by (simp add: cancel_def)
  next
    case (declined s)
    then show ?thesis using states [of j] by (auto split: if_splits)
  next
    case (wrote s s')
    then show ?thesis using states [of j] states.rd_wr
      by (auto simp: cancelled_state_def finished_def FINISHED_STATUSES_def split: if_splits)
  qed
qed

definition stops :: "jobstate res \<Rightarrow> json \<Rightarrow> bool" where
  "stops st a \<longleftrightarrow> (\<exists>s. st = Inr s \<and> (finished s \<or> st_intent s = Some CANCEL))"

definition gives_way :: "jobstate res \<Rightarrow> json \<Rightarrow> bool" where
  "gives_way st a \<longleftrightarrow> (\<exists>s. st = Inr s \<and> st_intent s = Some PREEMPT \<and> get a ''priority'' = JInt (st_priority s))"

definition has_taken :: "patch \<Rightarrow> jobstate res \<Rightarrow> json \<Rightarrow> bool" where
  "has_taken p st a \<longleftrightarrow> (\<exists>s s0. st = Inr s \<and> s = patched p s0 \<and> get a ''status'' = JStr (st_status s))"

interpretation cancels: verb "cancel_one su" stops for su
proof
  fix j h a h'
  assume one: "cancel_one su j h = (Inr a, h')"
  then obtain r where r: "cancel j (su_stamp su) h = (r, h')" by (auto simp: cancel_one_def split: prod.splits sum.splits)
  show "get a ''job_id'' = JStr j"
    using one by (auto simp: cancel_one_def no_such_job_def refusal_doc_def get_def split: prod.splits sum.splits if_splits)
  show "stops (read_state j h') a" if "carried_out a"
    using that one r cancel_states(2) [OF r]
    by (cases r) (auto simp: cancel_one_def no_such_job_def refusal_doc_def carried_out_def get_def stops_def split: if_splits)
next
  fix j h r h' and k :: job_id
  assume "cancel_one su j h = (r, h')" "k \<noteq> j"
  then show "read_state k h' = read_state k h"
    by (auto simp: cancel_one_def dest: cancel_states(1) split: prod.splits sum.splits)
qed

lemma preempt_states:
  assumes "preempt j priority h = (r, h')"
  shows "k \<noteq> j \<Longrightarrow> read_state k h' = read_state k h"
    "r = Inr status \<Longrightarrow> \<exists>s. read_state j h' = Inr s \<and> st_intent s = Some PREEMPT"
  using assms by (auto simp: preempt_def states.rd_wr states.rd_other split: if_splits sum.splits option.splits)

interpretation preempts: verb "preempt_one su priority" gives_way for su priority
proof
  fix j h a h'
  assume one: "preempt_one su priority j h = (Inr a, h')"
  then obtain r where r: "preempt j priority h = (r, h')" by (auto simp: preempt_one_def split: prod.splits sum.splits refusal.splits)
  show "get a ''job_id'' = JStr j"
    using one by (auto simp: preempt_one_def no_such_job_def refusal_doc_def get_def map_sum_Inr split: prod.splits sum.splits refusal.splits if_splits)
  show "gives_way (read_state j h') a" if "carried_out a"
  proof (cases r)
    case (Inl e)
    then show ?thesis using that one r
      by (cases e) (auto simp: preempt_one_def no_such_job_def refusal_doc_def carried_out_def get_def split: if_splits)
  next
    case (Inr status)
    from preempt_states(2) [OF r Inr] obtain s where s: "read_state j h' = Inr s" "st_intent s = Some PREEMPT" by blast
    then show ?thesis using one r Inr by (auto simp: preempt_one_def gives_way_def get_def)
  qed
next
  fix j h r h' and k :: job_id
  assume "preempt_one su priority j h = (r, h')" "k \<noteq> j"
  then show "read_state k h' = read_state k h"
    by (auto simp: preempt_one_def dest: preempt_states(1) split: prod.splits sum.splits refusal.splits)
qed

lemma apply_patch_states:
  assumes "apply_patch fromiso now j p h = (r, h')"
  shows "k \<noteq> j \<Longrightarrow> read_state k h' = read_state k h"
    "r = Inr (Changed s w) \<Longrightarrow> read_state j h' = Inr s \<and> (\<exists>s0. s = patched p s0)"
proof -
  show "read_state k h' = read_state k h" if "k \<noteq> j"
    using assms
  proof (cases rule: apply_patch_runs)
    case early
    then show ?thesis by blast
  next
    case (locked spec q)
    show ?thesis using with_state_other [OF that, of "set_body fromiso now p spec" h] locked(1) by simp
  qed
  assume changed: "r = Inr (Changed s w)"
  have "\<exists>spec. with_state j (set_body fromiso now p spec) h = (Inr (Changed s w), h')"
    using assms
  proof (cases rule: apply_patch_runs)
    case (locked spec q)
    then have "q = Inr (Changed s w)" using changed by blast
    then show ?thesis using locked(1) by blast
  qed (use changed in blast)
  then obtain spec where "with_state j (set_body fromiso now p spec) h = (Inr (Changed s w), h')" by blast
  then show "read_state j h' = Inr s \<and> (\<exists>s0. s = patched p s0)"
    by (cases rule: with_state_cases)
      (auto simp: set_body_def Let_def states.rd_own split: sum.splits option.splits)
qed

interpretation sets: verb "set_one su p" "has_taken p" for su p
proof
  fix j h a h'
  assume one: "set_one su p j h = (Inr a, h')"
  then obtain r where r: "apply_patch (su_fromiso su) (su_now su) j p h = (r, h')"
    by (auto simp: set_one_def split: prod.splits sum.splits set_answer.splits set_error.splits)
  show "get a ''job_id'' = JStr j"
    using one by (auto simp: set_one_def no_such_job_def refusal_doc_def get_def split: prod.splits sum.splits set_answer.splits set_error.splits)
  show "has_taken p (read_state j h') a" if ok: "carried_out a"
  proof (cases r)
    case (Inl e)
    then show ?thesis using one r by (simp add: set_one_def)
  next
    case (Inr ans)
    show ?thesis
    proof (cases ans)
      case (NotSet e)
      then show ?thesis using ok one r Inr
        by (cases e) (auto simp: set_one_def no_such_job_def refusal_doc_def carried_out_def get_def)
    next
      case (Changed s w)
      then show ?thesis using one r Inr apply_patch_states(2) [OF r] by (auto simp: set_one_def has_taken_def get_def)
    qed
  qed
next
  fix j h r h' and k :: job_id
  assume "set_one su p j h = (r, h')" "k \<noteq> j"
  then show "read_state k h' = read_state k h"
    by (auto simp: set_one_def dest: apply_patch_states(1) split: prod.splits sum.splits set_answer.splits set_error.splits)
qed

section \<open>A mistyped id\<close>

text \<open>
  A clean or purge of named jobs is all or nothing in its names: with one id that is not on the host,
  nothing is removed and the exit is 1.
\<close>

theorem typo_removes_nothing:
  assumes "selection_of only = Some js" "j \<in> set js" "\<not> has_job j h" "host_s3_prefix h = Inr prefix"
  shows "(\<exists>r. cmd_clean su only everything older dry h = (Inr (r, 1), h) \<and> cr_removed r = []) \<and>
    (\<exists>r. cmd_purge su bytes only verified listed age force dry h = (Inr (r, 1), h) \<and> cr_purged r = [])"
proof -
  have "sort (dedup (filter (\<lambda>j. j \<notin> set (list_job_ids h)) js)) \<noteq> []"
    using assms(2,3) by (auto simp: has_job_ids dest!: arg_cong [where f = set])
  then show ?thesis using assms
    by (auto simp: cmd_clean_def cmd_purge_def refused_selection_def Let_def clean_exit_def empty_result_def)
qed

section \<open>A host and its commands\<close>

definition demo_surroundings :: surroundings where
  "demo_surroundings =
     \<lparr>su_now = 0, su_stamp = ''t'', su_fromiso = (\<lambda>_. None), su_smi = (\<lambda>_. Inl (GpuError ''no driver'')),
      su_spent = (\<lambda>_. True), su_lock_mtime = None, su_holder_commit = None, su_heartbeat = None, su_served_by = None,
      su_dispatcher_pid = None, su_said = (\<lambda>_. ''raised''), su_refused = (\<lambda>_. ''refused''),
      su_set_refused = (\<lambda>_. ''refused''), su_warned = ''warned'', su_fuel = 9\<rparr>"

theorem typo_removes_nothing_witness:
  "(\<exists>r. cmd_clean demo_surroundings (Some ''b, zz'') True None False demo_host = (Inr (r, 1), demo_host) \<and> cr_removed r = []) \<and>
   (\<exists>r. cmd_purge demo_surroundings (\<lambda>_. 0) (Some ''b, zz'') None None (Fin 1) True False demo_host = (Inr (r, 1), demo_host) \<and> cr_purged r = [])"
proof -
  have sel: "selection_of (Some ''b, zz'') = Some [''b'', ''zz'']" by code_simp
  have strange: "\<not> has_job ''zz'' demo_host" by code_simp
  have prefix: "host_s3_prefix demo_host = Inr (cf_s3_prefix (projr (h_config demo_host)))" by code_simp
  show ?thesis by (rule typo_removes_nothing [OF sel _ strange prefix]) simp
qed


end
