(* ===== verification/Locate.thy ===== *)
theory Locate
  imports Status Wait Commands
begin

text \<open>
  \<open>src/gpuc/control/s3index.py\<close> and the part of \<open>src/gpuc/control/actions.py\<close> that finds a job's host and acts
  on it there: \<open>JobIndex\<close>, \<open>locate_many\<close>, \<open>job_verbs\<close>, \<open>read_mirror\<close> and the exit code of an answer. The
  registry is the hosts by name, and an entry's name is its key. What the local index, S3 and the hosts
  answer are functions given to the definitions: S3 is \<open>None\<close> where no bucket is set, and a host is asked
  in one of two rounds about a list of ids. Hosts asked at once answer in the order they were asked.
\<close>

section \<open>The index\<close>

record index_entry =
  ix_job_id :: job_id
  ix_host :: string
  ix_name :: string
  ix_requeued_from :: "string option"
  ix_submitted_at :: string
  ix_s3_prefix :: "string option"
  ix_spec_uri :: "string option"

record job_index =
  xi_local :: "job_id \<Rightarrow> index_entry option"
  xi_s3 :: "(job_id \<Rightarrow> index_entry option) option"
  xi_states :: "string \<Rightarrow> json option"

definition index_get :: "job_index \<Rightarrow> job_id \<Rightarrow> index_entry option" where
  "index_get x j =
     (case xi_local x j of
        Some e \<Rightarrow> Some e
      | None \<Rightarrow> (case xi_s3 x of None \<Rightarrow> None | Some f \<Rightarrow> f j))"

text \<open>\<open>all\<close>: what is listed here, and then over it what the mirror lists, or why it could not be.\<close>

definition index_all ::
  "index_entry list \<Rightarrow> (string + index_entry list) option \<Rightarrow> (job_id \<times> index_entry) list \<times> string option" where
  "index_all here mirror_lists =
     (let entries = dict_of (map (\<lambda>e. (ix_job_id e, e)) here)
      in case mirror_lists of
           None \<Rightarrow> (entries, None)
         | Some (Inl why) \<Rightarrow> (entries, Some (''could not read the S3 index: '' @ why))
         | Some (Inr es) \<Rightarrow> (dict_merge entries (map (\<lambda>e. (ix_job_id e, e)) es), None))"

definition mirror_prefix :: "job_index \<Rightarrow> job_id \<Rightarrow> string option \<Rightarrow> string option" where
  "mirror_prefix x j cached =
     (let indexed = Option.bind (index_get x j) ix_s3_prefix in if blank indexed then cached else indexed)"

text \<open>
  \<open>list_keys\<close>: page by page, each at most a thousand keys and the rest of what is wanted. A page is its
  keys and the token of the next, if the listing goes on; the pages are a list, one element per request.
\<close>

fun list_keys :: "nat \<Rightarrow> (string list \<times> bool) list \<Rightarrow> string list \<Rightarrow> string list" where
  "list_keys most [] keys = take most keys"
| "list_keys most ((page, truncated) # pages) keys =
     (if most \<le> length keys then take most keys
      else let keys' = keys @ page in if truncated then list_keys most pages keys' else take most keys')"

definition KEYS_MAX :: nat where "KEYS_MAX = 100000"

definition newest :: "nat \<Rightarrow> 'a list \<Rightarrow> 'a list" where
  "newest n xs = drop (length xs - n) xs"

definition list_index :: "(string \<Rightarrow> index_entry option) \<Rightarrow> nat \<Rightarrow> string list \<Rightarrow> index_entry list" where
  "list_index at_key n listed =
     sort_key ix_job_id (List.map_filter at_key
       (newest n (sort (filter (\<lambda>k. drop (length k - 5) k = ''.json'') listed))))"

section \<open>The mirror of a job\<close>

definition job_uri :: "string \<Rightarrow> job_id \<Rightarrow> string \<Rightarrow> string" where
  "job_uri prefix j name =
     (let uri = rstrip_slash prefix @ ''/jobs/'' @ j in if name = [] then uri else uri @ ''/'' @ name)"

definition mirror_payload :: "job_id \<Rightarrow> string \<Rightarrow> (string \<times> json) list \<Rightarrow> json" where
  "mirror_payload j name document =
     JDict [(''jobs'', JList [JDict (put_all
       [(''job_id'', JStr j), (''name'', JStr name),
        (''outputs_pending'', JBool (py_bool (get (JDict document) ''outputs_lost''))),
        (''max_runtime_min'', if get (JDict document) ''live_max_runtime'' = JBool True
           then get (JDict document) ''max_runtime_min'' else JNull)] document)])]"

record mirror_answer =
  ma_view :: "job_row option"
  ma_uri :: "string option"
  ma_lost :: bool

definition is_final :: "job_row \<Rightarrow> bool" where
  "is_final r \<longleftrightarrow> vr_status r \<in> JStr ` set FINISHED_STATUSES"

definition read_mirrored :: "job_index \<Rightarrow> job_id \<Rightarrow> string option \<Rightarrow> mirror_answer viewed" where
  "read_mirrored x j prefix =
     (if xi_s3 x = None \<or> blank prefix then Inr \<lparr>ma_view = None, ma_uri = None, ma_lost = True\<rparr>
      else
        let uri = job_uri (the prefix) j ''state.json''
        in and_then (case xi_states x uri of
               Some (JDict document) \<Rightarrow>
                 map_sum id (\<lambda>(_, _, fin). find is_final fin)
                   (job_views (mirror_payload j (case index_get x j of Some e \<Rightarrow> ix_name e | None \<Rightarrow> []) document))
             | _ \<Rightarrow> Inr None)
           (\<lambda>v. Inr \<lparr>ma_view = v, ma_uri = Some uri, ma_lost = (v = None)\<rparr>))"

section \<open>Where a job is\<close>

datatype placed =
    At string "host_entry option" "index_entry option" "reply option"
  | Nowhere string bool

type_synonym registry = "(string \<times> host_entry) list"

definition not_registered :: "string \<Rightarrow> reply" where
  "not_registered name = HasGone (''host '' @ name @ '' is not registered on this machine, so it cannot be asked'') None"

definition unreadable_entry :: "string \<Rightarrow> reply" where
  "unreadable_entry name = CannotAsk (''the registry entry of host '' @ name @ '' could not be read, so it was not asked'') None"

fun is_answer :: "reply \<Rightarrow> bool" where
  "is_answer (Answered d p e) = True"
| "is_answer _ = False"

definition trouble_of :: "reply option \<Rightarrow> reply option" where
  "trouble_of a = (case a of Some r \<Rightarrow> if is_answer r then None else Some r | None \<Rightarrow> None)"

definition reason_in :: "reply \<Rightarrow> string" where
  "reason_in r = (case r of CannotAsk why _ \<Rightarrow> why | HasGone why _ \<Rightarrow> why | _ \<Rightarrow> [])"

definition on_named_host :: "job_index \<Rightarrow> registry \<Rightarrow> string list \<Rightarrow> string \<Rightarrow> job_id \<Rightarrow> placed" where
  "on_named_host x reg sks name j =
     (case map_of reg name of
        Some e \<Rightarrow> At name (Some e) (xi_local x j) None
      | None \<Rightarrow>
          if name \<in> set sks then At name None (xi_local x j) (Some (unreadable_entry name))
          else (case index_get x j of
              None \<Rightarrow> Nowhere (''no host named '' @ name) True
            | Some ix \<Rightarrow>
                if ix_host ix \<noteq> name
                then Nowhere (''no host named '' @ name @ ''; the index has job '' @ j @ '' on host '' @ ix_host ix) True
                else At name None (Some ix) (Some (not_registered name))))"

text \<open>
  One round of asking: \<open>latest\<close> and \<open>first\<close> keep each host's last and first reply, \<open>found\<close> the first host that
  listed an id it was asked about.
\<close>

record heard =
  hd_latest :: "(string \<times> reply) list"
  hd_first :: "(string \<times> reply) list"
  hd_found :: "(job_id \<times> string \<times> reply) list"

definition listed_in :: "json \<Rightarrow> job_id list viewed" where
  "listed_in payload =
     map_sum id (\<lambda>es. List.map_filter (\<lambda>e. if is_dict e then view_str (get e ''job_id'') else None) es)
       (items (get payload ''jobs''))"

fun ask_each :: "(string \<Rightarrow> job_id list \<Rightarrow> reply) \<Rightarrow> (string \<times> job_id list) list \<Rightarrow> heard \<Rightarrow> heard viewed" where
  "ask_each asks [] k = Inr k"
| "ask_each asks ((name, ids) # qs) k =
     (let r = asks name ids;
          k1 = k\<lparr>hd_latest := AList.update name r (hd_latest k), hd_first := setdefault name r (hd_first k)\<rparr>
      in and_then (case r of Answered d _ _ \<Rightarrow> listed_in d | _ \<Rightarrow> Inr []) (\<lambda>js.
           ask_each asks qs
             (k1\<lparr>hd_found := foldl (\<lambda>f j. setdefault j (name, r) f) (hd_found k1) (filter (\<lambda>j. j \<in> set ids) js)\<rparr>)))"

definition add_to :: "(string \<times> job_id list) list \<Rightarrow> string \<Rightarrow> job_id \<Rightarrow> (string \<times> job_id list) list" where
  "add_to d name j = AList.update name ((case map_of d name of Some js \<Rightarrow> js | None \<Rightarrow> []) @ [j]) d"

definition named_host :: "registry \<Rightarrow> index_entry option \<Rightarrow> string option" where
  "named_host reg ix =
     (case ix of Some e \<Rightarrow> if map_of reg (ix_host e) = None then None else Some (ix_host e) | None \<Rightarrow> None)"

type_synonym unplaced = "(job_id \<times> index_entry option) list"

definition by_named :: "registry \<Rightarrow> unplaced \<Rightarrow> (string \<times> job_id list) list" where
  "by_named reg un =
     foldl (\<lambda>d (j, ix). case named_host reg ix of Some name \<Rightarrow> add_to d name j | None \<Rightarrow> d) [] un"

definition everyone :: "registry \<Rightarrow> unplaced \<Rightarrow> heard \<Rightarrow> (string \<times> job_id list) list" where
  "everyone reg un k =
     List.map_filter (\<lambda>(name, e).
       if (case map_of (hd_latest k) name of Some r \<Rightarrow> \<not> is_answer r | None \<Rightarrow> False) then None
       else
         let wanted = map fst (filter (\<lambda>(j, ix). map_of (hd_found k) j = None \<and> named_host reg ix \<noteq> Some name) un)
         in if wanted = [] then None else Some (name, wanted)) reg"

definition unasked_lines :: "string option \<Rightarrow> heard \<Rightarrow> string list" where
  "unasked_lines at_first k =
     List.map_filter (\<lambda>(name, r). case r of
         CannotAsk why _ \<Rightarrow> if at_first = Some name then None else Some (name @ '': '' @ why)
       | _ \<Rightarrow> None) (hd_latest k)"

definition settle_place :: "registry \<Rightarrow> heard \<Rightarrow> job_id \<Rightarrow> index_entry option \<Rightarrow> placed" where
  "settle_place reg k j ix =
     (let at_first = named_host reg ix; unasked = unasked_lines at_first k
      in case map_of (hd_found k) j of
           Some (name, r) \<Rightarrow> At name (map_of reg name) ix (Some r)
         | None \<Rightarrow>
             (case Option.bind at_first (\<lambda>n. map_option (\<lambda>r. (n, r)) (trouble_of (map_of (hd_first k) n))) of
                Some (n, r) \<Rightarrow> At n (map_of reg n) ix (Some r)
              | None \<Rightarrow>
                  if ix \<noteq> None \<and> at_first = None \<and> unasked = []
                  then At (ix_host (the ix)) None ix (Some (not_registered (ix_host (the ix))))
                  else if unasked \<noteq> []
                  then Nowhere (''no host that answered knows job '' @ j @ '', and these could not be asked: '' @ join ''; '' unasked) False
                  else Nowhere (''no registered host knows job '' @ j) True))"

definition ask_around ::
  "registry \<Rightarrow> (nat \<Rightarrow> string \<Rightarrow> job_id list \<Rightarrow> reply) \<Rightarrow> unplaced \<Rightarrow> (job_id \<times> placed) list viewed" where
  "ask_around reg asks un =
     and_then (ask_each (asks 0) (by_named reg un) \<lparr>hd_latest = [], hd_first = [], hd_found = []\<rparr>) (\<lambda>k.
       map_sum id (\<lambda>k'. map (\<lambda>(j, ix). (j, settle_place reg k' j ix)) un) (ask_each (asks 1) (everyone reg un k) k))"

text \<open>What the index settles without asking anybody.\<close>

definition place_by_index :: "job_index \<Rightarrow> registry \<Rightarrow> string list \<Rightarrow> job_id \<Rightarrow> placed + index_entry option" where
  "place_by_index x reg sks j =
     (case xi_local x j of
        Some ix \<Rightarrow>
          (case map_of reg (ix_host ix) of
             Some e \<Rightarrow> Inl (At (ix_host ix) (Some e) (Some ix) None)
           | None \<Rightarrow> if ix_host ix \<in> set sks then Inl (At (ix_host ix) None (Some ix) (Some (unreadable_entry (ix_host ix)))) else Inr (Some ix))
      | None \<Rightarrow>
          (case index_get x j of
             Some ix \<Rightarrow>
               if map_of reg (ix_host ix) = None \<and> ix_host ix \<in> set sks
               then Inl (At (ix_host ix) None (Some ix) (Some (unreadable_entry (ix_host ix)))) else Inr (Some ix)
           | None \<Rightarrow> Inr None))"

definition asked_around :: "job_index \<Rightarrow> registry \<Rightarrow> string list \<Rightarrow> job_id list \<Rightarrow> unplaced" where
  "asked_around x reg sks ids =
     List.map_filter (\<lambda>j. case place_by_index x reg sks j of Inr ix \<Rightarrow> Some (j, ix) | Inl _ \<Rightarrow> None) ids"

definition locate_many ::
  "job_index \<Rightarrow> registry \<Rightarrow> string option \<Rightarrow> string list \<Rightarrow> (nat \<Rightarrow> string \<Rightarrow> job_id list \<Rightarrow> reply) \<Rightarrow> job_id list \<Rightarrow>
   (job_id \<times> placed) list viewed" where
  "locate_many x reg explicit sks asks job_ids =
     (let ids = dedup job_ids
      in if \<not> blank explicit then Inr (map (\<lambda>j. (j, on_named_host x reg sks (the explicit) j)) ids)
         else
           let un = asked_around x reg sks ids
           in map_sum id (\<lambda>asked_for. map (\<lambda>j. (j, case place_by_index x reg sks j of Inl q \<Rightarrow> q | Inr ix \<Rightarrow> the (map_of asked_for j))) ids)
                (if un = [] then Inr [] else ask_around reg asks un))"

section \<open>Acting on jobs where they are\<close>

record done_job =
  dn_job_id :: job_id
  dn_host :: "string option"
  dn_fields :: "(string \<times> json) list"
  dn_source :: string
  dn_error :: "string option"
  dn_missing :: bool
  dn_warnings :: "string list"

definition done_as :: "job_id \<Rightarrow> string option \<Rightarrow> (string \<times> json) list \<Rightarrow> string option \<Rightarrow> done_job" where
  "done_as j host given e =
     \<lparr>dn_job_id = j, dn_host = host, dn_fields = given, dn_source = ''host'', dn_error = e, dn_missing = False, dn_warnings = []\<rparr>"

definition could_not_ask :: "job_id \<Rightarrow> string \<Rightarrow> string \<Rightarrow> done_job" where
  "could_not_ask j host why =
     done_as j (Some host) [] (Some (''job '' @ j @ '' is on host '' @ host @ '', which could not be asked: '' @ why))"

text \<open>\<open>{answer["job_id"]: answer for \<dots>}\<close>: the last answer for an id counts.\<close>

definition answers_by_id :: "json list \<Rightarrow> (job_id \<times> json) list" where
  "answers_by_id as =
     dict_of (List.map_filter (\<lambda>a. if is_dict a then map_option (\<lambda>j. (j, a)) (view_str (get a ''job_id'')) else None) as)"

definition verdict_on :: "string \<Rightarrow> string \<Rightarrow> (job_id \<times> json) list \<Rightarrow> job_id \<Rightarrow> done_job" where
  "verdict_on verb_name host answers j =
     (let a = (case map_of answers j of Some v \<Rightarrow> v | None \<Rightarrow> JDict [])
      in if py_bool (get a ''missing'')
         then (done_as j (Some host) [] (Some (''host '' @ host @ '' has no job '' @ j @ '': '' @ py_str (get a ''error''))))\<lparr>dn_missing := True\<rparr>
         else if py_bool (get a ''error'')
         then done_as j (Some host) [] (Some (''host '' @ host @ '' did not '' @ verb_name @ '' '' @ j @ '': '' @ py_str (get a ''error'')))
         else if \<not> py_bool (get a ''status'')
         then done_as j (Some host) [] (Some (''host '' @ host @ '' did not say what it did with '' @ j))
         else (done_as j (Some host) (AList.delete ''warning'' (AList.delete ''job_id'' (fields_of a))) None)
                \<lparr>dn_warnings := (if py_bool (get a ''warning'') then [py_str (get a ''warning'')] else [])\<rparr>)"

definition verdicts :: "string \<Rightarrow> string \<Rightarrow> job_id list \<Rightarrow> reply \<Rightarrow> done_job list viewed" where
  "verdicts verb_name host ids r =
     (case r of
        Answered d _ _ \<Rightarrow> map_sum id (\<lambda>as. map (verdict_on verb_name host (answers_by_id as)) ids) (items (get d ''jobs''))
      | _ \<Rightarrow> Inr (map (\<lambda>j. could_not_ask j host (reason_in r)) ids))"

definition ended_on_gone_host ::
  "job_index \<Rightarrow> string \<Rightarrow> bool \<Rightarrow> job_id \<Rightarrow> string \<Rightarrow> string option \<Rightarrow> string \<Rightarrow> done_job viewed" where
  "ended_on_gone_host x verb_name ended_is_answer j host cached why =
     map_sum id (\<lambda>m. case ma_view m of
         None \<Rightarrow> done_as j (Some host) [] (Some (''job '' @ j @ '' was on host '' @ host @ '', which is gone ('' @ why @ ''), and no final state is mirrored''))
       | Some v \<Rightarrow>
           if ended_is_answer then (done_as j (Some host) [(''status'', vr_status v)] None)\<lparr>dn_source := ''mirror''\<rparr>
           else (done_as j (Some host) [] (Some (''cannot '' @ verb_name @ '' job '' @ j @ '': it ended '' @ py_str (vr_status v)
                  @ '' on host '' @ host @ '', which is gone ('' @ why @ '')'')))\<lparr>dn_source := ''mirror''\<rparr>)
       (read_mirrored x j (mirror_prefix x j cached))"

text \<open>
  Where each id goes: to its host, or to an answer already. \<open>cached\<close> is a host entry's recorded mirror
  location. The hosts are asked once each, and \<open>tell\<close> is what they print.
\<close>

definition settled_already ::
  "job_index \<Rightarrow> (string \<Rightarrow> string option) \<Rightarrow> string \<Rightarrow> bool \<Rightarrow> job_id \<Rightarrow> placed \<Rightarrow> done_job option viewed" where
  "settled_already x cached verb_name ended_is_answer j p =
     (case p of
        Nowhere why missing \<Rightarrow> Inr (Some ((done_as j None [] (Some why))\<lparr>dn_missing := missing\<rparr>))
      | At host e ix a \<Rightarrow>
          (case trouble_of a of
             Some (HasGone why p') \<Rightarrow>
               map_sum id Some (ended_on_gone_host x verb_name ended_is_answer j host (if e = None then None else cached host) why)
           | Some r \<Rightarrow> Inr (Some (could_not_ask j host (reason_in r)))
           | None \<Rightarrow> Inr (if e = None then Some (could_not_ask j host []) else None)))"

fun settle_all ::
  "(job_id \<Rightarrow> placed \<Rightarrow> done_job option viewed) \<Rightarrow> (job_id \<times> placed) list \<Rightarrow>
   ((job_id \<times> done_job) list \<times> (string \<times> job_id list) list) viewed" where
  "settle_all f [] = Inr ([], [])"
| "settle_all f ((j, p) # ps) =
     and_then (f j p) (\<lambda>d.
       map_sum id (\<lambda>(ds, hosts).
         case (d, p) of
           (Some x, _) \<Rightarrow> ((j, x) # ds, hosts)
         | (None, At host _ _ _) \<Rightarrow> (ds, (host, j # (case map_of hosts host of Some js \<Rightarrow> js | None \<Rightarrow> [])) # AList.delete host hosts)
         | (None, _) \<Rightarrow> (ds, hosts)) (settle_all f ps))"

fun tell_each ::
  "string \<Rightarrow> (string \<Rightarrow> job_id list \<Rightarrow> reply) \<Rightarrow> (string \<times> job_id list) list \<Rightarrow> done_job list viewed" where
  "tell_each verb_name tell [] = Inr []"
| "tell_each verb_name tell ((host, ids) # hs) =
     and_then (verdicts verb_name host ids (tell host ids)) (\<lambda>ds.
       map_sum id (\<lambda>rest. ds @ rest) (tell_each verb_name tell hs))"

definition with_mirror_warning :: "(job_id \<Rightarrow> string option) option \<Rightarrow> done_job \<Rightarrow> done_job" where
  "with_mirror_warning update d =
     (case update of
        Some f \<Rightarrow>
          if dn_error d = None \<and> dn_source d = ''host'' \<and> \<not> blank (f (dn_job_id d))
          then d\<lparr>dn_warnings := dn_warnings d @ [the (f (dn_job_id d))]\<rparr> else d
      | None \<Rightarrow> d)"

definition job_verbs ::
  "job_index \<Rightarrow> (string \<Rightarrow> string option) \<Rightarrow> registry \<Rightarrow> string option \<Rightarrow> string list \<Rightarrow> (nat \<Rightarrow> string \<Rightarrow> job_id list \<Rightarrow> reply) \<Rightarrow>
   string \<Rightarrow> bool \<Rightarrow> (string \<Rightarrow> job_id list \<Rightarrow> reply) \<Rightarrow> (job_id \<Rightarrow> string option) option \<Rightarrow> job_id list \<Rightarrow> done_job list viewed" where
  "job_verbs x cached reg explicit sks asks verb_name ended_is_answer tell update ids =
     and_then (locate_many x reg explicit sks asks ids) (\<lambda>where_each.
     and_then (settle_all (settled_already x cached verb_name ended_is_answer) where_each) (\<lambda>(answered, hosts).
     map_sum id (\<lambda>told.
       map (\<lambda>(j, p). with_mirror_warning update (the (map_of (answered @ map (\<lambda>d. (dn_job_id d, d)) told) j))) where_each)
       (tell_each verb_name tell hosts)))"

section \<open>Exit codes\<close>

definition EXIT_LOCAL_STATE :: int where "EXIT_LOCAL_STATE = 3"

record cmd_answer =
  an_failures :: "string list"
  an_unknown :: bool
  an_outcome :: "int option"

definition exit_code_of :: "cmd_answer \<Rightarrow> int" where
  "exit_code_of a =
     (if an_unknown a then EXIT_LOCAL_STATE
      else (case an_outcome a of Some n \<Rightarrow> n | None \<Rightarrow> if an_failures a = [] then EXIT_OK else EXIT_ERROR))"

definition jobs_answer :: "done_job list \<Rightarrow> cmd_answer" where
  "jobs_answer ds =
     \<lparr>an_failures = List.map_filter dn_error ds, an_unknown = False,
      an_outcome = (if list_ex dn_missing ds then Some EXIT_NOT_FOUND else None)\<rparr>"


section \<open>What a place rests on\<close>

lemma ask_each_keys:
  assumes "ask_each asks qs k = Inr k'" "distinct (map fst qs)"
  shows "map_of (hd_latest k') n = (case map_of qs n of Some js \<Rightarrow> Some (asks n js) | None \<Rightarrow> map_of (hd_latest k) n)"
    "map_of (hd_first k') n = (case map_of (hd_first k) n of Some r \<Rightarrow> Some r | None \<Rightarrow> map_option (asks n) (map_of qs n))"
proof -
  have "map_of (hd_latest k') n = (case map_of qs n of Some js \<Rightarrow> Some (asks n js) | None \<Rightarrow> map_of (hd_latest k) n) \<and>
    map_of (hd_first k') n = (case map_of (hd_first k) n of Some r \<Rightarrow> Some r | None \<Rightarrow> map_option (asks n) (map_of qs n))"
    using assms
  proof (induction qs arbitrary: k)
    case (Cons q qs)
    obtain name ids where q: "q = (name, ids)" by fastforce
    have "map_of qs name = None" using Cons.prems(2) q by (simp add: map_of_eq_None_iff)
    then show ?case
      using Cons.prems Cons.IH q by (auto simp: Let_def map_of_setdefault update_conv' split: option.splits)
  qed (simp split: option.splits)
  then show "map_of (hd_latest k') n = (case map_of qs n of Some js \<Rightarrow> Some (asks n js) | None \<Rightarrow> map_of (hd_latest k) n)"
    "map_of (hd_first k') n = (case map_of (hd_first k) n of Some r \<Rightarrow> Some r | None \<Rightarrow> map_option (asks n) (map_of qs n))"
    by blast+
qed

definition lacks :: "job_id \<Rightarrow> reply \<Rightarrow> bool" where
  "lacks j r \<longleftrightarrow> (\<exists>d p e js. r = Answered d p e \<and> listed_in d = Inr js \<and> j \<notin> set js)"

lemma found_stays: "map_of (foldl (\<lambda>f j. setdefault j v f) f js) j = None \<longleftrightarrow> map_of f j = None \<and> j \<notin> set js"
  by (induction js arbitrary: f) (auto simp: map_of_setdefault split: option.splits)

lemma ask_each_found:
  assumes "ask_each asks qs k = Inr k'" "map_of (hd_found k') j = None"
  shows "map_of (hd_found k) j = None"
    "(n, js) \<in> set qs \<Longrightarrow> j \<in> set js \<Longrightarrow> is_answer (asks n js) \<Longrightarrow> lacks j (asks n js)"
proof -
  have "map_of (hd_found k) j = None \<and>
    (\<forall>(n, js) \<in> set qs. j \<in> set js \<longrightarrow> is_answer (asks n js) \<longrightarrow> lacks j (asks n js))"
    using assms
  proof (induction qs arbitrary: k)
    case (Cons q qs)
    obtain name ids where q: "q = (name, ids)" by fastforce
    show ?case
      using Cons.prems Cons.IH q
      by (cases "asks name ids") (fastforce simp: Let_def found_stays lacks_def)+
  qed simp
  then show "map_of (hd_found k) j = None"
    "(n, js) \<in> set qs \<Longrightarrow> j \<in> set js \<Longrightarrow> is_answer (asks n js) \<Longrightarrow> lacks j (asks n js)" by auto
qed

lemma by_named_keys:
  "distinct (map fst (by_named reg un))"
  "(j, ix) \<in> set un \<Longrightarrow> named_host reg ix = Some n \<Longrightarrow> \<exists>js. map_of (by_named reg un) n = Some js \<and> j \<in> set js"
proof -
  let ?f = "\<lambda>d (j, ix). case named_host reg ix of Some name \<Rightarrow> add_to d name j | None \<Rightarrow> d"
  have "distinct (map fst d) \<Longrightarrow> distinct (map fst (foldl ?f d un))" for d
    by (induction un arbitrary: d) (auto simp: add_to_def distinct_update split: option.splits)
  then show "distinct (map fst (by_named reg un))" by (simp add: by_named_def)
  have keep: "map_of d n = Some js \<Longrightarrow> \<exists>js'. map_of (foldl ?f d un) n = Some js' \<and> set js \<subseteq> set js'" for d js n un
  proof (induction un arbitrary: d js)
    case (Cons u un)
    obtain i ix where u: "u = (i, ix)" by fastforce
    have "\<exists>js'. map_of (?f d u) n = Some js' \<and> set js \<subseteq> set js'"
      using Cons.prems u by (auto simp: add_to_def update_conv' split: option.splits)
    then obtain js' where "map_of (?f d u) n = Some js'" "set js \<subseteq> set js'" by blast
    then show ?case using Cons.IH [of "?f d u" js'] by auto
  qed auto
  have "(j, ix) \<in> set un \<Longrightarrow> named_host reg ix = Some n \<Longrightarrow> \<exists>js. map_of (foldl ?f d un) n = Some js \<and> j \<in> set js" for d
  proof (induction un arbitrary: d)
    case (Cons u un)
    show ?case
    proof (cases "u = (j, ix)")
      case True
      have "map_of (?f d u) n = Some ((case map_of d n of Some js \<Rightarrow> js | None \<Rightarrow> []) @ [j])"
        using True Cons.prems(2) by (simp add: add_to_def update_conv')
      from keep [OF this] obtain js' where at: "map_of (foldl ?f (?f d u) un) n = Some js'"
        and sub: "set ((case map_of d n of Some js \<Rightarrow> js | None \<Rightarrow> []) @ [j]) \<subseteq> set js'" by blast
      have "j \<in> set js'" using sub by simp
      with at show ?thesis unfolding foldl.simps by blast
    next
      case False
      then show ?thesis using Cons.IH [of "?f d u"] Cons.prems by auto
    qed
  qed simp
  then show "(j, ix) \<in> set un \<Longrightarrow> named_host reg ix = Some n \<Longrightarrow> \<exists>js. map_of (by_named reg un) n = Some js \<and> j \<in> set js"
    by (simp add: by_named_def)
qed


text \<open>The questions asked when the ids \<open>un\<close> need a host to say it has them.\<close>

definition nothing_heard :: heard where
  "nothing_heard = \<lparr>hd_latest = [], hd_first = [], hd_found = []\<rparr>"

definition questions ::
  "registry \<Rightarrow> (nat \<Rightarrow> string \<Rightarrow> job_id list \<Rightarrow> reply) \<Rightarrow> unplaced \<Rightarrow> (nat \<times> string \<times> job_id list) set" where
  "questions reg asks un =
     (case ask_each (asks 0) (by_named reg un) nothing_heard of
        Inl _ \<Rightarrow> {}
      | Inr k \<Rightarrow> {(0, q) | q. q \<in> set (by_named reg un)} \<union> {(1, q) | q. q \<in> set (everyone reg un k)})"

lemma everyone_keys:
  assumes "distinct (map fst reg)"
  shows "distinct (map fst (everyone reg un k))"
  unfolding everyone_def
  by (rule distinct_map_filter_keys [OF assms, THEN conjunct1]) (auto simp: Let_def split: if_splits)

lemma nowhere_settled:
  assumes "settle_place reg k j ix = Nowhere why True"
  shows "map_of (hd_found k) j = None" "unasked_lines (named_host reg ix) k = []"
    "named_host reg ix = Some n \<Longrightarrow> trouble_of (map_of (hd_first k) n) = None"
  using assms by (auto simp: settle_place_def Let_def split: option.splits prod.splits if_splits)

lemma unasked_none:
  assumes "unasked_lines at_first k = []" "(n, CannotAsk why p) \<in> set (hd_latest k)"
  shows "at_first = Some n"
  using assms by (force simp: unasked_lines_def map_filter_def filter_empty_conv split: if_splits)


text \<open>A host that said it has no such job, or is gone, in answer to one of the questions.\<close>

definition ruled_out :: "(nat \<times> string \<times> job_id list) set \<Rightarrow> (nat \<Rightarrow> string \<Rightarrow> job_id list \<Rightarrow> reply) \<Rightarrow> job_id \<Rightarrow> string \<Rightarrow> bool" where
  "ruled_out qs asks j n \<longleftrightarrow>
     (\<exists>i js. (i, n, js) \<in> qs \<and> ((\<exists>why p. asks i n js = HasGone why p) \<or> j \<in> set js \<and> lacks j (asks i n js)))"

lemma mem_map_filter: "x \<in> set xs \<Longrightarrow> f x = Some y \<Longrightarrow> y \<in> set (List.map_filter f xs)"
  by (force simp: map_filter_def)

lemma nowhere_rules_out:
  assumes two: "ask_each (asks 0) (by_named reg un) nothing_heard = Inr k" "ask_each (asks 1) (everyone reg un k) k = Inr k'"
    and reg: "distinct (map fst reg)" "(n, e) \<in> set reg" and un: "(j, ix) \<in> set un"
    and no: "settle_place reg k' j ix = Nowhere why True"
  shows "ruled_out (questions reg asks un) asks j n"
proof -
  note no = nowhere_settled [OF no]
  note keys1 = ask_each_keys [OF two(1) by_named_keys(1), unfolded nothing_heard_def, simplified]
  note keys2 = ask_each_keys [OF two(2) everyone_keys [OF reg(1)]]
  have none1: "map_of (hd_found k) j = None" using ask_each_found(1) [OF two(2) no(1)] .
  have q0: "(0, n, js) \<in> questions reg asks un" if "map_of (by_named reg un) n = Some js" for js
    using two(1) map_of_SomeD [OF that] by (simp add: questions_def)
  have no_trouble: "is_answer (asks 0 n js)" if "named_host reg ix = Some n" "map_of (by_named reg un) n = Some js" for js
    using no(3) [OF that(1)] keys2(2) [of n] keys1(2) [of n] that(2) by (simp add: trouble_of_def split: if_splits)
  show ?thesis
  proof (cases "\<exists>r. map_of (hd_latest k) n = Some r \<and> \<not> is_answer r")
    case True
    then obtain js where js: "map_of (by_named reg un) n = Some js" and r: "\<not> is_answer (asks 0 n js)"
      using keys1(1) [of n] by (auto split: option.splits)
    have "map_of (everyone reg un k) n = None"
      using True by (force simp: map_of_eq_None_iff everyone_def map_filter_def split: if_splits option.splits)
    then have "map_of (hd_latest k') n = Some (asks 0 n js)" using keys2(1) [of n] keys1(1) [of n] js by simp
    then have latest: "(n, asks 0 n js) \<in> set (hd_latest k')" by (rule map_of_SomeD)
    show ?thesis
    proof (cases "asks 0 n js")
      case (CannotAsk w p)
      then show ?thesis using unasked_none [OF no(2), of n w p] no_trouble [OF _ js] r latest by simp
    next
      case (HasGone w p)
      then show ?thesis using q0 [OF js] unfolding ruled_out_def by blast
    qed (use r in simp)
  next
    case asked: False
    show ?thesis
    proof (cases "named_host reg ix = Some n")
      case True
      then obtain js where js: "map_of (by_named reg un) n = Some js" "j \<in> set js" using by_named_keys(2) [OF un] by blast
      have "lacks j (asks 0 n js)"
        using ask_each_found(2) [OF two(1) none1 map_of_SomeD [OF js(1)] js(2) no_trouble [OF True js(1)]] .
      then show ?thesis using q0 [OF js(1)] js(2) unfolding ruled_out_def by blast
    next
      case False
      let ?wanted = "map fst (filter (\<lambda>(j, ix). map_of (hd_found k) j = None \<and> named_host reg ix \<noteq> Some n) un)"
      have j: "j \<in> set ?wanted" using un none1 False by force
      then have some: "?wanted \<noteq> []" by (metis length_pos_if_in_set length_greater_0_conv)
      then have mem: "(n, ?wanted) \<in> set (everyone reg un k)"
        using reg(2) asked some unfolding everyone_def by (rule_tac mem_map_filter) (auto simp: Let_def split: option.splits)
      then have latest: "map_of (hd_latest k') n = Some (asks 1 n ?wanted)"
        using keys2(1) [of n] everyone_keys [OF reg(1), of un k] by simp
      have q1: "(1, n, ?wanted) \<in> questions reg asks un" using two(1) mem by (simp add: questions_def)
      show ?thesis
      proof (cases "asks 1 n ?wanted")
        case (Answered d p e')
        then have "lacks j (asks 1 n ?wanted)" using ask_each_found(2) [OF two(2) no(1) mem j] by simp
        then show ?thesis using q1 j unfolding ruled_out_def by blast
      next
        case (CannotAsk w p)
        then show ?thesis using unasked_none [OF no(2), of n w p] latest False by (auto dest: map_of_SomeD)
      next
        case (HasGone w p)
        then show ?thesis using q1 unfolding ruled_out_def by blast
      qed
    qed
  qed
qed

lemma place_by_index_Inl: "place_by_index x reg sks j = Inl p \<Longrightarrow> p \<noteq> Nowhere why missing"
  by (auto simp: place_by_index_def split: option.splits if_splits)

lemma asked_around_keys:
  "distinct ids \<Longrightarrow> distinct (map fst (asked_around x reg sks ids)) \<and> fst ` set (asked_around x reg sks ids) \<subseteq> set ids"
  by (induction ids) (auto simp: asked_around_def List.map_filter_simps split: sum.splits)

lemma locate_keys: "locate_many x reg explicit sks asks ids = Inr placed \<Longrightarrow> map fst placed = dedup ids"
  by (auto simp: locate_many_def Let_def map_sum_Inr comp_def split: if_splits)


text \<open>
  C1. An entry of the registry this build could not read is left out of that: it may well be the host that
  has the job, and was not asked, but an id that the index does not know is reported as no such job when
  the other hosts do not have it.
\<close>

definition empty_index :: job_index where
  "empty_index = \<lparr>xi_local = Map.empty, xi_s3 = None, xi_states = Map.empty\<rparr>"

definition idle_host_reply :: reply where
  "idle_host_reply = Answered (JDict [(''jobs'', JList [])]) None None"

theorem unreadable_entry_is_no_such_job:
  "locate_many empty_index [(''a'', \<lparr>he_name = ''a'', he_rental = None\<rparr>)] None [''b''] (\<lambda>_ _ _. idle_host_reply) [''j'']
     = Inr [(''j'', Nowhere ''no registered host knows job j'' True)]"
  by code_simp


section \<open>What is reported of a verb\<close>

text \<open>The ids that go to a host: those placed on it that it may be asked about.\<close>

definition sent_to :: "(job_id \<times> placed) list \<Rightarrow> string \<Rightarrow> job_id list" where
  "sent_to ps host =
     map fst (filter (\<lambda>(j, p). case p of At h (Some e) ix a \<Rightarrow> h = host \<and> trouble_of a = None | _ \<Rightarrow> False) ps)"

text \<open>A report is sound when an unknown id is an error and a success without the host is the mirror's.\<close>

definition sound_done :: "job_id \<Rightarrow> done_job \<Rightarrow> bool" where
  "sound_done j d \<longleftrightarrow> dn_job_id d = j \<and> (dn_missing d \<longrightarrow> dn_error d \<noteq> None)"

definition from_mirror_only :: "done_job \<Rightarrow> bool" where
  "from_mirror_only d \<longleftrightarrow> dn_error d = None \<longrightarrow> dn_source d = ''mirror''"

lemma ended_sound:
  "ended_on_gone_host x v b j host cached why = Inr d \<Longrightarrow> sound_done j d \<and> from_mirror_only d"
  by (auto simp: ended_on_gone_host_def map_sum_Inr done_as_def sound_done_def from_mirror_only_def split: option.splits if_splits)

lemma settled_already_cases:
  assumes "settled_already x cached v b j p = Inr r"
  shows "r = None \<Longrightarrow> \<exists>host e ix a. p = At host (Some e) ix a \<and> trouble_of a = None"
    "r = Some d \<Longrightarrow> sound_done j d \<and> from_mirror_only d \<and> (\<nexists>host e ix a. p = At host (Some e) ix a \<and> trouble_of a = None)"
  using assms
  by (auto simp: settled_already_def map_sum_Inr could_not_ask_def done_as_def sound_done_def from_mirror_only_def
      dest!: ended_sound split: placed.splits option.splits reply.splits if_splits)

lemma settle_all_parts:
  assumes "settle_all (settled_already x cached v b) ps = Inr (ds, hosts)"
  shows "distinct (map fst hosts)" "(host, js) \<in> set hosts \<Longrightarrow> js = sent_to ps host \<and> js \<noteq> []"
    "(j, d) \<in> set ds \<Longrightarrow> sound_done j d \<and> from_mirror_only d"
    "(j, p) \<in> set ps \<Longrightarrow> j \<in> fst ` set ds \<or> (\<exists>host js. (host, js) \<in> set hosts \<and> j \<in> set js)"
proof -
  have all: "distinct (map fst hosts) \<and> (\<forall>host. map_of hosts host = (if sent_to ps host = [] then None else Some (sent_to ps host))) \<and>
    (\<forall>(j, d) \<in> set ds. sound_done j d \<and> from_mirror_only d) \<and>
    (\<forall>(j, p) \<in> set ps. j \<in> fst ` set ds \<or> (\<exists>host. j \<in> set (sent_to ps host)))"
    using assms
  proof (induction ps arbitrary: ds hosts)
    case Nil
    then show ?case by (simp add: sent_to_def)
  next
    case (Cons q ps)
    obtain j p where q: "q = (j, p)" by fastforce
    from Cons.prems q obtain r ds' hosts' where r: "settled_already x cached v b j p = Inr r"
      and rest: "settle_all (settled_already x cached v b) ps = Inr (ds', hosts')"
      and now: "(ds, hosts) = (case (r, p) of
           (Some y, _) \<Rightarrow> ((j, y) # ds', hosts')
         | (None, At host _ _ _) \<Rightarrow> (ds', (host, j # (case map_of hosts' host of Some js \<Rightarrow> js | None \<Rightarrow> [])) # AList.delete host hosts')
         | (None, _) \<Rightarrow> (ds', hosts'))"
      by (auto simp: map_sum_Inr split: prod.splits)
    note IH = Cons.IH [OF rest]
    show ?case
    proof (cases r)
      case (Some y)
      note facts = settled_already_cases(2) [OF r Some]
      have "sent_to (q # ps) = sent_to ps" using facts q by (auto simp: sent_to_def fun_eq_iff split: placed.splits option.splits)
      then show ?thesis using IH facts now Some q by auto
    next
      case None
      from settled_already_cases(1) [OF r None] obtain host e ix a where p: "p = At host (Some e) ix a" "trouble_of a = None" by blast
      have sent: "sent_to (q # ps) n = (if n = host then j # sent_to ps n else sent_to ps n)" for n
        using p q by (cases "n = host") (simp_all add: sent_to_def)
      have "ds = ds'" and hosts: "hosts = (host, j # sent_to ps host) # AList.delete host hosts'"
        using now None p(1) IH by (auto split: if_splits option.splits)
      have gone: "map_of (AList.delete host hosts') = (map_of hosts')(host := None)" by (simp add: delete_conv')
      then have "host \<notin> fst ` set (AList.delete host hosts')" by (metis fun_upd_same map_of_eq_None_iff)
      then have "distinct (map fst hosts)" using IH hosts by (simp add: distinct_delete)
      moreover have "map_of hosts n = (if sent_to (q # ps) n = [] then None else Some (sent_to (q # ps) n))" for n
        using IH by (simp add: hosts gone sent)
      moreover have "\<exists>n. i \<in> set (sent_to (q # ps) n)" if "i \<in> set (sent_to ps n)" for i n
        by (rule exI [of _ n]) (use that sent [of n] in \<open>simp split: if_splits\<close>)
      moreover have "j \<in> set (sent_to (q # ps) host)" using sent [of host] by simp
      ultimately show ?thesis using IH \<open>ds = ds'\<close> q by fastforce
    qed
  qed
  show "distinct (map fst hosts)" using all by blast
  have lookup: "map_of hosts n = (if sent_to ps n = [] then None else Some (sent_to ps n))" for n using all by blast
  show "js = sent_to ps host \<and> js \<noteq> []" if "(host, js) \<in> set hosts"
    using map_of_is_SomeI [OF _ that] lookup [of host] all by (simp split: if_splits)
  show "(j, d) \<in> set ds \<Longrightarrow> sound_done j d \<and> from_mirror_only d" using all by blast
  assume "(j, p) \<in> set ps"
  then consider "j \<in> fst ` set ds" | n where "j \<in> set (sent_to ps n)" using all by blast
  then show "j \<in> fst ` set ds \<or> (\<exists>host js. (host, js) \<in> set hosts \<and> j \<in> set js)"
  proof cases
    case (2 n)
    then have "map_of hosts n = Some (sent_to ps n)" using lookup [of n] by auto
    then show ?thesis using 2 map_of_SomeD by fast
  qed simp
qed

text \<open>A success is the host's own word: an answer with the job's id and a status, in what it printed.\<close>

lemma verdict_job: "dn_job_id (verdict_on v host as j) = j" "sound_done j (verdict_on v host as j)"
  by (simp_all add: verdict_on_def Let_def done_as_def sound_done_def)

lemma answers_by_id_mem:
  assumes "map_of (answers_by_id as) j = Some a"
  shows "a \<in> set as" "get a ''job_id'' = JStr j"
proof -
  have "(j, a) \<in> set (List.map_filter (\<lambda>a. if is_dict a then map_option (\<lambda>j. (j, a)) (view_str (get a ''job_id'')) else None) as)"
    using assms by (auto simp: answers_by_id_def map_of_dict_of dest: map_of_SomeD)
  then show "a \<in> set as" "get a ''job_id'' = JStr j"
    by (auto simp: map_filter_def view_str_def split: if_splits json.splits)
qed

lemma verdict_success:
  assumes "dn_error (verdict_on v host (answers_by_id as) j) = None"
  shows "\<exists>a \<in> set as. get a ''job_id'' = JStr j \<and> py_bool (get a ''status'')"
proof (cases "map_of (answers_by_id as) j")
  case None
  then show ?thesis using assms by (simp add: verdict_on_def Let_def done_as_def get_def)
next
  case (Some a)
  then have "py_bool (get a ''status'')" using assms by (simp add: verdict_on_def Let_def done_as_def split: if_splits)
  then show ?thesis using answers_by_id_mem [OF Some] by blast
qed

definition says_done :: "reply \<Rightarrow> job_id \<Rightarrow> bool" where
  "says_done r j \<longleftrightarrow> (\<exists>d p e as. r = Answered d p e \<and> items (get d ''jobs'') = Inr as \<and>
     (\<exists>a \<in> set as. get a ''job_id'' = JStr j \<and> py_bool (get a ''status'')))"

lemma verdicts_parts:
  assumes "verdicts v host ids r = Inr ds"
  shows "map dn_job_id ds = ids" "d \<in> set ds \<Longrightarrow> sound_done (dn_job_id d) d \<and> dn_host d = Some host"
    "d \<in> set ds \<Longrightarrow> dn_error d = None \<Longrightarrow> says_done r (dn_job_id d)"
proof -
  show "map dn_job_id ds = ids"
    using assms by (auto simp: verdicts_def map_sum_Inr verdict_job could_not_ask_def done_as_def comp_def split: reply.splits)
  show "d \<in> set ds \<Longrightarrow> sound_done (dn_job_id d) d \<and> dn_host d = Some host"
    using assms by (auto simp: verdicts_def map_sum_Inr verdict_job could_not_ask_def sound_done_def verdict_on_def done_as_def Let_def split: reply.splits)
  show "says_done r (dn_job_id d)" if d: "d \<in> set ds" "dn_error d = None"
  proof (cases r)
    case (Answered p q e)
    then obtain as j where as: "items (get p ''jobs'') = Inr as" and j: "d = verdict_on v host (answers_by_id as) j"
      using assms d(1) by (auto simp: verdicts_def map_sum_Inr)
    show ?thesis using verdict_success [of v host as j] d(2) as unfolding j verdict_job Answered says_done_def by blast
  qed (use assms d in \<open>auto simp: verdicts_def could_not_ask_def done_as_def\<close>)
qed

lemma tell_each_parts:
  assumes "tell_each v tell hosts = Inr told"
  shows "d \<in> set told \<Longrightarrow> \<exists>host js ds. (host, js) \<in> set hosts \<and> verdicts v host js (tell host js) = Inr ds \<and> d \<in> set ds"
    "(host, js) \<in> set hosts \<Longrightarrow> j \<in> set js \<Longrightarrow> \<exists>d \<in> set told. dn_job_id d = j"
proof -
  have "(\<forall>d \<in> set told. \<exists>host js ds. (host, js) \<in> set hosts \<and> verdicts v host js (tell host js) = Inr ds \<and> d \<in> set ds) \<and>
    (\<forall>(host, js) \<in> set hosts. \<forall>j \<in> set js. \<exists>d \<in> set told. dn_job_id d = j)"
    using assms
  proof (induction hosts arbitrary: told)
    case (Cons q hosts)
    obtain host js where q: "q = (host, js)" by fastforce
    from Cons.prems q obtain ds rest where ds: "verdicts v host js (tell host js) = Inr ds"
      and rest: "tell_each v tell hosts = Inr rest" "told = ds @ rest" by (auto simp: map_sum_Inr)
    have "\<exists>d \<in> set ds. dn_job_id d = j" if "j \<in> set js" for j
      using that verdicts_parts(1) [OF ds] by force
    moreover have "\<exists>h is vs. (h, is) \<in> set (q # hosts) \<and> verdicts v h is (tell h is) = Inr vs \<and> d \<in> set vs"
      if "d \<in> set told" for d
    proof (cases "d \<in> set ds")
      case True
      then show ?thesis using ds q by force
    next
      case False
      then have "d \<in> set rest" using that rest(2) by simp
      then obtain h "is" vs where "(h, is) \<in> set hosts" "verdicts v h is (tell h is) = Inr vs" "d \<in> set vs"
        using Cons.IH [OF rest(1)] by blast
      then show ?thesis by force
    qed
    moreover have "\<exists>d \<in> set told. dn_job_id d = j" if "(h, is) \<in> set hosts" "j \<in> set is" for h "is" j
      using Cons.IH [OF rest(1)] rest(2) that by fastforce
    ultimately show ?case using rest(2) q by auto
  qed simp
  then show "d \<in> set told \<Longrightarrow> \<exists>host js ds. (host, js) \<in> set hosts \<and> verdicts v host js (tell host js) = Inr ds \<and> d \<in> set ds"
    "(host, js) \<in> set hosts \<Longrightarrow> j \<in> set js \<Longrightarrow> \<exists>d \<in> set told. dn_job_id d = j" by blast+
qed

lemma with_warning_same:
  "dn_job_id (with_mirror_warning u d) = dn_job_id d" "dn_error (with_mirror_warning u d) = dn_error d"
  "dn_source (with_mirror_warning u d) = dn_source d" "dn_host (with_mirror_warning u d) = dn_host d"
  "dn_missing (with_mirror_warning u d) = dn_missing d"
  by (simp_all add: with_mirror_warning_def split: option.splits)

text \<open>Each report is the mirror's or that of a host that was told of the job.\<close>

definition reported_by ::
  "(job_id \<times> placed) list \<Rightarrow> (string \<Rightarrow> job_id list \<Rightarrow> reply) \<Rightarrow> done_job \<Rightarrow> bool" where
  "reported_by ps tell d \<longleftrightarrow> from_mirror_only d \<or>
     (\<exists>host. dn_host d = Some host \<and> dn_job_id d \<in> set (sent_to ps host) \<and>
        (dn_error d = None \<longrightarrow> says_done (tell host (sent_to ps host)) (dn_job_id d)))"

lemma job_verbs_parts:
  assumes "job_verbs x cached reg explicit sks asks v b tell update ids = Inr ds"
    and "locate_many x reg explicit sks asks ids = Inr ps"
  shows "map dn_job_id ds = map fst ps" "d \<in> set ds \<Longrightarrow> sound_done (dn_job_id d) d \<and> reported_by ps tell d"
proof -
  from assms obtain answered hosts told
    where settled: "settle_all (settled_already x cached v b) ps = Inr (answered, hosts)"
      and told: "tell_each v tell hosts = Inr told"
      and ds: "ds = map (\<lambda>(j, p). with_mirror_warning update (the (map_of (answered @ map (\<lambda>d. (dn_job_id d, d)) told) j))) ps"
    by (auto simp: job_verbs_def map_sum_Inr)
  note parts = settle_all_parts [OF settled] and each = tell_each_parts [OF told]
  have one: "\<exists>d. map_of (answered @ map (\<lambda>d. (dn_job_id d, d)) told) j = Some d \<and> dn_job_id d = j \<and>
      sound_done j d \<and> reported_by ps tell d" if "(j, p) \<in> set ps" for j p
  proof (cases "map_of answered j")
    case (Some d)
    then show ?thesis using parts(3) [OF map_of_SomeD [OF Some]] by (auto simp: sound_done_def reported_by_def)
  next
    case None
    then have "j \<notin> fst ` set answered" by (simp add: map_of_eq_None_iff)
    with parts(4) [OF that] obtain d where "d \<in> set told" "dn_job_id d = j" using each(2) by blast
    then obtain d where d: "map_of (map (\<lambda>d. (dn_job_id d, d)) told) j = Some d"
      by (metis (no_types, lifting) image_eqI list.set_map weak_map_of_SomeI)
    then have mem: "d \<in> set told" "dn_job_id d = j" by (auto dest: map_of_SomeD)
    obtain host js vs where v: "(host, js) \<in> set hosts" "verdicts v host js (tell host js) = Inr vs" "d \<in> set vs"
      using each(1) [OF mem(1)] by blast
    note vp = verdicts_parts [OF v(2)]
    have "dn_job_id d \<in> set (map dn_job_id vs)" using v(3) by simp
    then have js: "js = sent_to ps host" "j \<in> set js" using parts(2) [OF v(1)] vp(1) mem(2) by simp_all
    have "map_of (answered @ map (\<lambda>d. (dn_job_id d, d)) told) j = Some d" using None d by (simp add: map_add_def)
    moreover have "reported_by ps tell d" using vp(2) [OF v(3)] vp(3) [OF v(3)] js mem(2) by (auto simp: reported_by_def)
    ultimately show ?thesis using vp(2) [OF v(3)] mem(2) by blast
  qed
  show "map dn_job_id ds = map fst ps"
    unfolding ds by (auto simp: with_warning_same dest!: one)
  assume "d \<in> set ds"
  then obtain j p where jp: "(j, p) \<in> set ps"
    and d: "d = with_mirror_warning update (the (map_of (answered @ map (\<lambda>d. (dn_job_id d, d)) told) j))" by (auto simp: ds)
  from one [OF jp] obtain d' where m: "map_of (answered @ map (\<lambda>d. (dn_job_id d, d)) told) j = Some d'"
    and d': "dn_job_id d' = j" "sound_done j d'" "reported_by ps tell d'" by blast
  have "d = with_mirror_warning update d'" unfolding d m by simp
  with d' show "sound_done (dn_job_id d) d \<and> reported_by ps tell d"
    by (simp add: with_warning_same sound_done_def reported_by_def from_mirror_only_def)
qed


section \<open>A cancellation from the client to the job's record\<close>

text \<open>What a host's command prints, when the host answers and the command does not raise.\<close>

definition printed :: "string \<Rightarrow> (json \<times> int) res \<times> host \<Rightarrow> reply" where
  "printed why r = (case fst r of Inr (doc, code) \<Rightarrow> Answered doc None None | Inl e \<Rightarrow> CannotAsk why None)"

lemma cancel_said_is_recorded:
  assumes "says_done (printed why (cmd_cancel su js h)) j"
  shows "\<exists>s. read_state j (snd (cmd_cancel su js h)) = Inr s \<and> (finished s \<or> st_intent s = Some CANCEL)"
proof -
  have "\<not> py_bool JNull" by simp
  with assms obtain doc code h' as a where run: "cmd_cancel su js h = (Inr (doc, code), h')"
    and as: "items (get doc ''jobs'') = Inr as" and a: "a \<in> set as" "get a ''job_id'' = JStr j" "carried_out a"
    by (cases "cmd_cancel su js h") (fastforce simp: says_done_def printed_def carried_out_def split: sum.splits prod.splits)
  from cancels.verb_keeps_promises [OF run [unfolded cmd_cancel_def]]
  obtain as' where "get doc ''jobs'' = JList as'" and all: "list_all2 (\<lambda>j a. get a ''job_id'' = JStr j \<and>
    (carried_out a \<longrightarrow> stops (read_state j h') a)) (dedup js) as'" by blast
  with as have "as' = as" by (simp add: items_def split: if_splits)
  with all a(1) obtain i where "get a ''job_id'' = JStr i" "carried_out a \<longrightarrow> stops (read_state i h') a"
    by (auto simp: list_all2_conv_all_nth in_set_conv_nth)
  with a run show ?thesis by (simp add: stops_def)
qed

text \<open>
  C34. When \<open>gpuc cancel\<close> reports success on a host's word, the job's state on that host, after the command it
  ran there over every id sent to it, is finished or carries the cancellation. The report of each id rests on
  its own job's record, however many jobs were cancelled together.
\<close>

theorem cancel_reported_is_recorded:
  assumes "job_verbs x cached reg explicit sks asks ''cancel'' True
      (\<lambda>host js. printed (why host) (cmd_cancel (su host) js (hosts host))) update ids = Inr ds"
    and "locate_many x reg explicit sks asks ids = Inr ps"
    and "d \<in> set ds" "dn_error d = None" "dn_source d = ''host''"
  shows "\<exists>host s. dn_host d = Some host \<and>
    read_state (dn_job_id d) (snd (cmd_cancel (su host) (sent_to ps host) (hosts host))) = Inr s \<and>
    (finished s \<or> st_intent s = Some CANCEL)"
proof -
  have "reported_by ps (\<lambda>host js. printed (why host) (cmd_cancel (su host) js (hosts host))) d"
    using job_verbs_parts(2) [OF assms(1,2,3)] by blast
  then obtain host where "dn_host d = Some host"
    and "says_done (printed (why host) (cmd_cancel (su host) (sent_to ps host) (hosts host))) (dn_job_id d)"
    using assms(4,5) by (auto simp: reported_by_def from_mirror_only_def)
  then show ?thesis using cancel_said_is_recorded by blast
qed

definition demo_registry :: registry where
  "demo_registry = [(''a'', \<lparr>he_name = ''a'', he_rental = None\<rparr>)]"

definition demo_cancel :: "string \<Rightarrow> job_id list \<Rightarrow> reply" where
  "demo_cancel host js = printed [] (cmd_cancel demo_surroundings js demo_host)"

definition demo_done :: done_job where
  "demo_done = done_as ''b'' (Some ''a'') [(''status'', JStr ''cancelling'')] None"

theorem cancel_reported_is_recorded_witness:
  "\<exists>s. read_state ''b'' (snd (cmd_cancel demo_surroundings [''b''] demo_host)) = Inr s \<and>
     (finished s \<or> st_intent s = Some CANCEL)"
proof -
  let ?asks = "\<lambda>_ _ _. idle_host_reply"
  have run: "job_verbs empty_index (\<lambda>_. None) demo_registry (Some ''a'') [] ?asks ''cancel'' True demo_cancel None [''b'']
      = Inr [demo_done]" by code_simp
  have at: "locate_many empty_index demo_registry (Some ''a'') [] ?asks [''b'']
      = Inr [(''b'', At ''a'' (Some \<lparr>he_name = ''a'', he_rental = None\<rparr>) None None)]" by code_simp
  have sent: "sent_to [(''b'', At ''a'' (Some \<lparr>he_name = ''a'', he_rental = None\<rparr>) None None)] ''a'' = [''b'']" by code_simp
  show ?thesis
    using cancel_reported_is_recorded [OF run [unfolded demo_cancel_def [abs_def]] at, of demo_done]
    by (simp add: demo_done_def done_as_def sent)
qed


end
