(* ===== verification/Teardown.thy ===== *)
theory Teardown
  imports Status Commands
begin

text \<open>
  \<open>src/gpuc/control/teardown.py\<close>: ending a rental because a person said so. The provider is that of \<open>Rental\<close>;
  \<open>told\<close> is the session with a host and its bare \<open>status\<close>, a reason or the JSON printed, and \<open>writable\<close>
  whether the registry can be locked, read and written. The registry is the hosts by name, and an entry's name
  is its key. The refusal is a value that carries what was found; what is reported along the way and the
  advice in the messages are left out.
\<close>

section \<open>Which pod\<close>

record target =
  tg_pod_id :: pod_id
  tg_pod :: "pod option"
  tg_entry :: "host_entry option"

record termination_result =
  tm_target :: target
  tm_checked :: bool
  tm_unasked :: "string option"
  tm_nothing_can_run :: bool
  tm_running :: "string list"
  tm_queued :: "string list"
  tm_outputs_pending :: "string list"
  tm_terminated :: bool
  tm_forgotten :: bool
  tm_notes :: "string list"

datatype not_ended =
    HostNotFound string
  | NotARental string
  | NotIdle termination_result
  | StillBilling pod_id
  | ProviderSaid string
  | ViewRaised view_error

definition find_pod :: "'s cloud \<Rightarrow> string \<Rightarrow> 's \<Rightarrow> (not_ended + pod) \<times> 's" where
  "find_pod c name s =
     (case list_ours c s of
        (Inl why, s1) \<Rightarrow> (Inl (ProviderSaid why), s1)
      | (Inr ps, s1) \<Rightarrow>
          (case find (\<lambda>p. name = pd_id p \<or> name = pd_name p) ps of
             Some p \<Rightarrow> (Inr p, s1)
           | None \<Rightarrow> (Inl (HostNotFound name), s1)))"

definition entry_for_pod :: "pod_id \<Rightarrow> (string \<times> host_entry) list \<Rightarrow> host_entry option" where
  "entry_for_pod i reg = find (\<lambda>e. he_rental e = Some i) (map snd reg)"

definition resolve_target ::
  "'s cloud \<Rightarrow> string \<Rightarrow> (string \<times> host_entry) list \<Rightarrow> 's \<Rightarrow> (not_ended + target) \<times> 's" where
  "resolve_target c name reg s =
     (case map_of reg name of
        Some e \<Rightarrow>
          (case he_rental e of
             None \<Rightarrow> (Inl (NotARental name), s)
           | Some i \<Rightarrow> (Inr \<lparr>tg_pod_id = i, tg_pod = None, tg_entry = Some e\<rparr>, s))
      | None \<Rightarrow>
          (case find_pod c name s of
             (Inl e, s1) \<Rightarrow> (Inl e, s1)
           | (Inr p, s1) \<Rightarrow> (Inr \<lparr>tg_pod_id = pd_id p, tg_pod = Some p, tg_entry = entry_for_pod (pd_id p) reg\<rparr>, s1)))"

section \<open>What the pod is doing\<close>

definition busy :: "termination_result \<Rightarrow> bool" where
  "busy r \<longleftrightarrow> tm_running r \<noteq> [] \<or> tm_queued r \<noteq> [] \<or> tm_outputs_pending r \<noteq> []"

definition job_label :: "job_row \<Rightarrow> string" where
  "job_label r = (if py_bool (vr_name r) then py_str (vr_name r) @ '' ('' @ vr_job_id r @ '')'' else vr_job_id r)"

definition nothing_said :: "target \<Rightarrow> termination_result" where
  "nothing_said t =
     \<lparr>tm_target = t, tm_checked = False, tm_unasked = None, tm_nothing_can_run = False, tm_running = [], tm_queued = [],
      tm_outputs_pending = [], tm_terminated = False, tm_forgotten = False, tm_notes = []\<rparr>"

text \<open>\<open>ask\<close> with a provider: the pod is read first, and a pod that is gone or dead is not dialled.\<close>

definition asked_at ::
  "'s cloud \<Rightarrow> (host_entry \<Rightarrow> 's \<Rightarrow> (string + json) \<times> 's) \<Rightarrow> host_entry \<Rightarrow> 's \<Rightarrow> reply \<times> 's" where
  "asked_at c told e s =
     (let (got, s1) = (case he_rental e of
          None \<Rightarrow> (None, s)
        | Some i \<Rightarrow> (case cl_get c i s of (g, s1) \<Rightarrow> (Some g, s1)))
      in case rental_state e got of
           Inl r \<Rightarrow> (r, s1)
         | Inr _ \<Rightarrow> (case told e s1 of (said, s2) \<Rightarrow> (ask e got said, s2)))"

definition provider_says_dead :: "pod option \<Rightarrow> bool" where
  "provider_says_dead p \<longleftrightarrow> p \<noteq> None \<and> is_dead p"

definition seen :: "target \<Rightarrow> host_entry \<Rightarrow> host_view \<Rightarrow> termination_result" where
  "seen t e v =
     (let p = (case hv_pod v of Some q \<Rightarrow> Some q | None \<Rightarrow> tg_pod t);
          r = nothing_said (t\<lparr>tg_pod := p\<rparr>);
          dead = (gone_view v \<or> provider_says_dead p)
      in if reachable v
         then r\<lparr>tm_checked := True, tm_running := map job_label (hv_running v), tm_queued := map job_label (hv_queue v),
                tm_outputs_pending := map job_label (outputs_at_risk v)\<rparr>
         else r\<lparr>tm_nothing_can_run := dead,
                tm_unasked := (if dead then None else Some (''could not ask '' @ he_name e @ '' what it is doing: ''
                  @ (if blank (hv_error v) then ''no answer'' else the (hv_error v))))\<rparr>)"

definition inspect ::
  "'s cloud \<Rightarrow> (host_entry \<Rightarrow> 's \<Rightarrow> (string + json) \<times> 's) \<Rightarrow> target \<Rightarrow> 's \<Rightarrow> termination_result viewed \<times> 's" where
  "inspect c told t s =
     (case tg_entry t of
        None \<Rightarrow>
          (Inr ((nothing_said t)\<lparr>tm_nothing_can_run := provider_says_dead (tg_pod t),
             tm_unasked := Some (''pod '' @ tg_pod_id t @ '' is not registered on this machine, so nothing here can ask what it is running'')\<rparr>), s)
      | Some e \<Rightarrow> (case asked_at c told e s of (r, s1) \<Rightarrow> (map_sum id (seen t e) (parse_status e r), s1)))"

section \<open>Ending it\<close>

record 's desk =
  dk_world :: 's
  dk_registry :: "(string \<times> host_entry) list"

definition forget_entry :: "('s \<Rightarrow> bool) \<Rightarrow> string \<Rightarrow> pod_id \<Rightarrow> 's desk \<Rightarrow> bool \<times> 's desk" where
  "forget_entry writable name i d =
     (if \<not> writable (dk_world d) \<or> Option.bind (map_of (dk_registry d) name) he_rental \<noteq> Some i then (False, d)
      else (True, d\<lparr>dk_registry := AList.delete name (dk_registry d)\<rparr>))"

definition forget :: "('s \<Rightarrow> bool) \<Rightarrow> target \<Rightarrow> 's desk \<Rightarrow> bool \<times> 's desk" where
  "forget writable t d =
     (case tg_entry t of None \<Rightarrow> (False, d) | Some e \<Rightarrow> forget_entry writable (he_name e) (tg_pod_id t) d)"

definition with_note :: "string \<Rightarrow> termination_result \<Rightarrow> termination_result" where
  "with_note text r = r\<lparr>tm_notes := tm_notes r @ [text]\<rparr>"

text \<open>From the decision to end it: what is billed, the terminate, and the registry.\<close>

definition end_pod :: "'s cloud \<Rightarrow> ('s \<Rightarrow> bool) \<Rightarrow> termination_result \<Rightarrow> 's desk \<Rightarrow> (not_ended + termination_result) \<times> 's desk" where
  "end_pod c writable r d =
     (let i = tg_pod_id (tm_target r);
          (got, s1) = (case tg_pod (tm_target r) of
             None \<Rightarrow> cl_get c i (dk_world d)
           | Some q \<Rightarrow> (Inr (Some q), dk_world d))
      in case got of
           Inl why \<Rightarrow> (Inl (ProviderSaid why), d\<lparr>dk_world := s1\<rparr>)
         | Inr p \<Rightarrow>
             let t = (tm_target r)\<lparr>tg_pod := p\<rparr>;
                 r1 = r\<lparr>tm_target := t\<rparr>;
                 r2 = (if blank (tm_unasked r1) then r1 else with_note (the (tm_unasked r1)) r1);
                 r3 = (if is_gone p
                   then with_note (''pod '' @ i @ (if p = None then '' does not exist at the provider'' else '' is already terminated'') @ ''; nothing was billing'') r2
                   else if is_dead p then with_note (''the provider says pod '' @ i @ '' is '' @ pd_status (the p) @ '', so nothing was running on it'') r2
                   else r2);
                 (ended, s2) = (if is_gone p then (True, s1) else terminate_confirmed c i s1);
                 d1 = d\<lparr>dk_world := s2\<rparr>
             in if \<not> ended then (Inl (StillBilling i), d1)
                else (case forget writable t d1 of
                    (gone, d2) \<Rightarrow> (Inr (r3\<lparr>tm_terminated := \<not> is_gone p, tm_forgotten := gone\<rparr>), d2)))"

definition terminate ::
  "'s cloud \<Rightarrow> (host_entry \<Rightarrow> 's \<Rightarrow> (string + json) \<times> 's) \<Rightarrow> ('s \<Rightarrow> bool) \<Rightarrow> string \<Rightarrow> bool \<Rightarrow> 's desk \<Rightarrow>
   (not_ended + termination_result) \<times> 's desk" where
  "terminate c told writable name force d =
     (case resolve_target c name (dk_registry d) (dk_world d) of
        (Inl e, s1) \<Rightarrow> (Inl e, d\<lparr>dk_world := s1\<rparr>)
      | (Inr t, s1) \<Rightarrow>
          (case (if force then (Inr (nothing_said t), s1) else inspect c told t s1) of
             (Inl e, s2) \<Rightarrow> (Inl (ViewRaised e), d\<lparr>dk_world := s2\<rparr>)
           | (Inr r, s2) \<Rightarrow>
               if \<not> force \<and> \<not> tm_nothing_can_run r \<and> (busy r \<or> \<not> tm_checked r) then (Inl (NotIdle r), d\<lparr>dk_world := s2\<rparr>)
               else end_pod c writable r (d\<lparr>dk_world := s2\<rparr>)))"

section \<open>What a client sees in a status\<close>

lemma rows_of_mem:
  "rows_of es = Inr rs \<Longrightarrow> e \<in> set es \<Longrightarrow> is_dict e \<Longrightarrow> get e ''job_id'' = JStr j \<Longrightarrow> \<exists>r \<in> set rs. row_of j e = Inr r"
  by (induction es arbitrary: rs) (auto simp: view_str_def map_sum_Inr split: option.splits)

lemma row_of_keeps:
  "row_of j e = Inr r \<Longrightarrow> vr_job_id r = j \<and> vr_status r = get_or e ''status'' (JStr ''queued'') \<and>
     vr_outputs_pending r = py_bool (get e ''outputs_pending'')"
  by (auto simp: row_of_def)

text \<open>A job of the document that is running, queued or has outputs pending is one of the rows that count.\<close>

lemma shown_in_view:
  assumes "job_views d = Inr (queue, running, fin)" "get d ''jobs'' = JList es" "e \<in> set es" "entry_fits h (j, s) e"
  shows "st_status s = ''running'' \<Longrightarrow> running \<noteq> []" "st_status s = ''queued'' \<Longrightarrow> queue \<noteq> []"
    "get e ''outputs_pending'' = JBool True \<Longrightarrow> queue = [] \<Longrightarrow> running = [] \<Longrightarrow> filter vr_outputs_pending fin \<noteq> []"
proof -
  from assms obtain rs fin' where rows: "rows_of es = Inr rs" and fin: "by_end (filter (\<lambda>r. \<not> is_running_row r \<and> \<not> is_queued_row r) rs) = Inr fin"
    and q: "queue = sort_key queue_row_key (filter is_queued_row rs)" and run: "running = filter is_running_row rs"
    by (auto simp: job_views_def items_def map_sum_Inr split: if_splits)
  from assms(4) have e: "is_dict e" "get e ''job_id'' = JStr j" "get e ''status'' = JStr (st_status s)"
    by (auto simp: entry_fits_def is_dict_def)
  obtain r where r: "r \<in> set rs" "row_of j e = Inr r" using rows_of_mem [OF rows assms(3) e(1,2)] by blast
  have st: "vr_status r = JStr (st_status s)" using row_of_keeps [OF r(2)] e(3)
    by (auto simp: get_or_def get_def split: option.splits)
  show "st_status s = ''running'' \<Longrightarrow> running \<noteq> []"
    using r(1) st by (auto simp: run is_running_row_def filter_empty_conv)
  show "st_status s = ''queued'' \<Longrightarrow> queue \<noteq> []"
    using r(1) st by (auto simp: q is_queued_row_def filter_empty_conv simp flip: set_empty)
  assume "get e ''outputs_pending'' = JBool True" and none: "queue = []" "running = []"
  then have "vr_outputs_pending r" using row_of_keeps [OF r(2)] by simp
  moreover have "filter is_queued_row rs = []" "filter is_running_row rs = []"
    using none by (simp_all add: q run flip: set_empty)
  then have "\<not> is_queued_row r \<and> \<not> is_running_row r" using r(1) by (auto simp: filter_empty_conv)
  moreover have "set fin = set (filter (\<lambda>r. \<not> is_running_row r \<and> \<not> is_queued_row r) rs)"
    using fin by (auto simp: by_end_def sorted_desc_def split: if_splits)
  ultimately show "filter vr_outputs_pending fin \<noteq> []" using r(1) by (auto simp: filter_empty_conv)
qed

section \<open>What an end rests on\<close>

lemma end_pod_keeps:
  assumes "end_pod c writable r d = (Inr r', d')"
  shows "tm_nothing_can_run r' = tm_nothing_can_run r" "tg_entry (tm_target r') = tg_entry (tm_target r)"
  using assms by (auto simp: end_pod_def Let_def with_note_def split: sum.splits prod.splits option.splits if_splits)

lemma asked_at_answer:
  assumes "asked_at c told e s = (Answered doc p why, s')"
  shows "\<exists>s1. fst (told e s1) = Inr doc \<and> is_dict doc"
proof -
  obtain got s1 where got: "(case he_rental e of None \<Rightarrow> (None, s)
        | Some i \<Rightarrow> (case cl_get c i s of (g, s1) \<Rightarrow> (Some g, s1))) = (got, s1)" by fastforce
  obtain told_it s2 where it: "told e s1 = (told_it, s2)" by fastforce
  have "rental_state e got \<noteq> Inl (Answered doc p why)"
    by (auto simp: rental_state_def split: option.splits sum.splits if_splits)
  then have "ask e got told_it = Answered doc p why" and "\<exists>y. rental_state e got = Inr y"
    using assms unfolding asked_at_def got Let_def prod.case it by (auto split: sum.splits)
  then have "told_it = Inr doc \<and> is_dict doc"
    by (auto simp: ask_def split: sum.splits if_splits)
  with it show ?thesis by (metis fst_conv)
qed

lemma view_pod: "parse_status e q = Inr v \<Longrightarrow> hv_pod v = (case q of Answered d p w \<Rightarrow> p | CannotAsk w p \<Rightarrow> p | HasGone w p \<Rightarrow> p)"
  by (auto simp: parse_status_def blank_view_def split: reply.splits)

lemma asked_at_pod:
  assumes "asked_at c told e s = (q, s')" "parse_status e q = Inr v" "he_rental e = Some i" "cl_get c i s = (got, s1)" "hv_pod v = Some p"
  shows "got = Inr (Some p)"
proof -
  have pod: "(case q of Answered d p w \<Rightarrow> p | CannotAsk w p \<Rightarrow> p | HasGone w p \<Rightarrow> p) = Some p"
    using view_pod [OF assms(2)] assms(5) by simp
  show ?thesis
  proof (cases "rental_state e (Some got)")
    case (Inl r)
    then have "q = r" using assms(1) by (simp add: asked_at_def assms(3,4))
    then show ?thesis using Inl pod
      by (auto simp: rental_state_def assms(3) split: sum.splits option.splits if_splits)
  next
    case (Inr y)
    then have "q = ask e (Some got) (fst (told e s1))"
      using assms(1) by (auto simp: asked_at_def assms(3,4) split: prod.splits)
    then show ?thesis using Inr pod
      by (auto simp: ask_def rental_state_def assms(3) split: sum.splits option.splits if_splits)
  qed
qed

text \<open>An unforced end without the provider's word rests on an answer of the host that shows nothing.\<close>

lemma unforced_end:
  assumes "terminate c told writable name False d = (Inr r, d')" "\<not> tm_nothing_can_run r"
  shows "\<exists>e doc s queue running fin. tg_entry (tm_target r) = Some e \<and> fst (told e s) = Inr doc \<and>
    job_views doc = Inr (queue, running, fin) \<and> queue = [] \<and> running = [] \<and> filter vr_outputs_pending fin = []"
proof -
  from assms(1) obtain t s1 where t: "resolve_target c name (dk_registry d) (dk_world d) = (Inr t, s1)"
    by (auto simp: terminate_def split: prod.splits sum.splits)
  obtain x s2 where seen_it: "inspect c told t s1 = (x, s2)" by fastforce
  with assms(1) t obtain r0 where r0: "x = Inr r0" by (cases x) (auto simp: terminate_def)
  have go: "tm_nothing_can_run r0 \<or> \<not> busy r0 \<and> tm_checked r0"
    and ended: "end_pod c writable r0 (d\<lparr>dk_world := s2\<rparr>) = (Inr r, d')"
    using assms(1) t seen_it r0 by (auto simp: terminate_def split: if_splits)
  note keeps = end_pod_keeps [OF ended]
  with go assms(2) have ok: "\<not> busy r0" "tm_checked r0" by simp_all
  with seen_it r0 obtain e where e: "tg_entry t = Some e" by (cases "tg_entry t") (auto simp: inspect_def nothing_said_def)
  obtain q s3 where q: "asked_at c told e s1 = (q, s3)" by fastforce
  with seen_it r0 e obtain v where v: "parse_status e q = Inr v" "r0 = seen t e v"
    by (auto simp: inspect_def map_sum_Inr)
  have reach: "reachable v" using ok(2) v(2) by (auto simp: seen_def Let_def nothing_said_def split: if_splits)
  then have none: "hv_running v = []" "hv_queue v = []" "outputs_at_risk v = []" and same: "tg_entry (tm_target r0) = tg_entry t"
    using ok(1) v(2) by (auto simp: seen_def Let_def busy_def nothing_said_def)
  from reach v(1) obtain doc p why where a: "q = Answered doc p why"
    by (cases q) (auto simp: parse_status_def reachable_def blank_view_def)
  from v(1) a none obtain fin where "job_views doc = Inr ([], [], fin)" "filter vr_outputs_pending fin = []"
    by (auto simp: parse_status_def outputs_at_risk_def)
  moreover obtain s4 where "fst (told e s4) = Inr doc" using asked_at_answer [OF q [unfolded a]] by blast
  ultimately show ?thesis using same e keeps(2) by auto
qed

definition status_said :: "string \<Rightarrow> json res option \<Rightarrow> string + json" where
  "status_said why x = (case x of Some (Inr doc) \<Rightarrow> Inr doc | _ \<Rightarrow> Inl why)"


section \<open>The entry goes after the bill\<close>

text \<open>What a listing reports as gone does not bill, and asking a host starts no bill.\<close>

definition listed_gone_is_paid :: "'s cloud \<Rightarrow> ('s \<Rightarrow> pod_id set) \<Rightarrow> bool" where
  "listed_gone_is_paid c bills \<longleftrightarrow>
     (\<forall>s. case cl_list c s of (Inl e, s') \<Rightarrow> True | (Inr ps, s') \<Rightarrow> \<forall>p \<in> set ps. is_gone (Some p) \<longrightarrow> pd_id p \<notin> bills s')"

definition told_bills_nothing :: "(host_entry \<Rightarrow> 's \<Rightarrow> (string + json) \<times> 's) \<Rightarrow> ('s \<Rightarrow> pod_id set) \<Rightarrow> bool" where
  "told_bills_nothing told bills \<longleftrightarrow> (\<forall>e s. bills (snd (told e s)) \<subseteq> bills s)"

text \<open>A pod in hand that is gone is not billed.\<close>

definition paid_if_gone :: "('s \<Rightarrow> pod_id set) \<Rightarrow> target \<Rightarrow> 's \<Rightarrow> bool" where
  "paid_if_gone bills t s \<longleftrightarrow> tg_pod t \<noteq> None \<longrightarrow> is_gone (tg_pod t) \<longrightarrow> tg_pod_id t \<notin> bills s"

lemma resolve_paid:
  assumes "listed_gone_is_paid c bills" "resolve_target c name reg s = (Inr t, s1)"
  shows "paid_if_gone bills t s1" "tg_entry t = Some e \<Longrightarrow> he_rental e = Some (tg_pod_id t)"
proof -
  have listed: "pd_id p \<notin> bills s1" if "cl_list c s = (Inr ps, s1)" "p \<in> set ps" "is_gone (Some p)" for ps p
    using assms(1) [unfolded listed_gone_is_paid_def, THEN spec [of _ s]] that by auto
  show "paid_if_gone bills t s1"
  proof (cases "map_of reg name")
    case (Some e)
    then show ?thesis using assms(2) by (auto simp: resolve_target_def paid_if_gone_def split: option.splits)
  next
    case None
    obtain a s2 where list: "cl_list c s = (a, s2)" by fastforce
    with assms(2) None obtain ps where ps: "a = Inr ps" by (cases a) (auto simp: resolve_target_def find_pod_def list_ours_def)
    with assms(2) None list obtain p where p: "find (\<lambda>p. name = pd_id p \<or> name = pd_name p) (owned_pods ps (cl_prefix c)) = Some p"
      and t: "tg_pod t = Some p" "tg_pod_id t = pd_id p" "s1 = s2"
      by (auto simp: resolve_target_def find_pod_def list_ours_def split: option.splits)
    from p have "p \<in> set (owned_pods ps (cl_prefix c))" by (auto simp: find_Some_iff)
    then have "p \<in> set ps" by (simp add: owned_pods_def)
    then show ?thesis using listed [of ps p] list ps t by (simp add: paid_if_gone_def)
  qed
  show "he_rental e = Some (tg_pod_id t)" if "tg_entry t = Some e"
    using assms(2) that
    by (auto simp: resolve_target_def entry_for_pod_def find_Some_iff split: option.splits sum.splits prod.splits)
qed

lemma inspect_paid:
  assumes "honest c bills named" "told_bills_nothing told bills" "inspect c told t s = (Inr r, s1)"
    and "paid_if_gone bills t s" "\<And>e. tg_entry t = Some e \<Longrightarrow> he_rental e = Some (tg_pod_id t)"
  shows "paid_if_gone bills (tm_target r) s1" "tg_pod_id (tm_target r) = tg_pod_id t" "tg_entry (tm_target r) = tg_entry t"
proof -
  show "tg_pod_id (tm_target r) = tg_pod_id t" "tg_entry (tm_target r) = tg_entry t"
    using assms(3) by (auto simp: inspect_def seen_def nothing_said_def Let_def map_sum_Inr split: option.splits prod.splits)
  show "paid_if_gone bills (tm_target r) s1"
  proof (cases "tg_entry t")
    case None
    then show ?thesis using assms(3,4) by (auto simp: inspect_def nothing_said_def)
  next
    case (Some e)
    let ?i = "tg_pod_id t"
    have rental: "he_rental e = Some ?i" using assms(5) Some by blast
    obtain got s2 where got: "cl_get c ?i s = (got, s2)" by fastforce
    note g = honest_get [OF assms(1) got]
    obtain q where q: "asked_at c told e s = (q, s1)" and "map_sum id (seen t e) (parse_status e q) = Inr r"
      using assms(3) Some by (auto simp: inspect_def split: prod.splits)
    then obtain v where v: "parse_status e q = Inr v" "r = seen t e v" by (auto simp: map_sum_Inr)
    have "s1 = s2 \<or> s1 = snd (told e s2)"
      using q unfolding asked_at_def rental got Let_def option.case prod.case
      by (cases "rental_state e (Some got)"; cases "told e s2") simp_all
    then have sub: "bills s1 \<subseteq> bills s2" using assms(2) by (auto simp: told_bills_nothing_def)
    have pod: "hv_pod v = Some p \<Longrightarrow> got = Inr (Some p)" for p
      using asked_at_pod [OF q v(1)] rental got by simp
    have "tg_pod (tm_target r) = (case hv_pod v of Some p \<Rightarrow> Some p | None \<Rightarrow> tg_pod t)" "tg_pod_id (tm_target r) = ?i"
      by (simp_all add: v(2) seen_def nothing_said_def Let_def)
    then show ?thesis
      using assms(4) pod g(1) g(2) sub unfolding paid_if_gone_def by (auto split: option.splits)
  qed
qed

lemma end_pod_pays:
  assumes "honest c bills named" "end_pod c writable r d = (x, d')" "paid_if_gone bills (tm_target r) (dk_world d)"
    and "\<And>e. tg_entry (tm_target r) = Some e \<Longrightarrow> he_rental e = Some (tg_pod_id (tm_target r))"
  shows "dk_registry d' = dk_registry d \<or> (\<exists>n. Option.bind (map_of (dk_registry d) n) he_rental = Some (tg_pod_id (tm_target r)) \<and>
    tg_pod_id (tm_target r) \<notin> bills (dk_world d') \<and> dk_registry d' = AList.delete n (dk_registry d))"
proof -
  let ?i = "tg_pod_id (tm_target r)"
  obtain got s1 where got: "(case tg_pod (tm_target r) of None \<Rightarrow> cl_get c ?i (dk_world d) | Some q \<Rightarrow> (Inr (Some q), dk_world d)) = (got, s1)"
    by fastforce
  show ?thesis
  proof (cases got)
    case (Inl why)
    then show ?thesis using assms(2) got by (auto simp: end_pod_def Let_def)
  next
    case (Inr p)
    obtain ended s2 where ended: "(if is_gone p then (True, s1) else terminate_confirmed c ?i s1) = (ended, s2)" by fastforce
    have paid: "?i \<notin> bills s2" if ended
    proof (cases "is_gone p")
      case True
      then show ?thesis
        using got Inr ended assms(3) honest_get(2) [OF assms(1)] by (auto simp: paid_if_gone_def split: option.splits)
    next
      case False
      then show ?thesis using ended that terminate_confirmed_bills [OF assms(1)] by auto
    qed
    have "d' = d\<lparr>dk_world := s2\<rparr> \<or> (ended \<and> d' = snd (forget writable ((tm_target r)\<lparr>tg_pod := p\<rparr>) (d\<lparr>dk_world := s2\<rparr>)))"
      using assms(2) unfolding end_pod_def Let_def got prod.case Inr sum.case ended by (auto split: if_splits prod.splits)
    then show ?thesis
      using paid by (auto simp: forget_def forget_entry_def split: option.splits if_splits)
  qed
qed


section \<open>A rented host with nothing to do\<close>

definition quiet_host :: host where
  "quiet_host = demo_host\<lparr>h_jobs := [(''a'', demo_job (plain_spec ''a'' 1) (blank_state\<lparr>st_status := ''succeeded'', st_ended_at := Some ''t''\<rparr>))]\<rparr>"

definition quiet_told :: "host_entry \<Rightarrow> seconds \<times> string list \<Rightarrow> (string + json) \<times> seconds \<times> string list" where
  "quiet_told e s = (status_said ''down'' (fst (cmd_status demo_surroundings [] None None quiet_host)), s)"

definition demo_desk :: "(seconds \<times> string list) desk" where
  "demo_desk = \<lparr>dk_world = (0, [''g-1'']), dk_registry = [(''box'', \<lparr>he_name = ''box'', he_rental = Some ''g-1''\<rparr>)]\<rparr>"



end
