(* ===== verification/Registry.thy ===== *)
theory Registry
  imports Rental
begin

text \<open>
  The registry of \<open>src/gpuc/control/config.py\<close>: reading \<open>hosts.json\<close> as far as it parses, writing it with the
  entries that did not, the transaction, and the writers of single entries. What a host entry holds is
  pydantic's model, which is not under src/: validating, dumping and naming one are a record of functions
  (\<open>models\<close>). The file is missing, unparsable or a JSON value; the lock and the texts of errors are left
  out, and so is an \<open>OSError\<close> of the copy that is put aside.
\<close>

section \<open>The file\<close>

datatype hosts_json = NoFile | Unparsable string | Holds json

record registry_files =
  rf_hosts :: hosts_json
  rf_backup :: "hosts_json option"

text \<open>
  \<open>md_version\<close> is the version the model takes from the document, if it takes one; \<open>md_entry\<close> the entry a
  value validates to; \<open>md_named\<close> the copy under another name.
\<close>

record 'e models =
  md_version :: "json \<Rightarrow> int option"
  md_entry :: "json \<Rightarrow> 'e option"
  md_dump :: "'e \<Rightarrow> json"
  md_name :: "'e \<Rightarrow> string"
  md_named :: "string \<Rightarrow> 'e \<Rightarrow> 'e"
  md_pod :: "'e \<Rightarrow> pod_id option"

record 'e registry_read =
  rr_version :: int
  rr_hosts :: "(string \<times> 'e) list"
  rr_unreadable :: bool
  rr_skipped :: "(string \<times> json) list"

datatype registry_error = ValidationError | LocalStateUnreadable | BodyRaised string

definition nothing_read :: "bool \<Rightarrow> 'e registry_read" where
  "nothing_read bad = \<lparr>rr_version = SCHEMA_VERSION, rr_hosts = [], rr_unreadable = bad, rr_skipped = []\<rparr>"

section \<open>Reading\<close>

definition entry_of :: "'e models \<Rightarrow> string \<Rightarrow> json \<Rightarrow> 'e option" where
  "entry_of md n raw = map_option (\<lambda>e. if md_name md e = [] then md_named md n e else e) (md_entry md raw)"

definition read_entries :: "'e models \<Rightarrow> (string \<times> json) list \<Rightarrow> (string \<times> 'e) list" where
  "read_entries md kvs = List.map_filter (\<lambda>(n, raw). map_option (\<lambda>e. (n, e)) (entry_of md n raw)) kvs"

definition skipped_entries :: "'e models \<Rightarrow> (string \<times> json) list \<Rightarrow> (string \<times> json) list" where
  "skipped_entries md kvs = filter (\<lambda>(n, raw). md_entry md raw = None) kvs"

definition registry_in :: "'e models \<Rightarrow> hosts_json \<Rightarrow> registry_error + 'e registry_read" where
  "registry_in md f =
     (case f of
        NoFile \<Rightarrow> Inr (nothing_read False)
      | Unparsable why \<Rightarrow> Inr (nothing_read True)
      | Holds (JDict document) \<Rightarrow>
          (case map_of document ''hosts'' of
             Some (JDict hosts) \<Rightarrow>
               (case md_version md (JDict document) of
                  None \<Rightarrow> Inl ValidationError
                | Some v \<Rightarrow>
                    let kvs = sort_key fst hosts
                    in Inr \<lparr>rr_version = v, rr_hosts = read_entries md kvs, rr_unreadable = False,
                            rr_skipped = skipped_entries md kvs\<rparr>)
           | _ \<Rightarrow> Inr (nothing_read True))
      | Holds _ \<Rightarrow> Inr (nothing_read True))"

text \<open>\<open>read_registry\<close>: a file that cannot be read is copied aside.\<close>

definition read_registry :: "'e models \<Rightarrow> registry_files \<Rightarrow> (registry_error + 'e registry_read) \<times> registry_files" where
  "read_registry md fs =
     (case registry_in md (rf_hosts fs) of
        Inl e \<Rightarrow> (Inl e, fs)
      | Inr r \<Rightarrow> (Inr r, if rr_unreadable r then fs\<lparr>rf_backup := Some (rf_hosts fs)\<rparr> else fs))"

section \<open>Writing\<close>

definition put_back :: "(string \<times> json) list \<Rightarrow> (string \<times> json) list \<Rightarrow> (string \<times> json) list" where
  "put_back keep hosts = foldl (\<lambda>d (n, raw). setdefault n raw d) hosts keep"

definition registry_document :: "'e models \<Rightarrow> int \<Rightarrow> (string \<times> 'e) list \<Rightarrow> (string \<times> json) list \<Rightarrow> json" where
  "registry_document md v hosts keep =
     JDict [(''schema_version'', JInt v), (''hosts'', JDict (put_back keep (map (\<lambda>(n, e). (n, md_dump md e)) hosts)))]"

definition save_registry :: "'e models \<Rightarrow> int \<Rightarrow> (string \<times> 'e) list \<Rightarrow> (string \<times> json) list \<Rightarrow> registry_files \<Rightarrow> registry_files" where
  "save_registry md v hosts keep fs = fs\<lparr>rf_hosts := Holds (registry_document md v hosts keep)\<rparr>"

text \<open>\<open>registry_transaction\<close> around a body that changes the hosts, or raises.\<close>

definition registry_transaction ::
  "'e models \<Rightarrow> ((string \<times> 'e) list \<Rightarrow> string + (string \<times> 'e) list) \<Rightarrow> registry_files \<Rightarrow>
   (registry_error + (string \<times> 'e) list) \<times> registry_files" where
  "registry_transaction md body fs =
     (case read_registry md fs of
        (Inl e, fs1) \<Rightarrow> (Inl e, fs1)
      | (Inr r, fs1) \<Rightarrow>
          if rr_unreadable r then (Inl LocalStateUnreadable, fs1)
          else (case body (rr_hosts r) of
              Inl why \<Rightarrow> (Inl (BodyRaised why), fs1)
            | Inr hosts \<Rightarrow> (Inr hosts, save_registry md (rr_version r) hosts (rr_skipped r) fs1)))"

definition put_entry :: "'e models \<Rightarrow> 'e \<Rightarrow> (string \<times> 'e) list \<Rightarrow> (string \<times> 'e) list" where
  "put_entry md e hosts = AList.update (md_name md e) e hosts"

text \<open>\<open>update_cache\<close>: \<open>learn\<close> is what the host just said, taken over into the entry as it now is.\<close>

definition update_cache ::
  "'e models \<Rightarrow> string \<Rightarrow> ('e \<Rightarrow> 'e) \<Rightarrow> registry_files \<Rightarrow> (registry_error + (string \<times> 'e) list) \<times> registry_files" where
  "update_cache md n learn fs =
     registry_transaction md (\<lambda>hosts. Inr (case map_of hosts n of None \<Rightarrow> hosts | Some e \<Rightarrow> put_entry md (learn e) hosts)) fs"

definition forget_in_file ::
  "'e models \<Rightarrow> string \<Rightarrow> pod_id option \<Rightarrow> registry_files \<Rightarrow> (registry_error + bool) \<times> registry_files" where
  "forget_in_file md n i fs =
     (case read_registry md fs of
        (Inl e, fs1) \<Rightarrow> (Inl e, fs1)
      | (Inr r, fs1) \<Rightarrow>
          if rr_unreadable r then (Inr False, fs1)
          else (case map_of (rr_hosts r) n of
              None \<Rightarrow> (Inr False, fs1)
            | Some e \<Rightarrow>
                if i \<noteq> None \<and> md_pod md e \<noteq> i then (Inr False, fs1)
                else (Inr True, save_registry md (rr_version r) (AList.delete n (rr_hosts r)) (rr_skipped r) fs1)))"

section \<open>What is written is read back\<close>

text \<open>
  What is relied on of the models: an entry that is dumped validates to itself, the version is read from the
  key it is written to, and naming an entry gives it that name and changes nothing in one that has it.
\<close>

definition dumps_back :: "'e models \<Rightarrow> bool" where
  "dumps_back md \<longleftrightarrow>
     (\<forall>e. md_entry md (md_dump md e) = Some e) \<and>
     (\<forall>v kvs. map_of kvs ''schema_version'' = Some (JInt v) \<longrightarrow> md_version md (JDict kvs) = Some v) \<and>
     (\<forall>n e. md_name md (md_named md n e) = n) \<and> (\<forall>e. md_named md (md_name md e) e = e)"

definition well_named :: "'e models \<Rightarrow> (string \<times> 'e) list \<Rightarrow> bool" where
  "well_named md hosts \<longleftrightarrow> distinct (map fst hosts) \<and> (\<forall>(n, e) \<in> set hosts. md_name md e = [] \<longrightarrow> n = [])"

lemma entry_of_dump: "dumps_back md \<Longrightarrow> (md_name md e = [] \<Longrightarrow> n = []) \<Longrightarrow> entry_of md n (md_dump md e) = Some e"
  by (auto simp: dumps_back_def entry_of_def dest: spec [where x = e])

lemma map_of_put_back: "map_of (put_back keep hosts) = map_of keep ++ map_of hosts"
proof (induction keep arbitrary: hosts)
  case Nil
  then show ?case by (simp add: put_back_def)
next
  case (Cons p keep)
  have "map_of (put_back (p # keep) hosts) = map_of keep ++ map_of (setdefault (fst p) (snd p) hosts)"
    using Cons.IH [of "setdefault (fst p) (snd p) hosts"] by (simp add: put_back_def case_prod_unfold)
  also have "\<dots> = map_of (p # keep) ++ map_of hosts"
    by (rule ext) (auto simp: map_of_setdefault map_add_def split: option.splits)
  finally show ?case .
qed

lemma distinct_setdefault: "distinct (map fst d) \<Longrightarrow> distinct (map fst (setdefault n v d))"
  by (auto simp: setdefault_def map_of_eq_None_iff split: option.splits)

lemma distinct_put_back: "distinct (map fst hosts) \<Longrightarrow> distinct (map fst (put_back keep hosts))"
  unfolding put_back_def by (induction keep arbitrary: hosts) (auto simp: distinct_setdefault)

lemma read_entries_Cons:
  "read_entries md ((n, raw) # kvs) = (case entry_of md n raw of Some e \<Rightarrow> (n, e) # read_entries md kvs | None \<Rightarrow> read_entries md kvs)"
  by (simp add: read_entries_def List.map_filter_simps split: option.splits)

lemma read_entries_keys: "fst ` set (read_entries md kvs) \<subseteq> fst ` set kvs"
proof (induction kvs)
  case (Cons p kvs)
  then show ?case by (cases p) (auto simp: read_entries_Cons split: option.splits)
qed (simp add: read_entries_def List.map_filter_simps)

lemma map_of_read_entries:
  "distinct (map fst kvs) \<Longrightarrow> map_of (read_entries md kvs) n = Option.bind (map_of kvs n) (entry_of md n)"
proof (induction kvs)
  case (Cons p kvs)
  obtain m raw where p: "p = (m, raw)" by fastforce
  have "map_of (read_entries md kvs) m = None"
    using Cons.prems read_entries_keys [of md kvs] by (auto simp: p map_of_eq_None_iff)
  then show ?case using Cons by (auto simp: p read_entries_Cons split: option.splits)
qed (simp add: read_entries_def List.map_filter_simps)

lemma distinct_read_entries: "distinct (map fst kvs) \<Longrightarrow> distinct (map fst (read_entries md kvs))"
proof (induction kvs)
  case (Cons p kvs)
  then show ?case using read_entries_keys [of md kvs] by (cases p) (auto simp: read_entries_Cons split: option.splits)
qed (simp add: read_entries_def List.map_filter_simps)

lemma map_of_skipped_entries:
  "distinct (map fst kvs) \<Longrightarrow> map_of (skipped_entries md kvs) n =
     (case map_of kvs n of Some raw \<Rightarrow> if md_entry md raw = None then Some raw else None | None \<Rightarrow> None)"
proof (induction kvs)
  case (Cons p kvs)
  have "map_of (skipped_entries md kvs) (fst p) = None"
    using Cons.prems by (auto simp: skipped_entries_def map_of_eq_None_iff)
  then show ?case using Cons by (cases p) (auto simp: skipped_entries_def split: option.splits)
qed (simp add: skipped_entries_def)

lemma map_of_sort_fst: "distinct (map fst kvs) \<Longrightarrow> map_of (sort_key fst kvs) = map_of kvs"
  by (rule map_of_inject_set [THEN iffD2]) (simp_all add: distinct_map)

text \<open>What \<open>json.loads\<close> gives: no key twice. Then what is read has names and no value in two places.\<close>

definition parsed :: "hosts_json \<Rightarrow> bool" where
  "parsed f \<longleftrightarrow> (\<forall>d hs. f = Holds (JDict d) \<longrightarrow> map_of d ''hosts'' = Some (JDict hs) \<longrightarrow> distinct (map fst hs))"

lemma registry_in_cases:
  assumes "registry_in md f = Inr r"
  obtains (nothing) "r = nothing_read (rr_unreadable r)" "rr_hosts r = []" "rr_skipped r = []"
  | (hosts) d hs where "f = Holds (JDict d)" "map_of d ''hosts'' = Some (JDict hs)" "\<not> rr_unreadable r"
      "rr_hosts r = read_entries md (sort_key fst hs)" "rr_skipped r = skipped_entries md (sort_key fst hs)"
  using assms by (auto simp: registry_in_def nothing_read_def Let_def split: hosts_json.splits json.splits option.splits)

lemma distinct_sort_fst: "distinct (map fst hs) \<Longrightarrow> distinct (map fst (sort_key fst hs))"
  by (simp add: distinct_map)

lemma read_entries_named:
  assumes "dumps_back md" "(n, e) \<in> set (read_entries md kvs)" "md_name md e = []"
  shows "n = []"
proof -
  from assms(2) obtain raw where "entry_of md n raw = Some e"
    by (auto simp: read_entries_def map_filter_def)
  then obtain e' where e: "e = (if md_name md e' = [] then md_named md n e' else e')" by (auto simp: entry_of_def)
  moreover have "md_name md (md_named md n e') = n" using assms(1) by (simp add: dumps_back_def)
  ultimately show ?thesis using assms(3) by (simp split: if_splits)
qed

lemma registry_in_read:
  assumes "dumps_back md" "parsed f" "registry_in md f = Inr r"
  shows "well_named md (rr_hosts r)" "\<forall>(n, raw) \<in> set (rr_skipped r). md_entry md raw = None"
    "map_of (rr_hosts r) n = Some e \<Longrightarrow> map_of (rr_skipped r) n = None"
proof -
  show "well_named md (rr_hosts r)"
    using assms(3)
  proof (cases rule: registry_in_cases)
    case (hosts d hs)
    then have "distinct (map fst (sort_key fst hs))" using assms(2) distinct_sort_fst by (simp add: parsed_def)
    then show ?thesis
      using hosts read_entries_named [OF assms(1)] by (auto simp: well_named_def distinct_read_entries)
  qed (simp add: well_named_def)
  show "\<forall>(n, raw) \<in> set (rr_skipped r). md_entry md raw = None"
    using assms(3) by (cases rule: registry_in_cases) (auto simp: skipped_entries_def)
  show "map_of (rr_hosts r) n = Some e \<Longrightarrow> map_of (rr_skipped r) n = None"
    using assms(3)
  proof (cases rule: registry_in_cases)
    case (hosts d hs)
    then have "distinct (map fst (sort_key fst hs))" using assms(2) distinct_sort_fst by (simp add: parsed_def)
    then show "map_of (rr_hosts r) n = Some e \<Longrightarrow> map_of (rr_skipped r) n = None"
      using hosts by (auto simp: map_of_read_entries map_of_skipped_entries entry_of_def split: option.splits)
  qed simp
qed

lemma registry_in_saved:
  fixes v :: int
  assumes "dumps_back md" "well_named md hosts" "\<forall>(n, raw) \<in> set keep. md_entry md raw = None"
  defines "f \<equiv> Holds (registry_document md v hosts keep)"
  shows "parsed f" "\<exists>r. registry_in md f = Inr r \<and> rr_version r = v \<and> \<not> rr_unreadable r \<and>
    map_of (rr_hosts r) = map_of hosts \<and> map_of (rr_skipped r) = map_of keep |` (- (fst ` set hosts))"
proof -
  let ?dumped = "map (\<lambda>(n, e). (n, md_dump md e)) hosts" and ?hs = "put_back keep (map (\<lambda>(n, e). (n, md_dump md e)) hosts)"
  have keys: "map fst ?dumped = map fst hosts" by (simp add: case_prod_unfold comp_def)
  have "distinct (map fst ?dumped)" unfolding keys using assms(2) by (simp add: well_named_def)
  then have hs: "distinct (map fst ?hs)" by (rule distinct_put_back)
  then show "parsed f" by (auto simp: f_def registry_document_def parsed_def)
  have "md_version md (registry_document md v hosts keep) = Some v"
    using assms(1) by (simp add: dumps_back_def registry_document_def)
  then have read: "registry_in md f = Inr \<lparr>rr_version = v, rr_hosts = read_entries md (sort_key fst ?hs), rr_unreadable = False,
      rr_skipped = skipped_entries md (sort_key fst ?hs)\<rparr>"
    by (simp add: f_def registry_in_def registry_document_def Let_def)
  have at: "map_of ?hs n = (case map_of hosts n of Some e \<Rightarrow> Some (md_dump md e) | None \<Rightarrow> map_of keep n)" for n
    by (simp add: map_of_put_back map_add_def map_of_map split: option.splits)
  have unread: "md_entry md raw = None" if "map_of keep n = Some raw" for n raw
    using assms(3) map_of_SomeD [OF that] by blast
  have entries: "Option.bind (map_of ?hs n) (entry_of md n) = map_of hosts n" for n
  proof (cases "map_of hosts n")
    case None
    then show ?thesis using unread [of n] at [of n] by (cases "map_of keep n") (auto simp: entry_of_def)
  next
    case (Some e)
    then have "md_name md e = [] \<Longrightarrow> n = []" using assms(2) by (auto simp: well_named_def dest!: map_of_SomeD)
    then show ?thesis using Some at [of n] entry_of_dump [OF assms(1)] by simp
  qed
  have rest: "(case map_of ?hs n of Some raw \<Rightarrow> if md_entry md raw = None then Some raw else None | None \<Rightarrow> None)
      = (map_of keep |` (- (fst ` set hosts))) n" for n
  proof (cases "map_of hosts n")
    case None
    then have "n \<notin> fst ` set hosts" by (simp add: map_of_eq_None_iff)
    then show ?thesis using None unread [of n] at [of n] by (cases "map_of keep n") (auto simp: restrict_map_def)
  next
    case (Some e)
    then have "n \<in> fst ` set hosts" by (metis map_of_eq_None_iff option.distinct(1))
    moreover have "md_entry md (md_dump md e) = Some e" using assms(1) by (simp add: dumps_back_def)
    ultimately show ?thesis using Some at [of n] by (simp add: restrict_map_def)
  qed
  have sorted: "distinct (map fst (sort_key fst ?hs))" "map_of (sort_key fst ?hs) = map_of ?hs"
    using hs distinct_sort_fst map_of_sort_fst by blast+
  show "\<exists>r. registry_in md f = Inr r \<and> rr_version r = v \<and> \<not> rr_unreadable r \<and>
    map_of (rr_hosts r) = map_of hosts \<and> map_of (rr_skipped r) = map_of keep |` (- (fst ` set hosts))"
    using read entries rest
    by (simp add: fun_eq_iff map_of_read_entries [OF sorted(1)] map_of_skipped_entries [OF sorted(1)] sorted(2))
qed

section \<open>The writers\<close>

lemma in_delete: "p \<in> set (AList.delete n xs) \<longleftrightarrow> p \<in> set xs \<and> fst p \<noteq> n"
  by (auto simp: AList.delete_eq)

lemma read_registry_Inr:
  "read_registry md fs = (Inr r, fs') \<Longrightarrow> registry_in md (rf_hosts fs) = Inr r \<and> rf_hosts fs' = rf_hosts fs \<and>
     (fs' = (if rr_unreadable r then fs\<lparr>rf_backup := Some (rf_hosts fs)\<rparr> else fs))"
  by (auto simp: read_registry_def split: sum.splits)

lemma transaction_Inr:
  assumes "registry_transaction md body fs = (Inr hosts, fs')"
  obtains r where "registry_in md (rf_hosts fs) = Inr r" "\<not> rr_unreadable r" "body (rr_hosts r) = Inr hosts"
    "fs' = save_registry md (rr_version r) hosts (rr_skipped r) fs"
  using assms by (auto simp: registry_transaction_def dest!: read_registry_Inr split: prod.splits sum.splits if_splits)

lemma restrict_all: "(\<And>k. k \<in> dom m \<Longrightarrow> k \<in> A) \<Longrightarrow> m |` A = m"
  by (auto simp: restrict_map_def fun_eq_iff domIff) force

text \<open>
  A transaction on the registry is read back as it was meant. When the body of one leaves the hosts \<open>hosts\<close>,
  the next reader finds exactly those, the version as it was, and every entry that this build could not
  read where it was, unless the body put a host of the same name.
\<close>

theorem transaction_reads_back:
  assumes "dumps_back md" "parsed (rf_hosts fs)" "registry_transaction md body fs = (Inr hosts, fs')" "well_named md hosts"
  shows "\<exists>r r'. registry_in md (rf_hosts fs) = Inr r \<and> registry_in md (rf_hosts fs') = Inr r' \<and>
    \<not> rr_unreadable r' \<and> rr_version r' = rr_version r \<and> map_of (rr_hosts r') = map_of hosts \<and>
    map_of (rr_skipped r') = map_of (rr_skipped r) |` (- (fst ` set hosts))"
proof -
  from assms(3) obtain r where r: "registry_in md (rf_hosts fs) = Inr r"
    and fs': "fs' = save_registry md (rr_version r) hosts (rr_skipped r) fs" by (rule transaction_Inr)
  show ?thesis
    using registry_in_saved(2) [where keep = "rr_skipped r" and v = "rr_version r", OF assms(1,4) registry_in_read(2) [OF assms(1,2) r]] r
    by (auto simp: fs' save_registry_def)
qed


text \<open>Any writer, and any number of them one after another; each holds the lock while it reads and writes.\<close>

datatype 'e registry_write =
    Change "(string \<times> 'e) list \<Rightarrow> string + (string \<times> 'e) list"
  | Learn string "'e \<Rightarrow> 'e"
  | Forget string "pod_id option"

fun run_write :: "'e models \<Rightarrow> 'e registry_write \<Rightarrow> registry_files \<Rightarrow> registry_files" where
  "run_write md (Change body) fs = snd (registry_transaction md body fs)"
| "run_write md (Learn n learn) fs = snd (update_cache md n learn fs)"
| "run_write md (Forget n i) fs = snd (forget_in_file md n i fs)"

definition puts_elsewhere :: "'e models \<Rightarrow> string \<Rightarrow> 'e registry_write \<Rightarrow> bool" where
  "puts_elsewhere md n w \<longleftrightarrow>
     (case w of
        Change body \<Rightarrow> (\<forall>hosts hosts'. distinct (map fst hosts) \<and> n \<notin> fst ` set hosts \<and> body hosts = Inr hosts' \<longrightarrow>
          distinct (map fst hosts') \<and> n \<notin> fst ` set hosts')
      | Learn m learn \<Rightarrow> (\<forall>e. md_name md (learn e) \<noteq> n)
      | Forget m i \<Rightarrow> True)"

definition holds_entry :: "registry_files \<Rightarrow> string \<Rightarrow> json \<Rightarrow> bool" where
  "holds_entry fs n raw \<longleftrightarrow> (\<exists>d hs. rf_hosts fs = Holds (JDict d) \<and> map_of d ''hosts'' = Some (JDict hs) \<and>
     distinct (map fst hs) \<and> map_of hs n = Some raw)"

lemma saved_holds_entry:
  assumes "distinct (map fst hosts)" "n \<notin> fst ` set hosts" "map_of keep n = Some raw"
  shows "holds_entry (save_registry md v hosts keep fs) n raw"
proof -
  let ?dumped = "map (\<lambda>(n, e). (n, md_dump md e)) hosts"
  have keys: "map fst ?dumped = map fst hosts" by (simp add: case_prod_unfold comp_def)
  then have "distinct (map fst (put_back keep ?dumped))" using assms(1) distinct_put_back by metis
  moreover have "map_of ?dumped n = None" using assms(2) by (metis keys map_of_eq_None_iff list.set_map)
  then have "map_of (put_back keep ?dumped) n = Some raw" using assms(3) by (simp add: map_of_put_back map_add_def)
  ultimately show ?thesis by (auto simp: holds_entry_def save_registry_def registry_document_def)
qed

lemma held_entry_read:
  assumes "holds_entry fs n raw" "md_entry md raw = None" "registry_in md (rf_hosts fs) = Inr r"
  shows "\<not> rr_unreadable r" "distinct (map fst (rr_hosts r))" "n \<notin> fst ` set (rr_hosts r)" "map_of (rr_skipped r) n = Some raw"
proof -
  from assms(1) obtain d hs where f: "rf_hosts fs = Holds (JDict d)" "map_of d ''hosts'' = Some (JDict hs)"
    and hs: "distinct (map fst hs)" "map_of hs n = Some raw" by (auto simp: holds_entry_def)
  have sorted: "distinct (map fst (sort_key fst hs))" "map_of (sort_key fst hs) = map_of hs"
    using hs(1) distinct_sort_fst map_of_sort_fst by blast+
  have r: "\<not> rr_unreadable r" "rr_hosts r = read_entries md (sort_key fst hs)" "rr_skipped r = skipped_entries md (sort_key fst hs)"
    using assms(3) f by (auto simp: registry_in_def Let_def split: option.splits)
  show "\<not> rr_unreadable r" by (rule r(1))
  show "distinct (map fst (rr_hosts r))" by (simp add: r(2) distinct_read_entries sorted(1))
  have "map_of (rr_hosts r) n = None"
    using hs(2) assms(2) by (simp add: r(2) map_of_read_entries [OF sorted(1)] sorted(2) entry_of_def)
  then show "n \<notin> fst ` set (rr_hosts r)" by (simp add: map_of_eq_None_iff)
  show "map_of (rr_skipped r) n = Some raw"
    using hs(2) assms(2) by (simp add: r(3) map_of_skipped_entries [OF sorted(1)] sorted(2))
qed

lemma transaction_keeps_entry:
  assumes "holds_entry fs n raw" "md_entry md raw = None" "puts_elsewhere md n (Change body)"
  shows "holds_entry (snd (registry_transaction md body fs)) n raw"
proof -
  obtain x fs' where x: "registry_transaction md body fs = (x, fs')" by fastforce
  show ?thesis
  proof (cases x)
    case (Inl e)
    then have "rf_hosts fs' = rf_hosts fs" using x
      by (auto simp: registry_transaction_def read_registry_def split: prod.splits sum.splits if_splits)
    then show ?thesis using assms(1) x by (simp add: holds_entry_def)
  next
    case (Inr hosts)
    from x [unfolded Inr] obtain r where r: "registry_in md (rf_hosts fs) = Inr r" "body (rr_hosts r) = Inr hosts"
      "fs' = save_registry md (rr_version r) hosts (rr_skipped r) fs" by (rule transaction_Inr)
    note held = held_entry_read [OF assms(1,2) r(1)]
    have "distinct (map fst hosts) \<and> n \<notin> fst ` set hosts"
      using assms(3) held(2,3) r(2) unfolding puts_elsewhere_def registry_write.case by blast
    then have "holds_entry (save_registry md (rr_version r) hosts (rr_skipped r) fs) n raw"
      using saved_holds_entry held(4) by metis
    then show ?thesis using x r(3) by simp
  qed
qed

lemma write_keeps_entry:
  assumes "holds_entry fs n raw" "md_entry md raw = None" "puts_elsewhere md n w"
  shows "holds_entry (run_write md w fs) n raw"
proof (cases w)
  case (Change body)
  then show ?thesis using transaction_keeps_entry assms by simp
next
  case (Learn m learn)
  let ?body = "\<lambda>hosts. Inr (case map_of hosts m of None \<Rightarrow> hosts | Some e \<Rightarrow> put_entry md (learn e) hosts)"
  have "puts_elsewhere md n (Change ?body)"
    using assms(3) Learn by (auto simp: puts_elsewhere_def put_entry_def distinct_update split: option.splits)
  then show ?thesis using transaction_keeps_entry [OF assms(1,2)] Learn by (simp add: update_cache_def)
next
  case (Forget m i)
  obtain x fs1 where x: "read_registry md fs = (x, fs1)" by fastforce
  show ?thesis
  proof (cases "rf_hosts (run_write md w fs) = rf_hosts fs")
    case True
    then show ?thesis using assms(1) by (simp add: holds_entry_def)
  next
    case False
    then obtain r where r: "registry_in md (rf_hosts fs) = Inr r"
      and saved: "run_write md w fs = save_registry md (rr_version r) (AList.delete m (rr_hosts r)) (rr_skipped r) fs1"
      using Forget x by (cases x) (auto simp: forget_in_file_def dest!: read_registry_Inr
          simp: read_registry_def split: if_splits option.splits sum.splits)
    note held = held_entry_read [OF assms(1,2) r]
    show ?thesis unfolding saved
      by (rule saved_holds_entry) (use held in \<open>auto simp: distinct_delete in_delete\<close>)
  qed
qed

text \<open>A file that cannot be read at all is never written, only copied aside.\<close>

lemma unreadable_is_never_written:
  assumes "registry_in md (rf_hosts fs) = Inr r" "rr_unreadable r"
  shows "rf_hosts (foldl (\<lambda>fs w. run_write md w fs) fs ws) = rf_hosts fs"
  using assms(1)
proof (induction ws arbitrary: fs)
  case (Cons w ws)
  have "rf_hosts (run_write md w fs) = rf_hosts fs"
    using Cons.prems assms(2)
    by (cases w) (simp_all add: registry_transaction_def update_cache_def forget_in_file_def read_registry_def)
  then show ?case using Cons by simp
qed simp

text \<open>
  C37. No writer loses a host it cannot read. Over any sequence of writes, changes, cache updates and
  removals, an entry that this build does not understand stays in the file as it was written, unless a
  write puts a host of that name.
\<close>

theorem writes_keep_what_they_cannot_read:
  assumes "holds_entry fs n raw" "md_entry md raw = None" "\<forall>w \<in> set ws. puts_elsewhere md n w"
  shows "holds_entry (foldl (\<lambda>fs w. run_write md w fs) fs ws) n raw"
  using assms(1,3) by (induction ws arbitrary: fs) (simp_all add: write_keeps_entry [OF _ assms(2)])

section \<open>A file with a host of another build\<close>

text \<open>Entries are a name and a pod; the entry of \<open>new\<close> has a pod that is not text and does not validate.\<close>

definition demo_models :: "(string \<times> pod_id option) models" where
  "demo_models =
     \<lparr>md_version = (\<lambda>d. case get d ''schema_version'' of JInt v \<Rightarrow> Some v | JNull \<Rightarrow> Some SCHEMA_VERSION | _ \<Rightarrow> None),
      md_entry = (\<lambda>raw. case (get raw ''name'', get raw ''pod'') of
         (JStr n, JStr i) \<Rightarrow> Some (n, Some i) | (JStr n, JNull) \<Rightarrow> Some (n, None) | _ \<Rightarrow> None),
      md_dump = (\<lambda>(n, i). JDict [(''name'', JStr n), (''pod'', opt_json JStr i)]),
      md_name = fst, md_named = (\<lambda>n e. (n, snd e)), md_pod = snd\<rparr>"

lemma demo_models_dump: "dumps_back demo_models"
proof -
  have "md_entry demo_models (md_dump demo_models e) = Some e" for e
    by (cases e; cases "snd e") (auto simp: demo_models_def get_def)
  then show ?thesis by (simp add: dumps_back_def) (simp add: demo_models_def get_def)
qed

definition demo_raw :: json where
  "demo_raw = JDict [(''name'', JStr ''new''), (''pod'', JInt 7)]"

definition demo_hosts :: registry_files where
  "demo_hosts = \<lparr>rf_hosts = Holds (JDict [(''schema_version'', JInt 3), (''hosts'', JDict
     [(''box'', JDict [(''name'', JStr ''box'')]), (''new'', demo_raw), (''pod'', JDict [(''name'', JStr []), (''pod'', JStr ''p1'')])])]),
     rf_backup = None\<rparr>"

lemma demo_hosts_parsed: "parsed (rf_hosts demo_hosts)"
  by (simp add: parsed_def demo_hosts_def)

definition demo_body :: "(string \<times> string \<times> pod_id option) list \<Rightarrow> string + (string \<times> string \<times> pod_id option) list" where
  "demo_body hosts = Inr [(''box'', (''box'', None))]"

theorem transaction_reads_back_witness:
  "\<exists>fs' r'. registry_transaction demo_models demo_body demo_hosts = (Inr [(''box'', (''box'', None))], fs') \<and>
     registry_in demo_models (rf_hosts fs') = Inr r' \<and> rr_version r' = 3 \<and>
     map_of (rr_hosts r') = [''box'' \<mapsto> (''box'', None)] \<and> map_of (rr_skipped r') ''new'' = Some demo_raw"
proof -
  obtain x fs' where run: "registry_transaction demo_models demo_body demo_hosts = (x, fs')" by fastforce
  have "fst (registry_transaction demo_models demo_body demo_hosts) = Inr [(''box'', (''box'', None))]" by code_simp
  then have x: "x = Inr [(''box'', (''box'', None))]" by (simp add: run)
  have named: "well_named demo_models [(''box'', (''box'', None))]" by (simp add: well_named_def demo_models_def)
  have "case registry_in demo_models (rf_hosts demo_hosts) of Inr r \<Rightarrow> rr_version r = 3 \<and> rr_skipped r = [(''new'', demo_raw)] | Inl e \<Rightarrow> False"
    by code_simp
  then show ?thesis
    using transaction_reads_back [OF demo_models_dump demo_hosts_parsed run [unfolded x] named] run x
    by (auto simp: restrict_map_def)
qed


definition demo_writes :: "(string \<times> pod_id option) registry_write list" where
  "demo_writes = [Forget ''pod'' (Some ''p1''), Learn ''box'' (\<lambda>e. (''box'', snd e)), Forget ''new'' None]"

theorem writes_keep_what_they_cannot_read_witness:
  "holds_entry (foldl (\<lambda>fs w. run_write demo_models w fs) demo_hosts demo_writes) ''new'' demo_raw"
proof (rule writes_keep_what_they_cannot_read)
  show "holds_entry demo_hosts ''new'' demo_raw" by (simp add: holds_entry_def demo_hosts_def)
  show "md_entry demo_models demo_raw = None" by (simp add: demo_models_def demo_raw_def get_def)
  show "\<forall>w \<in> set demo_writes. puts_elsewhere demo_models ''new'' w"
    by (simp add: demo_writes_def puts_elsewhere_def demo_models_def)
qed

end
