(* ===== verification/Spec2Isabelle.thy ===== *)
theory Spec2Isabelle
  imports Project JobsCodec System Progress Owner Submit Wait Rental Locate Teardown Registry
begin

text \<open>
  gpu-coordinator runs shell jobs on hosts with GPUs. A client (\<open>src/gpuc/control\<close>) puts a job into a
  host's queue over ssh; on the host (\<open>src/gpuc/host\<close>) a dispatcher decides which job gets which
  cards, spawns a runner for each, and tidies up after them. They share no memory: everything they
  know of each other is in the files of the host, one directory per job with its \<open>spec.json\<close> and
  \<open>state.json\<close>, changed under the job's lock. The development models the host side from the JSON it
  reads up to a dispatcher with its runners and the commands a client runs there, and of the client
  submit, wait, the job verbs and renting and ending a host.

  The values and records. \<open>PyValues\<close> has the JSON values and what Python makes of them; \<open>Jobs\<close> the
  records of \<open>jobs.py\<close> with their readers and writers; \<open>JobsCodec\<close> that a written state, spec or
  configuration reads back as it was (a locale \<open>codec\<close>, interpreted for each). \<open>Files\<close> is the tree a
  workdir holds (\<open>baseline.py\<close>, the sizes and removals of \<open>cleanup.py\<close>), and \<open>Host\<close> the tree under gpuc
  home: each operation on a job is one step, as it runs under the job's lock.

  The rule. \<open>Plan\<close> is \<open>plan.py\<close>'s dispatch rule: no card goes to two jobs, none is taken from a job
  ahead that holds it, a job fails just when it is too wide, and automatic preemption starts the job
  it is for. \<open>Project\<close> is the projection of start times by replay: it ends, it answers for every job,
  and its first turn is a dispatch pass. Its loop is a recursion on fuel; the theorem on termination
  gives the fuel that is enough, one turn for each job that may start or end.

  The life of a job. \<open>Queue\<close> (\<open>queue.py\<close>) has enqueue, claim, cancel, preempt and the endings as
  compare-and-set operations; \<open>Settable\<close> (\<open>settable.py\<close>) the settings changed later; \<open>Cleanup\<close>
  (\<open>cleanup.py\<close>) what may be deleted and on what evidence; \<open>Procs\<close> (\<open>procs.py\<close>) how a job's processes
  are recognised and stopped. \<open>Lifecycle\<close> states the life of a job as an abstract machine and shows that
  every operation moves every job by one step of it, for any interleaving: results are final, a cancel
  sticks, an attempt is claimed once.

  The dispatcher. \<open>Gpus\<close> (\<open>gpus.py\<close>) resolves configured cards against nvidia-smi and tells which shared
  cards nobody uses; \<open>Dispatcher\<close> is \<open>dispatcher.py\<close>, every step of \<open>run_once\<close> on its state and the host,
  in the state and exception monad of \<open>Effects\<close>; \<open>System\<close> puts a dispatcher, its runners and everybody
  else's commands together, in any order: no card is under two jobs. \<open>Owner\<close> (\<open>owner.py\<close>) is which of two
  machines with one file system serves a queue.

  The runner. \<open>Destinations\<close> (\<open>destinations.py\<close>, \<open>preflight.py\<close>), \<open>Sync\<close> (\<open>sync.py\<close>), \<open>Scope\<close>
  (\<open>scope.py\<close>) and \<open>Progress\<close> (\<open>progress.py\<close>) are what it uses; \<open>Runner\<close> is \<open>runner.py\<close>, every method of
  \<open>JobRunner\<close>; \<open>Attempt\<close> shows that a run that returns has ended its attempt, or given it back to the
  queue, in one write, and that a job recorded as succeeded exited 0 with its outputs uploaded.

  The commands. \<open>Commands\<close> (\<open>__main__.py\<close>): what a client asks a host over ssh, status, enqueue, cancel, preempt,
  set, clean and purge, each from its arguments to the JSON it prints. A locale states what the verbs share:
  one answer per job, and an answer with a status means the job's state is as the verb promises; it is
  interpreted for cancel, preempt and set.

  The client. \<open>Submit\<close> (\<open>control/submit.py\<close>): the checks, the judgement against the host and the order
  of the acts, which ends with the enqueue; below, that its judgement is the dispatcher's own. \<open>Wait\<close>
  (\<open>control/wait.py\<close>): the rounds of a wait; a round is first shown to treat each job by a function of
  that job and its host alone (\<open>poll_job\<close>), and what a wait promises follows from that. \<open>Rental\<close>
  (\<open>control/provision.py\<close>, \<open>control/providers/base.py\<close>): buying a pod, waiting for it and setting it up, or
  giving the money back; every pod that bills in the end is the host's or is reported. Its waits take fuel,
  and the fuel of the theorem is the number of turns that fit into the ceiling. \<open>Status\<close> (\<open>control/status.py\<close>,
  \<open>control/remote.py\<close>) is the three answers of asking a host, and its document read as untrusted; \<open>Locate\<close>
  (\<open>control/actions.py\<close>, \<open>control/s3index.py\<close>) finds the host of each job and carries a verb to it: every id is
  accounted for, no job is called unknown unless everybody was asked, and a cancel reported as done is in the
  job's state. \<open>Teardown\<close> (\<open>control/teardown.py\<close>) ends a rental: unforced, no readable job loses work, and
  the registry forgets a pod only once it has stopped billing. \<open>Registry\<close> (\<open>control/config.py\<close>) is the file
  of hosts and its writers: what one writes the next reads, and entries of another build stay.

  Conventions. An exception is a value (\<open>pyerr\<close>, or a datatype with one constructor per message). What a
  function is given from outside (clock, kernel, nvidia-smi, upload tools, the answers of a host) is an
  argument, and loops over such input recurse over a list of it, one element per turn, so no fuel is
  needed there. Floats are exact rationals with the infinities and NaN, rounded to doubles where a value
  is read from JSON; text is ASCII. A signal reaches the runner at the named points of its run, not
  between two instructions. Lines of a dispatcher's own log, amounts within log lines and the layout of
  what is printed are left out.

  Where the code does not do what it means to, the theorem says what it does: a card dropped from
  nvidia-smi stops the projection (\<open>Project\<close>), a late runner can share a card (\<open>System\<close>), a preflight whose
  tool hangs kills the runner (\<open>Attempt\<close>), a placeholder that submit accepts does so too and a quoted
  secret arrives without its quotes (\<open>Submit\<close>), a wait on a purged job never ends (\<open>Wait\<close>), a second
  pod is bought while the first, which could not be terminated, still bills (\<open>Rental\<close>), and a job is called
  unknown though a host whose registry entry cannot be read was not asked (\<open>Locate\<close>).

  Not modelled: locks, spawning and signal delivery as system calls (what they give is modelled); ssh, rsync,
  git, systemd, the S3 and Hub tools and the providers' APIs, which are not under src/ and are
  arguments; \<open>health.py\<close>, \<open>storage.py\<close>, \<open>terminate.py\<close> and \<open>fetch.py\<close> of the host, which read the kernel,
  systemd or a provider; of the client, parsing a command line and printing (\<open>cli.py\<close>, the rendering in
  \<open>status.py\<close>), the settings and cached configurations (\<open>config.py\<close>), bootstrap, the web page and the
  snakemake plugin, which are glue over the modelled operations or sequences of remote commands.
\<close>

section \<open>What a submit says and what a pass decides\<close>

lemma the_config_table:
  "fst (the_config (y\<lparr>sy_disp := (sy_disp y)\<lparr>dp_table_error := m\<rparr>\<rparr>)) = fst (the_config y)"
  by (auto simp: the_config_def split: option.splits sum.splits)

lemma pool_counts:
  assumes "pool_of w y = (Inr p, y')" "dp_cards (sy_disp y) = None" "list_gpus (wd_smi w) = Inr t" "fst (the_config y) = Inr c"
  defines "r \<equiv> Gpus.resolve (cf_gpus c) t (cf_shared_gpus c)"
  shows "owned_present p = length (rs_owned r)" "shared_visible p = length (rs_shared r)"
proof -
  obtain r' y1 where r': "resolution_of w y = (Inr r', y1)"
    and p: "owned_present p = length (rs_owned r')" "shared_visible p = length (rs_shared r')"
    using assms(1) by (auto simp: pool_of_def seq_Inr)
  have "r' = r"
    using r' assms(2,3,4) the_config_table [where y = y and m = None] unfolding r_def
    by (auto simp: resolution_of_def seq_Inr Let_def)
  then show "owned_present p = length (rs_owned r)" "shared_visible p = length (rs_shared r)" using p by simp_all
qed

text \<open>
  C27. Submit and the dispatcher agree on what fits. Given the same configuration and the same answer
  from nvidia-smi, \<open>wont_fit\<close> refuses a job at submit exactly when a dispatch pass that starts then
  would fail it: no job is turned away that would have been dispatched, and none is shipped only to be
  failed for want of cards.
\<close>

theorem submit_agrees_with_dispatch:
  assumes "caches y = (None, None, None)" "list_gpus (wd_smi w) = Inr t" "fst (the_config y) = Inr c"
    and "pool_of w y = (Inr p, y')" "i < length rs" "rs ! i = request_of c e spec"
  shows "wont_fit spec c (Some t) host \<noteq> None \<longleftrightarrow> (\<exists>why. plan rs p ! i = Fails (qe_job_id e) why)"
proof -
  let ?r = "Gpus.resolve (cf_gpus c) t (cf_shared_gpus c)" and ?n = "nat (sp_gpus spec)"
  have cards: "dp_cards (sy_disp y) = None" using assms(1) by (simp add: caches_def)
  note counts = pool_counts [OF assms(4) cards assms(2,3)]
  have rq: "rq_gpus (rs ! i) = ?n" "rq_borrows (rs ! i) = may_borrow c spec" "rq_job_id (rs ! i) = qe_job_id e"
    using assms(6) by (simp_all add: request_of_def)
  have "wont_fit spec c (Some t) host = None \<longleftrightarrow>
      ?n \<le> length (rs_owned ?r) + (if may_borrow c spec then length (rs_shared ?r) else 0)"
  proof -
    let ?f = "capacity_failure ?n (length (rs_owned ?r)) (length (rs_shared ?r)) (may_borrow c spec)
      (rs_missing ?r @ (if may_borrow c spec then rs_shared_missing ?r else []))"
    have "wont_fit spec c (Some t) host = None \<longleftrightarrow> ?f = None"
      unfolding wont_fit_def Let_def option.case prod.case by (cases ?f) (simp_all only: option.case option.simps simp_thms)
    then show ?thesis by (simp add: capacity_failure_iff)
  qed
  then show ?thesis
    using plan_fails_iff [OF _ assms(5), of p] pool_free [OF assms(4,1)] unfolding rq counts by auto
qed

text \<open>A host that owns one of its two cards: a job of one card fits, one of two does not.\<close>

definition demo_pass :: sys where
  "demo_pass = demo_start [''0'']"

definition demo_wide :: request where
  "demo_wide = request_of (blank_config\<lparr>cf_gpus := Some [''0'']\<rparr>) \<lparr>qe_priority = 50, qe_job_id = ''a'', qe_attempt = 1\<rparr> (plain_spec ''a'' 2)"

theorem submit_agrees_with_dispatch_witness:
  "\<exists>p t. fst (pool_of demo_world demo_pass) = Inr p \<and> list_gpus demo_smi = Inr t
    \<and> wont_fit (plain_spec ''a'' 2) (blank_config\<lparr>cf_gpus := Some [''0'']\<rparr>) (Some t) ''box'' \<noteq> None
    \<and> (\<exists>why. plan [demo_wide] p ! 0 = Fails ''a'' why)"
proof -
  let ?c = "blank_config\<lparr>cf_gpus := Some [''0'']\<rparr>" and ?e = "\<lparr>qe_priority = 50, qe_job_id = ''a'', qe_attempt = 1\<rparr> :: queue_entry"
  have start: "caches demo_pass = (None, None, None)" "fst (the_config demo_pass) = Inr ?c" "wd_smi demo_world = demo_smi"
    by (simp_all add: demo_pass_def demo_start_def idle_dispatcher_def caches_def the_config_def demo_world_def)
  have "isl (list_gpus demo_smi) = False" "isl (fst (pool_of demo_world demo_pass)) = False" by code_simp+
  then obtain t p where t: "list_gpus demo_smi = Inr t" and p: "fst (pool_of demo_world demo_pass) = Inr p"
    by (metis isl_def sum.exhaust_sel)
  have no: "wont_fit (plain_spec ''a'' 2) ?c (case list_gpus demo_smi of Inr t \<Rightarrow> Some t | _ \<Rightarrow> None) ''box'' \<noteq> None" by code_simp
  have p': "pool_of demo_world demo_pass = (Inr p, snd (pool_of demo_world demo_pass))" using p by (metis prod.collapse)
  have "\<exists>why. plan [demo_wide] p ! 0 = Fails (qe_job_id ?e) why"
    using submit_agrees_with_dispatch [OF start(1) _ start(2) p', of t 0 "[demo_wide]" ?e "plain_spec ''a'' 2" "''box''"] t no start(3)
    by (simp add: demo_wide_def)
  then show ?thesis using t p no by auto
qed

end
